(* ===== verification/Kernel_Prelude.thy ===== *)
theory Kernel_Prelude
  imports Main "HOL-Library.Word" "HOL-Library.Monad_Syntax"
begin

text \<open>
  Shared vocabulary of the development: the integer types that
  \<^verbatim>\<open>kernel/include/types.h\<close> declares, the collections of facts the component
  theories feed, and generic lemmas on lists, partial maps, the option monad and machine
  words.

  Two of the typedefs are narrower than their names say: \<^verbatim>\<open>typedef unsigned ulong\<close>
  is a 32-bit type and \<^verbatim>\<open>typedef signed s64\<close> a 32-bit signed one.  The model keeps
  them as they are written; where a result depends on the width of \<^verbatim>\<open>ulong\<close> the
  definitions take the width as a type parameter, so that both the written and the
  intended width can be stated.
\<close>

unbundle bit_operations_syntax

section \<open>Integer types of types.h\<close>

type_synonym u8 = "8 word"
type_synonym u16 = "16 word"
type_synonym u32 = "32 word"
type_synonym u64 = "64 word"
type_synonym s32 = "32 word"
type_synonym s64 = "32 word"
type_synonym ulong = "32 word"
type_synonym pid_t = s32
type_synonym size_t = u64

section \<open>Collections of facts\<close>

named_theorems heap_simps
  \<open>reading and writing the fields of list nodes\<close>

named_theorems lock_defs
  \<open>definitions unfolded in the proofs on lock operations\<close>

named_theorems page_simps
  \<open>observations of a page after one of its setters\<close>

section \<open>Lists\<close>

lemma in_set_tl: "x \<in> set (tl xs) \<Longrightarrow> x \<in> set xs"
  by (cases xs) auto

lemma remove1_split: "a \<notin> set xs \<Longrightarrow> remove1 a (xs @ a # ys) = xs @ ys"
  by (induction xs) auto

section \<open>Words\<close>

lemma take_bit_small: "unat w < 2 ^ n \<Longrightarrow> take_bit n w = w" for w :: "'a::len word"
  by (simp add: word_unat_eq_iff unsigned_take_bit_eq take_bit_nat_eq_self)

lemma unat_exp: "k < LENGTH('w) \<Longrightarrow> unat (2 ^ k :: 'w::len word) = 2 ^ k"
  using unat_of_nat [of "2 ^ k", where ?'a = 'w] by simp

lemma unat_xor: "unat (v XOR w) = unat v XOR unat w" for v w :: "'w::len word"
  by (simp add: unsigned_xor_eq)

lemma unat_and: "unat (v AND w) = unat v AND unat w" for v w :: "'w::len word"
  by (simp add: unsigned_and_eq)

lemma unat_plus_eq: "unat v + unat w < 2 ^ LENGTH('w) \<Longrightarrow> unat (v + w) = unat v + unat w"
  for v w :: "'w::len word"
  using unat_add_lem by blast

lemma sint_eq_iff: "sint v = sint w \<longleftrightarrow> v = w" for v w :: "'w::len word"
  by (metis signed_word_eqI)

section \<open>The option monad\<close>

lemma bind_SomeE:
  assumes "Option.bind m f = Some y"
  obtains x where "m = Some x" "f x = Some y"
  using assms by (cases m) auto

text \<open>A loop over a list of indices.\<close>

fun for_each :: "('i \<Rightarrow> 's \<Rightarrow> 's option) \<Rightarrow> 'i list \<Rightarrow> 's \<Rightarrow> 's option" where
  "for_each f [] s = Some s"
| "for_each f (i # is) s = do { s \<leftarrow> f i s; for_each f is s }"

end
