(* ===== verification/Types_H.thy ===== *)
theory Types_H
  imports Kernel_Prelude
begin

text \<open>
  The error codes and the arithmetic macros of \<^verbatim>\<open>kernel/include/types.h\<close>.

  The macros are untyped text; here they are functions on words of any width, which is what
  they are at each of their uses on unsigned operands.
\<close>

section \<open>Error codes\<close>

datatype error_t =
    OK | ERROR | EOMEM | EINVAL | ENOENT | EACCES | EEXIST | EBUSY | EAGAIN | EINTER | EIO
  | EFAULT | EPERM | ESRCH | ECHILD | EDEADLK | ENOMSG | EDIRM | ENOSPC | ENODEV | ENOTDIR
  | EISDIR | EMFILE | ENFILE | ENOTTY | ETXTBSY | EFBIG | ENOSYS | ENOTEMPTY | ENAMETOOLONG
  | ELOOP | ENOTSOCK | EADDRINUSE | ECONNREFUSED | ENETUNREACH | ETIMEDOUT

fun error_code :: "error_t \<Rightarrow> int" where
  "error_code OK = 0" | "error_code ERROR = -1" | "error_code EOMEM = -2"
| "error_code EINVAL = -3" | "error_code ENOENT = -4" | "error_code EACCES = -5"
| "error_code EEXIST = -6" | "error_code EBUSY = -7" | "error_code EAGAIN = -8"
| "error_code EINTER = -9" | "error_code EIO = -10" | "error_code EFAULT = -11"
| "error_code EPERM = -12" | "error_code ESRCH = -13" | "error_code ECHILD = -14"
| "error_code EDEADLK = -15" | "error_code ENOMSG = -16" | "error_code EDIRM = -17"
| "error_code ENOSPC = -18" | "error_code ENODEV = -19" | "error_code ENOTDIR = -20"
| "error_code EISDIR = -21" | "error_code EMFILE = -22" | "error_code ENFILE = -23"
| "error_code ENOTTY = -24" | "error_code ETXTBSY = -25" | "error_code EFBIG = -26"
| "error_code ENOSYS = -27" | "error_code ENOTEMPTY = -28" | "error_code ENAMETOOLONG = -29"
| "error_code ELOOP = -30" | "error_code ENOTSOCK = -31" | "error_code EADDRINUSE = -32"
| "error_code ECONNREFUSED = -33" | "error_code ENETUNREACH = -34" | "error_code ETIMEDOUT = -35"

section \<open>Alignment, selection and bit macros\<close>

definition PAGE_SHIFT :: nat where "PAGE_SHIFT = 12"

definition PAGE_SIZE :: "'w::len word" where "PAGE_SIZE = 4096"

definition PAGE_MASK :: "'w::len word" where "PAGE_MASK = NOT (PAGE_SIZE - 1)"

definition ALIGN_UP :: "'w::len word \<Rightarrow> 'w word \<Rightarrow> 'w word" where
  "ALIGN_UP x align = (x + align - 1) AND NOT (align - 1)"

definition ALIDN_DOWN :: "'w::len word \<Rightarrow> 'w word \<Rightarrow> 'w word" where
  "ALIDN_DOWN x align = x AND NOT (align - 1)"

definition IS_ALIGNED :: "'w::len word \<Rightarrow> 'w word \<Rightarrow> bool" where
  "IS_ALIGNED x align \<longleftrightarrow> x AND (align - 1) = 0"

definition MIN_of :: "'a::ord \<Rightarrow> 'a \<Rightarrow> 'a" where "MIN_of a b = (if a < b then a else b)"

definition MAX_of :: "'a::ord \<Rightarrow> 'a \<Rightarrow> 'a" where "MAX_of a b = (if a < b then b else a)"

definition CLAMP :: "'a::ord \<Rightarrow> 'a \<Rightarrow> 'a \<Rightarrow> 'a" where
  "CLAMP x lo hi = MIN_of hi (MAX_of lo x)"

definition BIT :: "nat \<Rightarrow> u64" where "BIT n = push_bit n 1"

definition SET_BIT :: "u64 \<Rightarrow> nat \<Rightarrow> u64" where "SET_BIT x n = x OR BIT n"

definition CLEAR_BIT :: "u64 \<Rightarrow> nat \<Rightarrow> u64" where "CLEAR_BIT x n = x AND NOT (BIT n)"

definition TEST_BIT :: "u64 \<Rightarrow> nat \<Rightarrow> bool" where "TEST_BIT x n \<longleftrightarrow> x AND BIT n \<noteq> 0"

definition KERNEL_VIRTUAL_BASE :: u64 where "KERNEL_VIRTUAL_BASE = 0xFFFF800000000000"

definition USER_VIRTUAL_END :: u64 where "USER_VIRTUAL_END = 0x0000800000000000"

definition raw_pa :: "u64 \<Rightarrow> u64" where "raw_pa x = x - KERNEL_VIRTUAL_BASE"

section \<open>The macros on powers of two\<close>

lemma low_mask: "2 ^ k - 1 = (mask k :: 'w::len word)"
  by (simp add: mask_eq_exp_minus_1)

lemma ALIDN_DOWN_unat: "unat (ALIDN_DOWN x (2 ^ k)) = unat x - unat x mod 2 ^ k"
proof -
  have "x AND NOT (mask k) = x - take_bit k x"
    using disjunctive_add [of "x AND NOT (mask k)" "take_bit k x"]
    by (simp add: eq_diff_eq) (simp add: bit_eq_iff bit_simps; blast)
  then have "ALIDN_DOWN x (2 ^ k) = x - take_bit k x"
    by (simp add: ALIDN_DOWN_def low_mask)
  moreover have "take_bit k x \<le> x"
    by (simp add: word_le_nat_alt unsigned_take_bit_eq)
  ultimately have "unat (ALIDN_DOWN x (2 ^ k)) = unat x - unat (take_bit k x)"
    by (simp add: unat_sub)
  then show ?thesis
    by (simp only: unsigned_take_bit_eq) (simp add: take_bit_eq_mod)
qed

lemma IS_ALIGNED_dvd: "IS_ALIGNED x (2 ^ k) \<longleftrightarrow> 2 ^ k dvd unat x"
proof -
  have "IS_ALIGNED x (2 ^ k) \<longleftrightarrow> take_bit k x = 0"
    by (simp add: IS_ALIGNED_def low_mask take_bit_eq_mask)
  also have "\<dots> \<longleftrightarrow> unat (take_bit k x) = 0"
    by (simp add: unsigned_eq_0_iff)
  also have "\<dots> \<longleftrightarrow> 2 ^ k dvd unat x"
    by (simp add: unsigned_take_bit_eq take_bit_eq_0_iff)
  finally show ?thesis .
qed

lemma TEST_BIT_iff: "TEST_BIT x n \<longleftrightarrow> bit x n"
proof -
  have "bit (x AND BIT n) m \<longleftrightarrow> m = n \<and> bit x n" for m
    by (auto simp: BIT_def bit_and_iff bit_exp_iff dest: bit_imp_le_length)
  then show ?thesis
    unfolding TEST_BIT_def by (metis bit_0_eq bit_eqI bot_apply bot_bool_def)
qed

text \<open>
  For a power of two \<^verbatim>\<open>ALIDN_DOWN\<close> is the greatest multiple not above \<open>x\<close> and, while the
  sum does not wrap around, \<^verbatim>\<open>ALIGN_UP\<close> the least multiple not below it; both results satisfy
  \<^verbatim>\<open>IS_ALIGNED\<close>.
\<close>

theorem align_macros:
  fixes x :: "'w::len word"
  assumes "k < LENGTH('w)" "unat x + 2 ^ k \<le> 2 ^ LENGTH('w)"
  shows "IS_ALIGNED (ALIGN_UP x (2 ^ k)) (2 ^ k) \<and> IS_ALIGNED (ALIDN_DOWN x (2 ^ k)) (2 ^ k)
    \<and> unat (ALIDN_DOWN x (2 ^ k)) \<le> unat x \<and> unat x < unat (ALIDN_DOWN x (2 ^ k)) + 2 ^ k
    \<and> unat x \<le> unat (ALIGN_UP x (2 ^ k)) \<and> unat (ALIGN_UP x (2 ^ k)) < unat x + 2 ^ k"
proof -
  let ?n = "2 ^ k :: nat"
  have down: "unat (ALIDN_DOWN y (2 ^ k)) = unat y div ?n * ?n" for y :: "'w word"
    by (simp add: ALIDN_DOWN_unat minus_mod_eq_div_mult)
  have "unat (2 ^ k :: 'w word) = ?n"
    using assms(1) by (rule unat_exp)
  then have "unat (x + (2 ^ k - 1)) = unat x + (?n - 1)"
    using assms less_le_trans [of "unat x + 2 ^ k - 1" "unat x + 2 ^ k"]
    by (subst unat_plus_eq) (simp_all add: unat_sub word_le_nat_alt)
  then have up: "unat (ALIGN_UP x (2 ^ k)) = (unat x + (?n - 1)) div ?n * ?n"
    using down [of "x + (2 ^ k - 1)"] by (simp add: ALIGN_UP_def ALIDN_DOWN_def algebra_simps)
  have less: "m < m div ?n * ?n + ?n" for m
    using dividend_less_div_times [of ?n m] by (simp add: add.commute)
  have "unat x + (?n - 1) < (unat x + (?n - 1)) div ?n * ?n + ?n" "unat x < unat x div ?n * ?n + ?n"
    by (rule less)+
  moreover have "(unat x + (?n - 1)) div ?n * ?n \<le> unat x + (?n - 1)"
    by (rule div_times_less_eq_dividend)
  moreover have "0 < ?n" by simp
  ultimately show ?thesis
    unfolding IS_ALIGNED_dvd up down
    by (intro conjI dvd_triv_right div_times_less_eq_dividend) linarith+
qed

theorem align_macros_witness:
  "IS_ALIGNED (ALIGN_UP (5000 :: u64) (2 ^ 12)) (2 ^ 12) \<and> ALIGN_UP (5000 :: u64) (2 ^ 12) = 8192
    \<and> unat (5000 :: u64) \<le> unat (ALIGN_UP (5000 :: u64) (2 ^ 12))"
  using align_macros [of 12 "5000 :: u64"] by (simp add: ALIGN_UP_def)

end
