(* ===== verification/Kstring_C.thy ===== *)
theory Kstring_C
  imports Types_H
begin

text \<open>
  The string and memory functions of \<^verbatim>\<open>src/kernel/main.c\<close>, on a byte-addressed memory of
  64-bit addresses in which a byte that is not mapped faults.

  Pointers step by addition of words, so they wrap at the end of the address space.  The
  loops that look for the terminating zero byte need not end; they are partial functions
  whose value \<open>None\<close> stands for a fault or for not returning.  A plain \<^verbatim>\<open>char\<close> is signed
  on the target of this kernel, so \<^verbatim>\<open>strcmp\<close> subtracts the signed values.
\<close>

section \<open>The functions\<close>

type_synonym memory = "u64 \<rightharpoonup> u8"

definition store_byte :: "memory \<Rightarrow> u64 \<Rightarrow> u8 \<Rightarrow> memory option" where
  "store_byte m a v = (case m a of None \<Rightarrow> None | Some _ \<Rightarrow> Some (m(a \<mapsto> v)))"

partial_function (option) strcmp_loop :: "memory \<Rightarrow> u64 \<Rightarrow> u64 \<Rightarrow> int option" where
  "strcmp_loop m s1 s2 = do {
     a \<leftarrow> m s1;
     b \<leftarrow> m s2;
     if a \<noteq> 0 \<and> b \<noteq> 0 \<and> a = b then strcmp_loop m (s1 + 1) (s2 + 1)
     else Some (sint a - sint b) }"

definition strcmp :: "memory \<Rightarrow> u64 \<Rightarrow> u64 \<Rightarrow> int option" where
  "strcmp m s1 s2 = strcmp_loop m s1 s2"

partial_function (option) strcpy_loop :: "memory \<Rightarrow> u64 \<Rightarrow> u64 \<Rightarrow> memory option" where
  "strcpy_loop m dest src = do {
     c \<leftarrow> m src;
     m \<leftarrow> store_byte m dest c;
     if c \<noteq> 0 then strcpy_loop m (dest + 1) (src + 1) else Some m }"

definition strcpy :: "memory \<Rightarrow> u64 \<Rightarrow> u64 \<Rightarrow> (u64 \<times> memory) option" where
  "strcpy m dest src = do { m \<leftarrow> strcpy_loop m dest src; Some (dest, m) }"

partial_function (option) strlen_loop :: "memory \<Rightarrow> u64 \<Rightarrow> size_t \<Rightarrow> size_t option" where
  "strlen_loop m s len = do {
     c \<leftarrow> m s;
     if c \<noteq> 0 then strlen_loop m (s + 1) (len + 1) else Some len }"

definition strlen :: "memory \<Rightarrow> u64 \<Rightarrow> size_t option" where
  "strlen m s = strlen_loop m s 0"

lemma unat_Suc_pred: "n \<noteq> 0 \<Longrightarrow> unat n = Suc (unat (n - 1))" for n :: "'w::len word"
  using unat_minus_one [of n] unat_gt_0 [of n] by simp

lemma unat_pred_less: "n \<noteq> 0 \<Longrightarrow> unat (n - 1) < unat n" for n :: "'w::len word"
  using unat_Suc_pred [of n] by simp

function memset_loop :: "memory \<Rightarrow> u64 \<Rightarrow> s32 \<Rightarrow> size_t \<Rightarrow> memory option" where
  "memset_loop m p c n = (if n = 0 then Some m
     else do { m \<leftarrow> store_byte m p (ucast c); memset_loop m (p + 1) c (n - 1) })"
  by pat_completeness auto
termination
  by (relation "measure (\<lambda>(m, p, c, n). unat n)") (auto intro: unat_pred_less)

definition memset :: "memory \<Rightarrow> u64 \<Rightarrow> s32 \<Rightarrow> size_t \<Rightarrow> (u64 \<times> memory) option" where
  "memset m s c n = do { m \<leftarrow> memset_loop m s c n; Some (s, m) }"

function memcpy_loop :: "memory \<Rightarrow> u64 \<Rightarrow> u64 \<Rightarrow> size_t \<Rightarrow> memory option" where
  "memcpy_loop m d s n = (if n = 0 then Some m
     else do { c \<leftarrow> m s; m \<leftarrow> store_byte m d c; memcpy_loop m (d + 1) (s + 1) (n - 1) })"
  by pat_completeness auto
termination
  by (relation "measure (\<lambda>(m, d, s, n). unat n)") (auto intro: unat_pred_less)

definition memcpy :: "memory \<Rightarrow> u64 \<Rightarrow> u64 \<Rightarrow> size_t \<Rightarrow> (u64 \<times> memory) option" where
  "memcpy m dest src n = do { m \<leftarrow> memcpy_loop m dest src n; Some (dest, m) }"

declare memset_loop.simps [simp del] memcpy_loop.simps [simp del]

section \<open>Byte sequences in memory\<close>

fun bytes_at :: "memory \<Rightarrow> u64 \<Rightarrow> u8 list \<Rightarrow> bool" where
  "bytes_at m a [] \<longleftrightarrow> True"
| "bytes_at m a (x # xs) \<longleftrightarrow> m a = Some x \<and> bytes_at m (a + 1) xs"

text \<open>A string is stored with its terminator and contains no zero byte.\<close>

definition cstring :: "memory \<Rightarrow> u64 \<Rightarrow> u8 list \<Rightarrow> bool" where
  "cstring m a xs \<longleftrightarrow> 0 \<notin> set xs \<and> bytes_at m a (xs @ [0])"

definition span :: "u64 \<Rightarrow> nat \<Rightarrow> u64 set" where
  "span a n = {a + of_nat i | i. i < n}"

lemma span_Suc: "span a (Suc n) = insert a (span (a + 1) n)"
proof -
  have "{..<Suc n} = insert 0 (Suc ` {..<n})" by (auto simp: lessThan_Suc_eq_insert_0)
  moreover have "span b k = (\<lambda>i. b + of_nat i) ` {..<k}" for b k by (auto simp: span_def)
  ultimately show ?thesis by (simp add: image_image add.assoc)
qed

lemma span_0 [simp]: "span a 0 = {}"
  by (simp add: span_def)

lemma cstring_simps [simp]:
  "cstring m a [] \<longleftrightarrow> m a = Some 0"
  "cstring m a (x # xs) \<longleftrightarrow> x \<noteq> 0 \<and> m a = Some x \<and> cstring m (a + 1) xs"
  by (auto simp: cstring_def)

lemma bytes_at_nth: "bytes_at m a xs \<longleftrightarrow> (\<forall>i < length xs. m (a + of_nat i) = Some (xs ! i))"
proof (induction xs arbitrary: a)
  case (Cons x xs)
  show ?case by (auto simp: Cons.IH All_less_Suc2 add.assoc)
qed simp

lemma bytes_at_frame:
  "bytes_at m a xs \<Longrightarrow> (\<And>b. b \<in> span a (length xs) \<Longrightarrow> m' b = m b) \<Longrightarrow> bytes_at m' a xs"
  by (induction xs arbitrary: a) (auto simp: span_Suc)

text \<open>A string is shorter than the address space, so its addresses are distinct.\<close>

lemma cstring_short:
  assumes "cstring m a xs"
  shows "length xs < 2 ^ 64"
proof (rule ccontr)
  let ?k = "length xs - 2 ^ 64"
  assume "\<not> length xs < 2 ^ 64"
  then have "of_nat (length xs) = (of_nat ?k :: u64)" "?k < length xs"
    by (auto simp: of_nat_diff)
  moreover have "m (a + of_nat i) = Some ((xs @ [0]) ! i)" if "i \<le> length xs" for i
    using assms that by (simp add: cstring_def bytes_at_nth)
  from this [of "length xs"] this [of ?k] have "m (a + of_nat (length xs)) = Some 0"
    "m (a + of_nat ?k) = Some (xs ! ?k)" using \<open>?k < length xs\<close> by (auto simp: nth_append)
  ultimately have "xs ! ?k = 0" by simp
  then show False
    using assms \<open>?k < length xs\<close> nth_mem [of ?k xs] by (auto simp: cstring_def)
qed

lemma of_nat_inj:
  assumes "i < 2 ^ 64" "j < 2 ^ 64" "of_nat i = (of_nat j :: u64)"
  shows "i = j"
proof -
  have "unat (of_nat k :: u64) = k" if "k < 2 ^ 64" for k
    using that by (simp add: unat_of_nat take_bit_nat_eq_self)
  then show ?thesis using assms by metis
qed

lemma notin_next_span:
  assumes "n < 2 ^ 64"
  shows "a \<notin> span (a + 1) n"
proof
  assume "a \<in> span (a + 1) n"
  then obtain i where i: "a = a + 1 + of_nat i" "i < n"
    by (auto simp: span_def)
  then have "of_nat (Suc i) = (of_nat 0 :: u64)" by (simp add: add.assoc)
  with i assms show False using of_nat_inj [of "Suc i" 0] by simp
qed

lemma add_eq_diff: "s + x = d \<Longrightarrow> x = d - s" for s x d :: u64
  by auto

section \<open>What the string functions compute\<close>

lemma strlen_loop_string:
  "cstring m s xs \<Longrightarrow> strlen_loop m s len = Some (len + of_nat (length xs))"
  by (induction xs arbitrary: s len) (simp_all add: strlen_loop.simps ac_simps)

lemma strlen_string: "cstring m s xs \<Longrightarrow> strlen m s = Some (of_nat (length xs))"
  by (simp add: strlen_def strlen_loop_string)

text \<open>The comparison as a function of the two strings, the terminators included.\<close>

fun compare_bytes :: "u8 list \<Rightarrow> u8 list \<Rightarrow> int" where
  "compare_bytes (x # xs) (y # ys) = (if x = y then compare_bytes xs ys else sint x - sint y)"
| "compare_bytes [] ys = - sint (hd (ys @ [0]))"
| "compare_bytes xs [] = sint (hd xs)"

lemma strcmp_loop_strings:
  "cstring m s1 xs \<Longrightarrow> cstring m s2 ys \<Longrightarrow> strcmp_loop m s1 s2 = Some (compare_bytes xs ys)"
proof (induction xs ys arbitrary: s1 s2 rule: compare_bytes.induct)
  case (1 x xs y ys)
  then show ?case by (subst strcmp_loop.simps) simp
next
  case (2 ys)
  then show ?case by (subst strcmp_loop.simps) (cases ys; simp)
next
  case (3 x xs)
  then show ?case by (subst strcmp_loop.simps) simp
qed

lemma compare_bytes_0: "0 \<notin> set xs \<Longrightarrow> 0 \<notin> set ys \<Longrightarrow> compare_bytes xs ys = 0 \<longleftrightarrow> xs = ys"
proof (induction xs ys rule: compare_bytes.induct)
  case (2 ys)
  then show ?case by (cases ys) (auto simp: signed_eq_0_iff)
qed (auto simp: signed_eq_0_iff sint_eq_iff)

lemma compare_bytes_less:
  "0 \<notin> set xs \<Longrightarrow> 0 \<notin> set ys \<Longrightarrow>
   compare_bytes xs ys < 0 \<longleftrightarrow> ord_class.lexordp (map sint (xs @ [0])) (map sint (ys @ [0]))"
proof (induction xs ys rule: compare_bytes.induct)
  case (2 ys)
  then show ?case using sint_eq_iff [of "hd ys" 0] by (cases ys) auto
next
  case (1 x xs y ys)
  then show ?case using sint_eq_iff [of x y] by auto
qed auto

lemma strcpy_loop_string:
  assumes "cstring m src xs" "span dest (Suc (length xs)) \<subseteq> dom m"
    and "span dest (Suc (length xs)) \<inter> span src (Suc (length xs)) = {}"
  shows "\<exists>m'. strcpy_loop m dest src = Some m' \<and> cstring m' dest xs
           \<and> (\<forall>a. a \<notin> span dest (Suc (length xs)) \<longrightarrow> m' a = m a)"
  using assms
proof (induction xs arbitrary: m dest src)
  case Nil
  then show ?case
    by (subst strcpy_loop.simps) (auto simp: store_byte_def span_Suc split: option.splits)
next
  case (Cons x xs)
  let ?m = "m(dest \<mapsto> x)"
  have "length (x # xs) < 2 ^ 64" using Cons.prems(1) by (rule cstring_short)
  then have dest: "dest \<notin> span (dest + 1) (Suc (length xs))"
    by (intro notin_next_span) simp
  have "dest \<notin> span (src + 1) (length (xs @ [0]))"
    using Cons.prems(3) by (auto simp: span_Suc)
  then have "bytes_at ?m (src + 1) (xs @ [0])"
    using Cons.prems(1) unfolding cstring_def by - (rule bytes_at_frame [of m]; auto)
  then have "cstring ?m (src + 1) xs"
    using Cons.prems(1) by (simp add: cstring_def)
  moreover have "span (dest + 1) (Suc (length xs)) \<subseteq> dom ?m"
    "span (dest + 1) (Suc (length xs)) \<inter> span (src + 1) (Suc (length xs)) = {}"
    using Cons.prems by (auto simp: span_Suc)
  ultimately obtain m' where m': "strcpy_loop ?m (dest + 1) (src + 1) = Some m'"
    "cstring m' (dest + 1) xs"
    "\<And>a. a \<notin> span (dest + 1) (Suc (length xs)) \<Longrightarrow> m' a = ?m a"
    using Cons.IH by blast
  have "strcpy_loop m dest src = Some m'"
    using Cons.prems m'(1)
    by (subst strcpy_loop.simps) (auto simp: store_byte_def span_Suc split: option.splits)
  moreover have "cstring m' dest (x # xs)"
    using m'(2) m'(3) [OF dest] Cons.prems(1) by simp
  moreover have "m' a = m a" if "a \<notin> span dest (Suc (length (x # xs)))" for a
    using m'(3) [of a] that by (auto simp: span_Suc)
  ultimately show ?case by blast
qed

section \<open>What the memory functions compute\<close>

lemma memset_loop_spec:
  "span p (unat n) \<subseteq> dom m \<Longrightarrow>
   \<exists>m'. memset_loop m p c n = Some m' \<and> (\<forall>a \<in> span p (unat n). m' a = Some (ucast c))
     \<and> (\<forall>a. a \<notin> span p (unat n) \<longrightarrow> m' a = m a)"
proof (induction m p c n rule: memset_loop.induct)
  case (1 m p c n)
  show ?case
  proof (cases "n = 0")
    case True
    then show ?thesis by (simp add: memset_loop.simps)
  next
    case False
    let ?m = "m(p \<mapsto> ucast c)"
    have n: "unat n = Suc (unat (n - 1))" using False by (rule unat_Suc_pred)
    have st: "store_byte m p (ucast c) = Some ?m" and "span (p + 1) (unat (n - 1)) \<subseteq> dom ?m"
      using "1.prems" by (auto simp: n span_Suc store_byte_def)
    then obtain m' where m': "memset_loop ?m (p + 1) c (n - 1) = Some m'"
      "\<forall>a \<in> span (p + 1) (unat (n - 1)). m' a = Some (ucast c)"
      "\<And>a. a \<notin> span (p + 1) (unat (n - 1)) \<Longrightarrow> m' a = ?m a"
      using "1.IH" [OF False, of ?m] by blast
    have "memset_loop m p c n = Some m'"
      using False st m'(1) by (subst memset_loop.simps) simp
    moreover have "m' p = Some (ucast c)"
      using m'(2) m'(3) [of p] by (cases "p \<in> span (p + 1) (unat (n - 1))") auto
    moreover have "m' a = m a" if "a \<notin> span p (unat n)" for a
      using m'(3) [of a] that by (auto simp: n span_Suc)
    ultimately show ?thesis using m'(2) by (auto simp: n span_Suc)
  qed
qed

text \<open>
  One step of the copy: the source byte that the copy of the rest reads at distance \<open>i\<close> is
  the byte that the copy of the whole is to read at distance \<open>Suc i\<close>.
\<close>

lemma memcpy_shift:
  fixes d s :: u64
  assumes "m s = Some c"
  shows "(m(d \<mapsto> c)) (s + 1 + of_nat (i mod unat (d - s))) = m (s + of_nat (Suc i mod unat (d - s)))"
proof (cases "d = s")
  case True
  then show ?thesis using assms by (simp add: add.assoc fun_upd_def)
next
  case False
  let ?k = "unat (d - s)"
  have "0 < ?k" using False by (simp add: unat_gt_0)
  have d: "d = s + of_nat ?k" by simp
  have small: "?k < 2 ^ 64" using unsigned_less [of "d - s"] by simp
  have src: "s + 1 + of_nat (i mod ?k) = s + of_nat (Suc (i mod ?k))" by (simp add: add.assoc)
  show ?thesis
  proof (cases "Suc (i mod ?k) = ?k")
    case True
    then have "Suc i mod ?k = 0" by (simp add: mod_Suc)
    then show ?thesis using True src d assms by simp
  next
    case False
    then have "Suc i mod ?k = Suc (i mod ?k)" "Suc (i mod ?k) < ?k"
      using \<open>0 < ?k\<close> by (simp_all add: mod_Suc Suc_lessI)
    moreover have "s + of_nat (Suc (i mod ?k)) \<noteq> d"
    proof
      assume "s + of_nat (Suc (i mod ?k)) = d"
      then have "of_nat (Suc (i mod ?k)) = d - s"
        by (rule add_eq_diff)
      then have "of_nat (Suc (i mod ?k)) = (of_nat ?k :: u64)" by (simp del: of_nat_Suc)
      with small have "Suc (i mod ?k) = ?k"
        by - (rule of_nat_inj; use calculation(2) in linarith)
      with calculation(2) show False by linarith
    qed
    ultimately show ?thesis unfolding src by (simp del: of_nat_Suc)
  qed
qed

lemma memcpy_loop_spec:
  "span s (unat n) \<subseteq> dom m \<Longrightarrow> span d (unat n) \<subseteq> dom m \<Longrightarrow>
   \<exists>m'. memcpy_loop m d s n = Some m'
     \<and> (\<forall>i < unat n. m' (d + of_nat i) = m (s + of_nat (i mod unat (d - s))))
     \<and> (\<forall>a. a \<notin> span d (unat n) \<longrightarrow> m' a = m a)"
proof (induction m d s n rule: memcpy_loop.induct)
  case (1 m d s n)
  show ?case
  proof (cases "n = 0")
    case True
    then show ?thesis by (simp add: memcpy_loop.simps)
  next
    case False
    have n: "unat n = Suc (unat (n - 1))" using False by (rule unat_Suc_pred)
    obtain c where c: "m s = Some c" using "1.prems"(1) by (auto simp: n span_Suc)
    let ?m = "m(d \<mapsto> c)"
    have st: "store_byte m d c = Some ?m" and "span (s + 1) (unat (n - 1)) \<subseteq> dom ?m"
      "span (d + 1) (unat (n - 1)) \<subseteq> dom ?m"
      using "1.prems" by (auto simp: n span_Suc store_byte_def)
    then obtain m' where m': "memcpy_loop ?m (d + 1) (s + 1) (n - 1) = Some m'"
      "\<And>i. i < unat (n - 1) \<Longrightarrow>
         m' (d + 1 + of_nat i) = ?m (s + 1 + of_nat (i mod unat (d + 1 - (s + 1))))"
      "\<And>a. a \<notin> span (d + 1) (unat (n - 1)) \<Longrightarrow> m' a = ?m a"
      using "1.IH" [OF False c, of ?m] by blast
    have "memcpy_loop m d s n = Some m'"
      using False st c m'(1) by (subst memcpy_loop.simps) simp
    moreover have "m' (d + of_nat i) = m (s + of_nat (i mod unat (d - s)))" if "i < unat n" for i
    proof (cases i)
      case 0
      have "d \<notin> span (d + 1) (unat (n - 1))"
        using unsigned_less [of "n - 1"] by (intro notin_next_span) simp
      then show ?thesis using 0 c m'(3) [of d] by simp
    next
      case (Suc j)
      then show ?thesis using m'(2) [of j] that memcpy_shift [of m s c d j] c
        by (simp add: n add.assoc)
    qed
    moreover have "m' a = m a" if "a \<notin> span d (unat n)" for a
      using m'(3) [of a] that by (auto simp: n span_Suc)
    ultimately show ?thesis by blast
  qed
qed

section \<open>Properties\<close>

text \<open>C40: \<^verbatim>\<open>strcmp\<close> on two strings always returns; the result is zero exactly when they
  are equal and negative exactly when the first comes before the second in the
  lexicographic order of the signed byte values, terminators included.\<close>

theorem strcmp_orders:
  assumes "cstring m s1 xs" "cstring m s2 ys"
  shows "\<exists>r. strcmp m s1 s2 = Some r \<and> (r = 0 \<longleftrightarrow> xs = ys)
    \<and> (r < 0 \<longleftrightarrow> ord_class.lexordp (map sint (xs @ [0])) (map sint (ys @ [0])))"
proof -
  have "0 \<notin> set xs" "0 \<notin> set ys" using assms by (auto simp: cstring_def)
  then show ?thesis
    using assms by (simp add: strcmp_def strcmp_loop_strings compare_bytes_0 compare_bytes_less)
qed

definition demo_memory :: memory where
  "demo_memory = map_of [(16, 72), (17, 105), (18, 0), (32, 72), (33, 255), (34, 0),
     (48, 1), (49, 2), (50, 3), (51, 4), (52, 5)]"

lemma demo_strings:
  "cstring demo_memory 16 [72, 105]" "cstring demo_memory 32 [72, 255]"
  by (simp_all add: demo_memory_def)

theorem strcmp_orders_witness:
  "\<exists>r. strcmp demo_memory 16 32 = Some r \<and> \<not> r < 0 \<and> r \<noteq> 0"
proof -
  have "\<not> ord_class.lexordp (map sint ([72, 105] @ [0::u8])) (map sint ([72, 255] @ [0::u8]))"
    by simp
  then show ?thesis using strcmp_orders [OF demo_strings] by auto
qed

text \<open>\<^verbatim>\<open>strcpy\<close> to a mapped place that does not meet the source returns its
  destination; afterwards the copy is the same string, with the same \<^verbatim>\<open>strlen\<close>, that
  \<^verbatim>\<open>strcmp\<close> finds equal to the source, and nothing else has changed.\<close>

theorem strcpy_roundtrip:
  assumes "cstring m src xs" "span dest (Suc (length xs)) \<subseteq> dom m"
    and "span dest (Suc (length xs)) \<inter> span src (Suc (length xs)) = {}"
  shows "\<exists>m'. strcpy m dest src = Some (dest, m') \<and> cstring m' dest xs
    \<and> strlen m' dest = strlen m src \<and> strcmp m' dest src = Some 0
    \<and> (\<forall>a. a \<notin> span dest (Suc (length xs)) \<longrightarrow> m' a = m a)"
proof -
  obtain m' where m': "strcpy_loop m dest src = Some m'" "cstring m' dest xs"
    "\<And>a. a \<notin> span dest (Suc (length xs)) \<Longrightarrow> m' a = m a"
    using strcpy_loop_string [OF assms] by blast
  have "bytes_at m' src (xs @ [0])"
    by (rule bytes_at_frame [of m]) (use assms m'(3) in \<open>auto simp: cstring_def\<close>)
  then have "cstring m' src xs" using assms(1) by (simp add: cstring_def)
  then have "strcmp m' dest src = Some 0"
    using strcmp_loop_strings [OF m'(2)] compare_bytes_0 [of xs xs] assms(1)
    by (simp add: strcmp_def cstring_def)
  moreover have "strlen m' dest = strlen m src"
    using m'(2) assms(1) by (simp add: strlen_string)
  ultimately show ?thesis using m' by (auto simp: strcpy_def)
qed

theorem strcpy_roundtrip_witness:
  "\<exists>m'. strcpy demo_memory 48 16 = Some (48, m') \<and> strlen m' 48 = strlen demo_memory 16
     \<and> m' 51 = Some 4"
proof -
  have "span 48 (Suc (length [72::u8, 105])) \<subseteq> dom demo_memory"
    "span 48 (Suc (length [72::u8, 105])) \<inter> span 16 (Suc (length [72::u8, 105])) = {}"
    "51 \<notin> span 48 (Suc (length [72::u8, 105]))"
    by (auto simp: span_Suc demo_memory_def)
  then show ?thesis
    using strcpy_roundtrip [OF demo_strings(1)] by (fastforce simp: demo_memory_def)
qed

text \<open>\<^verbatim>\<open>memcpy\<close> on mapped ranges returns its destination and changes only the destination
  range.  With \<open>k\<close> the distance from source to destination, byte \<open>i\<close> of the destination
  becomes byte \<open>i mod k\<close> of the source: byte \<open>i\<close> itself when the ranges are disjoint, when
  they are the same and when the destination begins below the source, and otherwise the
  first \<open>k\<close> bytes over and over.\<close>

theorem memcpy_copies:
  assumes "span src (unat n) \<subseteq> dom m" "span dest (unat n) \<subseteq> dom m"
  shows "\<exists>m'. memcpy m dest src n = Some (dest, m')
    \<and> (\<forall>i < unat n. m' (dest + of_nat i) = m (src + of_nat (i mod unat (dest - src))))
    \<and> (n \<le> dest - src \<or> dest = src \<longrightarrow> (\<forall>i < unat n. m' (dest + of_nat i) = m (src + of_nat i)))
    \<and> (\<forall>a. a \<notin> span dest (unat n) \<longrightarrow> m' a = m a)"
proof -
  have "i mod unat (dest - src) = i" if "n \<le> dest - src \<or> dest = src" "i < unat n" for i
    using that by (auto simp: word_le_nat_alt)
  then show ?thesis using memcpy_loop_spec [OF assms] by (fastforce simp: memcpy_def)
qed

theorem memcpy_copies_witness:
  "\<exists>m'. memcpy demo_memory 49 48 4 = Some (49, m') \<and> m' (49 + of_nat 3) = Some 1"
proof -
  have four: "unat (4::size_t) = Suc (Suc (Suc (Suc 0)))" by simp
  have "span 48 (unat (4::size_t)) \<subseteq> dom demo_memory" "span 49 (unat (4::size_t)) \<subseteq> dom demo_memory"
    unfolding four by (simp_all add: span_Suc demo_memory_def)
  from memcpy_copies [OF this] obtain m' where "memcpy demo_memory 49 48 4 = Some (49, m')"
    and "\<And>i. i < unat (4::size_t) \<Longrightarrow>
      m' (49 + of_nat i) = demo_memory (48 + of_nat (i mod unat (49 - 48 :: u64)))"
    by blast
  from this(1) this(2) [of 3] show ?thesis by (simp add: demo_memory_def)
qed

text \<open>\<^verbatim>\<open>memset\<close> on a mapped range returns its argument, writes the low byte of the value
  to every byte of the range and to no other.\<close>

theorem memset_fills:
  assumes "span p (unat n) \<subseteq> dom m"
  shows "\<exists>m'. memset m p c n = Some (p, m') \<and> (\<forall>a \<in> span p (unat n). m' a = Some (ucast c))
    \<and> (\<forall>a. a \<notin> span p (unat n) \<longrightarrow> m' a = m a)"
  using memset_loop_spec [OF assms, of c] by (auto simp: memset_def)

theorem memset_fills_witness:
  "\<exists>m'. memset demo_memory 48 0x101 3 = Some (48, m') \<and> m' 50 = Some 1 \<and> m' 51 = Some 4"
proof -
  have three: "unat (3::size_t) = Suc (Suc (Suc 0))" by simp
  have "span 48 (unat (3::size_t)) \<subseteq> dom demo_memory" "50 \<in> span 48 (unat (3::size_t))"
    "51 \<notin> span 48 (unat (3::size_t))"
    unfolding three by (auto simp: span_Suc demo_memory_def)
  then show ?thesis
    using memset_fills [of 48 3 demo_memory "0x101"] by (fastforce simp: demo_memory_def)
qed

end
