(* ===== verification/List_H.thy ===== *)
theory List_H
  imports Kernel_Prelude
begin

text \<open>
  The circular doubly linked lists of \<^verbatim>\<open>kernel/include/list.h\<close>.

  A memory of list nodes is a partial map from addresses (a type parameter) to
  \<^verbatim>\<open>struct list_head\<close>; a dereference of \<^verbatim>\<open>NULL\<close>, of one of the two poison values or of
  an address without a node is \<open>None\<close>.  The header declares the field \<^verbatim>\<open>next\<close> twice and
  no \<^verbatim>\<open>prev\<close>, which every operation uses; the record has both.  A leading
  \<^verbatim>\<open>__\<close> of a C name is written \<open>raw_\<close>.

  \<open>dlist h r xs\<close> says that the nodes \<open>xs\<close> form the list with head \<open>r\<close>, and \<open>lists h F\<close>
  that the memory holds the disjoint lists \<open>F\<close>.  Every operation is shown to do on \<open>F\<close>
  what it promises, without a fault; the interface \<open>list_store\<close> is what the other
  components rely on.
\<close>

section \<open>The operations\<close>

datatype 'a ptr = Null | Poison1 | Poison2 | At 'a

record 'a list_head =
  lnext :: "'a ptr"
  lprev :: "'a ptr"

type_synonym 'a list_heap = "'a \<rightharpoonup> 'a list_head"

text \<open>Reading a node, and reading and writing one of its fields.\<close>

definition load :: "'a ptr \<Rightarrow> 'a list_heap \<Rightarrow> 'a list_head option" where
  "load p h = (case p of At a \<Rightarrow> h a | _ \<Rightarrow> None)"

definition load_next :: "'a ptr \<Rightarrow> 'a list_heap \<Rightarrow> 'a ptr option" where
  "load_next p h = map_option lnext (load p h)"

definition load_prev :: "'a ptr \<Rightarrow> 'a list_heap \<Rightarrow> 'a ptr option" where
  "load_prev p h = map_option lprev (load p h)"

definition store_next :: "'a ptr \<Rightarrow> 'a ptr \<Rightarrow> 'a list_heap \<Rightarrow> 'a list_heap option" where
  "store_next p v h =
     (case p of At a \<Rightarrow> map_option (\<lambda>n. h(a \<mapsto> n\<lparr>lnext := v\<rparr>)) (h a) | _ \<Rightarrow> None)"

definition store_prev :: "'a ptr \<Rightarrow> 'a ptr \<Rightarrow> 'a list_heap \<Rightarrow> 'a list_heap option" where
  "store_prev p v h =
     (case p of At a \<Rightarrow> map_option (\<lambda>n. h(a \<mapsto> n\<lparr>lprev := v\<rparr>)) (h a) | _ \<Rightarrow> None)"

text \<open>The operations, in the order of the header.\<close>

definition INIT_LIST_HEAD :: "'a ptr \<Rightarrow> 'a list_heap \<Rightarrow> 'a list_heap option" where
  "INIT_LIST_HEAD list h = do { h \<leftarrow> store_next list list h; store_prev list list h }"

definition list_empty :: "'a ptr \<Rightarrow> 'a list_heap \<Rightarrow> bool option" where
  "list_empty head h = do { n \<leftarrow> load_next head h; Some (n = head) }"

definition list_is_last :: "'a ptr \<Rightarrow> 'a ptr \<Rightarrow> 'a list_heap \<Rightarrow> bool option" where
  "list_is_last list head h = do { n \<leftarrow> load_next list h; Some (n = head) }"

definition list_is_first :: "'a ptr \<Rightarrow> 'a ptr \<Rightarrow> 'a list_heap \<Rightarrow> bool option" where
  "list_is_first list head h = do { p \<leftarrow> load_prev list h; Some (p = head) }"

text \<open>\<^verbatim>\<open>list_is_singular\<close> is declared \<^verbatim>\<open>void\<close> and returns this expression.\<close>

definition list_is_singular :: "'a ptr \<Rightarrow> 'a list_heap \<Rightarrow> bool option" where
  "list_is_singular head h = do {
     n \<leftarrow> load_next head h;
     if n = head then Some False
     else do { nn \<leftarrow> load_next n h; Some (nn = head) } }"

definition raw_list_add ::
    "'a ptr \<Rightarrow> 'a ptr \<Rightarrow> 'a ptr \<Rightarrow> 'a list_heap \<Rightarrow> 'a list_heap option" where
  "raw_list_add new prev next h = do {
     h \<leftarrow> store_prev next new h;
     h \<leftarrow> store_next new next h;
     h \<leftarrow> store_prev new prev h;
     store_next prev new h }"

definition list_add :: "'a ptr \<Rightarrow> 'a ptr \<Rightarrow> 'a list_heap \<Rightarrow> 'a list_heap option" where
  "list_add new head h = do { n \<leftarrow> load_next head h; raw_list_add new head n h }"

definition list_add_tail :: "'a ptr \<Rightarrow> 'a ptr \<Rightarrow> 'a list_heap \<Rightarrow> 'a list_heap option" where
  "list_add_tail new head h = do { p \<leftarrow> load_prev head h; raw_list_add new p head h }"

definition raw_list_del :: "'a ptr \<Rightarrow> 'a ptr \<Rightarrow> 'a list_heap \<Rightarrow> 'a list_heap option" where
  "raw_list_del prev next h = do {
     h \<leftarrow> store_prev next prev h;
     store_next prev next h }"

text \<open>\<^verbatim>\<open>list_del\<close> poisons the removed node with \<^verbatim>\<open>0x100\<close> and \<^verbatim>\<open>0x200\<close>.\<close>

definition list_del :: "'a ptr \<Rightarrow> 'a list_heap \<Rightarrow> 'a list_heap option" where
  "list_del entry h = do {
     p \<leftarrow> load_prev entry h;
     n \<leftarrow> load_next entry h;
     h \<leftarrow> raw_list_del p n h;
     h \<leftarrow> store_next entry Poison1 h;
     store_prev entry Poison2 h }"

definition list_del_init :: "'a ptr \<Rightarrow> 'a list_heap \<Rightarrow> 'a list_heap option" where
  "list_del_init entry h = do {
     p \<leftarrow> load_prev entry h;
     n \<leftarrow> load_next entry h;
     h \<leftarrow> raw_list_del p n h;
     INIT_LIST_HEAD entry h }"

definition list_replace :: "'a ptr \<Rightarrow> 'a ptr \<Rightarrow> 'a list_heap \<Rightarrow> 'a list_heap option" where
  "list_replace old new h = do {
     n \<leftarrow> load_next old h;
     h \<leftarrow> store_next new n h;
     nn \<leftarrow> load_next new h;
     h \<leftarrow> store_prev nn new h;
     p \<leftarrow> load_prev old h;
     h \<leftarrow> store_prev new p h;
     np \<leftarrow> load_prev new h;
     store_next np new h }"

definition list_replace_init ::
    "'a ptr \<Rightarrow> 'a ptr \<Rightarrow> 'a list_heap \<Rightarrow> 'a list_heap option" where
  "list_replace_init old new h = do { h \<leftarrow> list_replace old new h; INIT_LIST_HEAD old h }"

definition list_move :: "'a ptr \<Rightarrow> 'a ptr \<Rightarrow> 'a list_heap \<Rightarrow> 'a list_heap option" where
  "list_move list head h = do {
     p \<leftarrow> load_prev list h;
     n \<leftarrow> load_next list h;
     h \<leftarrow> raw_list_del p n h;
     list_add list head h }"

definition list_move_tail :: "'a ptr \<Rightarrow> 'a ptr \<Rightarrow> 'a list_heap \<Rightarrow> 'a list_heap option" where
  "list_move_tail list head h = do {
     p \<leftarrow> load_prev list h;
     n \<leftarrow> load_next list h;
     h \<leftarrow> raw_list_del p n h;
     list_add_tail list head h }"

definition list_rotate_left :: "'a ptr \<Rightarrow> 'a list_heap \<Rightarrow> 'a list_heap option" where
  "list_rotate_left head h = do {
     e \<leftarrow> list_empty head h;
     if \<not> e then do { first \<leftarrow> load_next head h; list_move_tail first head h }
     else Some h }"

definition raw_list_cut_position ::
    "'a ptr \<Rightarrow> 'a ptr \<Rightarrow> 'a ptr \<Rightarrow> 'a list_heap \<Rightarrow> 'a list_heap option" where
  "raw_list_cut_position list head entry h = do {
     new_first \<leftarrow> load_next entry h;
     hn \<leftarrow> load_next head h;
     h \<leftarrow> store_next list hn h;
     ln \<leftarrow> load_next list h;
     h \<leftarrow> store_prev ln list h;
     h \<leftarrow> store_prev list entry h;
     h \<leftarrow> store_next entry list h;
     h \<leftarrow> store_next head new_first h;
     store_prev new_first head h }"

definition list_cut_position ::
    "'a ptr \<Rightarrow> 'a ptr \<Rightarrow> 'a ptr \<Rightarrow> 'a list_heap \<Rightarrow> 'a list_heap option" where
  "list_cut_position list head entry h = do {
     e \<leftarrow> list_empty head h;
     if e then Some h
     else do {
       s \<leftarrow> list_is_singular head h;
       hn \<leftarrow> load_next head h;
       hp \<leftarrow> load_prev head h;
       if s \<and> hn \<noteq> entry \<and> hp \<noteq> entry then Some h
       else if entry = head then INIT_LIST_HEAD list h
       else raw_list_cut_position list head entry h } }"

text \<open>
  The body of \<^verbatim>\<open>__list_splice\<close> writes through a name \<^verbatim>\<open>prev\<close> that is not declared; its
  second parameter, called \<^verbatim>\<open>head\<close>, is what the callers pass in that place
  (\<^verbatim>\<open>head\<close> or \<^verbatim>\<open>head->prev\<close>).
\<close>

definition raw_list_splice ::
    "'a ptr \<Rightarrow> 'a ptr \<Rightarrow> 'a ptr \<Rightarrow> 'a list_heap \<Rightarrow> 'a list_heap option" where
  "raw_list_splice list prev next h = do {
     first \<leftarrow> load_next list h;
     last \<leftarrow> load_prev list h;
     h \<leftarrow> store_prev first prev h;
     h \<leftarrow> store_next prev first h;
     h \<leftarrow> store_next last next h;
     store_prev next last h }"

definition list_splice :: "'a ptr \<Rightarrow> 'a ptr \<Rightarrow> 'a list_heap \<Rightarrow> 'a list_heap option" where
  "list_splice list head h = do {
     e \<leftarrow> list_empty list h;
     if \<not> e then do { n \<leftarrow> load_next head h; raw_list_splice list head n h } else Some h }"

definition list_splice_tail :: "'a ptr \<Rightarrow> 'a ptr \<Rightarrow> 'a list_heap \<Rightarrow> 'a list_heap option" where
  "list_splice_tail list head h = do {
     e \<leftarrow> list_empty list h;
     if \<not> e then do { p \<leftarrow> load_prev head h; raw_list_splice list p head h } else Some h }"

definition list_splice_init :: "'a ptr \<Rightarrow> 'a ptr \<Rightarrow> 'a list_heap \<Rightarrow> 'a list_heap option" where
  "list_splice_init list head h = do {
     e \<leftarrow> list_empty list h;
     if \<not> e then do {
       n \<leftarrow> load_next head h;
       h \<leftarrow> raw_list_splice list head n h;
       INIT_LIST_HEAD list h }
     else Some h }"

definition list_splice_tail_init ::
    "'a ptr \<Rightarrow> 'a ptr \<Rightarrow> 'a list_heap \<Rightarrow> 'a list_heap option" where
  "list_splice_tail_init list head h = do {
     e \<leftarrow> list_empty list h;
     if \<not> e then do {
       p \<leftarrow> load_prev head h;
       h \<leftarrow> raw_list_splice list p head h;
       INIT_LIST_HEAD list h }
     else Some h }"

text \<open>
  The loops of \<^verbatim>\<open>list_for_each\<close>: \<open>None\<close> when the walk faults or never comes back to the
  head.
\<close>

partial_function (option) list_count_loop ::
    "'a ptr \<Rightarrow> 'a ptr \<Rightarrow> size_t \<Rightarrow> 'a list_heap \<Rightarrow> size_t option" where
  "list_count_loop pos head count h =
     (if pos = head then Some count
      else do { n \<leftarrow> load_next pos h; list_count_loop n head (count + 1) h })"

definition list_count_nodes :: "'a ptr \<Rightarrow> 'a list_heap \<Rightarrow> size_t option" where
  "list_count_nodes head h = do { pos \<leftarrow> load_next head h; list_count_loop pos head 0 h }"

partial_function (option) list_contains_loop ::
    "'a ptr \<Rightarrow> 'a ptr \<Rightarrow> 'a ptr \<Rightarrow> 'a list_heap \<Rightarrow> bool option" where
  "list_contains_loop pos head node h =
     (if pos = head then Some False
      else if pos = node then Some True
      else do { n \<leftarrow> load_next pos h; list_contains_loop n head node h })"

definition list_contains :: "'a ptr \<Rightarrow> 'a ptr \<Rightarrow> 'a list_heap \<Rightarrow> bool option" where
  "list_contains head node h = do { pos \<leftarrow> load_next head h; list_contains_loop pos head node h }"

partial_function (option) list_get_nth_loop ::
    "'a ptr \<Rightarrow> 'a ptr \<Rightarrow> size_t \<Rightarrow> size_t \<Rightarrow> 'a list_heap \<Rightarrow> 'a ptr option" where
  "list_get_nth_loop pos head i n h =
     (if pos = head then Some Null
      else if i = n then Some pos
      else do { nx \<leftarrow> load_next pos h; list_get_nth_loop nx head (i + 1) n h })"

definition list_get_nth :: "'a ptr \<Rightarrow> size_t \<Rightarrow> 'a list_heap \<Rightarrow> 'a ptr option" where
  "list_get_nth head n h = do { pos \<leftarrow> load_next head h; list_get_nth_loop pos head 0 n h }"

section \<open>Chains of nodes\<close>



lemma load_At [heap_simps]: "load (At a) h = h a"
  by (simp add: load_def)

lemma load_Null [simp]: "load Null h = None"
  and load_Poison1 [simp]: "load Poison1 h = None"
  and load_Poison2 [simp]: "load Poison2 h = None"
  by (simp_all add: load_def)

lemma load_next_At [heap_simps]: "load_next (At a) h = map_option lnext (h a)"
  by (simp add: load_next_def heap_simps)

lemma load_prev_At [heap_simps]: "load_prev (At a) h = map_option lprev (h a)"
  by (simp add: load_prev_def heap_simps)

lemma store_next_At [heap_simps]:
  "store_next (At a) v h = map_option (\<lambda>n. h(a \<mapsto> n\<lparr>lnext := v\<rparr>)) (h a)"
  by (simp add: store_next_def)

lemma store_prev_At [heap_simps]:
  "store_prev (At a) v h = map_option (\<lambda>n. h(a \<mapsto> n\<lparr>lprev := v\<rparr>)) (h a)"
  by (simp add: store_prev_def)

definition link :: "'a list_heap \<Rightarrow> 'a \<Rightarrow> 'a \<Rightarrow> bool" where
  "link h a b \<longleftrightarrow> load_next (At a) h = Some (At b) \<and> load_prev (At b) h = Some (At a)"

fun chain :: "'a list_heap \<Rightarrow> 'a list \<Rightarrow> bool" where
  "chain h (a # b # xs) = (link h a b \<and> chain h (b # xs))"
| "chain h _ = True"

definition dlist :: "'a list_heap \<Rightarrow> 'a \<Rightarrow> 'a list \<Rightarrow> bool" where
  "dlist h head xs \<longleftrightarrow> chain h (head # xs @ [head]) \<and> distinct (head # xs)"

lemma chain_append: "chain h (xs @ a # ys) \<longleftrightarrow> chain h (xs @ [a]) \<and> chain h (a # ys)"
proof (induction xs)
  case Nil
  then show ?case by simp
next
  case (Cons x xs)
  then show ?case by (cases xs) auto
qed

lemma chain_cong:
  assumes "chain h as"
    and "\<And>a. a \<in> set (butlast as) \<Longrightarrow> load_next (At a) h' = load_next (At a) h"
    and "\<And>a. a \<in> set (tl as) \<Longrightarrow> load_prev (At a) h' = load_prev (At a) h"
  shows "chain h' as"
  using assms
proof (induction h as rule: chain.induct)
  case (1 h a b xs)
  then have "link h' a b" by (simp add: link_def)
  moreover have "chain h' (b # xs)"
    using 1 by (intro "1.IH") (auto split: if_splits dest: in_set_butlastD in_set_tl)
  ultimately show ?case by simp
qed auto

lemma chain_frame:
  assumes "chain h as" "\<And>a. a \<in> set as \<Longrightarrow> h' a = h a"
  shows "chain h' as"
  by (rule chain_cong [OF assms(1)])
     (auto simp: heap_simps assms(2) dest: in_set_butlastD in_set_tl in_set_tl)

lemma dlist_frame:
  assumes "dlist h head xs" "\<And>a. a \<in> set (head # xs) \<Longrightarrow> h' a = h a"
  shows "dlist h' head xs"
  using assms chain_frame [of h "head # xs @ [head]" h'] by (auto simp: dlist_def)

lemma chain_dom: "chain h as \<Longrightarrow> 2 \<le> length as \<Longrightarrow> set as \<subseteq> dom h"
proof (induction h as rule: chain.induct)
  case (1 h a b xs)
  then show ?case by (cases xs) (auto simp: link_def heap_simps)
qed auto

lemma dlist_dom: "dlist h head xs \<Longrightarrow> set (head # xs) \<subseteq> dom h"
  using chain_dom [of h "head # xs @ [head]"] by (auto simp: dlist_def)


lemma store_next_view:
  assumes "a \<in> dom h"
  obtains h' where "store_next (At a) v h = Some h'"
    "\<And>b. load_next (At b) h' = (if b = a then Some v else load_next (At b) h)"
    "\<And>b. load_prev (At b) h' = load_prev (At b) h"
    "\<And>b. b \<noteq> a \<Longrightarrow> h' b = h b" "dom h' = dom h"
proof -
  obtain nd where "h a = Some nd" using assms by auto
  then show ?thesis
    by (intro that [of "h(a \<mapsto> nd\<lparr>lnext := v\<rparr>)"]) (auto simp: heap_simps)
qed

lemma store_prev_view:
  assumes "a \<in> dom h"
  obtains h' where "store_prev (At a) v h = Some h'"
    "\<And>b. load_next (At b) h' = load_next (At b) h"
    "\<And>b. load_prev (At b) h' = (if b = a then Some v else load_prev (At b) h)"
    "\<And>b. b \<noteq> a \<Longrightarrow> h' b = h b" "dom h' = dom h"
proof -
  obtain nd where "h a = Some nd" using assms by auto
  then show ?thesis
    by (intro that [of "h(a \<mapsto> nd\<lparr>lprev := v\<rparr>)"]) (auto simp: heap_simps)
qed

lemma raw_list_add_spec:
  assumes "p \<in> dom h" "n \<in> dom h" "new \<in> dom h" "new \<noteq> p" "new \<noteq> n"
  shows "\<exists>h'. raw_list_add (At new) (At p) (At n) h = Some h'
    \<and> (\<forall>a. load_next (At a) h' =
       (if a = p then Some (At new) else if a = new then Some (At n) else load_next (At a) h))
    \<and> (\<forall>a. load_prev (At a) h' =
       (if a = n then Some (At new) else if a = new then Some (At p) else load_prev (At a) h))
    \<and> (\<forall>a. a \<notin> {p, n, new} \<longrightarrow> h' a = h a) \<and> dom h' = dom h"
  using assms by (cases "p = n") (auto simp: raw_list_add_def heap_simps)

lemma raw_list_del_spec:
  assumes "p \<in> dom h" "n \<in> dom h"
  shows "\<exists>h'. raw_list_del (At p) (At n) h = Some h'
    \<and> (\<forall>a. load_next (At a) h' = (if a = p then Some (At n) else load_next (At a) h))
    \<and> (\<forall>a. load_prev (At a) h' = (if a = n then Some (At p) else load_prev (At a) h))
    \<and> (\<forall>a. a \<notin> {p, n} \<longrightarrow> h' a = h a) \<and> dom h' = dom h"
  using assms by (cases "p = n") (auto simp: raw_list_del_def heap_simps)

text \<open>
  A closed chain repeats its first node at the end and nothing else: dropping either end
  leaves distinct nodes.
\<close>

definition ring :: "'a list \<Rightarrow> bool" where
  "ring as \<longleftrightarrow> distinct (butlast as) \<and> distinct (tl as)"

lemma ring_closed [simp]: "ring (head # xs @ [head]) \<longleftrightarrow> distinct (head # xs)"
  by (auto simp: ring_def butlast_append)

lemma ring_splitD:
  assumes "ring (P @ p # n # Q)"
  shows "p \<notin> set P" "distinct P" "n \<notin> set (tl (P @ [p]))" "p \<notin> set (butlast (n # Q))" "n \<notin> set Q"
  using assms by (cases P; auto simp: ring_def butlast_append split: if_splits)+

lemma chain_halves:
  assumes "chain h (P @ [p])" "chain h (n # Q)" and r: "ring (P @ p # n # Q)"
    and nx: "\<And>a. a \<in> set (P @ p # n # Q) \<Longrightarrow> a \<noteq> p \<Longrightarrow> load_next (At a) h' = load_next (At a) h"
    and pv: "\<And>a. a \<in> set (P @ p # n # Q) \<Longrightarrow> a \<noteq> n \<Longrightarrow> load_prev (At a) h' = load_prev (At a) h"
  shows "chain h' (P @ [p])" "chain h' (n # Q)"
proof -
  note d = ring_splitD [OF r]
  show "chain h' (P @ [p])"
  proof (rule chain_cong [OF assms(1)])
    show "load_next (At a) h' = load_next (At a) h" if "a \<in> set (butlast (P @ [p]))" for a
      using that d nx by auto
    show "load_prev (At a) h' = load_prev (At a) h" if "a \<in> set (tl (P @ [p]))" for a
      using that d pv [of a] by (cases P) auto
  qed
  show "chain h' (n # Q)"
  proof (rule chain_cong [OF assms(2)])
    show "load_next (At a) h' = load_next (At a) h" if "a \<in> set (butlast (n # Q))" for a
      using that d nx [of a] by (auto split: if_splits dest: in_set_butlastD)
    show "load_prev (At a) h' = load_prev (At a) h" if "a \<in> set (tl (n # Q))" for a
      using that d pv [of a] by auto
  qed
qed

text \<open>
  The nodes \<open>M\<close> between \<open>p\<close> and \<open>n\<close> are exchanged for \<open>M'\<close>: it is enough that the
  operation writes no link outside the gap and chains \<open>M'\<close> into it.  Insertion is
  \<open>M = []\<close>, removal is \<open>M' = []\<close>.
\<close>

lemma chain_splice:
  assumes "chain h (P @ p # M @ n # Q)" and r: "ring (P @ p # M @ n # Q)"
    and "\<And>a. a \<in> set (P @ p # n # Q) \<Longrightarrow> a \<noteq> p \<Longrightarrow> load_next (At a) h' = load_next (At a) h"
    and "\<And>a. a \<in> set (P @ p # n # Q) \<Longrightarrow> a \<noteq> n \<Longrightarrow> load_prev (At a) h' = load_prev (At a) h"
    and "chain h' (p # M' @ [n])"
  shows "chain h' (P @ p # M' @ n # Q)"
proof -
  have c: "chain h (P @ [p])" "chain h (n # Q)"
    using assms(1) chain_append [of h P p "M @ n # Q"] chain_append [of h "p # M" n Q] by auto
  have "ring (P @ p # n # Q)"
    using r by (cases P) (auto simp: ring_def butlast_append split: if_splits)
  from chain_halves [OF c this assms(3,4)] assms(5) show ?thesis
    using chain_append [of h' P p "M' @ n # Q"] chain_append [of h' "p # M'" n Q] by auto
qed

text \<open>
  Every position of a closed list lies between a predecessor \<open>p\<close> and a successor \<open>n\<close>:
  the list is read as \<open>P @ [p]\<close> before the position and \<open>n # Q\<close> after it.
\<close>

definition gap :: "'a \<Rightarrow> 'a list \<Rightarrow> 'a list \<Rightarrow> 'a list \<Rightarrow> 'a \<Rightarrow> 'a \<Rightarrow> 'a list \<Rightarrow> bool" where
  "gap head xs ys P p n Q \<longleftrightarrow> head # xs = P @ [p] \<and> ys @ [head] = n # Q"

lemma gap_exists: "\<exists>P p n Q. gap head xs ys P p n Q"
proof -
  have "head # xs = butlast (head # xs) @ [last (head # xs)]"
    by (rule append_butlast_last_id [symmetric]) simp
  moreover have "ys @ [head] = hd (ys @ [head]) # tl (ys @ [head])"
    by simp
  ultimately show ?thesis unfolding gap_def by blast
qed

lemma gap_closed: "gap head xs ys P p n Q \<Longrightarrow> head # (xs @ M @ ys) @ [head] = P @ p # M @ n # Q"
  by (simp add: gap_def)

lemma gap_set:
  assumes "gap head xs ys P p n Q"
  shows "set (P @ p # n # Q) = set (head # xs @ ys)"
proof -
  have "set (head # (xs @ [] @ ys) @ [head]) = set (P @ p # [] @ n # Q)"
    by (simp only: gap_closed [OF assms])
  then show ?thesis by auto
qed

lemma dlist_gap:
  assumes "gap head xs ys P p n Q"
  shows "dlist h head (xs @ M @ ys) \<longleftrightarrow> chain h (P @ p # M @ n # Q) \<and> ring (P @ p # M @ n # Q)"
  unfolding dlist_def ring_closed [symmetric] gap_closed [OF assms] by simp


text \<open>
  Linking a new node between \<open>p\<close> and \<open>n\<close>; what stood between them before (\<open>M\<close>, nothing
  for an insertion) is bypassed.
\<close>

lemma dlist_raw_list_add:
  assumes d: "dlist h head (xs @ M @ ys)" and new: "new \<notin> set (head # xs @ M @ ys)" "new \<in> dom h"
    and g: "gap head xs ys P p n Q"
  shows "\<exists>h'. raw_list_add (At new) (At p) (At n) h = Some h' \<and> dlist h' head (xs @ new # ys)
           \<and> (\<forall>a. a \<notin> set (new # head # xs @ ys) \<longrightarrow> h' a = h a) \<and> dom h' = dom h"
proof -
  have c: "chain h (P @ p # M @ n # Q)" and r: "ring (P @ p # M @ n # Q)"
    using d dlist_gap [OF g, of h M] by auto
  have pn: "p \<in> set (head # xs @ ys)" "n \<in> set (head # xs @ ys)"
    using gap_set [OF g] by auto
  then have "p \<in> dom h" "n \<in> dom h" "new \<noteq> p" "new \<noteq> n" using dlist_dom [OF d] new by auto
  then obtain h' where h': "raw_list_add (At new) (At p) (At n) h = Some h'"
    and nx: "\<And>a. load_next (At a) h' =
       (if a = p then Some (At new) else if a = new then Some (At n) else load_next (At a) h)"
    and pv: "\<And>a. load_prev (At a) h' =
       (if a = n then Some (At new) else if a = new then Some (At p) else load_prev (At a) h)"
    and fr: "\<And>a. a \<notin> {p, n, new} \<Longrightarrow> h' a = h a" "dom h' = dom h"
    using raw_list_add_spec [of p h n new] new(2) by blast
  have "chain h' (P @ p # [new] @ n # Q)"
    by (rule chain_splice [OF c r]) (use nx pv new gap_set [OF g] pn in \<open>auto simp: link_def\<close>)
  then have "chain h' (head # (xs @ [new] @ ys) @ [head])"
    by (simp only: gap_closed [OF g])
  then have "dlist h' head (xs @ new # ys)"
    using d new by (auto simp: dlist_def)
  moreover have "h' a = h a" if "a \<notin> set (new # head # xs @ ys)" for a
    using that pn fr(1) [of a] by auto
  ultimately show ?thesis using h' fr(2) by blast
qed

lemma dlist_raw_list_del:
  assumes d: "dlist h head (xs @ M @ ys)" and g: "gap head xs ys P p n Q"
  shows "\<exists>h'. raw_list_del (At p) (At n) h = Some h' \<and> dlist h' head (xs @ ys)
           \<and> (\<forall>a. a \<notin> set (head # xs @ ys) \<longrightarrow> h' a = h a) \<and> dom h' = dom h"
proof -
  have c: "chain h (P @ p # M @ n # Q)" and r: "ring (P @ p # M @ n # Q)"
    using d dlist_gap [OF g, of h M] by auto
  have pn: "p \<in> set (head # xs @ ys)" "n \<in> set (head # xs @ ys)"
    using gap_set [OF g] by auto
  then have "p \<in> dom h" "n \<in> dom h" using dlist_dom [OF d] by auto
  then obtain h' where h': "raw_list_del (At p) (At n) h = Some h'"
    and nx: "\<And>a. load_next (At a) h' = (if a = p then Some (At n) else load_next (At a) h)"
    and pv: "\<And>a. load_prev (At a) h' = (if a = n then Some (At p) else load_prev (At a) h)"
    and fr: "\<And>a. a \<notin> {p, n} \<Longrightarrow> h' a = h a" "dom h' = dom h"
    using raw_list_del_spec [of p h n] by blast
  have "chain h' (P @ p # n # Q)"
    by (rule chain_splice [where M' = "[]", simplified, OF c r]) (use nx pv in \<open>auto simp: link_def\<close>)
  then have "dlist h' head (xs @ ys)"
    using d gap_closed [OF g, of "[]"] by (auto simp: dlist_def)
  moreover have "h' a = h a" if "a \<notin> set (head # xs @ ys)" for a
    using that pn fr(1) [of a] by auto
  ultimately show ?thesis using h' fr(2) by blast
qed

lemma dlist_neighbours:
  assumes "dlist h head (xs @ e # ys)" "gap head xs ys P p n Q"
  shows "load_prev (At e) h = Some (At p)" "load_next (At e) h = Some (At n)"
  using assms dlist_gap [OF assms(2), of h "[e]"] chain_append [of h P p "e # n # Q"]
  by (auto simp: link_def)

lemma dlist_head:
  assumes "dlist h head xs"
  shows "load_next (At head) h = Some (At (hd (xs @ [head])))"
    "load_prev (At head) h = Some (At (last (head # xs)))"
proof -
  show "load_next (At head) h = Some (At (hd (xs @ [head])))"
    using assms by (cases xs) (auto simp: dlist_def link_def)
  obtain P p n Q where g: "gap head xs [] P p n Q"
    using gap_exists [of head xs "[]"] by blast
  then have "link h p n"
    using assms dlist_gap [OF g, of h "[]"] chain_append [of h P p "n # Q"] by simp
  moreover have "last (head # xs) = p" "n = head"
    using g by (simp_all only: gap_def) auto
  ultimately show "load_prev (At head) h = Some (At (last (head # xs)))"
    by (simp only: link_def)
qed


subsection \<open>One list\<close>

lemma dlist_INIT_LIST_HEAD:
  assumes "a \<in> dom h"
  shows "\<exists>h'. INIT_LIST_HEAD (At a) h = Some h' \<and> dlist h' a []
           \<and> (\<forall>b. b \<noteq> a \<longrightarrow> h' b = h b) \<and> dom h' = dom h"
  using assms by (auto simp: INIT_LIST_HEAD_def heap_simps dlist_def link_def)

lemma dlist_list_empty: "dlist h head xs \<Longrightarrow> list_empty (At head) h = Some (xs = [])"
  by (cases xs) (auto simp: list_empty_def dlist_def link_def)

lemma dlist_list_add:
  assumes "dlist h head xs" "new \<notin> set (head # xs)" "new \<in> dom h"
  shows "\<exists>h'. list_add (At new) (At head) h = Some h' \<and> dlist h' head (new # xs)
           \<and> (\<forall>a. a \<notin> set (new # head # xs) \<longrightarrow> h' a = h a) \<and> dom h' = dom h"
proof -
  have "gap head [] xs [] head (hd (xs @ [head])) (tl (xs @ [head]))"
    by (simp add: gap_def)
  from dlist_raw_list_add [OF _ _ _ this, of h "[]" new] assms dlist_head [OF assms(1)]
  show ?thesis by (simp add: list_add_def)
qed

lemma dlist_list_add_tail:
  assumes "dlist h head xs" "new \<notin> set (head # xs)" "new \<in> dom h"
  shows "\<exists>h'. list_add_tail (At new) (At head) h = Some h' \<and> dlist h' head (xs @ [new])
           \<and> (\<forall>a. a \<notin> set (new # head # xs) \<longrightarrow> h' a = h a) \<and> dom h' = dom h"
proof -
  have "gap head xs [] (butlast (head # xs)) (last (head # xs)) head []"
    unfolding gap_def by (simp del: butlast.simps last.simps)
  from dlist_raw_list_add [OF _ _ _ this, of h "[]" new] assms dlist_head(2) [OF assms(1)]
  show ?thesis by (simp add: list_add_tail_def del: butlast.simps last.simps)
qed

lemma list_head_fields [simp]:
  "(nd :: 'a list_head)\<lparr>lnext := a, lprev := b\<rparr> = \<lparr>lnext = a, lprev = b\<rparr>"
  by (cases nd) simp

text \<open>
  The two loads and the call of \<^term>\<open>raw_list_del\<close> that open every removal: the entry is
  out of the list, its own node is not written.
\<close>

lemma dlist_unlink:
  assumes d: "dlist h head (xs @ e # ys)"
  obtains p n h1 where "load_prev (At e) h = Some p" "load_next (At e) h = Some n"
    "raw_list_del p n h = Some h1" "dlist h1 head (xs @ ys)"
    "e \<in> dom h1" "e \<notin> set (head # xs @ ys)"
    "\<And>a. a \<notin> set (head # xs @ ys) \<Longrightarrow> h1 a = h a" "dom h1 = dom h"
proof -
  obtain P p n Q where g: "gap head xs ys P p n Q"
    using gap_exists [of head xs ys] by blast
  have "e \<in> dom h" "e \<notin> set (head # xs @ ys)"
    using d dlist_dom [OF d] by (auto simp: dlist_def)
  then show ?thesis
    using that dlist_neighbours [OF d g] dlist_raw_list_del [of h head xs "[e]" ys P p n Q] d g
    by auto
qed

lemma dlist_list_del:
  assumes d: "dlist h head (xs @ e # ys)"
  shows "\<exists>h'. list_del (At e) h = Some h' \<and> dlist h' head (xs @ ys)
           \<and> h' e = Some \<lparr>lnext = Poison1, lprev = Poison2\<rparr>
           \<and> (\<forall>a. a \<notin> set (head # xs @ e # ys) \<longrightarrow> h' a = h a) \<and> dom h' = dom h"
proof -
  obtain p n h1 where u: "load_prev (At e) h = Some p" "load_next (At e) h = Some n"
    "raw_list_del p n h = Some h1" "dlist h1 head (xs @ ys)"
    and e: "e \<in> dom h1" "e \<notin> set (head # xs @ ys)"
    and fr: "\<And>a. a \<notin> set (head # xs @ ys) \<Longrightarrow> h1 a = h a" "dom h1 = dom h"
    using dlist_unlink [OF d] by metis
  define h2 where "h2 = h1(e \<mapsto> \<lparr>lnext = Poison1, lprev = Poison2\<rparr> :: 'a list_head)"
  have "list_del (At e) h = Some h2"
    using u e by (auto simp: list_del_def heap_simps h2_def)
  moreover have "dlist h2 head (xs @ ys)"
    by (rule dlist_frame [OF u(4)]) (use e in \<open>auto simp: h2_def\<close>)
  ultimately show ?thesis
    using fr e by (auto simp: h2_def)
qed

lemma dlist_list_del_init:
  assumes d: "dlist h head (xs @ e # ys)"
  shows "\<exists>h'. list_del_init (At e) h = Some h' \<and> dlist h' head (xs @ ys) \<and> dlist h' e []
           \<and> (\<forall>a. a \<notin> set (head # xs @ e # ys) \<longrightarrow> h' a = h a) \<and> dom h' = dom h"
proof -
  obtain p n h1 where u: "load_prev (At e) h = Some p" "load_next (At e) h = Some n"
    "raw_list_del p n h = Some h1" "dlist h1 head (xs @ ys)"
    and e: "e \<in> dom h1" "e \<notin> set (head # xs @ ys)"
    and fr: "\<And>a. a \<notin> set (head # xs @ ys) \<Longrightarrow> h1 a = h a" "dom h1 = dom h"
    using dlist_unlink [OF d] by metis
  obtain h2 where h2: "INIT_LIST_HEAD (At e) h1 = Some h2" "dlist h2 e []"
    "\<And>b. b \<noteq> e \<Longrightarrow> h2 b = h1 b" "dom h2 = dom h1"
    using dlist_INIT_LIST_HEAD [OF e(1)] by blast
  have "list_del_init (At e) h = Some h2"
    using u h2 by (simp add: list_del_init_def)
  moreover have "dlist h2 head (xs @ ys)"
    by (rule dlist_frame [OF u(4)]) (metis e(2) h2(3))
  ultimately show ?thesis
    using fr h2 by auto
qed

subsection \<open>Loops over a list\<close>

lemma chain_step:
  assumes "chain h (x # xs @ [head])"
  shows "load_next (At x) h = Some (At (hd (xs @ [head])))" "chain h (xs @ [head])"
  using assms by (cases xs; simp add: link_def)+

lemma list_count_loop_chain:
  assumes "chain h (xs @ [head])" "head \<notin> set xs"
  shows "list_count_loop (At (hd (xs @ [head]))) (At head) c h = Some (c + of_nat (length xs))"
  using assms
proof (induction xs arbitrary: c)
  case Nil
  then show ?case by (simp add: list_count_loop.simps)
next
  case (Cons x xs)
  from Cons.prems chain_step [of h x xs head] Cons.IH [of "c + 1"]
  show ?case by (subst list_count_loop.simps) (auto simp: algebra_simps)
qed

lemma list_contains_loop_chain:
  assumes "chain h (xs @ [head])" "head \<notin> set xs"
  shows "list_contains_loop (At (hd (xs @ [head]))) (At head) (At b) h = Some (b \<in> set xs)"
  using assms
proof (induction xs)
  case Nil
  then show ?case by (simp add: list_contains_loop.simps)
next
  case (Cons x xs)
  from Cons.prems chain_step [of h x xs head] Cons.IH
  show ?case by (subst list_contains_loop.simps) auto
qed

lemma list_get_nth_loop_chain:
  assumes "chain h (xs @ [head])" "head \<notin> set xs" "unat i + length xs < 2 ^ 64" "i \<le> n"
  shows "list_get_nth_loop (At (hd (xs @ [head]))) (At head) i n h =
     Some (if unat n - unat i < length xs then At (xs ! (unat n - unat i)) else Null)"
  using assms
proof (induction xs arbitrary: i)
  case Nil
  then show ?case by (simp add: list_get_nth_loop.simps)
next
  case (Cons x xs)
  note c = Cons.prems chain_step [of h x xs head]
  show ?case
  proof (cases "i = n")
    case True
    with c show ?thesis by (subst list_get_nth_loop.simps) auto
  next
    case False
    with Cons.prems have lt: "i < n" by simp
    have su: "unat (i + 1) = unat i + 1"
      using Cons.prems(3) by (simp add: unat_word_ariths)
    have "i + 1 \<le> n"
      using lt su by (simp add: word_le_nat_alt word_less_nat_alt)
    with Cons.IH [of "i + 1"] c su False lt show ?thesis
      by (subst list_get_nth_loop.simps)
        (auto simp: word_less_nat_alt nth_Cons' Suc_diff_le less_diff_conv2)
  qed
qed


subsection \<open>All the lists of a memory\<close>

text \<open>
  \<open>lists h F\<close>: memory \<open>h\<close> holds the lists \<open>F\<close>, a map from the head of each list to its
  entries; no node is on two lists.
\<close>

definition lists :: "'a list_heap \<Rightarrow> ('a \<rightharpoonup> 'a list) \<Rightarrow> bool" where
  "lists h F \<longleftrightarrow> (\<forall>r xs. F r = Some xs \<longrightarrow> dlist h r xs)
     \<and> (\<forall>r xs s ys. F r = Some xs \<longrightarrow> F s = Some ys \<longrightarrow> r \<noteq> s
          \<longrightarrow> set (r # xs) \<inter> set (s # ys) = {})"

definition members :: "('a \<rightharpoonup> 'a list) \<Rightarrow> 'a set" where
  "members F = {a. \<exists>r xs. F r = Some xs \<and> a \<in> set (r # xs)}"

lemma members_iff: "a \<in> members F \<longleftrightarrow> (\<exists>r xs. F r = Some xs \<and> a \<in> set (r # xs))"
  by (simp add: members_def)

lemma members_I: "F r = Some xs \<Longrightarrow> set (r # xs) \<subseteq> members F"
  unfolding members_def by blast

lemma listsD: "lists h F \<Longrightarrow> F r = Some xs \<Longrightarrow> dlist h r xs"
  by (simp add: lists_def)

lemma lists_apart:
  "lists h F \<Longrightarrow> F r = Some xs \<Longrightarrow> F s = Some ys \<Longrightarrow> r \<noteq> s \<Longrightarrow> set (r # xs) \<inter> set (s # ys) = {}"
  unfolding lists_def by blast

lemma lists_members_dom: "lists h F \<Longrightarrow> members F \<subseteq> dom h"
  using dlist_dom by (fastforce simp: members_iff lists_def)

text \<open>
  An operation that rewrites one list, taking nodes from outside the lists only, leaves
  the others as they were.
\<close>

lemma lists_upd:
  assumes F: "lists h F" "F r = Some xs" and d: "dlist h' r xs'"
    and N: "set xs' \<subseteq> set xs \<union> N" "N \<inter> members F = {}"
    and fr: "\<And>a. a \<notin> set (r # xs) \<union> N \<Longrightarrow> h' a = h a"
  shows "lists h' (F(r \<mapsto> xs'))"
proof -
  have sep: "set (s # ys) \<inter> (set (r # xs) \<union> N) = {}" if "F s = Some ys" "s \<noteq> r" for s ys
  proof -
    have "set (s # ys) \<subseteq> members F" using that(1) by (rule members_I)
    then show ?thesis using lists_apart [OF F(1) that(1) F(2) that(2)] N(2) by blast
  qed
  have "dlist h' s ys" if "F s = Some ys" "s \<noteq> r" for s ys
    using sep [OF that] fr by (intro dlist_frame [OF listsD [OF F(1) that(1)]]) blast
  moreover have "set (s # ys) \<inter> set (r # xs') = {}" if "F s = Some ys" "s \<noteq> r" for s ys
    using sep [OF that] N(1) by auto
  moreover have "set (s # ys) \<inter> set (t # zs) = {}"
    if "F s = Some ys" "F t = Some zs" "s \<noteq> t" for s t ys zs
    using lists_apart [OF F(1) that] .
  ultimately show ?thesis
    unfolding lists_def using d by (simp add: Int_commute del: set_simps)
qed

lemma lists_frame:
  assumes "lists h F" "\<And>a. a \<in> members F \<Longrightarrow> h' a = h a"
  shows "lists h' F"
  unfolding lists_def
proof (intro conjI allI impI)
  fix r xs assume "F r = Some xs"
  with assms show "dlist h' r xs"
    by (intro dlist_frame [OF listsD [OF assms(1)]]) (auto simp: members_iff)
next
  fix r xs s ys assume "F r = Some xs" "F s = Some ys" "r \<noteq> s"
  with assms(1) show "set (r # xs) \<inter> set (s # ys) = {}" by (rule lists_apart)
qed

lemma lists_new:
  assumes "lists h F" "a \<notin> members F" "a \<in> dom h"
  shows "\<exists>h'. INIT_LIST_HEAD (At a) h = Some h' \<and> lists h' (F(a \<mapsto> []))
           \<and> (\<forall>b. b \<noteq> a \<longrightarrow> h' b = h b) \<and> dom h' = dom h"
proof -
  obtain h' where h': "INIT_LIST_HEAD (At a) h = Some h'" "dlist h' a []"
    "\<And>b. b \<noteq> a \<Longrightarrow> h' b = h b" "dom h' = dom h"
    using dlist_INIT_LIST_HEAD [OF assms(3)] by blast
  have "lists h' F"
    by (rule lists_frame [OF assms(1)]) (metis assms(2) h'(3))
  moreover have "a \<notin> set (r # xs)" if "F r = Some xs" for r xs
    using that assms(2) by (auto simp: members_iff)
  ultimately have "lists h' (F(a \<mapsto> []))"
    using h'(2) by (auto simp: lists_def)
  with h' show ?thesis by blast
qed

lemma lists_list_add:
  assumes "lists h F" "F r = Some xs" "new \<notin> members F" "new \<in> dom h"
  shows "\<exists>h'. list_add (At new) (At r) h = Some h' \<and> lists h' (F(r \<mapsto> new # xs)) \<and> dom h' = dom h"
proof -
  have "new \<notin> set (r # xs)"
    using assms by (auto simp: members_iff)
  from dlist_list_add [OF listsD [OF assms(1,2)] this assms(4)]
  obtain h' where "list_add (At new) (At r) h = Some h'" "dlist h' r (new # xs)"
    "\<And>a. a \<notin> set (new # r # xs) \<Longrightarrow> h' a = h a" "dom h' = dom h" by blast
  then show ?thesis
    using lists_upd [OF assms(1,2), of h' "new # xs" "{new}"] assms(3) by auto
qed

lemma lists_list_add_tail:
  assumes "lists h F" "F r = Some xs" "new \<notin> members F" "new \<in> dom h"
  shows "\<exists>h'. list_add_tail (At new) (At r) h = Some h' \<and> lists h' (F(r \<mapsto> xs @ [new]))
           \<and> dom h' = dom h"
proof -
  have "new \<notin> set (r # xs)"
    using assms by (auto simp: members_iff)
  from dlist_list_add_tail [OF listsD [OF assms(1,2)] this assms(4)]
  obtain h' where "list_add_tail (At new) (At r) h = Some h'" "dlist h' r (xs @ [new])"
    "\<And>a. a \<notin> set (new # r # xs) \<Longrightarrow> h' a = h a" "dom h' = dom h" by blast
  then show ?thesis
    using lists_upd [OF assms(1,2), of h' "xs @ [new]" "{new}"] assms(3) by auto
qed

lemma lists_split_entry:
  assumes "lists h F" "F r = Some xs" "e \<in> set xs"
  obtains ys zs where "xs = ys @ e # zs" "remove1 e xs = ys @ zs"
proof -
  have "distinct xs" using listsD [OF assms(1,2)] by (simp add: dlist_def)
  with assms(3) obtain ys zs where "xs = ys @ e # zs" "e \<notin> set ys"
    by (metis split_list_first)
  with that show ?thesis by (simp add: remove1_split)
qed

lemma lists_list_del:
  assumes "lists h F" "F r = Some xs" "e \<in> set xs"
  shows "\<exists>h'. list_del (At e) h = Some h' \<and> lists h' (F(r \<mapsto> remove1 e xs))
           \<and> h' e = Some \<lparr>lnext = Poison1, lprev = Poison2\<rparr> \<and> dom h' = dom h"
proof -
  obtain ys zs where xs: "xs = ys @ e # zs" "remove1 e xs = ys @ zs"
    by (rule lists_split_entry [OF assms])
  from dlist_list_del listsD [OF assms(1,2)]
  obtain h' where "list_del (At e) h = Some h'" "dlist h' r (ys @ zs)"
    "h' e = Some \<lparr>lnext = Poison1, lprev = Poison2\<rparr>"
    "\<And>a. a \<notin> set (r # xs) \<Longrightarrow> h' a = h a" "dom h' = dom h"
    unfolding xs by metis
  then show ?thesis
    using lists_upd [OF assms(1,2), of h' "ys @ zs" "{}"] xs by auto
qed

lemma lists_list_empty:
  "lists h F \<Longrightarrow> F r = Some xs \<Longrightarrow> list_empty (At r) h = Some (xs = [])"
  by (rule dlist_list_empty) (rule listsD)

lemma lists_first:
  "lists h F \<Longrightarrow> F r = Some (x # xs) \<Longrightarrow> load_next (At r) h = Some (At x)"
  using dlist_head(1) [OF listsD] by fastforce


lemma lists_unlink:
  assumes "lists h F" "F r = Some xs" "e \<in> set xs"
  obtains p n h1 where "load_prev (At e) h = Some p" "load_next (At e) h = Some n"
    "raw_list_del p n h = Some h1" "lists h1 (F(r \<mapsto> remove1 e xs))"
    "e \<notin> members (F(r \<mapsto> remove1 e xs))" "e \<in> dom h1" "dom h1 = dom h"
proof -
  obtain ys zs where xs: "xs = ys @ e # zs" "remove1 e xs = ys @ zs"
    by (rule lists_split_entry [OF assms])
  obtain p n h1 where u: "load_prev (At e) h = Some p" "load_next (At e) h = Some n"
    "raw_list_del p n h = Some h1" "dlist h1 r (ys @ zs)" "e \<in> dom h1" "e \<notin> set (r # ys @ zs)"
    "\<And>a. a \<notin> set (r # ys @ zs) \<Longrightarrow> h1 a = h a" "dom h1 = dom h"
    using dlist_unlink [of h r ys e zs] listsD [OF assms(1,2)] unfolding xs by metis
  have "lists h1 (F(r \<mapsto> ys @ zs))"
    using lists_upd [OF assms(1,2) u(4), of "{}"] u(7) xs by auto
  moreover have "e \<notin> members (F(r \<mapsto> ys @ zs))"
    using u(6) lists_apart [OF assms(1) _ assms(2)] assms(3)
    by (fastforce simp: members_iff split: if_splits)
  ultimately show ?thesis using that u xs by simp
qed

lemma lists_list_move:
  assumes "lists h F" "F r = Some xs" "e \<in> set xs" "F1 = F(r \<mapsto> remove1 e xs)" "F1 s = Some ys"
  shows "\<exists>h'. list_move (At e) (At s) h = Some h' \<and> lists h' (F1(s \<mapsto> e # ys)) \<and> dom h' = dom h"
proof -
  obtain p n h1 where u: "load_prev (At e) h = Some p" "load_next (At e) h = Some n"
    "raw_list_del p n h = Some h1" "lists h1 F1" "e \<notin> members F1" "e \<in> dom h1" "dom h1 = dom h"
    using lists_unlink [OF assms(1-3)] unfolding assms(4) by metis
  from lists_list_add [OF u(4) assms(5) u(5,6)] u show ?thesis
    by (auto simp: list_move_def)
qed

lemma lists_list_move_tail:
  assumes "lists h F" "F r = Some xs" "e \<in> set xs" "F1 = F(r \<mapsto> remove1 e xs)" "F1 s = Some ys"
  shows "\<exists>h'. list_move_tail (At e) (At s) h = Some h' \<and> lists h' (F1(s \<mapsto> ys @ [e]))
           \<and> dom h' = dom h"
proof -
  obtain p n h1 where u: "load_prev (At e) h = Some p" "load_next (At e) h = Some n"
    "raw_list_del p n h = Some h1" "lists h1 F1" "e \<notin> members F1" "e \<in> dom h1" "dom h1 = dom h"
    using lists_unlink [OF assms(1-3)] unfolding assms(4) by metis
  from lists_list_add_tail [OF u(4) assms(5) u(5,6)] u show ?thesis
    by (auto simp: list_move_tail_def)
qed

lemma lists_list_rotate_left:
  assumes "lists h F" "F r = Some xs"
  shows "\<exists>h'. list_rotate_left (At r) h = Some h' \<and> lists h' (F(r \<mapsto> rotate1 xs)) \<and> dom h' = dom h"
proof (cases xs)
  case Nil
  with assms have "F(r \<mapsto> []) = F" by auto
  with Nil assms lists_list_empty [OF assms] show ?thesis
    by (simp add: list_rotate_left_def)
next
  case (Cons x ys)
  with lists_list_move_tail [OF assms, of x _ r ys] lists_list_empty [OF assms]
    lists_first [OF assms(1), of r x ys] assms
  show ?thesis by (simp add: list_rotate_left_def)
qed

subsection \<open>Splicing and cutting\<close>

lemma chain_ends:
  "xs \<noteq> [] \<Longrightarrow> chain h (a # xs @ [b]) \<longleftrightarrow> link h a (hd xs) \<and> chain h xs \<and> link h (last xs) b"
proof (induction xs arbitrary: a rule: list_nonempty_induct)
  case (single x)
  then show ?case by simp
next
  case (cons x xs)
  obtain y ys where "xs = y # ys" using cons(1) by (cases xs) auto
  then show ?case using cons(2) [of x] by auto
qed

lemma raw_list_splice_spec:
  assumes "load_next (At l) h = Some (At f)" "load_prev (At l) h = Some (At t)"
    and "{p, n, f, t} \<subseteq> dom h" "p \<noteq> t" "f \<noteq> n"
  shows "\<exists>h'. raw_list_splice (At l) (At p) (At n) h = Some h'
    \<and> (\<forall>a. load_next (At a) h' =
       (if a = p then Some (At f) else if a = t then Some (At n) else load_next (At a) h))
    \<and> (\<forall>a. load_prev (At a) h' =
       (if a = f then Some (At p) else if a = n then Some (At t) else load_prev (At a) h))
    \<and> (\<forall>a. a \<notin> {p, n, f, t} \<longrightarrow> h' a = h a) \<and> dom h' = dom h"
proof -
  obtain h1 where 1: "store_prev (At f) (At p) h = Some h1"
    "\<And>b. load_next (At b) h1 = load_next (At b) h"
    "\<And>b. load_prev (At b) h1 = (if b = f then Some (At p) else load_prev (At b) h)"
    "\<And>b. b \<noteq> f \<Longrightarrow> h1 b = h b" "dom h1 = dom h"
    by (rule store_prev_view [of f h "At p"]) (use assms(3) in auto)
  obtain h2 where 2: "store_next (At p) (At f) h1 = Some h2"
    "\<And>b. load_next (At b) h2 = (if b = p then Some (At f) else load_next (At b) h1)"
    "\<And>b. load_prev (At b) h2 = load_prev (At b) h1"
    "\<And>b. b \<noteq> p \<Longrightarrow> h2 b = h1 b" "dom h2 = dom h1"
    by (rule store_next_view [of p h1 "At f"]) (use assms(3) 1(5) in auto)
  obtain h3 where 3: "store_next (At t) (At n) h2 = Some h3"
    "\<And>b. load_next (At b) h3 = (if b = t then Some (At n) else load_next (At b) h2)"
    "\<And>b. load_prev (At b) h3 = load_prev (At b) h2"
    "\<And>b. b \<noteq> t \<Longrightarrow> h3 b = h2 b" "dom h3 = dom h2"
    by (rule store_next_view [of t h2 "At n"]) (use assms(3) 1(5) 2(5) in auto)
  obtain h4 where 4: "store_prev (At n) (At t) h3 = Some h4"
    "\<And>b. load_next (At b) h4 = load_next (At b) h3"
    "\<And>b. load_prev (At b) h4 = (if b = n then Some (At t) else load_prev (At b) h3)"
    "\<And>b. b \<noteq> n \<Longrightarrow> h4 b = h3 b" "dom h4 = dom h3"
    by (rule store_prev_view [of n h3 "At t"]) (use assms(3) 1(5) 2(5) 3(5) in auto)
  have "raw_list_splice (At l) (At p) (At n) h = Some h4"
    using 1(1) 2(1) 3(1) 4(1) assms(1,2) by (simp add: raw_list_splice_def)
  moreover have "\<forall>a. load_next (At a) h4 =
       (if a = p then Some (At f) else if a = t then Some (At n) else load_next (At a) h)"
    using assms(4) by (simp add: 1(2) 2(2) 3(2) 4(2))
  moreover have "\<forall>a. load_prev (At a) h4 =
       (if a = f then Some (At p) else if a = n then Some (At t) else load_prev (At a) h)"
    using assms(5) by (simp add: 1(3) 2(3) 3(3) 4(3))
  moreover have "\<forall>a. a \<notin> {p, n, f, t} \<longrightarrow> h4 a = h a"
    by (simp add: 1(4) 2(4) 3(4) 4(4))
  moreover have "dom h4 = dom h" by (simp only: 1(5) 2(5) 3(5) 4(5))
  ultimately show ?thesis by blast
qed

lemma dlist_raw_list_splice:
  assumes dl: "dlist h l xs" "xs \<noteq> []" and d: "dlist h head (ys @ zs)"
    and sep: "set (l # xs) \<inter> set (head # ys @ zs) = {}" and g: "gap head ys zs P p n Q"
  shows "\<exists>h'. raw_list_splice (At l) (At p) (At n) h = Some h' \<and> dlist h' head (ys @ xs @ zs)
           \<and> (\<forall>a. a \<notin> set (head # xs @ ys @ zs) \<longrightarrow> h' a = h a) \<and> dom h' = dom h"
proof -
  let ?f = "hd xs" and ?t = "last xs"
  have ld: "load_next (At l) h = Some (At ?f)" "load_prev (At l) h = Some (At ?t)"
    using dlist_head [OF dl(1)] dl(2) by auto
  have c: "chain h (P @ p # n # Q)" and r: "ring (P @ p # n # Q)"
    using d dlist_gap [OF g, of h "[]"] by auto
  have pn: "p \<in> set (head # ys @ zs)" "n \<in> set (head # ys @ zs)"
    using gap_set [OF g] by auto
  have ft: "?f \<in> set xs" "?t \<in> set xs" using dl(2) by auto
  have "{p, n, ?f, ?t} \<subseteq> dom h"
    using pn ft dlist_dom [OF d] dlist_dom [OF dl(1)] by auto
  moreover have "p \<noteq> ?t" "?f \<noteq> n" using pn ft sep by auto
  ultimately obtain h' where h': "raw_list_splice (At l) (At p) (At n) h = Some h'"
    and nx: "\<And>a. load_next (At a) h' =
       (if a = p then Some (At ?f) else if a = ?t then Some (At n) else load_next (At a) h)"
    and pv: "\<And>a. load_prev (At a) h' =
       (if a = ?f then Some (At p) else if a = n then Some (At ?t) else load_prev (At a) h)"
    and fr: "\<And>a. a \<notin> {p, n, ?f, ?t} \<Longrightarrow> h' a = h a" "dom h' = dom h"
    using raw_list_splice_spec [OF ld, of p n] by blast
  have dx: "distinct xs" using dl(1) by (simp add: dlist_def)
  have cx: "chain h xs"
    using dl chain_ends [of xs h l l] by (simp add: dlist_def)
  have "chain h' xs"
  proof (rule chain_cong [OF cx])
    show "load_next (At a) h' = load_next (At a) h" if "a \<in> set (butlast xs)" for a
      using that nx pn sep dx dl(2) append_butlast_last_id [OF dl(2)]
      by (metis (no_types, lifting) IntI UnCI distinct_butlast not_distinct_conv_prefix
          in_set_butlastD empty_iff list.set_intros(2))
    show "load_prev (At a) h' = load_prev (At a) h" if "a \<in> set (tl xs)" for a
      using that pv pn sep dx by (cases xs) auto
  qed
  moreover have "link h' p ?f" "link h' ?t n"
    using nx pv pn ft sep by (auto simp: link_def)
  ultimately have m: "chain h' (p # xs @ [n])"
    using chain_ends [OF dl(2), of h' p n] by simp
  have out: "a \<noteq> ?f" "a \<noteq> ?t" if "a \<in> set (P @ p # n # Q)" for a
    using that ft sep unfolding gap_set [OF g] by auto
  have "chain h' (P @ p # xs @ n # Q)"
    by (rule chain_splice [of h P p "[]" n Q h' xs]) (simp_all only: nx pv out if_False append_Nil c r m)
  then have "chain h' (head # (ys @ xs @ zs) @ [head])"
    by (simp only: gap_closed [OF g])
  then have "dlist h' head (ys @ xs @ zs)"
    using d dl sep by (auto simp: dlist_def)
  moreover have "h' a = h a" if "a \<notin> set (head # xs @ ys @ zs)" for a
    using that pn ft fr(1) [of a] by auto
  ultimately show ?thesis using h' fr(2) by blast
qed


lemma members_upd: "members (F(r \<mapsto> xs)) = members (F(r := None)) \<union> set (r # xs)"
  by (auto simp: members_def split: if_splits)

lemma members_drop: "members (F(r := None)) \<subseteq> members F"
  by (auto simp: members_def split: if_splits)

text \<open>
  Taking list \<open>r\<close> apart: its nodes, the head included, are then outside the lists.
\<close>

lemma lists_drop:
  assumes "lists h F" "F r = Some xs"
  shows "lists h (F(r := None))" "set (r # xs) \<inter> members (F(r := None)) = {}"
proof -
  show "lists h (F(r := None))"
    using assms(1) unfolding lists_def by (simp del: set_simps)
  show "set (r # xs) \<inter> members (F(r := None)) = {}"
    using lists_apart [OF assms(1,2)] unfolding members_def by (fastforce split: if_splits)
qed

lemma lists_raw_list_splice:
  assumes L: "lists h F" "F r = Some xs" "xs \<noteq> []" "F s = Some (ys @ zs)" "r \<noteq> s"
    and g: "gap s ys zs P p n Q"
  shows "\<exists>h'. raw_list_splice (At r) (At p) (At n) h = Some h'
           \<and> lists h' ((F(r := None))(s \<mapsto> ys @ xs @ zs)) \<and> h' r = h r \<and> dom h' = dom h"
proof -
  have sep: "set (r # xs) \<inter> set (s # ys @ zs) = {}"
    using lists_apart [OF L(1,2,4,5)] .
  obtain h' where h': "raw_list_splice (At r) (At p) (At n) h = Some h'"
    "dlist h' s (ys @ xs @ zs)"
    "\<And>a. a \<notin> set (s # xs @ ys @ zs) \<Longrightarrow> h' a = h a" "dom h' = dom h"
    using dlist_raw_list_splice [OF listsD [OF L(1,2)] L(3) listsD [OF L(1,4)] sep g] by blast
  have "lists h' ((F(r := None))(s \<mapsto> ys @ xs @ zs))"
    by (rule lists_upd [OF lists_drop(1) [OF L(1,2)] _ h'(2), of _ "set xs"])
       (use L(4,5) lists_drop(2) [OF L(1,2)] h'(3) in auto)
  moreover have "r \<notin> set (s # xs @ ys @ zs)"
    using sep listsD [OF L(1,2)] by (auto simp: dlist_def)
  ultimately show ?thesis using h' by blast
qed

lemma gap_front: "gap s [] ys [] s (hd (ys @ [s])) (tl (ys @ [s]))"
  by (simp add: gap_def)

lemma gap_back: "gap s ys [] (butlast (s # ys)) (last (s # ys)) s []"
  unfolding gap_def by (simp del: butlast.simps last.simps)

lemma lists_splice_reset:
  assumes L: "lists h F" "F r = Some xs" "xs \<noteq> []" "F s = Some (ys @ zs)" "r \<noteq> s"
    and g: "gap s ys zs P p n Q"
  shows "\<exists>h1 h2. raw_list_splice (At r) (At p) (At n) h = Some h1
           \<and> INIT_LIST_HEAD (At r) h1 = Some h2
           \<and> lists h2 (F(r \<mapsto> [], s \<mapsto> ys @ xs @ zs)) \<and> dom h2 = dom h"
proof -
  let ?G = "(F(r := None))(s \<mapsto> ys @ xs @ zs)"
  obtain h1 where h1: "raw_list_splice (At r) (At p) (At n) h = Some h1"
    "lists h1 ?G" "dom h1 = dom h"
    using lists_raw_list_splice [OF assms] by blast
  have "r \<notin> members ?G"
    using lists_drop(2) [OF L(1,2)] lists_apart [OF L(1,2,4,5)] listsD [OF L(1,2)]
    by (auto simp: members_def dlist_def split: if_splits)
  moreover have "r \<in> dom h1"
    using dlist_dom [OF listsD [OF L(1,2)]] h1(3) by auto
  ultimately obtain h2 where "INIT_LIST_HEAD (At r) h1 = Some h2" "lists h2 (?G(r \<mapsto> []))"
    "dom h2 = dom h1"
    using lists_new [OF h1(2)] by blast
  moreover have "?G(r \<mapsto> []) = F(r \<mapsto> [], s \<mapsto> ys @ xs @ zs)"
    using L(5) by auto
  ultimately show ?thesis using h1 by auto
qed

lemma lists_list_splice_init:
  assumes L: "lists h F" "F r = Some xs" "F s = Some ys" "r \<noteq> s"
  shows "\<exists>h'. list_splice_init (At r) (At s) h = Some h' \<and> lists h' (F(r \<mapsto> [], s \<mapsto> xs @ ys))
           \<and> dom h' = dom h"
proof (cases "xs = []")
  case True
  then have "F(r \<mapsto> [], s \<mapsto> xs @ ys) = F" using L by auto
  with True lists_list_empty [OF L(1,2)] L(1) show ?thesis
    by (simp add: list_splice_init_def)
next
  case False
  from lists_splice_reset [OF L(1,2) False _ L(4) gap_front, of ys] L(3) False
  show ?thesis
    using lists_list_empty [OF L(1,2)] dlist_head(1) [OF listsD [OF L(1,3)]]
    by (auto simp: list_splice_init_def)
qed

lemma lists_list_splice_tail_init:
  assumes L: "lists h F" "F r = Some xs" "F s = Some ys" "r \<noteq> s"
  shows "\<exists>h'. list_splice_tail_init (At r) (At s) h = Some h' \<and> lists h' (F(r \<mapsto> [], s \<mapsto> ys @ xs))
           \<and> dom h' = dom h"
proof (cases "xs = []")
  case True
  then have "F(r \<mapsto> [], s \<mapsto> ys @ xs) = F" using L by auto
  with True lists_list_empty [OF L(1,2)] L(1) show ?thesis
    by (simp add: list_splice_tail_init_def)
next
  case False
  from lists_splice_reset [OF L(1,2) False _ L(4) gap_back, of ys] L(3) False
  show ?thesis
    using lists_list_empty [OF L(1,2)] dlist_head(2) [OF listsD [OF L(1,3)]]
    by (auto simp: list_splice_tail_init_def simp del: last.simps)
qed

text \<open>The variants without re-initialisation leave the emptied head outside the lists.\<close>

lemma lists_list_splice:
  assumes L: "lists h F" "F r = Some xs" "xs \<noteq> []" "F s = Some ys" "r \<noteq> s"
  shows "\<exists>h'. list_splice (At r) (At s) h = Some h'
           \<and> lists h' ((F(r := None))(s \<mapsto> xs @ ys)) \<and> dom h' = dom h"
  using lists_raw_list_splice [OF L(1,2,3) _ L(5) gap_front, of ys] L(3,4)
    lists_list_empty [OF L(1,2)] dlist_head(1) [OF listsD [OF L(1,4)]]
  by (auto simp: list_splice_def)

lemma lists_list_splice_tail:
  assumes L: "lists h F" "F r = Some xs" "xs \<noteq> []" "F s = Some ys" "r \<noteq> s"
  shows "\<exists>h'. list_splice_tail (At r) (At s) h = Some h'
           \<and> lists h' ((F(r := None))(s \<mapsto> ys @ xs)) \<and> dom h' = dom h"
  using lists_raw_list_splice [OF L(1,2,3) _ L(5) gap_back, of ys] L(3,4)
    lists_list_empty [OF L(1,2)] dlist_head(2) [OF listsD [OF L(1,4)]]
  by (auto simp: list_splice_tail_def simp del: last.simps)

lemma list_replace_eq:
  assumes "load_next (At e) h = Some (At n)" "load_prev (At e) h = Some (At p)"
    and "{p, n, new} \<subseteq> dom h" "e \<notin> {p, n, new}" "new \<notin> {p, n}"
  shows "list_replace (At e) (At new) h = raw_list_add (At new) (At p) (At n) h"
  using assms
  by (cases "p = n") (auto simp: list_replace_def raw_list_add_def heap_simps fun_upd_twist)

lemma dlist_list_replace:
  assumes d: "dlist h head (xs @ e # ys)" and new: "new \<notin> set (head # xs @ e # ys)" "new \<in> dom h"
  shows "\<exists>h'. list_replace (At e) (At new) h = Some h' \<and> dlist h' head (xs @ new # ys)
           \<and> (\<forall>a. a \<notin> set (new # head # xs @ ys) \<longrightarrow> h' a = h a) \<and> dom h' = dom h"
proof -
  obtain P p n Q where g: "gap head xs ys P p n Q"
    using gap_exists [of head xs ys] by blast
  have pn: "p \<in> set (head # xs @ ys)" "n \<in> set (head # xs @ ys)"
    using gap_set [OF g] by auto
  have "{p, n, new} \<subseteq> dom h" "e \<notin> {p, n, new}" "new \<notin> {p, n}"
    using pn dlist_dom [OF d] new d by (auto simp: dlist_def)
  then show ?thesis
    using list_replace_eq [OF dlist_neighbours(2,1) [OF d g]] d new
      dlist_raw_list_add [of h head xs "[e]" ys new P p n Q] g by simp
qed

lemma raw_list_cut_position_spec:
  assumes ld: "load_next (At e) h = Some (At n)" "load_next (At head) h = Some (At f)"
    and dm: "{l, f, e, head, n} \<subseteq> dom h" and ne: "l \<notin> {f, e, head, n}" "e \<noteq> head" "f \<noteq> n"
  shows "\<exists>h'. raw_list_cut_position (At l) (At head) (At e) h = Some h'
    \<and> (\<forall>a. load_next (At a) h' = (if a = head then Some (At n) else if a = e then Some (At l)
           else if a = l then Some (At f) else load_next (At a) h))
    \<and> (\<forall>a. load_prev (At a) h' = (if a = n then Some (At head) else if a = l then Some (At e)
           else if a = f then Some (At l) else load_prev (At a) h))
    \<and> (\<forall>a. a \<notin> {l, f, e, head, n} \<longrightarrow> h' a = h a) \<and> dom h' = dom h"
proof -
  obtain h1 where 1: "store_next (At l) (At f) h = Some h1"
    "\<And>b. load_next (At b) h1 = (if b = l then Some (At f) else load_next (At b) h)"
    "\<And>b. load_prev (At b) h1 = load_prev (At b) h"
    "\<And>b. b \<noteq> l \<Longrightarrow> h1 b = h b" "dom h1 = dom h"
    by (rule store_next_view [of l h "At f"]) (use dm in auto)
  obtain h2 where 2: "store_prev (At f) (At l) h1 = Some h2"
    "\<And>b. load_next (At b) h2 = load_next (At b) h1"
    "\<And>b. load_prev (At b) h2 = (if b = f then Some (At l) else load_prev (At b) h1)"
    "\<And>b. b \<noteq> f \<Longrightarrow> h2 b = h1 b" "dom h2 = dom h"
    by (rule store_prev_view [of f h1 "At l"]) (use dm 1(5) in auto)
  obtain h3 where 3: "store_prev (At l) (At e) h2 = Some h3"
    "\<And>b. load_next (At b) h3 = load_next (At b) h2"
    "\<And>b. load_prev (At b) h3 = (if b = l then Some (At e) else load_prev (At b) h2)"
    "\<And>b. b \<noteq> l \<Longrightarrow> h3 b = h2 b" "dom h3 = dom h"
    by (rule store_prev_view [of l h2 "At e"]) (use dm 2(5) in auto)
  obtain h4 where 4: "store_next (At e) (At l) h3 = Some h4"
    "\<And>b. load_next (At b) h4 = (if b = e then Some (At l) else load_next (At b) h3)"
    "\<And>b. load_prev (At b) h4 = load_prev (At b) h3"
    "\<And>b. b \<noteq> e \<Longrightarrow> h4 b = h3 b" "dom h4 = dom h"
    by (rule store_next_view [of e h3 "At l"]) (use dm 3(5) in auto)
  obtain h5 where 5: "store_next (At head) (At n) h4 = Some h5"
    "\<And>b. load_next (At b) h5 = (if b = head then Some (At n) else load_next (At b) h4)"
    "\<And>b. load_prev (At b) h5 = load_prev (At b) h4"
    "\<And>b. b \<noteq> head \<Longrightarrow> h5 b = h4 b" "dom h5 = dom h"
    by (rule store_next_view [of head h4 "At n"]) (use dm 4(5) in auto)
  obtain h6 where 6: "store_prev (At n) (At head) h5 = Some h6"
    "\<And>b. load_next (At b) h6 = load_next (At b) h5"
    "\<And>b. load_prev (At b) h6 = (if b = n then Some (At head) else load_prev (At b) h5)"
    "\<And>b. b \<noteq> n \<Longrightarrow> h6 b = h5 b" "dom h6 = dom h"
    by (rule store_prev_view [of n h5 "At head"]) (use dm 5(5) in auto)
  have "raw_list_cut_position (At l) (At head) (At e) h = Some h6"
    using 1(1) 2(1) 3(1) 4(1) 5(1) 6(1) ld by (simp add: raw_list_cut_position_def 1(2))
  then show ?thesis
    by (simp add: 1(2-4) 2(2-4) 3(2-4) 4(2-4) 5(2-4) 6(2-5))
qed

lemma chain_inner:
  assumes "chain h xs" "distinct xs"
    and "\<And>a. a \<in> set xs \<Longrightarrow> a \<noteq> last xs \<Longrightarrow> load_next (At a) h' = load_next (At a) h"
    and "\<And>a. a \<in> set xs \<Longrightarrow> a \<noteq> hd xs \<Longrightarrow> load_prev (At a) h' = load_prev (At a) h"
  shows "chain h' xs"
proof (rule chain_cong [OF assms(1)])
  show "load_next (At a) h' = load_next (At a) h" if "a \<in> set (butlast xs)" for a
    using that assms(2,3) by (cases xs rule: rev_cases) auto
  show "load_prev (At a) h' = load_prev (At a) h" if "a \<in> set (tl xs)" for a
    using that assms(2,4) by (cases xs) auto
qed

lemma dlist_raw_list_cut_position:
  assumes d: "dlist h head (xs @ e # ys)" and l: "l \<notin> set (head # xs @ e # ys)" "l \<in> dom h"
  shows "\<exists>h'. raw_list_cut_position (At l) (At head) (At e) h = Some h'
           \<and> dlist h' l (xs @ [e]) \<and> dlist h' head ys
           \<and> (\<forall>a. a \<notin> set (l # head # xs @ e # ys) \<longrightarrow> h' a = h a) \<and> dom h' = dom h"
proof -
  let ?n = "hd (ys @ [head])" and ?f = "hd (xs @ [e])"
  have c: "chain h (head # (xs @ [e]) @ ys @ [head])" and di: "distinct (head # xs @ e # ys)"
    using d by (simp_all add: dlist_def)
  have c1: "chain h (head # (xs @ [e]) @ [?n])" and c2: "chain h (e # ys @ [head])"
    using c chain_append [of h "head # xs" e "ys @ [head]"] chain_append [of h "head # xs" e "[?n]"]
    by (cases ys; simp)+
  have ld: "load_next (At e) h = Some (At ?n)" "load_next (At head) h = Some (At ?f)"
    using chain_step(1) [OF c2] dlist_head(1) [OF d] by (auto simp: hd_append)
  have st: "?f \<in> set (xs @ [e])" "?n \<in> set (ys @ [head])"
    by (cases xs; simp) (cases ys; simp)
  have "\<exists>h'. raw_list_cut_position (At l) (At head) (At e) h = Some h'
    \<and> (\<forall>a. load_next (At a) h' = (if a = head then Some (At ?n) else if a = e then Some (At l)
           else if a = l then Some (At ?f) else load_next (At a) h))
    \<and> (\<forall>a. load_prev (At a) h' = (if a = ?n then Some (At head) else if a = l then Some (At e)
           else if a = ?f then Some (At l) else load_prev (At a) h))
    \<and> (\<forall>a. a \<notin> {l, ?f, e, head, ?n} \<longrightarrow> h' a = h a) \<and> dom h' = dom h"
    by (rule raw_list_cut_position_spec [OF ld]) (use st di l dlist_dom [OF d] in auto)
  then obtain h' where h': "raw_list_cut_position (At l) (At head) (At e) h = Some h'"
    and nx: "\<And>a. load_next (At a) h' = (if a = head then Some (At ?n) else if a = e then Some (At l)
           else if a = l then Some (At ?f) else load_next (At a) h)"
    and pv: "\<And>a. load_prev (At a) h' = (if a = ?n then Some (At head) else if a = l then Some (At e)
           else if a = ?f then Some (At l) else load_prev (At a) h)"
    and fr: "\<And>a. a \<notin> {l, ?f, e, head, ?n} \<Longrightarrow> h' a = h a" "dom h' = dom h" by blast
  have xs: "a \<noteq> head" "a \<noteq> l" "a \<noteq> ?n" if "a \<in> set (xs @ [e])" for a
    using that st(2) di l by auto
  have ys: "a \<noteq> e" "a \<noteq> l" "a \<noteq> ?f" if "a \<in> set (ys @ [head])" for a
    using that st(1) di l by auto
  have "chain h' (xs @ [e])"
    by (rule chain_inner [of h])
       (use c1 chain_ends [of "xs @ [e]" h head ?n] di in \<open>simp_all add: nx pv xs\<close>)
  then have "dlist h' l (xs @ [e])"
    using chain_ends [of "xs @ [e]" h' l l] di l xs [OF st(1)] ys [OF st(2)]
    by (auto simp: dlist_def link_def nx pv)
  moreover have "dlist h' head ys"
  proof (cases "ys = []")
    case True
    then show ?thesis using nx pv by (simp add: dlist_def link_def)
  next
    case False
    have *: "chain h ys" "link h (last ys) head"
      using c2 chain_ends [OF False, of h e head] by simp_all
    have "chain h' ys"
      by (rule chain_inner [OF *(1)]) (use di False in \<open>auto simp: nx pv ys\<close>)
    moreover have "link h' (last ys) head" "link h' head (hd ys)"
      using * False di ys [of "last ys"] ys [of head] ys [of "hd ys"]
      by (auto simp: link_def nx pv hd_append)
    ultimately show ?thesis
      using chain_ends [OF False, of h' head head] di by (simp add: dlist_def)
  qed
  moreover have "h' a = h a" if "a \<notin> set (l # head # xs @ e # ys)" for a
    using that st fr(1) [of a] by auto
  ultimately show ?thesis using h' fr(2) by blast
qed

lemma dlist_list_is_singular:
  assumes "dlist h head xs"
  shows "list_is_singular (At head) h = Some (length xs = 1)"
proof (cases xs)
  case Nil
  with assms show ?thesis by (simp add: list_is_singular_def dlist_def link_def)
next
  case (Cons x ys)
  with assms show ?thesis
    by (cases ys) (auto simp: list_is_singular_def dlist_def link_def)
qed

lemma lists_insert:
  assumes "lists h F" "dlist h l xs" "set (l # xs) \<inter> members F = {}"
  shows "lists h (F(l \<mapsto> xs))"
proof -
  have sep: "set (l # xs) \<inter> set (r # ys) = {}" if "F r = Some ys" for r ys
    using members_I [of F, OF that] assms(3) by blast
  show ?thesis
    unfolding lists_def using assms(1,2) sep
    by (auto simp: lists_def Int_commute simp del: set_simps split: if_splits)
qed

lemma lists_list_cut_position:
  assumes L: "lists h F" "F r = Some (xs @ e # ys)" and l: "l \<notin> members F" "l \<in> dom h"
  shows "\<exists>h'. list_cut_position (At l) (At r) (At e) h = Some h'
           \<and> lists h' (F(r \<mapsto> ys, l \<mapsto> xs @ [e])) \<and> dom h' = dom h"
proof -
  note d = listsD [OF L]
  have lo: "l \<notin> set (r # xs @ e # ys)" using members_I [of F, OF L(2)] l(1) by blast
  obtain h' where h': "raw_list_cut_position (At l) (At r) (At e) h = Some h'"
    "dlist h' l (xs @ [e])" "dlist h' r ys"
    "\<And>a. a \<notin> set (l # r # xs @ e # ys) \<Longrightarrow> h' a = h a" "dom h' = dom h"
    using dlist_raw_list_cut_position [OF d lo l(2)] by blast
  have "lists h' (F(r \<mapsto> ys))"
    by (rule lists_upd [OF L h'(3), of "{l}"]) (use l h'(4) in auto)
  moreover have "set (l # xs @ [e]) \<inter> members (F(r \<mapsto> ys)) = {}"
  proof -
    have "set (l # xs @ [e]) \<inter> members (F(r := None)) = {}"
      using lists_drop(2) [OF L] members_drop [of F r] l(1) by auto
    moreover have "set (l # xs @ [e]) \<inter> set (r # ys) = {}"
      using lo d by (auto simp: dlist_def)
    ultimately show ?thesis by (simp only: members_upd Int_Un_distrib) simp
  qed
  ultimately have "lists h' (F(r \<mapsto> ys, l \<mapsto> xs @ [e]))"
    using h'(2) lists_insert [of h' "F(r \<mapsto> ys)" l "xs @ [e]"] by blast
  moreover have "list_cut_position (At l) (At r) (At e) h = Some h'"
  proof -
    have "r \<noteq> e" using d by (auto simp: dlist_def)
    have "list_is_singular (At r) h = Some (xs = [] \<and> ys = [])"
      using dlist_list_is_singular [OF d] by (cases xs; cases ys) auto
    then show ?thesis
      using dlist_head [OF d] dlist_list_empty [OF d] h'(1) \<open>r \<noteq> e\<close>
      by (auto simp: list_cut_position_def)
  qed
  ultimately show ?thesis using h'(5) by blast
qed

locale list_store =
  fixes holds :: "'h \<Rightarrow> ('a \<rightharpoonup> 'a list) \<Rightarrow> bool"
    and nodes :: "'h \<Rightarrow> 'a set"
    and init :: "'a \<Rightarrow> 'h \<Rightarrow> 'h option"
    and add :: "'a \<Rightarrow> 'a \<Rightarrow> 'h \<Rightarrow> 'h option"
    and add_tail :: "'a \<Rightarrow> 'a \<Rightarrow> 'h \<Rightarrow> 'h option"
    and del :: "'a \<Rightarrow> 'h \<Rightarrow> 'h option"
    and is_empty :: "'a \<Rightarrow> 'h \<Rightarrow> bool option"
    and first :: "'a \<Rightarrow> 'h \<Rightarrow> 'a ptr option"
  assumes holds_distinct: "holds h F \<Longrightarrow> F r = Some xs \<Longrightarrow> distinct (r # xs)"
    and holds_apart: "holds h F \<Longrightarrow> F r = Some xs \<Longrightarrow> F s = Some ys \<Longrightarrow> r \<noteq> s
      \<Longrightarrow> set (r # xs) \<inter> set (s # ys) = {}"
    and holds_nodes: "holds h F \<Longrightarrow> members F \<subseteq> nodes h"
    and init_ok: "holds h F \<Longrightarrow> a \<notin> members F \<Longrightarrow> a \<in> nodes h
      \<Longrightarrow> \<exists>h'. init a h = Some h' \<and> holds h' (F(a \<mapsto> [])) \<and> nodes h' = nodes h"
    and add_ok: "holds h F \<Longrightarrow> F r = Some xs \<Longrightarrow> a \<notin> members F \<Longrightarrow> a \<in> nodes h
      \<Longrightarrow> \<exists>h'. add a r h = Some h' \<and> holds h' (F(r \<mapsto> a # xs)) \<and> nodes h' = nodes h"
    and add_tail_ok: "holds h F \<Longrightarrow> F r = Some xs \<Longrightarrow> a \<notin> members F \<Longrightarrow> a \<in> nodes h
      \<Longrightarrow> \<exists>h'. add_tail a r h = Some h' \<and> holds h' (F(r \<mapsto> xs @ [a])) \<and> nodes h' = nodes h"
    and del_ok: "holds h F \<Longrightarrow> F r = Some xs \<Longrightarrow> a \<in> set xs
      \<Longrightarrow> \<exists>h'. del a h = Some h' \<and> holds h' (F(r \<mapsto> remove1 a xs)) \<and> nodes h' = nodes h"
    and is_empty_ok: "holds h F \<Longrightarrow> F r = Some xs \<Longrightarrow> is_empty r h = Some (xs = [])"
    and first_ok: "holds h F \<Longrightarrow> F r = Some (x # xs) \<Longrightarrow> first r h = Some (At x)"
begin

lemma member_unique:
  assumes "holds h F" "F r = Some xs" "F s = Some ys" "a \<in> set xs" "a \<in> set ys"
  shows "r = s"
  using holds_apart [OF assms(1-3)] assms(4,5) by auto

lemma removed_not_member:
  assumes "holds h F" "F r = Some xs" "a \<in> set xs"
  shows "a \<notin> members (F(r \<mapsto> remove1 a xs))"
proof
  assume "a \<in> members (F(r \<mapsto> remove1 a xs))"
  then obtain s ys where *: "(F(r \<mapsto> remove1 a xs)) s = Some ys" "a \<in> set (s # ys)"
    by (auto simp: members_iff)
  show False
  proof (cases "s = r")
    case True
    with * assms holds_distinct [OF assms(1,2)] show False by auto
  next
    case False
    with * holds_apart [OF assms(1,2), of s ys] assms(3) show False by auto
  qed
qed

text \<open>Taking an entry off its list and putting it on another (or the same) one.\<close>

lemma del_add:
  assumes "holds h F" "F r = Some xs" "a \<in> set xs" "F1 = F(r \<mapsto> remove1 a xs)" "F1 s = Some ys"
  shows "\<exists>h1 h2. del a h = Some h1 \<and> add a s h1 = Some h2 \<and> holds h1 F1
           \<and> holds h2 (F1(s \<mapsto> a # ys)) \<and> nodes h2 = nodes h"
proof -
  obtain h1 where h1: "del a h = Some h1" "holds h1 F1" "nodes h1 = nodes h"
    using del_ok [OF assms(1-3)] assms(4) by blast
  have "a \<notin> members F1" "a \<in> nodes h1"
    using removed_not_member [OF assms(1-3)] assms h1(3) holds_nodes [OF assms(1)] members_I [of F, OF assms(2)]
    by auto
  from add_ok [OF h1(2) assms(5) this] h1 show ?thesis by auto
qed

text \<open>An insertion is undone by the removal of the entry.\<close>

lemma add_del:
  assumes "holds h F" "F r = Some xs" "a \<notin> members F" "a \<in> nodes h"
  shows "\<exists>h1 h2. add a r h = Some h1 \<and> del a h1 = Some h2 \<and> holds h2 F"
proof -
  obtain h1 where h1: "add a r h = Some h1" "holds h1 (F(r \<mapsto> a # xs))"
    using add_ok [OF assms] by blast
  obtain h2 where h2: "del a h1 = Some h2" "holds h2 (F(r \<mapsto> a # xs, r \<mapsto> remove1 a (a # xs)))"
    using del_ok [OF h1(2), of r "a # xs" a] by auto
  moreover have "F(r \<mapsto> a # xs, r \<mapsto> remove1 a (a # xs)) = F"
    using assms(2) by auto
  ultimately show ?thesis using h1 by auto
qed

text \<open>The first entry of a non-empty list can be taken off it.\<close>

lemma pop:
  assumes "holds h F" "F r = Some (a # xs)"
  shows "\<exists>h'. is_empty r h = Some False \<and> first r h = Some (At a) \<and> del a h = Some h'
           \<and> holds h' (F(r \<mapsto> xs)) \<and> nodes h' = nodes h \<and> a \<notin> members (F(r \<mapsto> xs))"
  using del_ok [OF assms, of a] removed_not_member [OF assms, of a]
    is_empty_ok [OF assms] first_ok [OF assms] by auto

end

interpretation lh: list_store lists dom "\<lambda>a. INIT_LIST_HEAD (At a)"
  "\<lambda>a r. list_add (At a) (At r)" "\<lambda>a r. list_add_tail (At a) (At r)" "\<lambda>a. list_del (At a)"
  "\<lambda>r. list_empty (At r)" "\<lambda>r. load_next (At r)"
proof unfold_locales
  show "distinct (r # xs)" if "lists h F" "F r = Some xs" for h :: "'a list_heap" and F r xs
    using listsD [OF that] by (simp add: dlist_def)
next
  show "set (r # xs) \<inter> set (s # ys) = {}"
    if "lists h F" "F r = Some xs" "F s = Some ys" "r \<noteq> s" for h :: "'a list_heap" and F r xs s ys
    using that by (rule lists_apart)
next
  show "members F \<subseteq> dom h" if "lists h F" for h :: "'a list_heap" and F
    using that by (rule lists_members_dom)
next
  show "\<exists>h'. INIT_LIST_HEAD (At a) h = Some h' \<and> lists h' (F(a \<mapsto> [])) \<and> dom h' = dom h"
    if "lists h F" "a \<notin> members F" "a \<in> dom h" for h :: "'a list_heap" and F a
    using lists_new [OF that] by blast
next
  show "\<exists>h'. list_add (At a) (At r) h = Some h' \<and> lists h' (F(r \<mapsto> a # xs)) \<and> dom h' = dom h"
    if "lists h F" "F r = Some xs" "a \<notin> members F" "a \<in> dom h" for h :: "'a list_heap" and F r xs a
    using that by (rule lists_list_add)
next
  show "\<exists>h'. list_add_tail (At a) (At r) h = Some h' \<and> lists h' (F(r \<mapsto> xs @ [a])) \<and> dom h' = dom h"
    if "lists h F" "F r = Some xs" "a \<notin> members F" "a \<in> dom h" for h :: "'a list_heap" and F r xs a
    using that by (rule lists_list_add_tail)
next
  show "\<exists>h'. list_del (At a) h = Some h' \<and> lists h' (F(r \<mapsto> remove1 a xs)) \<and> dom h' = dom h"
    if "lists h F" "F r = Some xs" "a \<in> set xs" for h :: "'a list_heap" and F r xs a
    using lists_list_del [OF that] by blast
qed (auto intro: lists_list_empty lists_first)

section \<open>Properties of the list operations\<close>

text \<open>A memory with two lists and a free node, on which the properties are instantiated.\<close>

definition list_node :: "'a ptr \<Rightarrow> 'a ptr \<Rightarrow> 'a list_head" where
  "list_node n p = \<lparr>lnext = n, lprev = p\<rparr>"

definition demo_heap :: "nat list_heap" where
  "demo_heap = [0 \<mapsto> list_node (At 1) (At 2), 1 \<mapsto> list_node (At 2) (At 0),
     2 \<mapsto> list_node (At 0) (At 1), 10 \<mapsto> list_node (At 11) (At 11),
     11 \<mapsto> list_node (At 10) (At 10), 5 \<mapsto> list_node Null Null]"

definition demo_lists :: "nat \<rightharpoonup> nat list" where
  "demo_lists = [0 \<mapsto> [1, 2], 10 \<mapsto> [11]]"

lemma demo_lists_eq: "demo_lists r = Some xs \<longleftrightarrow> r = 0 \<and> xs = [1, 2] \<or> r = 10 \<and> xs = [11]"
  by (auto simp: demo_lists_def)

lemma demo_holds: "lists demo_heap demo_lists"
  by (auto simp: lists_def demo_lists_eq dlist_def link_def demo_heap_def heap_simps list_node_def)

lemma demo_members: "members demo_lists = {0, 1, 2, 10, 11}"
  by (auto simp: members_def demo_lists_eq conj_disj_distribR ex_disj_distrib)

lemma demo_dom: "5 \<in> dom demo_heap"
  by (simp add: demo_heap_def)

text \<open>C8: \<^verbatim>\<open>list_add\<close> and \<^verbatim>\<open>list_add_tail\<close> refine consing and appending: on a memory that holds the
  lists \<open>F\<close> they insert a free node at the front (at the back) of the list with head \<open>r\<close>, do
  not fault, and leave every other list as it was.\<close>

theorem list_add_refines_cons:
  assumes "lists h F" "F r = Some xs" "new \<notin> members F" "new \<in> dom h"
  shows "(\<exists>h'. list_add (At new) (At r) h = Some h' \<and> lists h' (F(r \<mapsto> new # xs)))
    \<and> (\<exists>h'. list_add_tail (At new) (At r) h = Some h' \<and> lists h' (F(r \<mapsto> xs @ [new])))"
  using lh.add_ok [OF assms] lh.add_tail_ok [OF assms] by blast

theorem list_add_refines_cons_witness:
  "(\<exists>h'. list_add (At 5) (At 0) demo_heap = Some h' \<and> lists h' (demo_lists(0 \<mapsto> [5, 1, 2])))
    \<and> (\<exists>h'. list_add_tail (At 5) (At 0) demo_heap = Some h'
          \<and> lists h' (demo_lists(0 \<mapsto> [1, 2, 5])))"
  using list_add_refines_cons [OF demo_holds, of 0 "[1, 2]" 5]
  by (simp add: demo_lists_eq demo_members demo_dom)

text \<open>C7: \<^verbatim>\<open>list_del\<close> takes an entry off the list it is on and leaves every other list as it
  was; the poison it writes makes a second \<^verbatim>\<open>list_del\<close> of the same entry fault.\<close>

theorem list_del_refines_remove:
  assumes "lists h F" "F r = Some xs" "e \<in> set xs"
  shows "\<exists>h'. list_del (At e) h = Some h' \<and> lists h' (F(r \<mapsto> remove1 e xs))
           \<and> list_del (At e) h' = None"
proof -
  obtain h' where "list_del (At e) h = Some h'" "lists h' (F(r \<mapsto> remove1 e xs))"
    "h' e = Some \<lparr>lnext = Poison1, lprev = Poison2\<rparr>"
    using lists_list_del [OF assms] by blast
  moreover from this have "list_del (At e) h' = None"
    by (simp add: list_del_def raw_list_del_def heap_simps store_prev_def)
  ultimately show ?thesis by blast
qed

theorem list_del_refines_remove_witness:
  "\<exists>h'. list_del (At 1) demo_heap = Some h' \<and> lists h' (demo_lists(0 \<mapsto> [2]))
     \<and> list_del (At 1) h' = None"
  using list_del_refines_remove [OF demo_holds, of 0 "[1, 2]" 1] by (simp add: demo_lists_eq)

text \<open>\<^verbatim>\<open>list_move\<close> and \<^verbatim>\<open>list_move_tail\<close> carry an entry from one list to the front (back)
  of another, and \<^verbatim>\<open>list_rotate_left\<close> rotates a list by one.\<close>

theorem list_move_between_lists:
  assumes "lists h F" "F r = Some (xs @ e # ys)" "F s = Some zs" "r \<noteq> s"
  shows "(\<exists>h'. list_move (At e) (At s) h = Some h' \<and> lists h' (F(r \<mapsto> xs @ ys, s \<mapsto> e # zs)))
    \<and> (\<exists>h'. list_move_tail (At e) (At s) h = Some h' \<and> lists h' (F(r \<mapsto> xs @ ys, s \<mapsto> zs @ [e])))
    \<and> (\<exists>h'. list_rotate_left (At s) h = Some h' \<and> lists h' (F(s \<mapsto> rotate1 zs)))"
proof -
  have "e \<notin> set xs" using lh.holds_distinct [OF assms(1,2)] by auto
  then have r1: "remove1 e (xs @ e # ys) = xs @ ys" by (rule remove1_split)
  have "\<exists>h'. list_move (At e) (At s) h = Some h' \<and> lists h' (F(r \<mapsto> xs @ ys, s \<mapsto> e # zs))"
    using lists_list_move [OF assms(1,2), of e _ s zs] assms(3,4) r1 by auto
  moreover have "\<exists>h'. list_move_tail (At e) (At s) h = Some h'
      \<and> lists h' (F(r \<mapsto> xs @ ys, s \<mapsto> zs @ [e]))"
    using lists_list_move_tail [OF assms(1,2), of e _ s zs] assms(3,4) r1 by auto
  ultimately show ?thesis using lists_list_rotate_left [OF assms(1,3)] by blast
qed

theorem list_move_between_lists_witness:
  "(\<exists>h'. list_move (At 1) (At 10) demo_heap = Some h'
        \<and> lists h' (demo_lists(0 \<mapsto> [2], 10 \<mapsto> [1, 11])))
    \<and> (\<exists>h'. list_move_tail (At 1) (At 10) demo_heap = Some h'
        \<and> lists h' (demo_lists(0 \<mapsto> [2], 10 \<mapsto> [11, 1])))
    \<and> (\<exists>h'. list_rotate_left (At 10) demo_heap = Some h' \<and> lists h' (demo_lists(10 \<mapsto> [11])))"
  using list_move_between_lists [OF demo_holds, of 0 "[]" 1 "[2]" 10 "[11]"]
  by (simp add: demo_lists_eq)

text \<open>\<^verbatim>\<open>list_splice_init\<close> and \<^verbatim>\<open>list_splice_tail_init\<close> join the whole of one list in front
  of (behind) another and leave the first one empty, also when it was empty before.\<close>

theorem list_splice_joins:
  assumes "lists h F" "F r = Some xs" "F s = Some ys" "r \<noteq> s"
  shows "(\<exists>h'. list_splice_init (At r) (At s) h = Some h' \<and> lists h' (F(r \<mapsto> [], s \<mapsto> xs @ ys)))
    \<and> (\<exists>h'. list_splice_tail_init (At r) (At s) h = Some h'
          \<and> lists h' (F(r \<mapsto> [], s \<mapsto> ys @ xs)))"
  using lists_list_splice_init [OF assms] lists_list_splice_tail_init [OF assms] by blast

theorem list_splice_joins_witness:
  "(\<exists>h'. list_splice_init (At 0) (At 10) demo_heap = Some h'
        \<and> lists h' (demo_lists(0 \<mapsto> [], 10 \<mapsto> [1, 2, 11])))
    \<and> (\<exists>h'. list_splice_tail_init (At 0) (At 10) demo_heap = Some h'
        \<and> lists h' (demo_lists(0 \<mapsto> [], 10 \<mapsto> [11, 1, 2])))"
  using list_splice_joins [OF demo_holds, of 0 "[1, 2]" 10 "[11]"] by (simp add: demo_lists_eq)

text \<open>\<^verbatim>\<open>list_cut_position\<close> at an entry splits a list in two: the nodes up to and including
  the entry go to the new head, the rest stays.\<close>

theorem list_cut_position_splits:
  assumes "lists h F" "F r = Some (xs @ e # ys)" "l \<notin> members F" "l \<in> dom h"
  shows "\<exists>h'. list_cut_position (At l) (At r) (At e) h = Some h'
           \<and> lists h' (F(r \<mapsto> ys, l \<mapsto> xs @ [e]))"
  using lists_list_cut_position [OF assms] by blast

theorem list_cut_position_splits_witness:
  "\<exists>h'. list_cut_position (At 5) (At 0) (At 1) demo_heap = Some h'
     \<and> lists h' (demo_lists(0 \<mapsto> [2], 5 \<mapsto> [1]))"
  using list_cut_position_splits [OF demo_holds, of 0 "[]" 1 "[2]" 5]
  by (simp add: demo_lists_eq demo_members demo_dom)

text \<open>the loops over a list come back to its head: \<^verbatim>\<open>list_count_nodes\<close> returns its length
  (below the range of \<^verbatim>\<open>size_t\<close>), \<^verbatim>\<open>list_contains\<close> membership, \<^verbatim>\<open>list_get_nth\<close> the entry at
  an index and \<^verbatim>\<open>NULL\<close> beyond the end.\<close>

theorem list_traversals:
  assumes "dlist h r xs" "length xs < 2 ^ 64"
  shows "list_count_nodes (At r) h = Some (of_nat (length xs))
    \<and> unat (of_nat (length xs) :: size_t) = length xs
    \<and> list_contains (At r) (At b) h = Some (b \<in> set xs)
    \<and> list_get_nth (At r) n h = Some (if unat n < length xs then At (xs ! unat n) else Null)"
proof -
  have c: "chain h (xs @ [r])" "r \<notin> set xs"
    using assms(1) chain_step(2) [of h r xs r] by (auto simp: dlist_def)
  note hd = dlist_head(1) [OF assms(1)]
  show ?thesis
    using list_count_loop_chain [OF c, of 0] list_contains_loop_chain [OF c, of b]
      list_get_nth_loop_chain [OF c, of 0 n] assms(2) hd
    by (simp add: list_count_nodes_def list_contains_def list_get_nth_def unat_of_nat)
qed

theorem list_traversals_witness:
  "list_count_nodes (At 0) demo_heap = Some 2 \<and> list_contains (At 0) (At 2) demo_heap = Some True
    \<and> list_get_nth (At 0) 1 demo_heap = Some (At 2)"
  using list_traversals [OF listsD [OF demo_holds], of 0 "[1, 2]" 2 1] by (simp add: demo_lists_eq)

text \<open>cutting at the head itself initialises the new list only when two or more entries
  are on the old one; on an empty or one-element list the new head is left as it was.\<close>

theorem list_cut_position_at_head:
  assumes "dlist h r xs" "l \<in> dom h"
  shows "list_cut_position (At l) (At r) (At r) h =
    (if length xs \<le> 1 then Some h else INIT_LIST_HEAD (At l) h)"
proof -
  have "r \<notin> set xs" using assms(1) by (simp add: dlist_def)
  then have "hd (xs @ [r]) = r \<longleftrightarrow> xs = []" "last (r # xs) = r \<longleftrightarrow> xs = []"
    by (cases xs; auto)+
  then show ?thesis
    using dlist_head [OF assms(1)] dlist_list_empty [OF assms(1)]
      dlist_list_is_singular [OF assms(1)]
    by (cases xs) (auto simp: list_cut_position_def)
qed

theorem list_cut_position_at_head_witness:
  "list_cut_position (At 5) (At 10) (At 10) demo_heap = Some demo_heap
    \<and> list_cut_position (At 5) (At 0) (At 0) demo_heap = INIT_LIST_HEAD (At 5) demo_heap"
  using list_cut_position_at_head [OF listsD [OF demo_holds] demo_dom, of 10 "[11]"]
    list_cut_position_at_head [OF listsD [OF demo_holds] demo_dom, of 0 "[1, 2]"]
  by (simp add: demo_lists_eq)

end
