(* ===== verification/Hlist_H.thy ===== *)
theory Hlist_H
  imports List_H
begin

text \<open>
  The hash lists of \<^verbatim>\<open>kernel/include/list.h\<close>: a head with one pointer, and nodes that hold the
  address of the pointer that points to them.

  The header declares \<^verbatim>\<open>pprev\<close> as a node, which is not a complete type there; the operations use
  it as the address of a pointer, and so does the model.  A cell is a place that holds a
  pointer to a node: the field \<^verbatim>\<open>first\<close> of a head or the field \<^verbatim>\<open>next\<close> of a node.  The
  fields of all nodes are maps from addresses; an access to an address without an object is
  \<open>None\<close>.  \<^verbatim>\<open>hlist_add_behind\<close> has no meaning for any type of \<^verbatim>\<open>pprev\<close> and is left out.
\<close>

section \<open>Memory\<close>

datatype ('h, 'a) cell = First 'h | NextOf 'a

record ('h, 'a) hlist_heap =
  hfirst :: "'h \<rightharpoonup> 'a ptr"
  hnext :: "'a \<rightharpoonup> 'a ptr"
  hpprev :: "'a \<rightharpoonup> ('h, 'a) cell ptr"

fun read_cell :: "('h, 'a) cell \<Rightarrow> ('h, 'a) hlist_heap \<Rightarrow> 'a ptr option" where
  "read_cell (First h) H = hfirst H h"
| "read_cell (NextOf n) H = hnext H n"

fun put_cell :: "('h, 'a) cell \<Rightarrow> 'a ptr \<Rightarrow> ('h, 'a) hlist_heap \<Rightarrow> ('h, 'a) hlist_heap" where
  "put_cell (First h) v H = H\<lparr>hfirst := (hfirst H)(h \<mapsto> v)\<rparr>"
| "put_cell (NextOf n) v H = H\<lparr>hnext := (hnext H)(n \<mapsto> v)\<rparr>"

definition write_cell ::
    "('h, 'a) cell \<Rightarrow> 'a ptr \<Rightarrow> ('h, 'a) hlist_heap \<Rightarrow> ('h, 'a) hlist_heap option" where
  "write_cell c v H = (if read_cell c H = None then None else Some (put_cell c v H))"

text \<open>\<^verbatim>\<open>*pprev = v\<close>\<close>

definition write_through ::
    "('h, 'a) cell ptr \<Rightarrow> 'a ptr \<Rightarrow> ('h, 'a) hlist_heap \<Rightarrow> ('h, 'a) hlist_heap option" where
  "write_through p v H = (case p of At c \<Rightarrow> write_cell c v H | _ \<Rightarrow> None)"

definition write_pprev ::
    "'a \<Rightarrow> ('h, 'a) cell ptr \<Rightarrow> ('h, 'a) hlist_heap \<Rightarrow> ('h, 'a) hlist_heap option" where
  "write_pprev n v H = (if hpprev H n = None then None else Some (H\<lparr>hpprev := (hpprev H)(n \<mapsto> v)\<rparr>))"

text \<open>\<^verbatim>\<open>if (next) next->pprev = v\<close>\<close>

definition fix_pprev ::
    "'a ptr \<Rightarrow> ('h, 'a) cell ptr \<Rightarrow> ('h, 'a) hlist_heap \<Rightarrow> ('h, 'a) hlist_heap option" where
  "fix_pprev p v H = (case p of Null \<Rightarrow> Some H | At n \<Rightarrow> write_pprev n v H | _ \<Rightarrow> None)"

section \<open>The operations\<close>

definition INIT_HLIST_HEAD :: "'h \<Rightarrow> ('h, 'a) hlist_heap \<Rightarrow> ('h, 'a) hlist_heap option" where
  "INIT_HLIST_HEAD h H = write_cell (First h) Null H"

definition INIT_HLIST_NODE :: "'a \<Rightarrow> ('h, 'a) hlist_heap \<Rightarrow> ('h, 'a) hlist_heap option" where
  "INIT_HLIST_NODE n H = do { H \<leftarrow> write_cell (NextOf n) Null H; write_pprev n Null H }"

definition hlist_unhashed :: "'a \<Rightarrow> ('h, 'a) hlist_heap \<Rightarrow> bool option" where
  "hlist_unhashed n H = do { p \<leftarrow> hpprev H n; Some (p = Null) }"

definition hlist_empty :: "'h \<Rightarrow> ('h, 'a) hlist_heap \<Rightarrow> bool option" where
  "hlist_empty h H = do { p \<leftarrow> hfirst H h; Some (p = Null) }"

definition raw_hlist_del :: "'a \<Rightarrow> ('h, 'a) hlist_heap \<Rightarrow> ('h, 'a) hlist_heap option" where
  "raw_hlist_del n H = do {
     nxt \<leftarrow> hnext H n;
     pprev \<leftarrow> hpprev H n;
     H \<leftarrow> write_through pprev nxt H;
     fix_pprev nxt pprev H }"

definition hlist_del :: "'a \<Rightarrow> ('h, 'a) hlist_heap \<Rightarrow> ('h, 'a) hlist_heap option" where
  "hlist_del n H = do {
     u \<leftarrow> hlist_unhashed n H;
     if u then Some H
     else do {
       H \<leftarrow> raw_hlist_del n H;
       H \<leftarrow> write_cell (NextOf n) Poison1 H;
       write_pprev n Poison2 H } }"

definition hlist_del_init :: "'a \<Rightarrow> ('h, 'a) hlist_heap \<Rightarrow> ('h, 'a) hlist_heap option" where
  "hlist_del_init n H = do {
     u \<leftarrow> hlist_unhashed n H;
     if u then Some H else do { H \<leftarrow> raw_hlist_del n H; INIT_HLIST_NODE n H } }"

definition hlist_add_head :: "'a \<Rightarrow> 'h \<Rightarrow> ('h, 'a) hlist_heap \<Rightarrow> ('h, 'a) hlist_heap option" where
  "hlist_add_head n h H = do {
     f \<leftarrow> hfirst H h;
     H \<leftarrow> write_cell (NextOf n) f H;
     H \<leftarrow> fix_pprev f (At (NextOf n)) H;
     H \<leftarrow> write_cell (First h) (At n) H;
     write_pprev n (At (First h)) H }"

definition hlist_add_before :: "'a \<Rightarrow> 'a \<Rightarrow> ('h, 'a) hlist_heap \<Rightarrow> ('h, 'a) hlist_heap option" where
  "hlist_add_before n nxt H = do {
     H \<leftarrow> write_cell (NextOf n) (At nxt) H;
     p \<leftarrow> hpprev H nxt;
     H \<leftarrow> write_pprev n p H;
     p \<leftarrow> hpprev H nxt;
     H \<leftarrow> write_through p (At n) H;
     write_pprev nxt (At (NextOf n)) H }"

definition hlist_move_list :: "'h \<Rightarrow> 'h \<Rightarrow> ('h, 'a) hlist_heap \<Rightarrow> ('h, 'a) hlist_heap option" where
  "hlist_move_list old new H = do {
     e \<leftarrow> hlist_empty old H;
     if e then Some H
     else do {
       f \<leftarrow> hfirst H old;
       H \<leftarrow> write_cell (First new) f H;
       H \<leftarrow> fix_pprev f (At (First new)) H;
       write_cell (First old) Null H } }"

definition hlist_add_fake :: "'a \<Rightarrow> ('h, 'a) hlist_heap \<Rightarrow> ('h, 'a) hlist_heap option" where
  "hlist_add_fake n H = write_pprev n (At (NextOf n)) H"

section \<open>Chains of cells\<close>

lemma read_put [simp]: "read_cell d (put_cell c v H) = (if d = c then Some v else read_cell d H)"
  by (cases c; cases d) auto

lemma hpprev_put [simp]: "hpprev (put_cell c v H) = hpprev H"
  by (cases c) auto

lemma put_pprev [simp]: "put_cell c v (H\<lparr>hpprev := m\<rparr>) = (put_cell c v H)\<lparr>hpprev := m\<rparr>"
  by (cases c) auto

lemma read_pprev [simp]: "read_cell d (H\<lparr>hpprev := m\<rparr>) = read_cell d H"
  by (cases d) auto

lemma field_read: "hfirst H h = read_cell (First h) H" "hnext H n = read_cell (NextOf n) H"
  by simp_all

declare read_cell.simps [simp del] put_cell.simps [simp del] field_read [simp]

text \<open>From the cell \<open>c\<close> through the nodes \<open>xs\<close> to a last cell that holds \<open>p\<close>.\<close>

fun hchain :: "('h, 'a) hlist_heap \<Rightarrow> ('h, 'a) cell \<Rightarrow> 'a list \<Rightarrow> 'a ptr \<Rightarrow> bool" where
  "hchain H c [] p \<longleftrightarrow> read_cell c H = Some p"
| "hchain H c (x # xs) p \<longleftrightarrow> read_cell c H = Some (At x) \<and> hpprev H x = Some (At c) \<and> hchain H (NextOf x) xs p"

fun last_cell :: "('h, 'a) cell \<Rightarrow> 'a list \<Rightarrow> ('h, 'a) cell" where
  "last_cell c [] = c"
| "last_cell c (x # xs) = last_cell (NextOf x) xs"

definition cells :: "('h, 'a) cell \<Rightarrow> 'a list \<Rightarrow> ('h, 'a) cell set" where
  "cells c xs = insert c (NextOf ` set xs)"

lemma last_cell_in: "last_cell c xs \<in> cells c xs"
  by (induction xs arbitrary: c) (auto simp: cells_def)

lemma last_cell_snoc [simp]: "last_cell c (xs @ [x]) = NextOf x"
  by (induction xs arbitrary: c) auto

lemma hchain_append:
  "hchain H c (xs @ y # ys) p \<longleftrightarrow>
     hchain H c xs (At y) \<and> hpprev H y = Some (At (last_cell c xs)) \<and> hchain H (NextOf y) ys p"
  by (induction xs arbitrary: c) auto

lemma hchain_cong:
  assumes "\<And>d. d \<in> cells c xs \<Longrightarrow> read_cell d H' = read_cell d H"
    and "\<And>x. x \<in> set xs \<Longrightarrow> hpprev H' x = hpprev H x"
  shows "hchain H' c xs p = hchain H c xs p"
  using assms by (induction xs arbitrary: c) (auto simp: cells_def)

lemma hchain_put_last:
  assumes "hchain H c xs p" "distinct (c # map NextOf xs)"
  shows "hchain (put_cell (last_cell c xs) q H) c xs q"
  using assms
proof (induction xs arbitrary: c)
  case (Cons x xs)
  have "c \<noteq> last_cell (NextOf x) xs" using last_cell_in [of "NextOf x" xs] Cons.prems(2) by (auto simp: cells_def)
  then show ?case using Cons by auto
qed simp

lemma hchain_exists: "hchain H c xs p \<Longrightarrow> d \<in> cells c xs \<Longrightarrow> read_cell d H \<noteq> None"
  by (induction xs arbitrary: c) (auto simp: cells_def)

lemma distinct_cells: "distinct (First h # map NextOf xs) = distinct xs"
  by (auto simp: distinct_map inj_on_def)

section \<open>Relinking\<close>

definition ptr_of :: "'a list \<Rightarrow> 'a ptr" where
  "ptr_of ys = (case ys of [] \<Rightarrow> Null | y # _ \<Rightarrow> At y)"

definition set_pprev :: "'a list \<Rightarrow> ('h, 'a) cell \<Rightarrow> ('h, 'a) hlist_heap \<Rightarrow> ('h, 'a) hlist_heap" where
  "set_pprev ys c H = (case ys of [] \<Rightarrow> H | y # _ \<Rightarrow> H\<lparr>hpprev := (hpprev H)(y \<mapsto> At c)\<rparr>)"

text \<open>The cell \<open>c\<close> now leads to \<open>ys\<close>.\<close>

definition relink :: "('h, 'a) cell \<Rightarrow> 'a list \<Rightarrow> ('h, 'a) hlist_heap \<Rightarrow> ('h, 'a) hlist_heap" where
  "relink c ys H = set_pprev ys c (put_cell c (ptr_of ys) H)"

lemma read_relink [simp]: "read_cell d (relink c ys H) = (if d = c then Some (ptr_of ys) else read_cell d H)"
  by (simp add: relink_def set_pprev_def split: list.split)

lemma hpprev_relink:
  "hpprev (relink c ys H) x = (if ys \<noteq> [] \<and> x = hd ys then Some (At c) else hpprev H x)"
  by (simp add: relink_def set_pprev_def split: list.split)

lemma hchain_first: "hchain H c ys Null \<Longrightarrow> read_cell c H = Some (ptr_of ys)"
  by (cases ys) (simp_all add: ptr_of_def)

lemma relink_eq:
  assumes "read_cell c H \<noteq> None" "hchain H d ys Null"
  shows "do { H \<leftarrow> write_cell c (ptr_of ys) H; fix_pprev (ptr_of ys) (At c) H } = Some (relink c ys H)"
  using assms
  by (cases ys) (auto simp: write_cell_def fix_pprev_def ptr_of_def relink_def set_pprev_def write_pprev_def)

lemma hchain_relink:
  assumes "hchain H c xs q" "hchain H d ys Null" "distinct (c # map NextOf (xs @ ys))"
  shows "hchain (relink (last_cell c xs) ys H) c (xs @ ys) Null"
proof (cases ys)
  case Nil
  then show ?thesis
    using hchain_put_last [OF assms(1), of Null] assms(3) by (simp add: relink_def set_pprev_def ptr_of_def)
next
  case (Cons y zs)
  let ?l = "last_cell c xs"
  let ?H = "relink ?l ys H"
  have l: "?l \<notin> NextOf ` set ys" using last_cell_in [of c xs] assms(3) by (auto simp: cells_def)
  have "hchain (put_cell ?l (At y) H) c xs (At y)"
    using hchain_put_last [OF assms(1)] assms(3) by simp
  moreover have "hchain ?H c xs (At y) = hchain (put_cell ?l (At y) H) c xs (At y)"
    using assms(3) Cons by (intro hchain_cong) (auto simp: hpprev_relink ptr_of_def)
  moreover have "hchain ?H (NextOf y) zs Null = hchain H (NextOf y) zs Null"
    using assms(3) Cons l by (intro hchain_cong) (auto simp: cells_def hpprev_relink)
  ultimately show ?thesis
    using assms(2) Cons by (simp add: hchain_append hpprev_relink)
qed

section \<open>Collections of lists\<close>

definition hlists :: "('h, 'a) hlist_heap \<Rightarrow> ('h \<rightharpoonup> 'a list) \<Rightarrow> bool" where
  "hlists H F \<longleftrightarrow> (\<forall>h xs. F h = Some xs \<longrightarrow> hchain H (First h) xs Null \<and> distinct xs)
     \<and> (\<forall>h g xs ys. F h = Some xs \<longrightarrow> F g = Some ys \<longrightarrow> h \<noteq> g \<longrightarrow> set xs \<inter> set ys = {})"

text \<open>Only the head \<open>h\<close> and the nodes \<open>A\<close> differ.\<close>

definition same_off :: "'h set \<Rightarrow> 'a set \<Rightarrow> ('h, 'a) hlist_heap \<Rightarrow> ('h, 'a) hlist_heap \<Rightarrow> bool" where
  "same_off hs A H H' \<longleftrightarrow> (\<forall>d. d \<notin> First ` hs \<union> NextOf ` A \<longrightarrow> read_cell d H' = read_cell d H)
     \<and> (\<forall>x. x \<notin> A \<longrightarrow> hpprev H' x = hpprev H x)"

lemma same_off_hchain:
  assumes "same_off hs A H H'" "g \<notin> hs" "set ys \<inter> A = {}"
  shows "hchain H' (First g) ys Null = hchain H (First g) ys Null"
  using assms by (intro hchain_cong) (auto simp: same_off_def cells_def)

definition unused :: "('h \<rightharpoonup> 'a list) \<Rightarrow> 'a \<Rightarrow> bool" where
  "unused F n \<longleftrightarrow> (\<forall>h xs. F h = Some xs \<longrightarrow> n \<notin> set xs)"

lemma unusedD: "unused F n \<Longrightarrow> F h = Some xs \<Longrightarrow> n \<notin> set xs"
  by (simp add: unused_def)

lemma hlistsD:
  assumes "hlists H F" "F h = Some xs"
  shows "hchain H (First h) xs Null" "distinct xs" "distinct (First h # map NextOf xs)"
  using assms unfolding distinct_cells by (auto simp: hlists_def)

lemma hlists_upd:
  assumes "hlists H F" "F h = Some xs" "hchain H' (First h) ys Null" "distinct ys"
    and "same_off {h} (set xs \<union> N) H H'" "set ys \<subseteq> set xs \<union> N" "\<And>n. n \<in> N \<Longrightarrow> unused F n"
  shows "hlists H' (F(h \<mapsto> ys))"
proof -
  have apart: "set zs \<inter> (set xs \<union> N) = {}" if "F g = Some zs" "g \<noteq> h" for g zs
  proof -
    have "set zs \<inter> set xs = {}" using assms(1,2) that unfolding hlists_def by blast
    then show ?thesis using assms(7) that by (auto simp: unused_def)
  qed
  then have "hchain H' (First g) zs Null \<and> distinct zs" if "F g = Some zs" "g \<noteq> h" for g zs
    using that same_off_hchain [OF assms(5), of g zs] hlistsD [OF assms(1) that(1)] by blast
  moreover have "set zs \<inter> set zs' = {}" if "F g = Some zs" "F g' = Some zs'" "g \<noteq> g'" for g g' zs zs'
    using assms(1) that by (auto simp: hlists_def)
  ultimately show ?thesis
    using assms(3,4,6) apart unfolding hlists_def by (auto split: if_splits) blast+
qed

section \<open>Each operation\<close>

lemma raw_hlist_del_spec:
  assumes "hlists H F" "F h = Some (xs @ x # ys)"
  shows "\<exists>H'. raw_hlist_del x H = Some H' \<and> hchain H' (First h) (xs @ ys) Null
    \<and> same_off {h} (set (xs @ x # ys)) H H' \<and> hnext H' x \<noteq> None \<and> hpprev H' x \<noteq> None"
proof -
  note ch = hlistsD [OF assms]
  let ?l = "last_cell (First h) xs"
  have c: "hchain H (First h) xs (At x)" "hpprev H x = Some (At ?l)" "hchain H (NextOf x) ys Null"
    using ch(1) by (auto simp: hchain_append)
  have l: "?l \<in> cells (First h) xs" by (rule last_cell_in)
  have nxt: "hnext H x = Some (ptr_of ys)" using hchain_first [OF c(3)] by simp
  have "raw_hlist_del x H = do { H \<leftarrow> write_cell ?l (ptr_of ys) H; fix_pprev (ptr_of ys) (At ?l) H }"
    using nxt c(2) by (simp add: raw_hlist_del_def write_through_def)
  also have "\<dots> = Some (relink ?l ys H)"
    using relink_eq [OF hchain_exists [OF c(1) l] c(3)] .
  finally have "raw_hlist_del x H = Some (relink ?l ys H)" .
  moreover have "hchain (relink ?l ys H) (First h) (xs @ ys) Null"
    using hchain_relink [OF c(1,3)] ch(3) by simp
  moreover have "same_off {h} (set (xs @ x # ys)) H (relink ?l ys H)"
    using l by (cases ys) (auto simp: same_off_def cells_def hpprev_relink)
  moreover have "hnext (relink ?l ys H) x \<noteq> None" "hpprev (relink ?l ys H) x \<noteq> None"
    using nxt c(2) by (simp_all add: hpprev_relink)
  ultimately show ?thesis by blast
qed

text \<open>The removed node is then overwritten, with \<open>v\<close> and \<open>w\<close>.\<close>

lemma unlinked_overwrite:
  assumes "hlists H F" "F h = Some (xs @ x # ys)" "hchain H1 (First h) (xs @ ys) Null"
    and "same_off {h} (set (xs @ x # ys)) H H1" "hnext H1 x \<noteq> None" "hpprev H1 x \<noteq> None"
  shows "\<exists>H'. do { H \<leftarrow> write_cell (NextOf x) v H1; write_pprev x w H } = Some H'
    \<and> hlists H' (F(h \<mapsto> xs @ ys)) \<and> hnext H' x = Some v \<and> hpprev H' x = Some w"
proof -
  let ?H = "(put_cell (NextOf x) v H1)\<lparr>hpprev := (hpprev H1)(x \<mapsto> w)\<rparr>"
  have d: "distinct (xs @ x # ys)" using hlistsD [OF assms(1,2)] by simp
  have "hchain ?H (First h) (xs @ ys) Null = hchain H1 (First h) (xs @ ys) Null"
    using d by (intro hchain_cong) (auto simp: cells_def)
  then have "hlists ?H (F(h \<mapsto> xs @ ys))"
    using assms(3,4) d by (intro hlists_upd [OF assms(1,2), where N = "{}"]) (auto simp: same_off_def)
  then show ?thesis using assms(5,6) by (auto simp: write_cell_def write_pprev_def)
qed

lemma hlist_unhashed_member:
  assumes "hlists H F" "F h = Some (xs @ x # ys)"
  shows "hlist_unhashed x H = Some False"
  using hlistsD(1) [OF assms] by (simp add: hchain_append hlist_unhashed_def)

lemma hlist_del_spec:
  assumes "hlists H F" "F h = Some (xs @ x # ys)"
  shows "\<exists>H'. hlist_del x H = Some H' \<and> hlists H' (F(h \<mapsto> xs @ ys))
      \<and> hnext H' x = Some Poison1 \<and> hpprev H' x = Some Poison2"
    and "\<exists>H'. hlist_del_init x H = Some H' \<and> hlists H' (F(h \<mapsto> xs @ ys)) \<and> hlist_unhashed x H' = Some True"
proof -
  obtain H1 where H1: "raw_hlist_del x H = Some H1" "hchain H1 (First h) (xs @ ys) Null"
    "same_off {h} (set (xs @ x # ys)) H H1" "hnext H1 x \<noteq> None" "hpprev H1 x \<noteq> None"
    using raw_hlist_del_spec [OF assms] by blast
  note over = unlinked_overwrite [OF assms H1(2-5)]
  show "\<exists>H'. hlist_del x H = Some H' \<and> hlists H' (F(h \<mapsto> xs @ ys))
      \<and> hnext H' x = Some Poison1 \<and> hpprev H' x = Some Poison2"
    using over [of Poison1 Poison2] by (simp add: hlist_del_def hlist_unhashed_member [OF assms] H1(1))
  show "\<exists>H'. hlist_del_init x H = Some H' \<and> hlists H' (F(h \<mapsto> xs @ ys)) \<and> hlist_unhashed x H' = Some True"
    using over [of Null Null]
    by (auto simp: hlist_del_init_def hlist_unhashed_member [OF assms] H1(1) INIT_HLIST_NODE_def)
      (auto simp: hlist_unhashed_def)
qed

text \<open>A node that exists and is in no list.\<close>

definition fresh_node :: "('h, 'a) hlist_heap \<Rightarrow> ('h \<rightharpoonup> 'a list) \<Rightarrow> 'a \<Rightarrow> bool" where
  "fresh_node H F n \<longleftrightarrow> hnext H n \<noteq> None \<and> hpprev H n \<noteq> None \<and> unused F n"

lemma hlist_add_head_spec:
  assumes "hlists H F" "F h = Some xs" "fresh_node H F n"
  shows "\<exists>H'. hlist_add_head n h H = Some H' \<and> hlists H' (F(h \<mapsto> n # xs))"
proof -
  note ch = hlistsD [OF assms(1,2)]
  have n: "n \<notin> set xs" "read_cell (NextOf n) H \<noteq> None" "hpprev H n \<noteq> None"
    using assms(3) unusedD [where F = F, OF _ assms(2), of n] by (auto simp: fresh_node_def)
  let ?H = "relink (NextOf n) xs H"
  let ?H' = "(put_cell (First h) (At n) ?H)\<lparr>hpprev := (hpprev ?H)(n \<mapsto> At (First h))\<rparr>"
  have f: "hfirst H h = Some (ptr_of xs)" using hchain_first [OF ch(1)] by simp
  have "hlist_add_head n h H = do {
      H \<leftarrow> do { H \<leftarrow> write_cell (NextOf n) (ptr_of xs) H; fix_pprev (ptr_of xs) (At (NextOf n)) H };
      H \<leftarrow> write_cell (First h) (At n) H; write_pprev n (At (First h)) H }"
    using f by (simp add: hlist_add_head_def)
  also have "\<dots> = do { H \<leftarrow> write_cell (First h) (At n) ?H; write_pprev n (At (First h)) H }"
    using relink_eq [OF n(2) ch(1)] by simp
  also have "\<dots> = Some ?H'"
    using f n(3) by (auto simp: write_cell_def write_pprev_def hpprev_relink)
  finally have run: "hlist_add_head n h H = Some ?H'" .
  obtain q where "read_cell (NextOf n) H = Some q" using n(2) by blast
  then have "hchain ?H (NextOf n) xs Null"
    using hchain_relink [of H "NextOf n" "[]" q "First h" xs] ch n(1) by (auto simp: distinct_map)
  moreover have "hchain ?H' (NextOf n) xs Null = hchain ?H (NextOf n) xs Null"
    using n(1) by (intro hchain_cong) (auto simp: cells_def)
  ultimately have "hlists ?H' (F(h \<mapsto> n # xs))"
    using assms(3) n(1) ch(2)
    by (intro hlists_upd [OF assms(1,2), where N = "{n}"])
      (auto simp: same_off_def fresh_node_def hpprev_relink)
  then show ?thesis using run by blast
qed

lemma hlist_add_before_spec:
  assumes "hlists H F" "F h = Some (xs @ y # ys)" "fresh_node H F n"
  shows "\<exists>H'. hlist_add_before n y H = Some H' \<and> hlists H' (F(h \<mapsto> xs @ n # y # ys))"
proof -
  note ch = hlistsD [OF assms(1,2)]
  let ?l = "last_cell (First h) xs"
  have c: "hchain H (First h) xs (At y)" "hpprev H y = Some (At ?l)" "hchain H (NextOf y) ys Null"
    using ch(1) by (auto simp: hchain_append)
  have n: "n \<notin> set (xs @ y # ys)" "read_cell (NextOf n) H \<noteq> None" "hpprev H n \<noteq> None"
    using assms(3) unusedD [where F = F, OF _ assms(2), of n] by (auto simp: fresh_node_def)
  have l: "?l \<in> cells (First h) xs" by (rule last_cell_in)
  have ne: "?l \<noteq> NextOf n" using l n(1) by (auto simp: cells_def)
  let ?H = "(put_cell ?l (At n) (put_cell (NextOf n) (At y) H))\<lparr>hpprev := (hpprev H)(n \<mapsto> At ?l, y \<mapsto> At (NextOf n))\<rparr>"
  have "hlist_add_before n y H = Some ?H"
    using n c(2) hchain_exists [OF c(1) l] ne
    by (cases ?l) (auto simp: hlist_add_before_def write_cell_def write_pprev_def write_through_def)
  moreover have "hchain (put_cell ?l (At n) H) (First h) xs (At n)"
    using hchain_put_last [OF c(1)] ch(3) by simp
  moreover have "hchain ?H (First h) xs (At n) = hchain (put_cell ?l (At n) H) (First h) xs (At n)"
    using n(1) ch(2) by (intro hchain_cong) (auto simp: cells_def)
  moreover have "hchain ?H (NextOf y) ys Null = hchain H (NextOf y) ys Null"
    using n(1) ch(2) l by (intro hchain_cong) (auto simp: cells_def)
  ultimately have run: "hlist_add_before n y H = Some ?H" "hchain ?H (First h) (xs @ n # y # ys) Null"
    using c n(1) ne by (auto simp: hchain_append)
  have "hlists ?H (F(h \<mapsto> xs @ n # y # ys))"
    using run(2) assms(3) n(1) ch(2) l
    by (intro hlists_upd [OF assms(1,2), where N = "{n}"])
      (auto simp: same_off_def fresh_node_def cells_def)
  then show ?thesis using run(1) by blast
qed

lemma hlist_move_list_spec:
  assumes "hlists H F" "F old = Some xs" "F new = Some zs" "old \<noteq> new"
  shows "\<exists>H'. hlist_move_list old new H = Some H' \<and> hlists H' (if xs = [] then F else F(old \<mapsto> [], new \<mapsto> xs))"
proof (cases "xs = []")
  case True
  then show ?thesis using hlistsD(1) [OF assms(1,2)] assms(1) by (simp add: hlist_move_list_def hlist_empty_def)
next
  case False
  note ch = hlistsD [OF assms(1,2)]
  have f: "read_cell (First old) H = Some (ptr_of xs)" "ptr_of xs \<noteq> Null"
    using hchain_first [OF ch(1)] False by (auto simp: ptr_of_def split: list.splits)
  have new: "read_cell (First new) H = Some (ptr_of zs)"
    using hchain_first [OF hlistsD(1) [OF assms(1,3)]] .
  let ?H1 = "relink (First new) xs H"
  let ?H = "put_cell (First old) Null ?H1"
  have "hlist_move_list old new H = do {
      H \<leftarrow> do { H \<leftarrow> write_cell (First new) (ptr_of xs) H; fix_pprev (ptr_of xs) (At (First new)) H };
      write_cell (First old) Null H }"
    using f by (simp add: hlist_move_list_def hlist_empty_def)
  also have "\<dots> = Some ?H"
    using relink_eq [OF _ ch(1), of "First new"] new f(1) by (simp add: write_cell_def)
  finally have run: "hlist_move_list old new H = Some ?H" .
  have "hchain ?H1 (First new) xs Null"
    using hchain_relink [of H "First new" "[]" "ptr_of zs" "First old" xs] new ch
    by (auto simp: distinct_map)
  moreover have "hchain ?H (First new) xs Null = hchain ?H1 (First new) xs Null"
    using assms(4) by (intro hchain_cong) (auto simp: cells_def)
  moreover have "same_off {old, new} (set xs) H ?H"
    by (auto simp: same_off_def hpprev_relink)
  moreover have apart: "set ys \<inter> set xs = {}" if "F g = Some ys" "g \<noteq> old" for g ys
    using assms(1,2) that unfolding hlists_def by blast
  ultimately have "hchain ?H (First g) ys Null \<and> distinct ys"
    if "(F(old \<mapsto> [], new \<mapsto> xs)) g = Some ys" for g ys
    using that same_off_hchain [of "{old, new}" "set xs" H ?H g ys] hlistsD [OF assms(1), of g ys] ch(2)
    by (auto split: if_splits)
  moreover have "set ys \<inter> set ys' = {}"
    if "(F(old \<mapsto> [], new \<mapsto> xs)) g = Some ys" "(F(old \<mapsto> [], new \<mapsto> xs)) g' = Some ys'" "g \<noteq> g'" for g g' ys ys'
  proof -
    have "set as \<inter> set bs = {}" if "F a = Some as" "F b = Some bs" "a \<noteq> b" for a b as bs
      using assms(1) that unfolding hlists_def by blast
    then show ?thesis using that apart by (auto split: if_splits)
  qed
  ultimately have "hlists ?H (F(old \<mapsto> [], new \<mapsto> xs))" unfolding hlists_def by blast
  then show ?thesis using run False by auto
qed

section \<open>The property\<close>

text \<open>C15: The hash list operations do on any collection of disjoint lists what their names say, on
  the empty list too: \<^verbatim>\<open>hlist_add_head\<close> puts a node in front, \<^verbatim>\<open>hlist_move_list\<close> gives a non-empty
  list another head and leaves everything as it is when the list is empty,
  \<^verbatim>\<open>hlist_add_before\<close> puts a node in front of a given member, \<^verbatim>\<open>hlist_del\<close> and \<^verbatim>\<open>hlist_del_init\<close> remove
  a member and poison or reset it.  The other lists are not touched, and no operation faults.\<close>

theorem hlist_ops_refine:
  assumes "hlists H F" "F h = Some xs" "fresh_node H F n" "F g = Some zs" "g \<noteq> h"
  shows "(\<exists>H'. hlist_add_head n h H = Some H' \<and> hlists H' (F(h \<mapsto> n # xs)))
    \<and> (\<exists>H'. hlist_move_list h g H = Some H' \<and> hlists H' (if xs = [] then F else F(h \<mapsto> [], g \<mapsto> xs)))
    \<and> (\<forall>as x bs. xs = as @ x # bs \<longrightarrow>
         (\<exists>H'. hlist_add_before n x H = Some H' \<and> hlists H' (F(h \<mapsto> as @ n # x # bs)))
       \<and> (\<exists>H'. hlist_del x H = Some H' \<and> hlists H' (F(h \<mapsto> as @ bs))
            \<and> hnext H' x = Some Poison1 \<and> hpprev H' x = Some Poison2)
       \<and> (\<exists>H'. hlist_del_init x H = Some H' \<and> hlists H' (F(h \<mapsto> as @ bs)) \<and> hlist_unhashed x H' = Some True))"
  using hlist_add_head_spec [OF assms(1-3)] hlist_add_before_spec [OF assms(1) _ assms(3)]
    hlist_del_spec [OF assms(1)] hlist_move_list_spec [OF assms(1,2,4)] assms(2,5)
  by (intro conjI allI impI) simp_all

text \<open>Two heads, the lists \<open>1, 2\<close> and \<open>4\<close>, and a free node \<open>3\<close>.\<close>

definition demo_hlists :: "(nat, nat) hlist_heap" where
  "demo_hlists = \<lparr>hfirst = [0 \<mapsto> At 1, 9 \<mapsto> At 4], hnext = [1 \<mapsto> At 2, 2 \<mapsto> Null, 3 \<mapsto> Null, 4 \<mapsto> Null],
     hpprev = [1 \<mapsto> At (First 0), 2 \<mapsto> At (NextOf 1), 3 \<mapsto> Null, 4 \<mapsto> At (First 9)]\<rparr>"

theorem hlist_ops_refine_witness:
  "(\<exists>H'. hlist_add_head 3 0 demo_hlists = Some H' \<and> hlists H' [9 \<mapsto> [4], 0 \<mapsto> [3, 1, 2]])
   \<and> (\<exists>H'. hlist_del 2 demo_hlists = Some H' \<and> hlists H' [9 \<mapsto> [4], 0 \<mapsto> [1]])"
proof -
  have "hlists demo_hlists [0 \<mapsto> [1, 2], 9 \<mapsto> [4]]"
    by (auto simp: hlists_def demo_hlists_def read_cell.simps simp del: field_read split: if_splits)
  moreover have "fresh_node demo_hlists [0 \<mapsto> [1, 2], 9 \<mapsto> [4]] 3"
    by (auto simp: fresh_node_def unused_def demo_hlists_def read_cell.simps simp del: field_read split: if_splits)
  ultimately show ?thesis
    using hlist_ops_refine [of demo_hlists "[0 \<mapsto> [1, 2], 9 \<mapsto> [4]]" 0 "[1, 2]" 3 9 "[4]"]
    by (auto dest!: spec [of _ "[1]"])
qed

end
