(* ===== verification/List_Iter.thy ===== *)
theory List_Iter
  imports Hlist_H Types_H
begin

text \<open>
  The iteration macros of \<^verbatim>\<open>list.h\<close> as loops over a body.

  The body is a function of the position and of a state of any type that contains the memory
  of the nodes; it may change that memory.  The address of an entry and that of the node
  inside it differ by a constant (\<^verbatim>\<open>container_of\<close>), so an entry is named by its node; the
  difference matters only where a macro compares the address of an entry with \<^verbatim>\<open>NULL\<close>, and there the
  offset of the node is an argument.  A walk that faults or never ends is \<open>None\<close>.
\<close>

section \<open>Entries and nodes\<close>

definition container_of :: "u64 \<Rightarrow> u64 \<Rightarrow> u64" where
  "container_of ptr off = ptr - off"

lemma container_of_member [simp]: "container_of (entry + off) off = entry" "container_of p off + off = p"
  by (simp_all add: container_of_def)

section \<open>Loops over doubly linked lists\<close>

partial_function (option) list_walk ::
    "('a ptr \<Rightarrow> 'a list_heap \<Rightarrow> 'a ptr option) \<Rightarrow> ('s \<Rightarrow> 'a list_heap) \<Rightarrow> 'a ptr
       \<Rightarrow> ('a ptr \<Rightarrow> 's \<Rightarrow> 's option) \<Rightarrow> 'a ptr \<Rightarrow> 's \<Rightarrow> 's option" where
  "list_walk step heap head body pos s =
     (if pos = head then Some s
      else do { s \<leftarrow> body pos s; p \<leftarrow> step pos (heap s); list_walk step heap head body p s })"

definition list_for_each ::
    "('s \<Rightarrow> 'a list_heap) \<Rightarrow> 'a ptr \<Rightarrow> ('a ptr \<Rightarrow> 's \<Rightarrow> 's option) \<Rightarrow> 's \<Rightarrow> 's option" where
  "list_for_each heap head body s = do {
     pos \<leftarrow> load_next head (heap s); list_walk load_next heap head body pos s }"

definition list_for_each_prev ::
    "('s \<Rightarrow> 'a list_heap) \<Rightarrow> 'a ptr \<Rightarrow> ('a ptr \<Rightarrow> 's \<Rightarrow> 's option) \<Rightarrow> 's \<Rightarrow> 's option" where
  "list_for_each_prev heap head body s = do {
     pos \<leftarrow> load_prev head (heap s); list_walk load_prev heap head body pos s }"

definition list_for_each_entry_continue ::
    "('s \<Rightarrow> 'a list_heap) \<Rightarrow> 'a ptr \<Rightarrow> 'a ptr \<Rightarrow> ('a ptr \<Rightarrow> 's \<Rightarrow> 's option) \<Rightarrow> 's \<Rightarrow> 's option" where
  "list_for_each_entry_continue heap pos head body s = do {
     pos \<leftarrow> load_next pos (heap s); list_walk load_next heap head body pos s }"

definition list_for_each_entry_continue_reverse ::
    "('s \<Rightarrow> 'a list_heap) \<Rightarrow> 'a ptr \<Rightarrow> 'a ptr \<Rightarrow> ('a ptr \<Rightarrow> 's \<Rightarrow> 's option) \<Rightarrow> 's \<Rightarrow> 's option" where
  "list_for_each_entry_continue_reverse heap pos head body s = do {
     pos \<leftarrow> load_prev pos (heap s); list_walk load_prev heap head body pos s }"

definition list_for_each_entry_from ::
    "('s \<Rightarrow> 'a list_heap) \<Rightarrow> 'a ptr \<Rightarrow> 'a ptr \<Rightarrow> ('a ptr \<Rightarrow> 's \<Rightarrow> 's option) \<Rightarrow> 's \<Rightarrow> 's option" where
  "list_for_each_entry_from heap pos head body s = list_walk load_next heap head body pos s"

text \<open>The entry to continue from: the given one, or the head when there is none.\<close>

definition list_prepare_entry :: "'a ptr option \<Rightarrow> 'a ptr \<Rightarrow> 'a ptr" where
  "list_prepare_entry pos head = (case pos of Some p \<Rightarrow> p | None \<Rightarrow> head)"

section \<open>Loops over hash lists\<close>

definition load_hnext :: "'a ptr \<Rightarrow> ('h, 'a) hlist_heap \<Rightarrow> 'a ptr option" where
  "load_hnext p H = (case p of At n \<Rightarrow> hnext H n | _ \<Rightarrow> None)"

partial_function (option) hlist_walk ::
    "('a ptr \<Rightarrow> bool) \<Rightarrow> ('s \<Rightarrow> ('h, 'a) hlist_heap) \<Rightarrow> ('a ptr \<Rightarrow> 's \<Rightarrow> 's option) \<Rightarrow> 'a ptr \<Rightarrow> 's \<Rightarrow> 's option" where
  "hlist_walk going heap body pos s =
     (if \<not> going pos then Some s
      else do { s \<leftarrow> body pos s; p \<leftarrow> load_hnext pos (heap s); hlist_walk going heap body p s })"

definition hlist_for_each ::
    "('s \<Rightarrow> ('h, 'a) hlist_heap) \<Rightarrow> 'h \<Rightarrow> ('a ptr \<Rightarrow> 's \<Rightarrow> 's option) \<Rightarrow> 's \<Rightarrow> 's option" where
  "hlist_for_each heap head body s = do {
     pos \<leftarrow> hfirst (heap s) head; hlist_walk (\<lambda>p. p \<noteq> Null) heap body pos s }"

text \<open>The condition \<^verbatim>\<open>&pos->member != (head)\<close> compares a node with a list head, which are different
  objects: it always holds.\<close>

definition hlist_for_each_entry ::
    "('s \<Rightarrow> ('h, 'a) hlist_heap) \<Rightarrow> 'h \<Rightarrow> ('a ptr \<Rightarrow> 's \<Rightarrow> 's option) \<Rightarrow> 's \<Rightarrow> 's option" where
  "hlist_for_each_entry heap head body s = do {
     pos \<leftarrow> hfirst (heap s) head; hlist_walk (\<lambda>_. True) heap body pos s }"

text \<open>The condition \<^verbatim>\<open>pos\<close> of an entry: the entry of the null node is the null pointer only when the
  node is the first member.\<close>

definition hlist_for_each_entry_from ::
    "u64 \<Rightarrow> ('s \<Rightarrow> ('h, 'a) hlist_heap) \<Rightarrow> 'a ptr \<Rightarrow> ('a ptr \<Rightarrow> 's \<Rightarrow> 's option) \<Rightarrow> 's \<Rightarrow> 's option" where
  "hlist_for_each_entry_from off heap pos body s =
     hlist_walk (\<lambda>p. p \<noteq> Null \<or> container_of 0 off \<noteq> 0) heap body pos s"

section \<open>Routes\<close>

text \<open>The nodes that a step function visits one after the other.\<close>

fun route :: "('a ptr \<Rightarrow> 'a list_heap \<Rightarrow> 'a ptr option) \<Rightarrow> 'a list_heap \<Rightarrow> 'a list \<Rightarrow> bool" where
  "route step h (a # b # xs) = (step (At a) h = Some (At b) \<and> route step h (b # xs))"
| "route step h _ = True"

lemma route_append: "route step h (xs @ a # ys) \<longleftrightarrow> route step h (xs @ [a]) \<and> route step h (a # ys)"
proof (induction xs)
  case (Cons x xs)
  then show ?case by (cases xs) auto
qed simp

lemma chain_route: "chain h xs \<Longrightarrow> route load_next h xs"
  by (induction h xs rule: chain.induct) (auto simp: link_def)

lemma chain_route_back: "chain h xs \<Longrightarrow> route load_prev h (rev xs)"
proof (induction h xs rule: chain.induct)
  case (1 h a b xs)
  then show ?case using route_append [of load_prev h "rev xs" b "[a]"] by (simp add: link_def)
qed auto

text \<open>A body that leaves the links alone.\<close>

definition keeps :: "('s \<Rightarrow> 'm) \<Rightarrow> ('a ptr \<Rightarrow> 's \<Rightarrow> 's option) \<Rightarrow> bool" where
  "keeps heap body \<longleftrightarrow> (\<forall>p s s'. body p s = Some s' \<longrightarrow> heap s' = heap s)"

lemma list_walk_route:
  assumes "keeps heap body" "route step (heap s) (xs @ [head])" "head \<notin> set xs"
  shows "list_walk step heap (At head) body (At (hd (xs @ [head]))) s = for_each (\<lambda>a. body (At a)) xs s"
  using assms(2,3)
proof (induction xs arbitrary: s)
  case Nil
  then show ?case by (simp add: list_walk.simps)
next
  case (Cons x xs)
  have st: "step (At x) (heap s) = Some (At (hd (xs @ [head])))" "route step (heap s) (xs @ [head])"
    using Cons.prems(1) by (cases xs; simp)+
  show ?case
  proof (cases "body (At x) s")
    case None
    then show ?thesis using Cons.prems(2) by (subst list_walk.simps) auto
  next
    case (Some s1)
    then have "heap s1 = heap s" using assms(1) by (auto simp: keeps_def)
    then show ?thesis using Some st Cons by (subst list_walk.simps) auto
  qed
qed

lemma walk_after:
  assumes "keeps heap body" "route step (heap s) (a # xs @ [head])" "head \<notin> set xs"
  shows "do { pos \<leftarrow> step (At a) (heap s); list_walk step heap (At head) body pos s } = for_each (\<lambda>a. body (At a)) xs s"
proof -
  have "step (At a) (heap s) = Some (At (hd (xs @ [head])))" "route step (heap s) (xs @ [head])"
    using assms(2) by (cases xs; simp)+
  then show ?thesis using list_walk_route [OF assms(1) _ assms(3)] by simp
qed

text \<open>The routes through a list: forwards and backwards from the head and from an entry.\<close>

lemma dlist_routes:
  assumes "dlist h head (xs @ a # ys)"
  shows "route load_next h (a # ys @ [head])" "route load_prev h (a # rev xs @ [head])"
proof -
  have "chain h ((head # xs) @ a # ys @ [head])" using assms by (simp add: dlist_def)
  then have "chain h (head # xs @ [a])" "chain h (a # ys @ [head])"
    using chain_append [of h "head # xs" a "ys @ [head]"] by simp_all
  then show "route load_next h (a # ys @ [head])" "route load_prev h (a # rev xs @ [head])"
    using chain_route chain_route_back [of h "head # xs @ [a]"] by auto
qed

lemma dlist_head_routes:
  assumes "dlist h head xs"
  shows "route load_next h (head # xs @ [head])" "route load_prev h (head # rev xs @ [head])"
  using assms chain_route chain_route_back [of h "head # xs @ [head]"] by (auto simp: dlist_def)

section \<open>Properties\<close>

text \<open>C16: The loops over a list equal recursion over its entries.  With a body that leaves the links
  alone, each macro runs the body once for every entry it should visit, in order, and then
  ends: forwards and backwards from the head, and onwards from an entry in either direction, without
  or with that entry.  Continuing from the prepared entry of no position is the whole list.\<close>

theorem list_loops_visit:
  assumes "keeps heap body" "dlist (heap s) head zs"
  defines "run \<equiv> for_each (\<lambda>a. body (At a))"
  shows "list_for_each heap (At head) body s = run zs s
    \<and> list_for_each_prev heap (At head) body s = run (rev zs) s
    \<and> list_for_each_entry_continue heap (list_prepare_entry None (At head)) (At head) body s = run zs s
    \<and> (\<forall>xs a ys. zs = xs @ a # ys \<longrightarrow>
         list_for_each_entry_continue heap (At a) (At head) body s = run ys s
       \<and> list_for_each_entry_continue_reverse heap (At a) (At head) body s = run (rev xs) s
       \<and> list_for_each_entry_from heap (At a) (At head) body s = run (a # ys) s)"
proof -
  have n: "head \<notin> set zs" using assms(2) by (simp add: dlist_def)
  note h = dlist_head_routes [OF assms(2)] and w = walk_after [OF assms(1)]
  have "list_for_each_entry_continue heap (At a) (At head) body s = run ys s"
    "list_for_each_entry_continue_reverse heap (At a) (At head) body s = run (rev xs) s"
    "list_for_each_entry_from heap (At a) (At head) body s = run (a # ys) s" if zs: "zs = xs @ a # ys" for xs a ys
  proof -
    note e = dlist_routes [OF assms(2) [unfolded zs]]
    show "list_for_each_entry_continue heap (At a) (At head) body s = run ys s"
      unfolding list_for_each_entry_continue_def run_def by (rule w [OF e(1)]) (use n zs in simp)
    show "list_for_each_entry_continue_reverse heap (At a) (At head) body s = run (rev xs) s"
      unfolding list_for_each_entry_continue_reverse_def run_def by (rule w [OF e(2)]) (use n zs in simp)
    show "list_for_each_entry_from heap (At a) (At head) body s = run (a # ys) s"
      using list_walk_route [OF assms(1), of load_next s "a # ys" head] e(1) n
      by (simp add: list_for_each_entry_from_def run_def zs)
  qed
  moreover have "list_for_each heap (At head) body s = run zs s"
    unfolding list_for_each_def run_def by (rule w [OF h(1) n])
  moreover have "list_for_each_prev heap (At head) body s = run (rev zs) s"
    unfolding list_for_each_prev_def run_def by (rule w [OF h(2)]) (use n in simp)
  moreover have "list_for_each_entry_continue heap (list_prepare_entry None (At head)) (At head) body s = run zs s"
    unfolding list_for_each_entry_continue_def list_prepare_entry_def run_def option.case by (rule w [OF h(1) n])
  ultimately show ?thesis by blast
qed

text \<open>A loop that collects the nodes it visits.\<close>

definition collect :: "nat ptr \<Rightarrow> nat list_heap \<times> nat ptr list \<Rightarrow> (nat list_heap \<times> nat ptr list) option" where
  "collect p s = Some (fst s, snd s @ [p])"

theorem list_loops_visit_witness:
  "list_for_each_prev fst (At 0) collect (demo_heap, []) = Some (demo_heap, [At 2, At 1])
   \<and> list_for_each_entry_continue fst (At 1) (At 0) collect (demo_heap, []) = Some (demo_heap, [At 2])"
proof -
  have "keeps fst collect" by (simp add: keeps_def collect_def)
  moreover have "dlist (fst (demo_heap, [] :: nat ptr list)) 0 [1, 2]"
    using listsD [OF demo_holds, of 0 "[1, 2]"] by (simp add: demo_lists_eq)
  ultimately show ?thesis using list_loops_visit [of fst collect "(demo_heap, [])" 0 "[1, 2]"]
    by (simp add: collect_def Cons_eq_append_conv)
qed

text \<open>The loop reads the link of the current node after its body, so a body that deletes the current
  node is a wild access through the poison that \<^verbatim>\<open>list_del\<close> leaves.\<close>

theorem list_for_each_deletion_faults:
  assumes "lists h F" "F head = Some (x # xs)"
  shows "list_for_each id (At head) list_del h = None"
proof -
  have d: "dlist h head (x # xs)" using listsD [OF assms] .
  have n: "load_next (At head) h = Some (At x)" "x \<noteq> head"
    using dlist_head(1) [OF d] d by (auto simp: dlist_def)
  obtain h' where h': "list_del (At x) h = Some h'" "h' x = Some \<lparr>lnext = Poison1, lprev = Poison2\<rparr>"
    using lists_list_del [OF assms, of x] by auto
  have "list_del Poison1 h' = None" by (simp add: list_del_def load_prev_def load_next_def load_def)
  then have "list_walk load_next id (At head) list_del Poison1 h' = None" by (subst list_walk.simps) simp
  then have "list_walk load_next id (At head) list_del (At x) h = None"
    using n(2) h' by (subst list_walk.simps) (simp add: heap_simps)
  then show ?thesis using n(1) by (simp add: list_for_each_def)
qed

subsection \<open>Hash lists\<close>

lemma hchain_suffix: "hchain H c (xs @ ys) p \<Longrightarrow> hchain H (last_cell c xs) ys p"
  by (induction xs arbitrary: c) auto

lemma hlist_walk_chain:
  assumes "keeps heap body" "\<And>a. going (At a)" "hchain (heap s) c xs Null" "read_cell c (heap s) = Some p"
  shows "hlist_walk going heap body p s =
    do { s \<leftarrow> for_each (\<lambda>a. body (At a)) xs s; if going Null then None else Some s }"
  using assms(3,4)
proof (induction xs arbitrary: s c p)
  case Nil
  show ?case
  proof (cases "going Null")
    case True
    then show ?thesis using Nil by (subst hlist_walk.simps) (simp add: load_hnext_def bind_eq_None_conv)
  next
    case False
    then show ?thesis using Nil by (subst hlist_walk.simps) simp
  qed
next
  case (Cons x xs)
  have p: "p = At x" and ch: "hchain (heap s) (NextOf x) xs Null" using Cons.prems by auto
  obtain q where q: "read_cell (NextOf x) (heap s) = Some q"
    using hchain_exists [OF ch, of "NextOf x"] by (auto simp: cells_def)
  show ?case
  proof (cases "body (At x) s")
    case None
    then show ?thesis using assms(2) by (subst hlist_walk.simps) (simp add: p)
  next
    case (Some s1)
    then have "heap s1 = heap s" using assms(1) by (auto simp: keeps_def)
    then show ?thesis
      using Some q ch assms(2) Cons.IH [of s1 "NextOf x" q]
      by (subst hlist_walk.simps) (simp add: p load_hnext_def field_read)
  qed
qed

text \<open>The loops over a hash list.  \<^verbatim>\<open>hlist_for_each\<close> runs its body for every node in order and
  ends.  \<^verbatim>\<open>hlist_for_each_entry\<close> never ends normally, not even on an empty list, since its
  condition compares nodes with the list head and so runs past the end.
  \<^verbatim>\<open>hlist_for_each_entry_from\<close> ends only if the node is the first member of the entry: otherwise the
  entry of the null node is not the null pointer.\<close>

theorem hlist_loops_visit:
  assumes "keeps heap body" "hlists (heap s) F" "F head = Some zs"
  defines "run \<equiv> for_each (\<lambda>a. body (At a))"
  shows "hlist_for_each heap head body s = run zs s
    \<and> hlist_for_each_entry heap head body s = None
    \<and> (\<forall>xs a ys. zs = xs @ a # ys \<longrightarrow>
         hlist_for_each_entry_from off heap (At a) body s = (if off = 0 then run (a # ys) s else None))"
proof -
  have c: "hchain (heap s) (First head) zs Null" using hlistsD(1) [OF assms(2,3)] .
  obtain p where p: "read_cell (First head) (heap s) = Some p" "hfirst (heap s) head = Some p"
    using hchain_exists [OF c, of "First head"] by (auto simp: cells_def)
  have simps: "Option.bind m Some = m" "Option.bind m (\<lambda>_. None) = None" for m :: "'s option" by (cases m; simp)+
  note w = hlist_walk_chain [OF assms(1)]
  have "hlist_for_each_entry_from off heap (At a) body s = (if off = 0 then run (a # ys) s else None)"
    if "zs = xs @ a # ys" for xs a ys
  proof -
    have "hchain (heap s) (last_cell (First head) xs) (a # ys) Null" using hchain_suffix [of "heap s" "First head" xs "a # ys"] c that by simp
    then show ?thesis
      using w [of "\<lambda>p. p \<noteq> Null \<or> container_of 0 off \<noteq> 0" s "last_cell (First head) xs" "a # ys" "At a"]
      by (simp add: hlist_for_each_entry_from_def run_def simps container_of_def)
  qed
  moreover have "hlist_for_each heap head body s = run zs s" "hlist_for_each_entry heap head body s = None"
    using w [OF _ c p(1), of "\<lambda>p. p \<noteq> Null"] w [OF _ c p(1), of "\<lambda>_. True"] p(2)
    by (simp_all add: hlist_for_each_def hlist_for_each_entry_def run_def simps)
  ultimately show ?thesis by blast
qed

theorem hlist_loops_visit_witness:
  "hlist_for_each fst 0 (\<lambda>p s. Some (fst s, snd s @ [p])) (demo_hlists, []) = Some (demo_hlists, [At 1, At 2])
   \<and> hlist_for_each_entry fst 0 (\<lambda>p s. Some (fst s, snd s @ [p])) (demo_hlists, []) = None"
proof -
  have "hlists demo_hlists [0 \<mapsto> [1, 2], 9 \<mapsto> [4]]"
    by (auto simp: hlists_def demo_hlists_def read_cell.simps simp del: field_read split: if_splits)
  then show ?thesis
    using hlist_loops_visit [of fst "\<lambda>p s. Some (fst s, snd s @ [p])" "(demo_hlists, [])"
        "[0 \<mapsto> [1, 2], 9 \<mapsto> [4]]" 0 "[1, 2]"]
    by (simp add: keeps_def)
qed

end
