(* ===== verification/Spinlock_H.thy ===== *)
theory Spinlock_H
  imports Kernel_Prelude
begin

text \<open>
  The spinlocks of \<^verbatim>\<open>kernel/include/spinlock.h\<close> and the interrupt flag of
  \<^verbatim>\<open>src/kernel/main.c\<close>.

  The operations are given twice.  As functions on one lock they describe a caller that
  runs alone: a \<^verbatim>\<open>panic\<close> is a value of the sum type, and \<open>None\<close> is a wait that never ends.
  As a step relation they describe any number of CPUs that interleave, one step per access
  to the shared lock, with the program counter of each CPU; mutual exclusion, the progress
  of the holder, the panic of a contender and the refinement of an abstract lock are
  properties of the reachable states.
  Memory is sequentially consistent (every acquisition is a locked instruction and the
  release follows a write barrier).
\<close>

section \<open>State\<close>

record spinlock_t =
  sl_lock :: u32
  owner_cpu :: u32
  sl_owner :: "u64 option"
  sl_name :: string
  sl_magic :: u32

text \<open>The number of the running CPU, a constant function of \<^verbatim>\<open>main.c\<close>.\<close>

definition smp_processor_id :: u32 where "smp_processor_id = 0"

definition SPINLOCK_MAGIC :: u32 where "SPINLOCK_MAGIC = 0xDEADBEEF"
definition SPINLOCK_UNLOCKED :: u32 where "SPINLOCK_UNLOCKED = 0"
definition SPINLOCK_LOCKED :: u32 where "SPINLOCK_LOCKED = 1"
definition NO_CPU :: u32 where "NO_CPU = 0xFFFFFFFF"

lemmas spin_consts [lock_defs] =
  SPINLOCK_MAGIC_def SPINLOCK_UNLOCKED_def SPINLOCK_LOCKED_def NO_CPU_def

datatype lock_panic =
    Bad_spinlock_magic
  | Recursive_spinlock string u32
  | Spinlock_not_owned string u32 u32
  | Spinlock_assertion_failed string
  | Bad_rwlock_magic

section \<open>The operations of a caller that runs alone\<close>

definition SPINLOCK_INIT :: "string \<Rightarrow> spinlock_t" where
  "SPINLOCK_INIT name = \<lparr>sl_lock = SPINLOCK_UNLOCKED, owner_cpu = NO_CPU, sl_owner = None,
     sl_name = name, sl_magic = SPINLOCK_MAGIC\<rparr>"

definition spin_lock_init :: "spinlock_t \<Rightarrow> spinlock_t" where
  "spin_lock_init l = l\<lparr>sl_lock := SPINLOCK_UNLOCKED, owner_cpu := NO_CPU, sl_owner := None,
     sl_name := ''unknown'', sl_magic := SPINLOCK_MAGIC\<rparr>"

text \<open>
  The acquisition loop of \<^verbatim>\<open>spin_lock\<close>: a compare-and-swap, and while it fails a wait on
  the lock word.  \<open>ra\<close> is the return address that \<^verbatim>\<open>__builtin_return_address\<close> yields.
\<close>

partial_function (option) spin_acquire :: "u32 \<Rightarrow> u64 \<Rightarrow> spinlock_t \<Rightarrow> spinlock_t option" where
  "spin_acquire cpu ra l =
     (if sl_lock l = SPINLOCK_UNLOCKED
      then Some (l\<lparr>sl_lock := SPINLOCK_LOCKED, owner_cpu := cpu, sl_owner := Some ra\<rparr>)
      else spin_acquire cpu ra l)"

definition spin_lock :: "u32 \<Rightarrow> u64 \<Rightarrow> spinlock_t \<Rightarrow> (lock_panic + spinlock_t) option" where
  "spin_lock cpu ra l =
     (if sl_magic l \<noteq> SPINLOCK_MAGIC then Some (Inl Bad_spinlock_magic)
      else if owner_cpu l = cpu then Some (Inl (Recursive_spinlock (sl_name l) cpu))
      else map_option Inr (spin_acquire cpu ra l))"

definition spin_trylock :: "u32 \<Rightarrow> u64 \<Rightarrow> spinlock_t \<Rightarrow> lock_panic + bool \<times> spinlock_t" where
  "spin_trylock cpu ra l =
     (if sl_magic l \<noteq> SPINLOCK_MAGIC then Inl Bad_spinlock_magic
      else if owner_cpu l = cpu then Inl (Recursive_spinlock (sl_name l) cpu)
      else if sl_lock l = SPINLOCK_UNLOCKED
      then Inr (True, l\<lparr>sl_lock := SPINLOCK_LOCKED, owner_cpu := cpu, sl_owner := Some ra\<rparr>)
      else Inr (False, l))"

definition spin_unlock :: "u32 \<Rightarrow> spinlock_t \<Rightarrow> lock_panic + spinlock_t" where
  "spin_unlock cpu l =
     (if sl_magic l \<noteq> SPINLOCK_MAGIC then Inl Bad_spinlock_magic
      else if owner_cpu l \<noteq> cpu then Inl (Spinlock_not_owned (sl_name l) (owner_cpu l) cpu)
      else Inr (l\<lparr>owner_cpu := NO_CPU, sl_owner := None, sl_lock := SPINLOCK_UNLOCKED\<rparr>))"

definition spin_is_locked :: "spinlock_t \<Rightarrow> bool" where
  "spin_is_locked l \<longleftrightarrow> sl_lock l = SPINLOCK_LOCKED"

definition spin_assert_locked :: "spinlock_t \<Rightarrow> lock_panic + unit" where
  "spin_assert_locked l =
     (if \<not> spin_is_locked l then Inl (Spinlock_assertion_failed (sl_name l)) else Inr ())"

text \<open>
  The interrupt flag is bit 9 of \<^verbatim>\<open>rflags\<close>: \<^verbatim>\<open>pushfq; popq; cli\<close> returns the register and
  clears the bit, \<^verbatim>\<open>popfq\<close> writes the register back, \<^verbatim>\<open>cli\<close> and \<^verbatim>\<open>sti\<close> clear and set it.
\<close>

definition X86_EFLAGS_IF :: nat where "X86_EFLAGS_IF = 9"

definition irqs_on :: "u64 \<Rightarrow> bool" where
  "irqs_on rflags \<longleftrightarrow> bit rflags X86_EFLAGS_IF"

definition local_irq_disable :: "u64 \<Rightarrow> u64" where
  "local_irq_disable rflags = unset_bit X86_EFLAGS_IF rflags"

definition local_irq_enable :: "u64 \<Rightarrow> u64" where
  "local_irq_enable rflags = set_bit X86_EFLAGS_IF rflags"

definition local_irq_save :: "u64 \<Rightarrow> u64 \<times> u64" where
  "local_irq_save rflags = (rflags, local_irq_disable rflags)"

definition local_irq_restore :: "u64 \<Rightarrow> u64 \<Rightarrow> u64" where
  "local_irq_restore flags rflags = flags"

text \<open>
  \<^verbatim>\<open>spin_lock_irqsave\<close> stores the saved register through a pointer to \<^verbatim>\<open>ulong\<close>, which
  \<^verbatim>\<open>types.h\<close> makes a 32-bit type: the upper half of the register is dropped.
\<close>

definition spin_lock_irqsave ::
    "u32 \<Rightarrow> u64 \<Rightarrow> spinlock_t \<Rightarrow> u64 \<Rightarrow> (lock_panic + spinlock_t \<times> ulong \<times> u64) option" where
  "spin_lock_irqsave cpu ra l rflags =
     (let (saved, rflags) = local_irq_save rflags
      in map_option (map_sum id (\<lambda>l. (l, ucast saved, rflags))) (spin_lock cpu ra l))"

definition spin_unlock_irqrestore ::
    "u32 \<Rightarrow> spinlock_t \<Rightarrow> ulong \<Rightarrow> u64 \<Rightarrow> lock_panic + spinlock_t \<times> u64" where
  "spin_unlock_irqrestore cpu l flags rflags =
     map_sum id (\<lambda>l. (l, local_irq_restore (ucast flags) rflags)) (spin_unlock cpu l)"

definition spin_lock_irq ::
    "u32 \<Rightarrow> u64 \<Rightarrow> spinlock_t \<Rightarrow> u64 \<Rightarrow> (lock_panic + spinlock_t \<times> u64) option" where
  "spin_lock_irq cpu ra l rflags =
     map_option (map_sum id (\<lambda>l. (l, local_irq_disable rflags))) (spin_lock cpu ra l)"

definition spin_unlock_irq :: "u32 \<Rightarrow> spinlock_t \<Rightarrow> u64 \<Rightarrow> lock_panic + spinlock_t \<times> u64" where
  "spin_unlock_irq cpu l rflags =
     map_sum id (\<lambda>l. (l, local_irq_enable rflags)) (spin_unlock cpu l)"

text \<open>The bottom-half variants.  \<^verbatim>\<open>local_bh_disable\<close> is declared and not defined, so it is a
  parameter that acts on the state \<open>b\<close> of the bottom halves; \<^verbatim>\<open>local_bh_enable\<close> is empty.\<close>

definition local_bh_enable :: "'b \<Rightarrow> 'b" where "local_bh_enable b = b"

definition spin_lock_bh ::
    "('b \<Rightarrow> 'b) \<Rightarrow> u32 \<Rightarrow> u64 \<Rightarrow> spinlock_t \<Rightarrow> 'b \<Rightarrow> (lock_panic + spinlock_t \<times> 'b) option" where
  "spin_lock_bh local_bh_disable cpu ra l b =
     map_option (map_sum id (\<lambda>l. (l, local_bh_disable b))) (spin_lock cpu ra l)"

definition spin_unlock_bh :: "u32 \<Rightarrow> spinlock_t \<Rightarrow> 'b \<Rightarrow> lock_panic + spinlock_t \<times> 'b" where
  "spin_unlock_bh cpu l b = map_sum id (\<lambda>l. (l, local_bh_enable b)) (spin_unlock cpu l)"

section \<open>Interleaved CPUs\<close>

datatype spin_pc =
    Idle
  | Lock_magic | Lock_recursion | Lock_cas | Lock_spin | Lock_set_cpu | Lock_set_owner
  | Try_magic | Try_recursion | Try_cas | Try_set_cpu | Try_set_owner
  | Critical
  | Unlock_magic | Unlock_owner | Unlock_clear_cpu | Unlock_clear_owner | Unlock_release
  | Panicked

record spin_sys =
  the_lock :: spinlock_t
  cpu_pc :: "u32 \<Rightarrow> spin_pc"

definition goto :: "u32 \<Rightarrow> spin_pc \<Rightarrow> spin_sys \<Rightarrow> spin_sys" where
  "goto c p s = s\<lparr>cpu_pc := (cpu_pc s)(c := p)\<rparr>"

definition set_lock :: "spinlock_t \<Rightarrow> spin_sys \<Rightarrow> spin_sys" where
  "set_lock l s = s\<lparr>the_lock := l\<rparr>"

text \<open>
  One access of CPU \<open>c\<close> to the lock; a CPU in no operation may start one.  Which CPU takes the
  step is \<open>c\<close>, but the number it writes and compares is what \<^verbatim>\<open>smp_processor_id()\<close> returns in
  \<^verbatim>\<open>main.c\<close>, the constant 0 on every CPU.
\<close>

inductive spin_step :: "u32 \<Rightarrow> spin_sys \<Rightarrow> spin_sys \<Rightarrow> bool" for c :: u32 where
  call_lock: "cpu_pc s c = Idle \<Longrightarrow> spin_step c s (goto c Lock_magic s)"
| lock_magic: "cpu_pc s c = Lock_magic \<Longrightarrow>
    spin_step c s (goto c (if sl_magic (the_lock s) \<noteq> SPINLOCK_MAGIC then Panicked
                           else Lock_recursion) s)"
| lock_recursion: "cpu_pc s c = Lock_recursion \<Longrightarrow>
    spin_step c s (goto c (if owner_cpu (the_lock s) = smp_processor_id then Panicked else Lock_cas) s)"
| lock_cas_ok: "cpu_pc s c = Lock_cas \<Longrightarrow> sl_lock (the_lock s) = SPINLOCK_UNLOCKED \<Longrightarrow>
    spin_step c s (goto c Lock_set_cpu (set_lock ((the_lock s)\<lparr>sl_lock := SPINLOCK_LOCKED\<rparr>) s))"
| lock_cas_fail: "cpu_pc s c = Lock_cas \<Longrightarrow> sl_lock (the_lock s) \<noteq> SPINLOCK_UNLOCKED \<Longrightarrow>
    spin_step c s (goto c Lock_spin s)"
| lock_spin: "cpu_pc s c = Lock_spin \<Longrightarrow>
    spin_step c s (goto c (if sl_lock (the_lock s) = SPINLOCK_LOCKED then Lock_spin
                           else Lock_cas) s)"
| lock_set_cpu: "cpu_pc s c = Lock_set_cpu \<Longrightarrow>
    spin_step c s (goto c Lock_set_owner (set_lock ((the_lock s)\<lparr>owner_cpu := smp_processor_id\<rparr>) s))"
| lock_set_owner: "cpu_pc s c = Lock_set_owner \<Longrightarrow>
    spin_step c s (goto c Critical (set_lock ((the_lock s)\<lparr>sl_owner := Some ra\<rparr>) s))"
| call_trylock: "cpu_pc s c = Idle \<Longrightarrow> spin_step c s (goto c Try_magic s)"
| try_magic: "cpu_pc s c = Try_magic \<Longrightarrow>
    spin_step c s (goto c (if sl_magic (the_lock s) \<noteq> SPINLOCK_MAGIC then Panicked
                           else Try_recursion) s)"
| try_recursion: "cpu_pc s c = Try_recursion \<Longrightarrow>
    spin_step c s (goto c (if owner_cpu (the_lock s) = smp_processor_id then Panicked else Try_cas) s)"
| try_cas_ok: "cpu_pc s c = Try_cas \<Longrightarrow> sl_lock (the_lock s) = SPINLOCK_UNLOCKED \<Longrightarrow>
    spin_step c s (goto c Try_set_cpu (set_lock ((the_lock s)\<lparr>sl_lock := SPINLOCK_LOCKED\<rparr>) s))"
| try_cas_fail: "cpu_pc s c = Try_cas \<Longrightarrow> sl_lock (the_lock s) \<noteq> SPINLOCK_UNLOCKED \<Longrightarrow>
    spin_step c s (goto c Idle s)"
| try_set_cpu: "cpu_pc s c = Try_set_cpu \<Longrightarrow>
    spin_step c s (goto c Try_set_owner (set_lock ((the_lock s)\<lparr>owner_cpu := smp_processor_id\<rparr>) s))"
| try_set_owner: "cpu_pc s c = Try_set_owner \<Longrightarrow>
    spin_step c s (goto c Critical (set_lock ((the_lock s)\<lparr>sl_owner := Some ra\<rparr>) s))"
| call_unlock: "cpu_pc s c = Critical \<Longrightarrow> spin_step c s (goto c Unlock_magic s)"
| unlock_magic: "cpu_pc s c = Unlock_magic \<Longrightarrow>
    spin_step c s (goto c (if sl_magic (the_lock s) \<noteq> SPINLOCK_MAGIC then Panicked
                           else Unlock_owner) s)"
| unlock_owner: "cpu_pc s c = Unlock_owner \<Longrightarrow>
    spin_step c s (goto c (if owner_cpu (the_lock s) \<noteq> smp_processor_id then Panicked
                           else Unlock_clear_cpu) s)"
| unlock_clear_cpu: "cpu_pc s c = Unlock_clear_cpu \<Longrightarrow>
    spin_step c s (goto c Unlock_clear_owner (set_lock ((the_lock s)\<lparr>owner_cpu := NO_CPU\<rparr>) s))"
| unlock_clear_owner: "cpu_pc s c = Unlock_clear_owner \<Longrightarrow>
    spin_step c s (goto c Unlock_release (set_lock ((the_lock s)\<lparr>sl_owner := None\<rparr>) s))"
| unlock_release: "cpu_pc s c = Unlock_release \<Longrightarrow>
    spin_step c s (goto c Idle (set_lock ((the_lock s)\<lparr>sl_lock := SPINLOCK_UNLOCKED\<rparr>) s))"

definition spin_start :: "spinlock_t \<Rightarrow> spin_sys" where
  "spin_start l = \<lparr>the_lock = spin_lock_init l, cpu_pc = (\<lambda>_. Idle)\<rparr>"

text \<open>The reachable states of CPUs with numbers other than the \<^verbatim>\<open>0xFFFFFFFF\<close> of a free lock.\<close>

inductive spin_reachable :: "spin_sys \<Rightarrow> bool" where
  start: "spin_reachable (spin_start l)"
| step: "spin_reachable s \<Longrightarrow> c \<noteq> NO_CPU \<Longrightarrow> spin_step c s t \<Longrightarrow> spin_reachable t"

section \<open>Invariant\<close>

text \<open>
  A CPU holds the lock from its successful compare-and-swap to the store that releases it,
  and is recorded as the owner within that span.
\<close>

fun holding :: "spin_pc \<Rightarrow> bool" where
  "holding p \<longleftrightarrow> p \<in> {Lock_set_cpu, Lock_set_owner, Try_set_cpu, Try_set_owner, Critical,
     Unlock_magic, Unlock_owner, Unlock_clear_cpu, Unlock_clear_owner, Unlock_release}"

fun recorded :: "spin_pc \<Rightarrow> bool" where
  "recorded p \<longleftrightarrow> p \<in> {Lock_set_owner, Try_set_owner, Critical,
     Unlock_magic, Unlock_owner, Unlock_clear_cpu}"

definition spin_inv :: "spin_sys \<Rightarrow> bool" where
  "spin_inv s \<longleftrightarrow>
     sl_magic (the_lock s) = SPINLOCK_MAGIC
     \<and> sl_lock (the_lock s) \<in> {SPINLOCK_UNLOCKED, SPINLOCK_LOCKED}
     \<and> (sl_lock (the_lock s) = SPINLOCK_LOCKED \<longleftrightarrow> (\<exists>c. holding (cpu_pc s c)))
     \<and> (\<forall>c d. holding (cpu_pc s c) \<longrightarrow> holding (cpu_pc s d) \<longrightarrow> c = d)
     \<and> owner_cpu (the_lock s) = (if \<exists>c. recorded (cpu_pc s c) then smp_processor_id else NO_CPU)
     \<and> cpu_pc s NO_CPU = Idle"

lemma spin_inv_start: "spin_inv (spin_start l)"
  by (simp add: spin_inv_def spin_start_def spin_lock_init_def lock_defs)

lemma zero_is_cpu [simp]: "0 \<noteq> NO_CPU" "NO_CPU \<noteq> 0" "smp_processor_id \<noteq> NO_CPU" "NO_CPU \<noteq> smp_processor_id"
  by (simp_all add: NO_CPU_def smp_processor_id_def)

declare holding.simps [simp del] recorded.simps [simp del]

lemmas pc_class = holding.simps recorded.simps

text \<open>
  What a step may do to the invariant: move inside a class of program counters, take the
  free lock, record or clear the owner, release.
\<close>

lemma spin_inv_stay:
  assumes "spin_inv s" "c \<noteq> NO_CPU"
    and "holding p = holding (cpu_pc s c)" "recorded p = recorded (cpu_pc s c)"
  shows "spin_inv (goto c p s)"
proof -
  let ?t = "goto c p s"
  have same: "holding (cpu_pc ?t d) = holding (cpu_pc s d)"
    "recorded (cpu_pc ?t d) = recorded (cpu_pc s d)" "the_lock ?t = the_lock s" for d
    using assms by (simp_all add: goto_def)
  have "cpu_pc ?t NO_CPU = Idle" using assms by (simp add: spin_inv_def goto_def)
  then show ?thesis using assms(1) unfolding spin_inv_def same by blast
qed

lemma spin_inv_owner_field:
  assumes "spin_inv s"
  shows "spin_inv (set_lock ((the_lock s)\<lparr>sl_owner := a\<rparr>) s)"
  using assms by (auto simp: spin_inv_def set_lock_def)

lemma recorded_holding: "recorded p \<Longrightarrow> holding p" by (auto simp: pc_class)

text \<open>A recorded CPU is the only one that holds the lock, so the recorded number is its.\<close>

lemma spin_inv_alone:
  assumes "spin_inv s" "holding (cpu_pc s c)" "d \<noteq> c"
  shows "\<not> holding (cpu_pc s d)" "\<not> recorded (cpu_pc s d)"
  using assms recorded_holding unfolding spin_inv_def by blast+

lemma spin_inv_acquire:
  assumes "spin_inv s" "c \<noteq> NO_CPU" "sl_lock (the_lock s) = SPINLOCK_UNLOCKED" "holding p" "\<not> recorded p"
  shows "spin_inv (goto c p (set_lock ((the_lock s)\<lparr>sl_lock := SPINLOCK_LOCKED\<rparr>) s))"
proof -
  have "\<not> holding (cpu_pc s d)" for d
    using assms(1,3) by (auto simp: spin_inv_def spin_consts)
  moreover from this have "\<not> recorded (cpu_pc s d)" for d using recorded_holding by blast
  ultimately show ?thesis using assms by (auto simp: spin_inv_def goto_def set_lock_def)
qed

lemma spin_inv_write_owner:
  assumes "spin_inv s" "c \<noteq> NO_CPU" "holding (cpu_pc s c)" "holding p"
    and "n = (if recorded p then smp_processor_id else NO_CPU)"
  shows "spin_inv (goto c p (set_lock ((the_lock s)\<lparr>owner_cpu := n\<rparr>) s))"
proof -
  have "(\<exists>d. recorded (if d = c then p else cpu_pc s d)) \<longleftrightarrow> recorded p"
    using spin_inv_alone(2) [OF assms(1,3)] by (auto split: if_splits)
  with assms show ?thesis by (auto simp: spin_inv_def goto_def set_lock_def)
qed

lemma spin_inv_release:
  assumes "spin_inv s" "c \<noteq> NO_CPU" "holding (cpu_pc s c)" "\<not> recorded (cpu_pc s c)" "\<not> holding p"
  shows "spin_inv (goto c p (set_lock ((the_lock s)\<lparr>sl_lock := SPINLOCK_UNLOCKED\<rparr>) s))"
proof -
  have "\<not> holding (cpu_pc s d)" "\<not> recorded (cpu_pc s d)" if "d \<noteq> c" for d
    using spin_inv_alone [OF assms(1,3) that] .
  moreover have "\<not> recorded p" using assms(5) recorded_holding by blast
  moreover have "\<not> recorded (cpu_pc s d)" for d using calculation(2) assms(4) by (cases "d = c") auto
  ultimately show ?thesis using assms by (auto simp: spin_inv_def goto_def set_lock_def spin_consts)
qed

lemma spin_inv_checks:
  assumes "spin_inv s"
  shows "sl_magic (the_lock s) = SPINLOCK_MAGIC"
    "owner_cpu (the_lock s) = smp_processor_id \<longleftrightarrow> (\<exists>c. recorded (cpu_pc s c))"
  using assms by (auto simp: spin_inv_def)

lemma spin_inv_no_cpu: "spin_inv s \<Longrightarrow> cpu_pc s NO_CPU = Idle"
  by (simp only: spin_inv_def)

lemma spin_inv_step:
  assumes "spin_step c s t" "spin_inv s" "c \<noteq> NO_CPU"
  shows "spin_inv t"
  using assms
proof (induction rule: spin_step.induct)
  case (lock_set_owner s ra)
  then show ?case
    using spin_inv_stay [OF spin_inv_owner_field, of s c Critical "Some ra"]
    by (simp add: pc_class set_lock_def)
next
  case (try_set_owner s ra)
  then show ?case
    using spin_inv_stay [OF spin_inv_owner_field, of s c Critical "Some ra"]
    by (simp add: pc_class set_lock_def)
next
  case (unlock_clear_owner s)
  then show ?case
    using spin_inv_stay [OF spin_inv_owner_field, of s c Unlock_release None]
    by (simp add: pc_class set_lock_def)
next
  case (lock_cas_ok s)
  then show ?case by (intro spin_inv_acquire) (auto simp: pc_class)
next
  case (try_cas_ok s)
  then show ?case by (intro spin_inv_acquire) (auto simp: pc_class)
next
  case (lock_set_cpu s)
  then show ?case by (intro spin_inv_write_owner) (auto simp: pc_class)
next
  case (try_set_cpu s)
  then show ?case by (intro spin_inv_write_owner) (auto simp: pc_class)
next
  case (unlock_clear_cpu s)
  then show ?case by (intro spin_inv_write_owner) (auto simp: pc_class)
next
  case (unlock_release s)
  then show ?case by (intro spin_inv_release) (auto simp: pc_class)
next
  case (unlock_owner s)
  then have "recorded (cpu_pc s c)" by (simp add: pc_class)
  then have "owner_cpu (the_lock s) = smp_processor_id" using spin_inv_checks(2) unlock_owner(2) by blast
  with unlock_owner show ?case by (auto intro!: spin_inv_stay simp: pc_class)
qed (auto intro!: spin_inv_stay simp: pc_class spin_inv_checks(1))

lemma spin_reachable_inv: "spin_reachable s \<Longrightarrow> spin_inv s"
  by (induction rule: spin_reachable.induct) (auto intro: spin_inv_start spin_inv_step)


section \<open>The abstract lock\<close>

text \<open>
  The contract of a lock: it records at most one holder, a CPU becomes the holder only
  when there is none, and only the holder gives it up.
\<close>

inductive lock_spec_step :: "'c \<Rightarrow> 'c option \<Rightarrow> 'c option \<Rightarrow> bool" for c :: 'c where
  acquire: "lock_spec_step c None (Some c)"
| release: "lock_spec_step c (Some c) None"

text \<open>The holder among the CPUs that satisfy a predicate of which there is at most one.\<close>

definition holder_of :: "('c \<Rightarrow> bool) \<Rightarrow> 'c option" where
  "holder_of H = (if \<exists>c. H c then Some (THE c. H c) else None)"

lemma holder_of_Some: "(\<And>c d. H c \<Longrightarrow> H d \<Longrightarrow> c = d) \<Longrightarrow> holder_of H = Some c \<longleftrightarrow> H c"
  unfolding holder_of_def by (auto intro: the_equality dest: theI)

lemma holder_of_None: "holder_of H = None \<longleftrightarrow> (\<forall>c. \<not> H c)"
  by (simp add: holder_of_def)

lemma holder_of_step:
  assumes H: "\<And>d e. H d \<Longrightarrow> H e \<Longrightarrow> d = e" and K: "\<And>d e. K d \<Longrightarrow> K e \<Longrightarrow> d = e"
    and other: "\<And>d. d \<noteq> c \<Longrightarrow> K d = H d"
  shows "holder_of K = holder_of H \<or> lock_spec_step c (holder_of H) (holder_of K)"
proof (cases "H c"; cases "K c")
  assume "H c" "K c"
  then have "K = H" using other by fastforce
  then show ?thesis by simp
next
  assume *: "H c" "\<not> K c"
  then have "holder_of K = None" "holder_of H = Some c"
    using H other by (metis holder_of_None, metis holder_of_Some)
  then show ?thesis by (simp add: lock_spec_step.release)
next
  assume *: "\<not> H c" "K c"
  then have "holder_of H = None" "holder_of K = Some c"
    using K other by (metis holder_of_None, metis holder_of_Some)
  then show ?thesis by (simp add: lock_spec_step.acquire)
next
  assume "\<not> H c" "\<not> K c"
  then have "K = H" using other by fastforce
  then show ?thesis by simp
qed

locale mutex =
  fixes reach :: "'s \<Rightarrow> bool"
    and step :: "'c \<Rightarrow> 's \<Rightarrow> 's \<Rightarrow> bool"
    and holder :: "'s \<Rightarrow> 'c option"
    and inside :: "'s \<Rightarrow> 'c \<Rightarrow> bool"
  assumes inside_holder: "reach s \<Longrightarrow> inside s c \<Longrightarrow> holder s = Some c"
    and reach_step: "reach s \<Longrightarrow> step c s t \<Longrightarrow> reach t"
    and step_spec: "reach s \<Longrightarrow> step c s t \<Longrightarrow>
      holder t = holder s \<or> lock_spec_step c (holder s) (holder t)"
begin

inductive run :: "'s \<Rightarrow> 's list \<Rightarrow> bool" where
  run_nil: "run s []"
| run_cons: "step c s t \<Longrightarrow> run t ts \<Longrightarrow> run s (t # ts)"

lemma inside_unique: "reach s \<Longrightarrow> inside s c \<Longrightarrow> inside s d \<Longrightarrow> c = d"
  by (metis inside_holder option.inject)

lemma run_reach: "run s ts \<Longrightarrow> reach s \<Longrightarrow> t \<in> set ts \<Longrightarrow> reach t"
  by (induction rule: run.induct) (auto intro: reach_step)

lemma run_inside_unique:
  "run s ts \<Longrightarrow> reach s \<Longrightarrow> t \<in> set ts \<Longrightarrow> inside t c \<Longrightarrow> inside t d \<Longrightarrow> c = d"
  by (rule inside_unique [OF run_reach])

text \<open>Between two different holders the lock is free at some point of every run.\<close>

lemma handover:
  assumes "run s ts" "reach s" "holder s = Some c" "ts \<noteq> []" "holder (last ts) = Some d" "c \<noteq> d"
  shows "\<exists>t \<in> set ts. holder t = None"
  using assms
proof (induction rule: run.induct)
  case (run_nil s)
  then show ?case by simp
next
  case (run_cons e s t ts)
  have "holder t = holder s \<or> lock_spec_step e (holder s) (holder t)"
    using step_spec [OF \<open>reach s\<close> run_cons(1)] .
  with run_cons have t: "holder t = Some c \<or> holder t = None"
    by (auto elim: lock_spec_step.cases)
  show ?case
  proof (cases "holder t = None")
    case False
    with t run_cons reach_step [OF \<open>reach s\<close> run_cons(1)] show ?thesis by (cases ts) auto
  qed simp
qed

end


section \<open>The spinlock implements the abstract lock\<close>

definition spin_holder :: "spin_sys \<Rightarrow> u32 option" where
  "spin_holder s = holder_of (\<lambda>c. holding (cpu_pc s c))"

lemma spin_holder_Some: "spin_inv s \<Longrightarrow> spin_holder s = Some c \<longleftrightarrow> holding (cpu_pc s c)"
  unfolding spin_holder_def by (rule holder_of_Some) (auto simp: spin_inv_def)

lemma spin_step_other: "spin_step c s t \<Longrightarrow> d \<noteq> c \<Longrightarrow> cpu_pc t d = cpu_pc s d"
  by (induction rule: spin_step.induct) (simp_all add: goto_def set_lock_def)

lemma spin_step_spec:
  assumes "spin_inv s" "spin_inv t" "spin_step c s t"
  shows "spin_holder t = spin_holder s \<or> lock_spec_step c (spin_holder s) (spin_holder t)"
  unfolding spin_holder_def
  using assms(1,2) spin_step_other [OF assms(3)]
  by (intro holder_of_step) (auto simp: spin_inv_def)

interpretation spin: mutex spin_reachable "\<lambda>c s t. c \<noteq> NO_CPU \<and> spin_step c s t" spin_holder
  "\<lambda>s c. cpu_pc s c = Critical"
proof unfold_locales
  show "spin_holder s = Some c" if "spin_reachable s" "cpu_pc s c = Critical" for s c
    using that by (simp add: spin_holder_Some spin_reachable_inv pc_class)
  show "spin_reachable t" if "spin_reachable s" "c \<noteq> NO_CPU \<and> spin_step c s t" for s c t
    using that by (blast intro: spin_reachable.step)
  show "spin_holder t = spin_holder s \<or> lock_spec_step c (spin_holder s) (spin_holder t)"
    if "spin_reachable s" "c \<noteq> NO_CPU \<and> spin_step c s t" for s c t
    using that spin_step_spec spin_reachable_inv spin_reachable.step by metis
qed

section \<open>Properties of the spinlock\<close>

text \<open>A run in which CPU 0 takes the lock, used to instantiate the properties.\<close>

lemma goto_goto [simp]: "goto c p (goto c q s) = goto c p s"
  and goto_set_lock [simp]: "set_lock l (goto c q s) = goto c q (set_lock l s)"
  and set_lock_set_lock [simp]: "set_lock l (set_lock l' s) = set_lock l s"
  and goto_pc [simp]: "cpu_pc (goto c p s) d = (if d = c then p else cpu_pc s d)"
  and set_lock_pc [simp]: "cpu_pc (set_lock l s) = cpu_pc s"
  and goto_lock [simp]: "the_lock (goto c p s) = the_lock s"
  and set_lock_lock [simp]: "the_lock (set_lock l s) = l"
  by (simp_all add: goto_def set_lock_def)

definition demo_start :: spin_sys where
  "demo_start = spin_start (SPINLOCK_INIT ''demo'')"

definition demo_taken :: spin_sys where
  "demo_taken = goto 0 Lock_set_cpu
     (set_lock ((the_lock demo_start)\<lparr>sl_lock := SPINLOCK_LOCKED\<rparr>) demo_start)"

definition demo_critical :: spin_sys where
  "demo_critical = goto 0 Critical
     (set_lock ((the_lock demo_start)\<lparr>sl_lock := SPINLOCK_LOCKED, owner_cpu := 0,
        sl_owner := Some 4096\<rparr>) demo_start)"

lemma demo_fields [simp]:
  "cpu_pc demo_start c = Idle" "sl_magic (the_lock demo_start) = SPINLOCK_MAGIC"
  "sl_lock (the_lock demo_start) = SPINLOCK_UNLOCKED" "owner_cpu (the_lock demo_start) = NO_CPU"
  by (simp_all add: demo_start_def spin_start_def spin_lock_init_def)

lemma demo_waiting_reachable: "spin_reachable (goto 0 Lock_cas demo_start)"
proof -
  have "spin_reachable demo_start"
    unfolding demo_start_def by (rule spin_reachable.start)
  from spin_reachable.step [OF this _ spin_step.call_lock [of demo_start 0]]
  have "spin_reachable (goto 0 Lock_magic demo_start)" by simp
  from spin_reachable.step [OF this _ spin_step.lock_magic [of _ 0]]
  have "spin_reachable (goto 0 Lock_recursion demo_start)" by simp
  from spin_reachable.step [OF this _ spin_step.lock_recursion [of _ 0]]
  show ?thesis by simp
qed

lemma demo_takes: "spin_step 0 (goto 0 Lock_cas demo_start) demo_taken"
  using spin_step.lock_cas_ok [of "goto 0 Lock_cas demo_start" 0] by (simp add: demo_taken_def)

lemma demo_critical_reachable: "spin_reachable demo_critical"
proof -
  have "spin_reachable demo_taken"
    using spin_reachable.step [OF demo_waiting_reachable _ demo_takes] by simp
  from spin_reachable.step [OF this _ spin_step.lock_set_cpu [of _ 0]]
  have "spin_reachable (goto 0 Lock_set_owner (set_lock
      ((the_lock demo_start)\<lparr>sl_lock := SPINLOCK_LOCKED, owner_cpu := 0\<rparr>) demo_start))"
    by (simp add: demo_taken_def smp_processor_id_def)
  from spin_reachable.step [OF this _ spin_step.lock_set_owner [of _ 0 4096]]
  show ?thesis by (simp add: demo_critical_def)
qed

text \<open>
  C5: Mutual exclusion: in every state that any interleaving of \<^verbatim>\<open>spin_lock\<close>,
  \<^verbatim>\<open>spin_trylock\<close> and \<^verbatim>\<open>spin_unlock\<close> on any CPUs reaches, at most one CPU is between a
  successful acquisition and the call that releases the lock.
\<close>

theorem spin_mutual_exclusion:
  assumes "spin_reachable s" "cpu_pc s c = Critical" "cpu_pc s d = Critical"
  shows "c = d"
  using assms by (rule spin.inside_unique)

theorem spin_mutual_exclusion_witness:
  "cpu_pc demo_critical 0 = Critical \<and> cpu_pc demo_critical 1 \<noteq> Critical"
proof -
  have "cpu_pc demo_critical 0 = Critical" by (simp add: demo_critical_def)
  with spin_mutual_exclusion [OF demo_critical_reachable, of 0 1] show ?thesis by auto
qed

text \<open>
  The holder of the lock never meets one of the panics of \<^verbatim>\<open>spinlock.h\<close>: the magic number stays
  intact and the owner check of the holder succeeds, although \<^verbatim>\<open>owner_cpu\<close> is written after the
  lock word and cleared before it.
\<close>

lemma spin_holder_no_panic:
  assumes "spin_reachable s" "spin_step c s t" "c \<noteq> NO_CPU" "holding (cpu_pc s c)"
  shows "cpu_pc t c \<noteq> Panicked"
proof -
  note inv = spin_inv_checks [OF spin_reachable_inv [OF assms(1)]]
  have "owner_cpu (the_lock s) = smp_processor_id" if "cpu_pc s c = Unlock_owner"
    using inv(2) that by (auto simp: pc_class)
  with assms(2,4) inv(1) show ?thesis by cases (auto simp: pc_class)
qed

text \<open>
  C11: Refinement: every step of a CPU either leaves the abstract lock as it is, or
  is the acquisition of the free lock by that CPU, or is the release by that CPU as its holder;
  and a CPU in its critical section is the holder.
\<close>

theorem spin_refines_abstract_lock:
  assumes "spin_reachable s" "c \<noteq> NO_CPU" "spin_step c s t"
  shows "(spin_holder t = spin_holder s \<or> lock_spec_step c (spin_holder s) (spin_holder t))
    \<and> (cpu_pc t d = Critical \<longrightarrow> spin_holder t = Some d)"
proof -
  have st: "c \<noteq> NO_CPU \<and> spin_step c s t" using assms by simp
  have "spin_holder t = spin_holder s \<or> lock_spec_step c (spin_holder s) (spin_holder t)"
    by (rule spin.step_spec [OF assms(1) st])
  moreover have "spin_holder t = Some d" if "cpu_pc t d = Critical"
    by (rule spin.inside_holder [OF spin.reach_step [OF assms(1) st] that])
  ultimately show ?thesis by blast
qed

theorem spin_refines_abstract_lock_witness:
  "spin_step 0 (goto 0 Lock_cas demo_start) demo_taken \<and>
   (spin_holder demo_taken = spin_holder (goto 0 Lock_cas demo_start)
    \<or> lock_spec_step 0 (spin_holder (goto 0 Lock_cas demo_start)) (spin_holder demo_taken))"
  using spin_refines_abstract_lock [OF demo_waiting_reachable _ demo_takes] demo_takes by simp

text \<open>Progress: while a CPU is inside an operation, some CPU changes its program counter.\<close>

lemma spin_holder_moves:
  assumes "spin_inv s" "holding (cpu_pc s d)"
  shows "\<exists>t. spin_step d s t \<and> cpu_pc t d \<noteq> cpu_pc s d"
proof -
  have ex: "\<exists>t. spin_step d s t \<and> cpu_pc t d \<noteq> cpu_pc s d"
    if "spin_step d s t" "cpu_pc t d \<noteq> cpu_pc s d" for t
    using that by blast
  consider "cpu_pc s d = Lock_set_cpu" | "cpu_pc s d = Lock_set_owner" | "cpu_pc s d = Try_set_cpu"
    | "cpu_pc s d = Try_set_owner" | "cpu_pc s d = Critical" | "cpu_pc s d = Unlock_magic"
    | "cpu_pc s d = Unlock_owner" | "cpu_pc s d = Unlock_clear_cpu"
    | "cpu_pc s d = Unlock_clear_owner" | "cpu_pc s d = Unlock_release"
    using assms(2) by (auto simp: pc_class)
  then show ?thesis
  proof cases
    case 1 then show ?thesis by (intro ex [OF spin_step.lock_set_cpu]) auto
  next
    case 2 then show ?thesis by (intro ex [OF spin_step.lock_set_owner]) auto
  next
    case 3 then show ?thesis by (intro ex [OF spin_step.try_set_cpu]) auto
  next
    case 4 then show ?thesis by (intro ex [OF spin_step.try_set_owner]) auto
  next
    case 5 then show ?thesis by (intro ex [OF spin_step.call_unlock]) auto
  next
    case 6 then show ?thesis by (intro ex [OF spin_step.unlock_magic]) auto
  next
    case 7 then show ?thesis by (intro ex [OF spin_step.unlock_owner]) auto
  next
    case 8 then show ?thesis by (intro ex [OF spin_step.unlock_clear_cpu]) auto
  next
    case 9 then show ?thesis by (intro ex [OF spin_step.unlock_clear_owner]) auto
  next
    case 10 then show ?thesis by (intro ex [OF spin_step.unlock_release]) auto
  qed
qed

lemma spin_free_moves:
  assumes "sl_lock (the_lock s) = SPINLOCK_UNLOCKED" "cpu_pc s c \<noteq> Panicked" "\<not> holding (cpu_pc s c)"
  shows "\<exists>t. spin_step c s t \<and> cpu_pc t c \<noteq> cpu_pc s c"
proof -
  have ex: "\<exists>t. spin_step c s t \<and> cpu_pc t c \<noteq> cpu_pc s c"
    if "spin_step c s t" "cpu_pc t c \<noteq> cpu_pc s c" for t
    using that by blast
  consider "cpu_pc s c = Idle" | "cpu_pc s c = Lock_magic" | "cpu_pc s c = Lock_recursion"
    | "cpu_pc s c = Lock_cas" | "cpu_pc s c = Lock_spin" | "cpu_pc s c = Try_magic"
    | "cpu_pc s c = Try_recursion" | "cpu_pc s c = Try_cas"
    using assms(2,3) by (cases "cpu_pc s c") (auto simp: pc_class)
  then show ?thesis
  proof cases
    case 1 then show ?thesis by (intro ex [OF spin_step.call_lock]) auto
  next
    case 2 then show ?thesis by (intro ex [OF spin_step.lock_magic]) auto
  next
    case 3 then show ?thesis by (intro ex [OF spin_step.lock_recursion]) auto
  next
    case 4 then show ?thesis using assms(1) by (intro ex [OF spin_step.lock_cas_ok]) auto
  next
    case 5 then show ?thesis using assms(1) by (intro ex [OF spin_step.lock_spin]) (auto simp: spin_consts)
  next
    case 6 then show ?thesis by (intro ex [OF spin_step.try_magic]) auto
  next
    case 7 then show ?thesis by (intro ex [OF spin_step.try_recursion]) auto
  next
    case 8 then show ?thesis using assms(1) by (intro ex [OF spin_step.try_cas_ok]) auto
  qed
qed

text \<open>
  C12: Progress and contention.  The holder of the lock can always take a step that moves it
  forward, and never into a panic.  While nobody holds the lock every CPU that has not panicked
  can move on, again without a panic.  But a CPU that makes its recursion check while another
  one is in its critical section panics: all CPUs have the same number, so the holder looks to
  it like itself.
\<close>

theorem spin_progress:
  assumes "spin_reachable s"
  shows "(\<forall>d. spin_holder s = Some d \<longrightarrow> (\<exists>t. spin_step d s t \<and> cpu_pc t d \<noteq> cpu_pc s d)
        \<and> (\<forall>t. spin_step d s t \<longrightarrow> cpu_pc t d \<noteq> Panicked))
    \<and> (spin_holder s = None \<longrightarrow> (\<forall>c. cpu_pc s c \<noteq> Panicked \<longrightarrow>
        (\<exists>t. spin_step c s t \<and> cpu_pc t c \<noteq> cpu_pc s c) \<and> (\<forall>t. spin_step c s t \<longrightarrow> cpu_pc t c \<noteq> Panicked)))
    \<and> (\<forall>c d t. cpu_pc s d = Critical \<longrightarrow> cpu_pc s c \<in> {Lock_recursion, Try_recursion} \<longrightarrow>
        spin_step c s t \<longrightarrow> cpu_pc t c = Panicked)"
proof -
  note inv = spin_reachable_inv [OF assms]
  have "(\<exists>t. spin_step d s t \<and> cpu_pc t d \<noteq> cpu_pc s d) \<and> (\<forall>t. spin_step d s t \<longrightarrow> cpu_pc t d \<noteq> Panicked)"
    if "spin_holder s = Some d" for d
  proof -
    have d: "holding (cpu_pc s d)" using that spin_holder_Some [OF inv] by simp
    moreover have "d \<noteq> NO_CPU" using d spin_inv_no_cpu [OF inv] by (auto simp: pc_class)
    ultimately show ?thesis using spin_holder_moves [OF inv d] spin_holder_no_panic [OF assms] by blast
  qed
  moreover have "(\<exists>t. spin_step c s t \<and> cpu_pc t c \<noteq> cpu_pc s c) \<and> (\<forall>t. spin_step c s t \<longrightarrow> cpu_pc t c \<noteq> Panicked)"
    if "spin_holder s = None" "cpu_pc s c \<noteq> Panicked" for c
  proof -
    have free: "\<not> holding (cpu_pc s d)" for d using that(1) by (simp add: spin_holder_def holder_of_None)
    then have "sl_lock (the_lock s) = SPINLOCK_UNLOCKED" using inv by (auto simp: spin_inv_def)
    moreover have own: "owner_cpu (the_lock s) \<noteq> smp_processor_id"
      using spin_inv_checks(2) [OF inv] free recorded_holding by blast
    have "cpu_pc t c \<noteq> Panicked" if "spin_step c s t" for t
      using that own free [of c] spin_inv_checks(1) [OF inv] \<open>cpu_pc s c \<noteq> Panicked\<close>
      by cases (auto simp: pc_class)
    with calculation show ?thesis using spin_free_moves that(2) free by blast
  qed
  moreover have "cpu_pc t c = Panicked"
    if "cpu_pc s d = Critical" "cpu_pc s c \<in> {Lock_recursion, Try_recursion}" "spin_step c s t" for c d t
  proof -
    have "recorded (cpu_pc s d)" using that(1) by (simp add: pc_class)
    then have "owner_cpu (the_lock s) = smp_processor_id" using spin_inv_checks(2) [OF inv] by blast
    with that(3,2) show ?thesis by cases auto
  qed
  ultimately show ?thesis by blast
qed

text \<open>CPU 1 enters \<^verbatim>\<open>spin_lock\<close> while CPU 0 is in its critical section.\<close>

lemma demo_contended_reachable: "spin_reachable (goto 1 Lock_recursion demo_critical)"
proof -
  have one: "1 \<noteq> NO_CPU" by (simp add: NO_CPU_def)
  have pc: "cpu_pc demo_critical 1 = Idle" "sl_magic (the_lock demo_critical) = SPINLOCK_MAGIC"
    by (simp_all add: demo_critical_def)
  from spin_reachable.step [OF demo_critical_reachable one spin_step.call_lock [OF pc(1)]]
  have "spin_reachable (goto 1 Lock_magic demo_critical)" .
  from spin_reachable.step [OF this one spin_step.lock_magic] pc(2) show ?thesis by simp
qed

theorem spin_progress_witness:
  "\<exists>t. spin_step 1 (goto 1 Lock_recursion demo_critical) t \<and> cpu_pc t 1 = Panicked
     \<and> (\<exists>u. spin_step 0 demo_critical u \<and> cpu_pc u 0 \<noteq> cpu_pc demo_critical 0)"
proof -
  let ?s = "goto 1 Lock_recursion demo_critical"
  obtain t where t: "spin_step 1 ?s t" using spin_step.lock_recursion [of ?s 1] by auto
  have "cpu_pc ?s 0 = Critical" "cpu_pc ?s 1 = Lock_recursion" by (simp_all add: demo_critical_def)
  then have "cpu_pc t 1 = Panicked" using spin_progress [OF demo_contended_reachable] t by blast
  moreover have "spin_holder demo_critical = Some 0"
    using spin_holder_Some [OF spin_reachable_inv [OF demo_critical_reachable], of 0]
    by (simp add: demo_critical_def pc_class)
  ultimately show ?thesis using t spin_progress [OF demo_critical_reachable] by blast
qed

text \<open>A caller that runs alone never gets a lock that is taken: it panics or waits for ever.\<close>

lemma spin_acquire_free: "spin_acquire cpu ra l = Some l' \<Longrightarrow> sl_lock l = SPINLOCK_UNLOCKED"
  by (rule spin_acquire.raw_induct [where P = "\<lambda>cpu ra l l'. sl_lock l = SPINLOCK_UNLOCKED"])
    (auto split: if_splits)

lemma spin_lock_taken:
  assumes "sl_lock l \<noteq> SPINLOCK_UNLOCKED"
  shows "spin_lock cpu ra l \<noteq> Some (Inr l')" "spin_lock_irqsave cpu ra l rflags \<noteq> Some (Inr x)"
proof -
  have "spin_acquire cpu ra l = None" using spin_acquire_free [of cpu ra l] assms by (cases "spin_acquire cpu ra l") auto
  then show "spin_lock cpu ra l \<noteq> Some (Inr l')" "spin_lock_irqsave cpu ra l rflags \<noteq> Some (Inr x)"
    by (auto simp: spin_lock_def spin_lock_irqsave_def local_irq_save_def)
qed

text \<open>A free lock taken and released through the bottom-half variants is free again, but the
  bottom halves stay disabled.\<close>

lemma spin_bh_stays_disabled:
  assumes "sl_magic l = SPINLOCK_MAGIC" "sl_lock l = SPINLOCK_UNLOCKED" "owner_cpu l = NO_CPU" "cpu \<noteq> NO_CPU"
  shows "\<exists>l1 l2. spin_lock_bh dis cpu ra l b = Some (Inr (l1, dis b))
    \<and> spin_unlock_bh cpu l1 (dis b) = Inr (l2, dis b) \<and> sl_lock l2 = SPINLOCK_UNLOCKED"
  using assms
  by (auto simp: spin_lock_bh_def spin_unlock_bh_def local_bh_enable_def spin_lock_def spin_unlock_def
      spin_acquire.simps)

text \<open>
  C14: \<^verbatim>\<open>spin_lock_irqsave\<close> on a free lock returns with the lock held by the caller
  and interrupts off, and \<^verbatim>\<open>spin_unlock_irqrestore\<close> with the saved flags gives back the free
  lock and the register, provided the register fits the 32 bits of \<^verbatim>\<open>ulong\<close>.
\<close>

theorem spin_irqsave_roundtrip:
  assumes "sl_magic l = SPINLOCK_MAGIC" "sl_lock l = SPINLOCK_UNLOCKED" "owner_cpu l = NO_CPU"
    "cpu \<noteq> NO_CPU" "rflags < 2 ^ 32"
  shows "\<exists>l' flags r'. spin_lock_irqsave cpu ra l rflags = Some (Inr (l', flags, r'))
     \<and> \<not> irqs_on r' \<and> spin_is_locked l' \<and> owner_cpu l' = cpu
     \<and> spin_unlock_irqrestore cpu l' flags r' = Inr (l\<lparr>sl_owner := None\<rparr>, rflags)"
proof -
  have "ucast (ucast rflags :: ulong) = rflags"
    using assms(5) by (simp add: unsigned_ucast_eq take_bit_small word_less_nat_alt)
  then show ?thesis
    using assms
    by (auto simp: spin_lock_irqsave_def spin_unlock_irqrestore_def local_irq_save_def
        local_irq_restore_def local_irq_disable_def irqs_on_def spin_lock_def spin_unlock_def
        spin_acquire.simps spin_is_locked_def bit_unset_bit_iff)
qed

theorem spin_irqsave_roundtrip_witness:
  "\<exists>l' flags r'. spin_lock_irqsave 0 4096 (SPINLOCK_INIT ''zone'') 0x202 = Some (Inr (l', flags, r'))
     \<and> irqs_on 0x202 \<and> \<not> irqs_on r' \<and> spin_is_locked l'
     \<and> spin_unlock_irqrestore 0 l' flags r' = Inr (SPINLOCK_INIT ''zone'', 0x202)"
  using spin_irqsave_roundtrip [where l = "SPINLOCK_INIT ''zone''" and cpu = 0 and rflags = "0x202" and ra = 4096]
  by (auto simp: SPINLOCK_INIT_def irqs_on_def X86_EFLAGS_IF_def)

end
