(* ===== verification/Rwlock_H.thy ===== *)
theory Rwlock_H
  imports Spinlock_H
begin

text \<open>
  The reader-writer locks of \<^verbatim>\<open>kernel/include/spinlock.h\<close>, as functions of a caller that
  runs alone and as an interleaving of threads with one step per access to the shared lock: \<^verbatim>\<open>read_lock\<close>, \<^verbatim>\<open>read_trylock\<close>,
  \<^verbatim>\<open>read_unlock\<close>, \<^verbatim>\<open>write_lock\<close>, \<^verbatim>\<open>write_trylock\<close> and \<^verbatim>\<open>write_unlock\<close>.  The counters keep
  their 32-bit width; the threads are a finite set with fewer than \<open>2^32\<close> elements, which is
  what keeps \<^verbatim>\<open>reader_count\<close> from wrapping around to zero.
\<close>

record rwlock_t =
  rw_lock :: u32
  reader_count :: u32
  writer_waiting :: u32
  rw_name :: string
  rw_magic :: u32

definition RWLOCK_MAGIC :: u32 where "RWLOCK_MAGIC = 0xFACEFEED"
definition RWLOCK_WRITE_BIAS :: u32 where "RWLOCK_WRITE_BIAS = 0x01000000"

definition RWLOCK_INIT :: "string \<Rightarrow> rwlock_t" where
  "RWLOCK_INIT name = \<lparr>rw_lock = 0, reader_count = 0, writer_waiting = 0, rw_name = name,
     rw_magic = RWLOCK_MAGIC\<rparr>"

definition rwlock_init :: "rwlock_t \<Rightarrow> rwlock_t" where
  "rwlock_init l = l\<lparr>rw_lock := 0, reader_count := 0, writer_waiting := 0,
     rw_name := ''unknown'', rw_magic := RWLOCK_MAGIC\<rparr>"

definition write_locked :: "rwlock_t \<Rightarrow> bool" where
  "write_locked l \<longleftrightarrow> rw_lock l AND RWLOCK_WRITE_BIAS \<noteq> 0"

definition add_readers :: "u32 \<Rightarrow> rwlock_t \<Rightarrow> rwlock_t" where
  "add_readers d l = l\<lparr>reader_count := reader_count l + d\<rparr>"

definition add_writers :: "u32 \<Rightarrow> rwlock_t \<Rightarrow> rwlock_t" where
  "add_writers d l = l\<lparr>writer_waiting := writer_waiting l + d\<rparr>"

section \<open>The operations of a caller that runs alone\<close>

text \<open>
  As for the spinlock, \<open>None\<close> is a wait that never ends and \<open>Inl\<close> a panic.  The condition of
  the wait and the one of the second check are the same expression on the lock.
\<close>

definition writer_present :: "rwlock_t \<Rightarrow> bool" where
  "writer_present l \<longleftrightarrow> writer_waiting l \<noteq> 0 \<or> write_locked l"

partial_function (option) read_wait :: "rwlock_t \<Rightarrow> rwlock_t option" where
  "read_wait l = (if writer_present l then read_wait l else Some l)"

partial_function (option) read_acquire :: "rwlock_t \<Rightarrow> rwlock_t option" where
  "read_acquire l =
     do {
       l \<leftarrow> read_wait l;
       let l = add_readers 1 l;
       if reader_count l \<noteq> 0 then
         if writer_present l then read_acquire (add_readers (-1) l) else Some l
       else read_acquire l
     }"

definition read_lock :: "rwlock_t \<Rightarrow> (lock_panic + rwlock_t) option" where
  "read_lock l =
     (if rw_magic l \<noteq> RWLOCK_MAGIC then Some (Inl Bad_rwlock_magic)
      else map_option Inr (read_acquire l))"

definition read_unlock :: "rwlock_t \<Rightarrow> lock_panic + rwlock_t" where
  "read_unlock l =
     (if rw_magic l \<noteq> RWLOCK_MAGIC then Inl Bad_rwlock_magic else Inr (add_readers (-1) l))"

partial_function (option) drain_readers :: "rwlock_t \<Rightarrow> rwlock_t option" where
  "drain_readers l = (if reader_count l > 0 then drain_readers l else Some l)"

partial_function (option) write_acquire :: "rwlock_t \<Rightarrow> rwlock_t option" where
  "write_acquire l =
     (if rw_lock l = 0 then drain_readers (l\<lparr>rw_lock := RWLOCK_WRITE_BIAS\<rparr>)
      else write_acquire l)"

definition write_lock :: "rwlock_t \<Rightarrow> (lock_panic + rwlock_t) option" where
  "write_lock l =
     (if rw_magic l \<noteq> RWLOCK_MAGIC then Some (Inl Bad_rwlock_magic)
      else map_option (Inr \<circ> add_writers (-1)) (write_acquire (add_writers 1 l)))"

definition write_unlock :: "rwlock_t \<Rightarrow> lock_panic + rwlock_t" where
  "write_unlock l =
     (if rw_magic l \<noteq> RWLOCK_MAGIC then Inl Bad_rwlock_magic else Inr (l\<lparr>rw_lock := 0\<rparr>))"

definition read_trylock :: "rwlock_t \<Rightarrow> lock_panic + bool \<times> rwlock_t" where
  "read_trylock l =
     (if rw_magic l \<noteq> RWLOCK_MAGIC then Inl Bad_rwlock_magic
      else if writer_present l then Inr (False, l)
      else let l = add_readers 1 l
           in if reader_count l \<noteq> 0 then
                if writer_present l then Inr (False, add_readers (-1) l) else Inr (True, l)
              else Inr (False, l))"

definition write_trylock :: "rwlock_t \<Rightarrow> lock_panic + bool \<times> rwlock_t" where
  "write_trylock l =
     (if rw_magic l \<noteq> RWLOCK_MAGIC then Inl Bad_rwlock_magic
      else if rw_lock l = 0 then
        let l = l\<lparr>rw_lock := RWLOCK_WRITE_BIAS\<rparr>
        in if reader_count l > 0 then Inr (False, l\<lparr>rw_lock := 0\<rparr>) else Inr (True, l)
      else Inr (False, l))"

text \<open>The variants that save, restore, disable or enable interrupts.\<close>

definition read_lock_irqsave ::
    "rwlock_t \<Rightarrow> u64 \<Rightarrow> (lock_panic + rwlock_t \<times> ulong \<times> u64) option" where
  "read_lock_irqsave l rflags =
     (let (saved, rflags) = local_irq_save rflags
      in map_option (map_sum id (\<lambda>l. (l, ucast saved, rflags))) (read_lock l))"

definition read_unlock_irqrestore ::
    "rwlock_t \<Rightarrow> ulong \<Rightarrow> u64 \<Rightarrow> lock_panic + rwlock_t \<times> u64" where
  "read_unlock_irqrestore l flags rflags =
     map_sum id (\<lambda>l. (l, local_irq_restore (ucast flags) rflags)) (read_unlock l)"

definition write_lock_irqsave ::
    "rwlock_t \<Rightarrow> u64 \<Rightarrow> (lock_panic + rwlock_t \<times> ulong \<times> u64) option" where
  "write_lock_irqsave l rflags =
     (let (saved, rflags) = local_irq_save rflags
      in map_option (map_sum id (\<lambda>l. (l, ucast saved, rflags))) (write_lock l))"

definition write_unlock_irqrestore ::
    "rwlock_t \<Rightarrow> ulong \<Rightarrow> u64 \<Rightarrow> lock_panic + rwlock_t \<times> u64" where
  "write_unlock_irqrestore l flags rflags =
     map_sum id (\<lambda>l. (l, local_irq_restore (ucast flags) rflags)) (write_unlock l)"

definition read_lock_irq :: "rwlock_t \<Rightarrow> u64 \<Rightarrow> (lock_panic + rwlock_t \<times> u64) option" where
  "read_lock_irq l rflags =
     map_option (map_sum id (\<lambda>l. (l, local_irq_disable rflags))) (read_lock l)"

definition read_unlock_irq :: "rwlock_t \<Rightarrow> u64 \<Rightarrow> lock_panic + rwlock_t \<times> u64" where
  "read_unlock_irq l rflags = map_sum id (\<lambda>l. (l, local_irq_enable rflags)) (read_unlock l)"

definition write_lock_irq :: "rwlock_t \<Rightarrow> u64 \<Rightarrow> (lock_panic + rwlock_t \<times> u64) option" where
  "write_lock_irq l rflags =
     map_option (map_sum id (\<lambda>l. (l, local_irq_disable rflags))) (write_lock l)"

definition write_unlock_irq :: "rwlock_t \<Rightarrow> u64 \<Rightarrow> lock_panic + rwlock_t \<times> u64" where
  "write_unlock_irq l rflags = map_sum id (\<lambda>l. (l, local_irq_enable rflags)) (write_unlock l)"

definition read_lock_bh :: "('b \<Rightarrow> 'b) \<Rightarrow> rwlock_t \<Rightarrow> 'b \<Rightarrow> (lock_panic + rwlock_t \<times> 'b) option" where
  "read_lock_bh local_bh_disable l b = map_option (map_sum id (\<lambda>l. (l, local_bh_disable b))) (read_lock l)"

definition read_unlock_bh :: "rwlock_t \<Rightarrow> 'b \<Rightarrow> lock_panic + rwlock_t \<times> 'b" where
  "read_unlock_bh l b = map_sum id (\<lambda>l. (l, local_bh_enable b)) (read_unlock l)"

definition write_lock_bh :: "('b \<Rightarrow> 'b) \<Rightarrow> rwlock_t \<Rightarrow> 'b \<Rightarrow> (lock_panic + rwlock_t \<times> 'b) option" where
  "write_lock_bh local_bh_disable l b = map_option (map_sum id (\<lambda>l. (l, local_bh_disable b))) (write_lock l)"

definition write_unlock_bh :: "rwlock_t \<Rightarrow> 'b \<Rightarrow> lock_panic + rwlock_t \<times> 'b" where
  "write_unlock_bh l b = map_sum id (\<lambda>l. (l, local_bh_enable b)) (write_unlock l)"

section \<open>Interleaved threads\<close>

datatype rw_pc =
    RIdle
  | RL_magic | RL_wait_writer | RL_wait_lock | RL_inc | RL_recheck_writer | RL_recheck_lock | RL_undo
  | RT_magic | RT_writer | RT_lock | RT_inc | RT_recheck_writer | RT_recheck_lock | RT_undo
  | Reading
  | RU_magic | RU_dec
  | WL_magic | WL_mark | WL_cas | WL_readers | WL_unmark
  | WT_magic | WT_cas | WT_readers | WT_back_out
  | Writing
  | WU_magic | WU_release
  | RPanicked

record rw_sys =
  the_rwlock :: rwlock_t
  rw_at :: "nat \<Rightarrow> rw_pc"

definition rw_goto :: "nat \<Rightarrow> rw_pc \<Rightarrow> rw_sys \<Rightarrow> rw_sys" where
  "rw_goto c p s = s\<lparr>rw_at := (rw_at s)(c := p)\<rparr>"

definition rw_set :: "(rwlock_t \<Rightarrow> rwlock_t) \<Rightarrow> rw_sys \<Rightarrow> rw_sys" where
  "rw_set f s = s\<lparr>the_rwlock := f (the_rwlock s)\<rparr>"

text \<open>The next program counter of a reader, and what it does to the lock.\<close>

definition magic_check :: "rwlock_t \<Rightarrow> rw_pc \<Rightarrow> rw_pc" where
  "magic_check l p = (if rw_magic l \<noteq> RWLOCK_MAGIC then RPanicked else p)"

inductive read_step :: "nat \<Rightarrow> rw_sys \<Rightarrow> rw_sys \<Rightarrow> bool" for c :: nat where
  call_read_lock: "rw_at s c = RIdle \<Longrightarrow> read_step c s (rw_goto c RL_magic s)"
| rl_magic: "rw_at s c = RL_magic \<Longrightarrow>
    read_step c s (rw_goto c (magic_check (the_rwlock s) RL_wait_writer) s)"
| rl_wait_writer: "rw_at s c = RL_wait_writer \<Longrightarrow>
    read_step c s (rw_goto c (if writer_waiting (the_rwlock s) \<noteq> 0 then RL_wait_writer
                              else RL_wait_lock) s)"
| rl_wait_lock: "rw_at s c = RL_wait_lock \<Longrightarrow>
    read_step c s (rw_goto c (if write_locked (the_rwlock s) then RL_wait_writer else RL_inc) s)"
| rl_inc: "rw_at s c = RL_inc \<Longrightarrow>
    read_step c s (rw_goto c (if reader_count (the_rwlock s) + 1 \<noteq> 0 then RL_recheck_writer
                              else RL_wait_writer) (rw_set (add_readers 1) s))"
| rl_recheck_writer: "rw_at s c = RL_recheck_writer \<Longrightarrow>
    read_step c s (rw_goto c (if writer_waiting (the_rwlock s) \<noteq> 0 then RL_undo
                              else RL_recheck_lock) s)"
| rl_recheck_lock: "rw_at s c = RL_recheck_lock \<Longrightarrow>
    read_step c s (rw_goto c (if write_locked (the_rwlock s) then RL_undo else Reading) s)"
| rl_undo: "rw_at s c = RL_undo \<Longrightarrow>
    read_step c s (rw_goto c RL_wait_writer (rw_set (add_readers (-1)) s))"
| call_read_trylock: "rw_at s c = RIdle \<Longrightarrow> read_step c s (rw_goto c RT_magic s)"
| rt_magic: "rw_at s c = RT_magic \<Longrightarrow>
    read_step c s (rw_goto c (magic_check (the_rwlock s) RT_writer) s)"
| rt_writer: "rw_at s c = RT_writer \<Longrightarrow>
    read_step c s (rw_goto c (if writer_waiting (the_rwlock s) \<noteq> 0 then RIdle else RT_lock) s)"
| rt_lock: "rw_at s c = RT_lock \<Longrightarrow>
    read_step c s (rw_goto c (if write_locked (the_rwlock s) then RIdle else RT_inc) s)"
| rt_inc: "rw_at s c = RT_inc \<Longrightarrow>
    read_step c s (rw_goto c (if reader_count (the_rwlock s) + 1 \<noteq> 0 then RT_recheck_writer
                              else RIdle) (rw_set (add_readers 1) s))"
| rt_recheck_writer: "rw_at s c = RT_recheck_writer \<Longrightarrow>
    read_step c s (rw_goto c (if writer_waiting (the_rwlock s) \<noteq> 0 then RT_undo
                              else RT_recheck_lock) s)"
| rt_recheck_lock: "rw_at s c = RT_recheck_lock \<Longrightarrow>
    read_step c s (rw_goto c (if write_locked (the_rwlock s) then RT_undo else Reading) s)"
| rt_undo: "rw_at s c = RT_undo \<Longrightarrow>
    read_step c s (rw_goto c RIdle (rw_set (add_readers (-1)) s))"
| call_read_unlock: "rw_at s c = Reading \<Longrightarrow> read_step c s (rw_goto c RU_magic s)"
| ru_magic: "rw_at s c = RU_magic \<Longrightarrow>
    read_step c s (rw_goto c (magic_check (the_rwlock s) RU_dec) s)"
| ru_dec: "rw_at s c = RU_dec \<Longrightarrow>
    read_step c s (rw_goto c RIdle (rw_set (add_readers (-1)) s))"

inductive write_step :: "nat \<Rightarrow> rw_sys \<Rightarrow> rw_sys \<Rightarrow> bool" for c :: nat where
  call_write_lock: "rw_at s c = RIdle \<Longrightarrow> write_step c s (rw_goto c WL_magic s)"
| wl_magic: "rw_at s c = WL_magic \<Longrightarrow>
    write_step c s (rw_goto c (magic_check (the_rwlock s) WL_mark) s)"
| wl_mark: "rw_at s c = WL_mark \<Longrightarrow>
    write_step c s (rw_goto c WL_cas (rw_set (add_writers 1) s))"
| wl_cas_ok: "rw_at s c = WL_cas \<Longrightarrow> rw_lock (the_rwlock s) = 0 \<Longrightarrow>
    write_step c s (rw_goto c WL_readers (rw_set (\<lambda>l. l\<lparr>rw_lock := RWLOCK_WRITE_BIAS\<rparr>) s))"
| wl_cas_fail: "rw_at s c = WL_cas \<Longrightarrow> rw_lock (the_rwlock s) \<noteq> 0 \<Longrightarrow>
    write_step c s (rw_goto c WL_cas s)"
| wl_readers: "rw_at s c = WL_readers \<Longrightarrow>
    write_step c s (rw_goto c (if reader_count (the_rwlock s) > 0 then WL_readers else WL_unmark) s)"
| wl_unmark: "rw_at s c = WL_unmark \<Longrightarrow>
    write_step c s (rw_goto c Writing (rw_set (add_writers (-1)) s))"
| call_write_trylock: "rw_at s c = RIdle \<Longrightarrow> write_step c s (rw_goto c WT_magic s)"
| wt_magic: "rw_at s c = WT_magic \<Longrightarrow>
    write_step c s (rw_goto c (magic_check (the_rwlock s) WT_cas) s)"
| wt_cas_ok: "rw_at s c = WT_cas \<Longrightarrow> rw_lock (the_rwlock s) = 0 \<Longrightarrow>
    write_step c s (rw_goto c WT_readers (rw_set (\<lambda>l. l\<lparr>rw_lock := RWLOCK_WRITE_BIAS\<rparr>) s))"
| wt_cas_fail: "rw_at s c = WT_cas \<Longrightarrow> rw_lock (the_rwlock s) \<noteq> 0 \<Longrightarrow>
    write_step c s (rw_goto c RIdle s)"
| wt_readers: "rw_at s c = WT_readers \<Longrightarrow>
    write_step c s (rw_goto c (if reader_count (the_rwlock s) > 0 then WT_back_out else Writing) s)"
| wt_back_out: "rw_at s c = WT_back_out \<Longrightarrow>
    write_step c s (rw_goto c RIdle (rw_set (\<lambda>l. l\<lparr>rw_lock := 0\<rparr>) s))"
| call_write_unlock: "rw_at s c = Writing \<Longrightarrow> write_step c s (rw_goto c WU_magic s)"
| wu_magic: "rw_at s c = WU_magic \<Longrightarrow>
    write_step c s (rw_goto c (magic_check (the_rwlock s) WU_release) s)"
| wu_release: "rw_at s c = WU_release \<Longrightarrow>
    write_step c s (rw_goto c RIdle (rw_set (\<lambda>l. l\<lparr>rw_lock := 0\<rparr>) s))"

definition rw_start :: "rwlock_t \<Rightarrow> rw_sys" where
  "rw_start l = \<lparr>the_rwlock = rwlock_init l, rw_at = (\<lambda>_. RIdle)\<rparr>"

inductive rw_reachable :: "nat set \<Rightarrow> rw_sys \<Rightarrow> bool" for T :: "nat set" where
  start: "rw_reachable T (rw_start l)"
| reads: "rw_reachable T s \<Longrightarrow> c \<in> T \<Longrightarrow> read_step c s t \<Longrightarrow> rw_reachable T t"
| writes: "rw_reachable T s \<Longrightarrow> c \<in> T \<Longrightarrow> write_step c s t \<Longrightarrow> rw_reachable T t"

section \<open>Invariant\<close>

text \<open>
  Classes of program counters: counted in \<^verbatim>\<open>reader_count\<close>, counted in \<^verbatim>\<open>writer_waiting\<close>,
  inside as a reader, holding the write bias, inside as the writer.
\<close>

fun counted :: "rw_pc \<Rightarrow> bool" where
  "counted p \<longleftrightarrow> p \<in> {RL_recheck_writer, RL_recheck_lock, RL_undo, RT_recheck_writer,
     RT_recheck_lock, RT_undo, Reading, RU_magic, RU_dec}"

fun marked :: "rw_pc \<Rightarrow> bool" where
  "marked p \<longleftrightarrow> p \<in> {WL_cas, WL_readers, WL_unmark}"

fun reads_in :: "rw_pc \<Rightarrow> bool" where
  "reads_in p \<longleftrightarrow> p \<in> {Reading, RU_magic, RU_dec}"

fun biased :: "rw_pc \<Rightarrow> bool" where
  "biased p \<longleftrightarrow> p \<in> {WL_readers, WL_unmark, WT_readers, WT_back_out, Writing, WU_magic, WU_release}"

fun writes_in :: "rw_pc \<Rightarrow> bool" where
  "writes_in p \<longleftrightarrow> p \<in> {WL_unmark, Writing, WU_magic, WU_release}"

lemmas rw_class = counted.simps marked.simps reads_in.simps biased.simps writes_in.simps

declare rw_class [simp del]

lemma reads_in_counted: "reads_in p \<Longrightarrow> counted p"
  and writes_in_biased: "writes_in p \<Longrightarrow> biased p"
  and writes_in_not_reads: "writes_in p \<Longrightarrow> \<not> reads_in p"
  by (auto simp: rw_class)

definition at_in :: "nat set \<Rightarrow> (rw_pc \<Rightarrow> bool) \<Rightarrow> rw_sys \<Rightarrow> nat set" where
  "at_in T P s = {c \<in> T. P (rw_at s c)}"

definition rw_inv :: "nat set \<Rightarrow> rw_sys \<Rightarrow> bool" where
  "rw_inv T s \<longleftrightarrow>
     rw_magic (the_rwlock s) = RWLOCK_MAGIC
     \<and> (\<forall>c. c \<notin> T \<longrightarrow> rw_at s c = RIdle) \<and> (\<forall>c. rw_at s c \<noteq> RPanicked)
     \<and> reader_count (the_rwlock s) = of_nat (card (at_in T counted s))
     \<and> writer_waiting (the_rwlock s) = of_nat (card (at_in T marked s))
     \<and> rw_lock (the_rwlock s) = (if \<exists>c. biased (rw_at s c) then RWLOCK_WRITE_BIAS else 0)
     \<and> (\<forall>c d. biased (rw_at s c) \<longrightarrow> biased (rw_at s d) \<longrightarrow> c = d)
     \<and> (\<forall>c d. writes_in (rw_at s c) \<longrightarrow> \<not> reads_in (rw_at s d))"

lemma rw_goto_at [simp]: "rw_at (rw_goto c p s) d = (if d = c then p else rw_at s d)"
  and rw_goto_lock [simp]: "the_rwlock (rw_goto c p s) = the_rwlock s"
  and rw_set_at [simp]: "rw_at (rw_set f s) = rw_at s"
  and rw_set_lock [simp]: "the_rwlock (rw_set f s) = f (the_rwlock s)"
  by (simp_all add: rw_goto_def rw_set_def)

lemma card_at_in_goto:
  assumes "finite T" "c \<in> T"
  shows "(of_nat (card (at_in T P (rw_goto c p (rw_set f s)))) :: u32) =
    of_nat (card (at_in T P s)) + of_bool (P p) - of_bool (P (rw_at s c))"
proof -
  let ?R = "{d \<in> T - {c}. P (rw_at s d)}"
  have fin: "finite ?R" "c \<notin> ?R" using assms by auto
  have split: "at_in T P u = (if P (rw_at u c) then insert c ?R else ?R)"
    if "\<And>d. d \<noteq> c \<Longrightarrow> rw_at u d = rw_at s d" for u
  proof (rule set_eqI)
    fix x
    show "x \<in> at_in T P u \<longleftrightarrow> x \<in> (if P (rw_at u c) then insert c ?R else ?R)"
      using that [of x] assms(2) by (cases "x = c") (simp_all add: at_in_def)
  qed
  have "at_in T P (rw_goto c p (rw_set f s)) = (if P p then insert c ?R else ?R)"
    using split [of "rw_goto c p (rw_set f s)"] by simp
  moreover have "at_in T P s = (if P (rw_at s c) then insert c ?R else ?R)"
    by (rule split) simp
  ultimately show ?thesis
    using fin by simp
qed

lemma no_counted:
  assumes "rw_inv T s" "finite T" "card T < 2 ^ 32" "reader_count (the_rwlock s) = 0"
  shows "\<not> counted (rw_at s c)"
proof
  let ?n = "card (at_in T counted s)"
  assume "counted (rw_at s c)"
  then have "c \<in> at_in T counted s"
    using assms(1) by (auto simp: rw_inv_def at_in_def rw_class)
  moreover have "finite (at_in T counted s)" "?n \<le> card T"
    using assms(2) by (auto simp: at_in_def intro!: card_mono)
  ultimately have "0 < ?n" "?n < 2 ^ 32"
    using assms(3) by (auto simp: card_gt_0_iff)
  moreover have "unat (of_nat ?n :: u32) = 0"
    using assms(1,4) by (simp add: rw_inv_def)
  ultimately show False by (simp add: unat_of_nat)
qed

lemma reader_count_no_wrap:
  assumes "rw_inv T s" "finite T" "card T < 2 ^ 32" "c \<in> T" "\<not> counted (rw_at s c)"
  shows "reader_count (the_rwlock s) + 1 \<noteq> 0"
proof -
  let ?n = "card (at_in T counted s)"
  have "at_in T counted s \<subset> T" using assms(4,5) by (auto simp: at_in_def)
  then have "?n < card T" using assms(2) by (simp add: psubset_card_mono)
  then have "?n + 1 < 2 ^ 32" using assms(3) by simp
  then have "unat (of_nat (?n + 1) :: u32) = ?n + 1"
    by (simp add: unat_of_nat del: of_nat_add of_nat_Suc)
  moreover have "reader_count (the_rwlock s) + 1 = of_nat (?n + 1)"
    using assms(1) by (simp add: rw_inv_def)
  ultimately show ?thesis by (metis Suc_eq_plus1 nat.simps(3) unsigned_0)
qed

lemma write_locked_iff: "rw_inv T s \<Longrightarrow> write_locked (the_rwlock s) \<longleftrightarrow> (\<exists>c. biased (rw_at s c))"
  by (simp add: rw_inv_def write_locked_def RWLOCK_WRITE_BIAS_def)

text \<open>
  One lemma covers every step: thread \<open>c\<close> moves to \<open>p\<close> while the lock changes by \<open>f\<close>.
\<close>

lemma rw_inv_update:
  assumes inv: "rw_inv T s" and T: "finite T" "c \<in> T" "card T < 2 ^ 32"
    and p: "p \<noteq> RPanicked"
    and l: "l = the_rwlock s" "rw_magic (f l) = rw_magic l"
      "reader_count (f l) = reader_count l + of_bool (counted p) - of_bool (counted (rw_at s c))"
      "writer_waiting (f l) = writer_waiting l + of_bool (marked p) - of_bool (marked (rw_at s c))"
    and b: "(biased p = biased (rw_at s c) \<and> rw_lock (f l) = rw_lock l)
      \<or> (biased p \<and> rw_lock l = 0 \<and> rw_lock (f l) = RWLOCK_WRITE_BIAS)
      \<or> (\<not> biased p \<and> biased (rw_at s c) \<and> rw_lock (f l) = 0)"
    and w: "writes_in p \<Longrightarrow> writes_in (rw_at s c) \<or> reader_count l = 0"
    and r: "reads_in p \<Longrightarrow> reads_in (rw_at s c) \<or> \<not> write_locked l"
  shows "rw_inv T (rw_goto c p (rw_set f s))"
proof -
  let ?t = "rw_goto c p (rw_set f s)"
  have other: "rw_at ?t d = rw_at s d" if "d \<noteq> c" for d using that by simp
  have B: "rw_lock l = (if \<exists>d. biased (rw_at s d) then RWLOCK_WRITE_BIAS else 0)"
    and U: "\<And>d e. biased (rw_at s d) \<Longrightarrow> biased (rw_at s e) \<Longrightarrow> d = e"
    and X: "\<And>d e. writes_in (rw_at s d) \<Longrightarrow> \<not> reads_in (rw_at s e)"
    using inv l(1) by (auto simp: rw_inv_def)
  have old: "\<not> biased (rw_at s d)" if "rw_lock l = 0" for d
    using B that by (auto simp: RWLOCK_WRITE_BIAS_def split: if_splits)
  have bias: "rw_lock (f l) = (if \<exists>d. biased (rw_at ?t d) then RWLOCK_WRITE_BIAS else 0)
      \<and> (\<forall>d e. biased (rw_at ?t d) \<longrightarrow> biased (rw_at ?t e) \<longrightarrow> d = e)"
    using b
  proof (elim disjE conjE)
    assume eq: "biased p = biased (rw_at s c)" "rw_lock (f l) = rw_lock l"
    have "biased (rw_at ?t d) = biased (rw_at s d)" for d
      using eq(1) by simp
    with eq(2) B U show ?thesis by presburger
  next
    assume "biased p" "rw_lock l = 0" "rw_lock (f l) = RWLOCK_WRITE_BIAS"
    with old show ?thesis by auto
  next
    assume *: "\<not> biased p" "biased (rw_at s c)" "rw_lock (f l) = 0"
    have "\<not> biased (rw_at ?t d)" for d
      using * U [OF *(2), of d] by auto
    with * show ?thesis by simp
  qed
  have excl: False if "writes_in (rw_at ?t d)" "reads_in (rw_at ?t e)" for d e
  proof (cases "d = c"; cases "e = c")
    assume "d = c" "e = c"
    with that show False using writes_in_not_reads [of p] by simp
  next
    assume "d = c" "e \<noteq> c"
    with that w l(1) X [of c e] no_counted [OF inv T(1,3), of e] show False
      by (auto dest: reads_in_counted)
  next
    assume "d \<noteq> c" "e = c"
    with that r l(1) X [of d c] write_locked_iff [OF inv] show False
      by (auto dest: writes_in_biased)
  next
    assume "d \<noteq> c" "e \<noteq> c"
    with that X [of d e] show False by simp
  qed
  have "\<forall>d. d \<notin> T \<longrightarrow> rw_at ?t d = RIdle" "\<forall>d. rw_at ?t d \<noteq> RPanicked"
    using inv T p by (auto simp: rw_inv_def)
  moreover have "reader_count (f l) = of_nat (card (at_in T counted ?t))"
    "writer_waiting (f l) = of_nat (card (at_in T marked ?t))" "rw_magic (f l) = RWLOCK_MAGIC"
    using inv l card_at_in_goto [OF T(1,2)] by (simp_all add: rw_inv_def)
  moreover have "the_rwlock ?t = f l" using l(1) by simp
  ultimately show ?thesis
    unfolding rw_inv_def using bias excl by metis
qed

lemma rw_goto_id: "rw_goto c p s = rw_goto c p (rw_set (\<lambda>l. l) s)"
  by (simp add: rw_set_def)

lemma rw_inv_move:
  assumes "rw_inv T s" "finite T" "c \<in> T" "card T < 2 ^ 32" "p \<noteq> RPanicked"
    "counted p = counted (rw_at s c)" "marked p = marked (rw_at s c)" "biased p = biased (rw_at s c)"
    "writes_in p \<Longrightarrow> writes_in (rw_at s c) \<or> reader_count (the_rwlock s) = 0"
    "reads_in p \<Longrightarrow> reads_in (rw_at s c) \<or> \<not> write_locked (the_rwlock s)"
  shows "rw_inv T (rw_goto c p s)"
  by (subst rw_goto_id, rule rw_inv_update [OF assms(1-5) refl]) (use assms(6-10) in auto)

lemma rw_inv_magic: "rw_inv T s \<Longrightarrow> magic_check (the_rwlock s) p = p"
  by (simp add: rw_inv_def magic_check_def)

lemma rw_inv_read_step:
  assumes "read_step c s t" "rw_inv T s" "finite T" "c \<in> T" "card T < 2 ^ 32"
  shows "rw_inv T t"
  using assms
proof (induction rule: read_step.induct)
  case (rl_inc s)
  then have "reader_count (the_rwlock s) + 1 \<noteq> 0" by (intro reader_count_no_wrap) (auto simp: rw_class)
  with rl_inc show ?case
    by (simp, intro rw_inv_update [OF _ _ _ _ _ refl]) (auto simp: rw_class add_readers_def)
next
  case (rt_inc s)
  then have "reader_count (the_rwlock s) + 1 \<noteq> 0" by (intro reader_count_no_wrap) (auto simp: rw_class)
  with rt_inc show ?case
    by (simp, intro rw_inv_update [OF _ _ _ _ _ refl]) (auto simp: rw_class add_readers_def)
next
  case (rl_undo s)
  then show ?case
    by (intro rw_inv_update [OF _ _ _ _ _ refl]) (auto simp: rw_class add_readers_def)
next
  case (rt_undo s)
  then show ?case
    by (intro rw_inv_update [OF _ _ _ _ _ refl]) (auto simp: rw_class add_readers_def)
next
  case (ru_dec s)
  then show ?case
    by (intro rw_inv_update [OF _ _ _ _ _ refl]) (auto simp: rw_class add_readers_def)
qed (simp_all only: rw_inv_magic, (rule rw_inv_move; simp add: rw_class split: if_splits)+)

lemma rw_inv_write_step:
  assumes "write_step c s t" "rw_inv T s" "finite T" "c \<in> T" "card T < 2 ^ 32"
  shows "rw_inv T t"
  using assms
proof (induction rule: write_step.induct)
  case (wl_mark s)
  then show ?case
    by (intro rw_inv_update [OF _ _ _ _ _ refl]) (auto simp: rw_class add_writers_def)
next
  case (wl_unmark s)
  then show ?case
    by (intro rw_inv_update [OF _ _ _ _ _ refl]) (auto simp: rw_class add_writers_def)
next
  case (wl_cas_ok s)
  then show ?case
    by (intro rw_inv_update [OF _ _ _ _ _ refl]) (auto simp: rw_class)
next
  case (wt_cas_ok s)
  then show ?case
    by (intro rw_inv_update [OF _ _ _ _ _ refl]) (auto simp: rw_class)
next
  case (wt_back_out s)
  then show ?case
    by (intro rw_inv_update [OF _ _ _ _ _ refl]) (auto simp: rw_class)
next
  case (wu_release s)
  then show ?case
    by (intro rw_inv_update [OF _ _ _ _ _ refl]) (auto simp: rw_class)
qed (simp_all only: rw_inv_magic, (rule rw_inv_move; simp add: rw_class word_gt_0 split: if_splits)+)

lemma rw_inv_start: "rw_inv T (rw_start l)"
  by (simp add: rw_inv_def rw_start_def rwlock_init_def at_in_def rw_class)

lemma rw_reachable_inv:
  assumes "rw_reachable T s" "finite T" "card T < 2 ^ 32"
  shows "rw_inv T s"
  using assms
  by (induction rule: rw_reachable.induct)
    (auto intro: rw_inv_start rw_inv_read_step rw_inv_write_step)

section \<open>Writers as holders of the abstract lock\<close>

definition rw_writer :: "rw_sys \<Rightarrow> nat option" where
  "rw_writer s = holder_of (\<lambda>c. biased (rw_at s c))"

lemma rw_writer_Some: "rw_inv T s \<Longrightarrow> rw_writer s = Some c \<longleftrightarrow> biased (rw_at s c)"
  unfolding rw_writer_def by (rule holder_of_Some) (auto simp: rw_inv_def)

lemma read_step_other: "read_step c s t \<Longrightarrow> d \<noteq> c \<Longrightarrow> rw_at t d = rw_at s d"
  by (induction rule: read_step.induct) simp_all

lemma write_step_other: "write_step c s t \<Longrightarrow> d \<noteq> c \<Longrightarrow> rw_at t d = rw_at s d"
  by (induction rule: write_step.induct) simp_all

text \<open>The states carry the set of threads, which bounds how many there are.\<close>

fun rw_threads_ok :: "nat set \<times> rw_sys \<Rightarrow> bool" where
  "rw_threads_ok (T, s) \<longleftrightarrow> finite T \<and> card T < 2 ^ 32 \<and> rw_reachable T s"

fun rw_step :: "nat \<Rightarrow> nat set \<times> rw_sys \<Rightarrow> nat set \<times> rw_sys \<Rightarrow> bool" where
  "rw_step c (T, s) (T', t) \<longleftrightarrow> T' = T \<and> c \<in> T \<and> (read_step c s t \<or> write_step c s t)"

lemma rw_threads_ok_step: "rw_threads_ok u \<Longrightarrow> rw_step c u v \<Longrightarrow> rw_threads_ok v"
  by (cases u; cases v) (auto intro: rw_reachable.reads rw_reachable.writes)

lemma rw_threads_ok_inv: "rw_threads_ok u \<Longrightarrow> rw_inv (fst u) (snd u)"
  by (cases u) (auto intro: rw_reachable_inv)

lemma rw_step_other: "rw_step c u v \<Longrightarrow> d \<noteq> c \<Longrightarrow> rw_at (snd v) d = rw_at (snd u) d"
  by (cases u; cases v) (auto dest: read_step_other write_step_other)

interpretation wr: mutex rw_threads_ok rw_step "\<lambda>u. rw_writer (snd u)"
  "\<lambda>u c. rw_at (snd u) c = Writing"
proof unfold_locales
  show "rw_writer (snd u) = Some c" if "rw_threads_ok u" "rw_at (snd u) c = Writing" for u c
    using that rw_writer_Some [OF rw_threads_ok_inv] by (simp add: rw_class)
  show "rw_threads_ok v" if "rw_threads_ok u" "rw_step c u v" for u c v
    using that by (rule rw_threads_ok_step)
  show "rw_writer (snd v) = rw_writer (snd u)
      \<or> lock_spec_step c (rw_writer (snd u)) (rw_writer (snd v))"
    if "rw_threads_ok u" "rw_step c u v" for u c v
    unfolding rw_writer_def
    using rw_threads_ok_inv [OF that(1)] rw_threads_ok_inv [OF rw_threads_ok_step [OF that]]
      rw_step_other [OF that(2)]
    by (intro holder_of_step) (auto simp: rw_inv_def)
qed

section \<open>Properties of the reader-writer lock\<close>

text \<open>A run of two threads in which thread 0 becomes the writer by \<^verbatim>\<open>write_trylock\<close>.\<close>

lemma rw_goto_goto [simp]: "rw_goto c p (rw_goto c q s) = rw_goto c p s"
  and rw_set_goto [simp]: "rw_set f (rw_goto c q s) = rw_goto c q (rw_set f s)"
  by (simp_all add: rw_goto_def rw_set_def)

definition rw_demo :: rw_sys where
  "rw_demo = rw_start \<lparr>rw_lock = 5, reader_count = 7, writer_waiting = 9, rw_name = ''x'', rw_magic = 0\<rparr>"

lemma rw_demo_fields [simp]:
  "rw_at rw_demo c = RIdle" "rw_magic (the_rwlock rw_demo) = RWLOCK_MAGIC"
  "rw_lock (the_rwlock rw_demo) = 0" "reader_count (the_rwlock rw_demo) = 0"
  "writer_waiting (the_rwlock rw_demo) = 0"
  by (simp_all add: rw_demo_def rw_start_def rwlock_init_def)

definition rw_demo_writing :: rw_sys where
  "rw_demo_writing = rw_goto 0 Writing (rw_set (\<lambda>l. l\<lparr>rw_lock := RWLOCK_WRITE_BIAS\<rparr>) rw_demo)"

lemma rw_demo_writing_reachable: "rw_reachable {0, 1} rw_demo_writing"
proof -
  have w: "rw_reachable {0, 1} t" if "rw_reachable {0, 1} s" "write_step 0 s t" for s t
    using that by (auto intro: rw_reachable.writes)
  have "rw_reachable {0, 1} rw_demo"
    unfolding rw_demo_def by (rule rw_reachable.start)
  from w [OF this write_step.call_write_trylock]
  have "rw_reachable {0, 1} (rw_goto 0 WT_magic rw_demo)" by simp
  from w [OF this write_step.wt_magic]
  have "rw_reachable {0, 1} (rw_goto 0 WT_cas rw_demo)" by (simp add: magic_check_def)
  from w [OF this write_step.wt_cas_ok]
  have "rw_reachable {0, 1} (rw_goto 0 WT_readers
    (rw_set (\<lambda>l. l\<lparr>rw_lock := RWLOCK_WRITE_BIAS\<rparr>) rw_demo))" by simp
  from w [OF this write_step.wt_readers] show ?thesis by (simp add: rw_demo_writing_def)
qed

text \<open>
  C6: Readers and writers exclude each other: whatever the interleaving of the lock, trylock
  and unlock operations of fewer than \<open>2^32\<close> threads, while one thread has the write lock
  no thread has the read lock and no other thread has the write lock.
\<close>

theorem rwlock_exclusion:
  assumes "finite T" "card T < 2 ^ 32" "rw_reachable T s" "rw_at s c = Writing"
  shows "rw_at s d \<noteq> Reading \<and> (rw_at s d = Writing \<longrightarrow> d = c)"
proof
  have ok: "rw_threads_ok (T, s)" using assms by simp
  show "rw_at s d = Writing \<longrightarrow> d = c"
    using wr.inside_unique [OF ok, of d c] assms(4) by simp
  show "rw_at s d \<noteq> Reading"
    using rw_threads_ok_inv [OF ok] assms(4) unfolding rw_inv_def fst_conv snd_conv
    by (metis insertI1 reads_in.simps writes_in.simps insert_iff)
qed

theorem rwlock_exclusion_witness:
  "rw_at rw_demo_writing 0 = Writing \<and> rw_at rw_demo_writing 1 \<noteq> Reading
     \<and> rw_at rw_demo_writing 1 \<noteq> Writing"
proof -
  have "rw_at rw_demo_writing 0 = Writing" by (simp add: rw_demo_writing_def)
  with rwlock_exclusion [OF _ _ rw_demo_writing_reachable this, of 1] show ?thesis by auto
qed

text \<open>
  C13: The counters are exact and no panic is reachable: in every reachable state
  \<^verbatim>\<open>reader_count\<close> is the number of threads between their increment and their decrement,
  \<^verbatim>\<open>writer_waiting\<close> the number of threads inside \<^verbatim>\<open>write_lock\<close> after they announced
  themselves, and the lock word is the write bias exactly while some thread holds it.
\<close>

theorem rwlock_counters:
  assumes "finite T" "card T < 2 ^ 32" "rw_reachable T s"
  shows "unat (reader_count (the_rwlock s)) = card {c \<in> T. counted (rw_at s c)}
    \<and> unat (writer_waiting (the_rwlock s)) = card {c \<in> T. marked (rw_at s c)}
    \<and> rw_lock (the_rwlock s) = (if rw_writer s = None then 0 else RWLOCK_WRITE_BIAS)
    \<and> rw_at s c \<noteq> RPanicked"
proof -
  have inv: "rw_inv T s" using assms by (simp add: rw_reachable_inv)
  have bound: "card {c \<in> T. P c} < 2 ^ 32" for P
    using assms(1,2) card_mono [of T "{c \<in> T. P c}"] by simp
  show ?thesis
    using inv bound [of "\<lambda>c. counted (rw_at s c)"] bound [of "\<lambda>c. marked (rw_at s c)"]
    by (simp add: rw_inv_def at_in_def unat_of_nat rw_writer_def holder_of_None)
qed

theorem rwlock_counters_witness:
  "unat (reader_count (the_rwlock rw_demo_writing)) = card {c \<in> {0, 1}. counted (rw_at rw_demo_writing c)}
   \<and> rw_lock (the_rwlock rw_demo_writing)
       = (if rw_writer rw_demo_writing = None then 0 else RWLOCK_WRITE_BIAS)"
  using rwlock_counters [OF _ _ rw_demo_writing_reachable] by simp

text \<open>
  A caller that runs alone: the trylocks decide at once, the reader's exactly on the
  absence of a writer and the writer's exactly on the absence of a lock and of readers; the
  blocking operations then return, and each unlock undoes what its lock did.
\<close>

theorem rwlock_alone:
  assumes "rw_magic l = RWLOCK_MAGIC" "reader_count l + 1 \<noteq> 0"
  shows "read_trylock l = Inr (if writer_present l then (False, l) else (True, add_readers 1 l))
    \<and> write_trylock l = Inr (if rw_lock l = 0 \<and> reader_count l = 0
         then (True, l\<lparr>rw_lock := RWLOCK_WRITE_BIAS\<rparr>) else (False, l))
    \<and> (\<not> writer_present l \<longrightarrow>
         read_lock l = Some (Inr (add_readers 1 l)) \<and> read_unlock (add_readers 1 l) = Inr l)
    \<and> (rw_lock l = 0 \<and> reader_count l = 0 \<longrightarrow>
         write_lock l = Some (Inr (l\<lparr>rw_lock := RWLOCK_WRITE_BIAS\<rparr>))
         \<and> write_unlock (l\<lparr>rw_lock := RWLOCK_WRITE_BIAS\<rparr>) = Inr l)"
proof -
  have "writer_present (add_readers 1 l) = writer_present l"
    by (simp add: writer_present_def write_locked_def add_readers_def)
  with assms show ?thesis
    by (auto simp: read_trylock_def write_trylock_def read_lock_def read_unlock_def write_lock_def
        write_unlock_def read_acquire.simps read_wait.simps write_acquire.simps drain_readers.simps
        add_readers_def add_writers_def word_gt_0 Let_def)
qed

theorem rwlock_alone_witness:
  "read_trylock (the_rwlock rw_demo) = Inr (True, add_readers 1 (the_rwlock rw_demo))
   \<and> write_unlock ((the_rwlock rw_demo)\<lparr>rw_lock := RWLOCK_WRITE_BIAS\<rparr>) = Inr (the_rwlock rw_demo)"
  using rwlock_alone [of "the_rwlock rw_demo"]
  by (simp add: writer_present_def write_locked_def)

end
