(* ===== verification/Mm_H.thy ===== *)
theory Mm_H
  imports Types_H List_H Rwlock_H
begin

text \<open>
  The memory-management declarations of \<^verbatim>\<open>kernel/include/mm.h\<close>: page flags and their
  accessor macros, allocation flags, \<^verbatim>\<open>struct page\<close>, \<^verbatim>\<open>struct free_area\<close>,
  \<^verbatim>\<open>struct per_cpu_pages\<close> and \<^verbatim>\<open>struct zone\<close>.

  The list nodes that the C structures embed live in one heap, under the addresses of
  \<open>node\<close>; the records hold the remaining fields that the allocator uses.
\<close>

section \<open>Page flags\<close>

datatype page_flag =
    PG_locked | PG_error | PG_referenced | PG_uptodate | PG_dirty | PG_lru | PG_active | PG_slab
  | PG_owner_priv_1 | PG_arch_1 | PG_reserved | PG_private | PG_private_2 | PG_writeback
  | PG_head | PG_tail | PG_compound | PG_swapcache | PG_mappedtodisk | PG_reclaim
  | PG_swapbacked | PG_unevictable | PG_mlocked | PG_uncached | PG_hwpoison | PG_young | PG_idle

fun pg_bit :: "page_flag \<Rightarrow> nat" where
  "pg_bit PG_locked = 0" | "pg_bit PG_error = 1" | "pg_bit PG_referenced = 2"
| "pg_bit PG_uptodate = 3" | "pg_bit PG_dirty = 4" | "pg_bit PG_lru = 5" | "pg_bit PG_active = 6"
| "pg_bit PG_slab = 7" | "pg_bit PG_owner_priv_1 = 8" | "pg_bit PG_arch_1 = 9"
| "pg_bit PG_reserved = 10" | "pg_bit PG_private = 11" | "pg_bit PG_private_2 = 12"
| "pg_bit PG_writeback = 13" | "pg_bit PG_head = 14" | "pg_bit PG_tail = 15"
| "pg_bit PG_compound = 16" | "pg_bit PG_swapcache = 17" | "pg_bit PG_mappedtodisk = 18"
| "pg_bit PG_reclaim = 19" | "pg_bit PG_swapbacked = 20" | "pg_bit PG_unevictable = 21"
| "pg_bit PG_mlocked = 22" | "pg_bit PG_uncached = 23" | "pg_bit PG_hwpoison = 24"
| "pg_bit PG_young = 25" | "pg_bit PG_idle = 26"

lemma pg_bit_inj: "pg_bit f = pg_bit g \<longleftrightarrow> f = g"
  by (cases f; cases g) simp_all

lemma pg_bit_bound: "pg_bit f < 27"
  by (cases f) simp_all

section \<open>Structures\<close>

text \<open>Migration types, as \<^verbatim>\<open>buddy.c\<close> defines them; \<^verbatim>\<open>MIGRATE_PCPTYPES\<close> is \<^verbatim>\<open>MIGRATE_RESERVE\<close>.\<close>

definition MIGRATE_UNMOVABLE :: int where "MIGRATE_UNMOVABLE = 0"
definition MIGRATE_MOVABLE :: int where "MIGRATE_MOVABLE = 1"
definition MIGRATE_RECLAIMABLE :: int where "MIGRATE_RECLAIMABLE = 2"
definition MIGRATE_RESERVE :: int where "MIGRATE_RESERVE = 3"
definition MIGRATE_CMA :: int where "MIGRATE_CMA = 4"
definition MIGRATE_ISOLATE :: int where "MIGRATE_ISOLATE = 5"
definition MIGRATE_TYPES :: int where "MIGRATE_TYPES = 6"

lemmas migrate_defs = MIGRATE_UNMOVABLE_def MIGRATE_MOVABLE_def MIGRATE_RECLAIMABLE_def
  MIGRATE_RESERVE_def MIGRATE_CMA_def MIGRATE_ISOLATE_def MIGRATE_TYPES_def

definition MAX_ORDER :: nat where "MAX_ORDER = 11"

definition NR_LRU_LISTS :: nat where "NR_LRU_LISTS = 5"

record page =
  pg_flags :: ulong
  pg_mapping :: "u64 option"
  pg_index :: ulong
  pg_priv :: u64
  pg_mapcount :: u32
  pg_refcount :: u32
  pg_virtual :: u64
  pg_waiters :: "u64 option"
  pg_zone :: nat
  pg_node :: nat

record free_area =
  nr_free :: ulong

record per_cpu_pages =
  pcp_count :: int
  pcp_high :: int
  pcp_batch :: int

record zone =
  watermark_min :: ulong
  watermark_low :: ulong
  watermark_high :: ulong
  pageset :: "nat \<Rightarrow> per_cpu_pages"
  z_lock :: spinlock_t
  z_free_pages :: ulong
  z_free_area :: "free_area list"
  pages_scanned :: ulong
  lru_lock :: spinlock_t
  compact_cached_free_pfn :: ulong
  compact_cached_migrate_pfn :: "ulong list"
  compact_init_migrate_pfn :: ulong
  compact_init_free_pfn :: ulong
  compact_considered :: u32
  compact_defer_shift :: u32
  compact_order_failed :: int
  zone_start_pfn :: ulong
  managed_pages :: ulong
  spanned_pages :: ulong
  present_pages :: ulong
  wait_table :: "u64 option"
  wait_table_hash_nr_entries :: ulong
  wait_table_bits :: ulong

text \<open>
  The addresses of the list nodes: a zone's \<^verbatim>\<open>free_area[o].free_list[mt]\<close>, the
  \<^verbatim>\<open>lists[mt]\<close> of the pageset of a CPU, \<^verbatim>\<open>lruvec.lists[l]\<close>, and the node inside a
  \<^verbatim>\<open>struct page\<close>.
\<close>

datatype node =
    FreeList nat nat int
  | PcpList nat nat int
  | LruList nat nat
  | PageLru u64

section \<open>Accessor macros of the flags\<close>

text \<open>
  \<^verbatim>\<open>test_bit\<close>, \<^verbatim>\<open>set_bit\<close> and \<^verbatim>\<open>clear_bit\<close> are not defined in the repository: they are
  parameters, with the documented laws of bit operations on a flag word.
\<close>

record bitops =
  test_bit :: "nat \<Rightarrow> ulong \<Rightarrow> bool"
  set_bit_op :: "nat \<Rightarrow> ulong \<Rightarrow> ulong"
  clear_bit_op :: "nat \<Rightarrow> ulong \<Rightarrow> ulong"

definition bitops_ok :: "bitops \<Rightarrow> bool" where
  "bitops_ok B \<longleftrightarrow> (\<forall>n < 32. \<forall>w. test_bit B n w = bit w n
     \<and> set_bit_op B n w = set_bit n w \<and> clear_bit_op B n w = unset_bit n w)"

definition PageFlag :: "bitops \<Rightarrow> page_flag \<Rightarrow> page \<Rightarrow> bool" where
  "PageFlag B f pg = test_bit B (pg_bit f) (pg_flags pg)"

definition SetPageFlag :: "bitops \<Rightarrow> page_flag \<Rightarrow> page \<Rightarrow> page" where
  "SetPageFlag B f pg = pg\<lparr>pg_flags := set_bit_op B (pg_bit f) (pg_flags pg)\<rparr>"

definition ClearPageFlag :: "bitops \<Rightarrow> page_flag \<Rightarrow> page \<Rightarrow> page" where
  "ClearPageFlag B f pg = pg\<lparr>pg_flags := clear_bit_op B (pg_bit f) (pg_flags pg)\<rparr>"

section \<open>Allocation flags\<close>

type_synonym gfp_t = u32


definition raw_GFP_DMA :: gfp_t where "raw_GFP_DMA = 0x01"
definition raw_GFP_HIGHMEM :: gfp_t where "raw_GFP_HIGHMEM = 0x02"
definition raw_GFP_DMA32 :: gfp_t where "raw_GFP_DMA32 = 0x04"
definition raw_GFP_MOVABLE :: gfp_t where "raw_GFP_MOVABLE = 0x08"
definition raw_GFP_RECLAIMABLE :: gfp_t where "raw_GFP_RECLAIMABLE = 0x10"
definition raw_GFP_HIGH :: gfp_t where "raw_GFP_HIGH = 0x20"
definition raw_GFP_IO :: gfp_t where "raw_GFP_IO = 0x40"
definition raw_GFP_FS :: gfp_t where "raw_GFP_FS = 0x80"
definition raw_GFP_COLD :: gfp_t where "raw_GFP_COLD = 0x100"
definition raw_GFP_NOWARN :: gfp_t where "raw_GFP_NOWARN = 0x200"
definition raw_GFP_REPEAT :: gfp_t where "raw_GFP_REPEAT = 0x400"
definition raw_GFP_NOFAIL :: gfp_t where "raw_GFP_NOFAIL = 0x800"
definition raw_GFP_NORETRY :: gfp_t where "raw_GFP_NORETRY = 0x1000"
definition raw_GFP_MEMALLOC :: gfp_t where "raw_GFP_MEMALLOC = 0x2000"
definition raw_GFP_COMP :: gfp_t where "raw_GFP_COMP = 0x4000"
definition raw_GFP_ZERO :: gfp_t where "raw_GFP_ZERO = 0x8000"
definition raw_GFP_NOMEMALLOC :: gfp_t where "raw_GFP_NOMEMALLOC = 0x10000"
definition raw_GFP_HARDWALL :: gfp_t where "raw_GFP_HARDWALL = 0x20000"
definition raw_GFP_THISNODE :: gfp_t where "raw_GFP_THISNODE = 0x40000"
definition raw_GFP_ATOMIC :: gfp_t where "raw_GFP_ATOMIC = 0x80000"
definition raw_GFP_ACCOUNT :: gfp_t where "raw_GFP_ACCOUNT = 0x100000"
definition raw_GFP_DIRECT_RECLAIM :: gfp_t where "raw_GFP_DIRECT_RECLAIM = 0x200000"
definition raw_GFP_KSWAPD_RECLAIM :: gfp_t where "raw_GFP_KSWAPD_RECLAIM = 0x400000"
definition raw_GFP_WRITE :: gfp_t where "raw_GFP_WRITE = 0x800000"

definition raw_GFP_RECLAIM :: gfp_t where "raw_GFP_RECLAIM = raw_GFP_DIRECT_RECLAIM OR raw_GFP_KSWAPD_RECLAIM"
definition GFP_KERNEL :: gfp_t where "GFP_KERNEL = raw_GFP_RECLAIM OR raw_GFP_IO OR raw_GFP_FS"
definition GFP_ATOMIC :: gfp_t where "GFP_ATOMIC = raw_GFP_HIGH OR raw_GFP_ATOMIC OR raw_GFP_KSWAPD_RECLAIM"
definition GFP_USER :: gfp_t where "GFP_USER = raw_GFP_RECLAIM OR raw_GFP_IO OR raw_GFP_FS OR raw_GFP_HARDWALL"
definition GFP_HIGHUSER :: gfp_t where "GFP_HIGHUSER = GFP_USER OR raw_GFP_HIGHMEM"
definition GFP_HIGHUSER_MOVABLE :: gfp_t where "GFP_HIGHUSER_MOVABLE = GFP_HIGHUSER OR raw_GFP_MOVABLE"
definition GFP_NOFS :: gfp_t where "GFP_NOFS = raw_GFP_RECLAIM OR raw_GFP_IO"
definition GFP_NOIO :: gfp_t where "GFP_NOIO = raw_GFP_RECLAIM"
definition GFP_NOWAIT :: gfp_t where "GFP_NOWAIT = raw_GFP_KSWAPD_RECLAIM"
definition GFP_TRANSHUGE :: gfp_t where "GFP_TRANSHUGE = (GFP_HIGHUSER_MOVABLE OR raw_GFP_COMP OR raw_GFP_NOWARN) AND NOT raw_GFP_RECLAIM"
definition GFP_TRANSHUGE_LIGHT :: gfp_t where "GFP_TRANSHUGE_LIGHT = GFP_HIGHUSER_MOVABLE OR raw_GFP_COMP OR raw_GFP_NOWARN"

lemmas gfp_defs =
  raw_GFP_DMA_def
  raw_GFP_HIGHMEM_def
  raw_GFP_DMA32_def
  raw_GFP_MOVABLE_def
  raw_GFP_RECLAIMABLE_def
  raw_GFP_HIGH_def
  raw_GFP_IO_def
  raw_GFP_FS_def
  raw_GFP_COLD_def
  raw_GFP_NOWARN_def
  raw_GFP_REPEAT_def
  raw_GFP_NOFAIL_def
  raw_GFP_NORETRY_def
  raw_GFP_MEMALLOC_def
  raw_GFP_COMP_def
  raw_GFP_ZERO_def
  raw_GFP_NOMEMALLOC_def
  raw_GFP_HARDWALL_def
  raw_GFP_THISNODE_def
  raw_GFP_ATOMIC_def
  raw_GFP_ACCOUNT_def
  raw_GFP_DIRECT_RECLAIM_def
  raw_GFP_KSWAPD_RECLAIM_def
  raw_GFP_WRITE_def
  raw_GFP_RECLAIM_def
  GFP_KERNEL_def
  GFP_ATOMIC_def
  GFP_USER_def
  GFP_HIGHUSER_def
  GFP_HIGHUSER_MOVABLE_def
  GFP_NOFS_def
  GFP_NOIO_def
  GFP_NOWAIT_def
  GFP_TRANSHUGE_def
  GFP_TRANSHUGE_LIGHT_def

text \<open>
  The flag macros act on one bit: after \<^verbatim>\<open>SetPage\<close> the flag reads true, after
  \<^verbatim>\<open>ClearPage\<close> false, and the other 26 flags and the other fields of the page stay as they
  were.
\<close>

theorem page_flag_macros:
  assumes "bitops_ok B"
  shows "PageFlag B f (SetPageFlag B f pg) \<and> \<not> PageFlag B f (ClearPageFlag B f pg)
    \<and> (g \<noteq> f \<longrightarrow> PageFlag B g (SetPageFlag B f pg) = PageFlag B g pg
         \<and> PageFlag B g (ClearPageFlag B f pg) = PageFlag B g pg)
    \<and> (SetPageFlag B f pg)\<lparr>pg_flags := pg_flags pg\<rparr> = pg
    \<and> (ClearPageFlag B f pg)\<lparr>pg_flags := pg_flags pg\<rparr> = pg"
proof -
  have n: "pg_bit h < 32" for h using pg_bit_bound [of h] by simp
  have B: "test_bit B (pg_bit h) w = bit w (pg_bit h)"
    "set_bit_op B (pg_bit h) w = set_bit (pg_bit h) w"
    "clear_bit_op B (pg_bit h) w = unset_bit (pg_bit h) w" for h w
    using assms n [of h] by (simp_all add: bitops_ok_def)
  show ?thesis
    by (simp add: PageFlag_def SetPageFlag_def ClearPageFlag_def B bit_set_bit_iff
        bit_unset_bit_iff pg_bit_inj n)
qed

definition plain_bitops :: bitops where
  "plain_bitops = \<lparr>test_bit = (\<lambda>n w. bit w n), set_bit_op = set_bit, clear_bit_op = unset_bit\<rparr>"

definition blank_page :: page where
  "blank_page = \<lparr>pg_flags = 0, pg_mapping = None, pg_index = 0, pg_priv = 0, pg_mapcount = 0,
     pg_refcount = 0, pg_virtual = 0, pg_waiters = None, pg_zone = 0, pg_node = 0\<rparr>"

theorem page_flag_macros_witness:
  "PageFlag plain_bitops PG_dirty (SetPageFlag plain_bitops PG_dirty blank_page)
   \<and> PageFlag plain_bitops PG_lru (SetPageFlag plain_bitops PG_dirty blank_page)
       = PageFlag plain_bitops PG_lru blank_page"
proof -
  have "bitops_ok plain_bitops" by (simp add: bitops_ok_def plain_bitops_def)
  from page_flag_macros [OF this, of PG_dirty blank_page PG_lru] show ?thesis by simp
qed

end
