(* ===== verification/Buddy_C.thy ===== *)
theory Buddy_C
  imports Mm_H
begin

text \<open>
  The page allocator of \<^verbatim>\<open>kernel/mm/buddy.c\<close>, function by function.

  A \<^verbatim>\<open>struct page *\<close> is the index of the page in the memory map, a 64-bit word, so pointer
  arithmetic on pages is addition of words; an access outside the map is a fault.  A
  \<^verbatim>\<open>struct zone *\<close> is the number under which \<open>zone_at\<close> holds the zone.  Every operation
  works in the option monad, where \<open>None\<close> is a failed \<^verbatim>\<open>VM_BUG_ON\<close>, a panic of a lock, a wild
  access or a loop that does not end; a \<^verbatim>\<open>NULL\<close> page is \<open>None\<close> inside the result.  Orders
  (\<^verbatim>\<open>unsigned int\<close> in C) are natural numbers, except in the loop of
  \<^verbatim>\<open>__rmqueue_fallback\<close>, where the counter wraps around.

  Accessors that the file calls but the repository does not define are fields of
  \<open>mm_ext\<close>.  Tracing, debug checks, statistics and calls that touch nothing of the modelled
  state (\<^verbatim>\<open>trace_mm_page_free\<close>, \<^verbatim>\<open>debug_check_*\<close>, \<^verbatim>\<open>__count_vm_event\<close>,
  \<^verbatim>\<open>__mod_zone_page_state\<close>, \<^verbatim>\<open>arch_free_page\<close>, \<^verbatim>\<open>kernel_map_pages\<close>, \<^verbatim>\<open>printk\<close>) are left out.
\<close>

section \<open>State and parameters\<close>

record mm =
  mem_map :: "u64 \<rightharpoonup> page"
  nodes :: "node list_heap"
  zone_at :: "nat \<rightharpoonup> zone"
  zones :: "nat option list"
  nr_zones :: nat
  node_data :: "nat option list"
  total_pages :: ulong
  free_pages_count :: ulong
  reserved_pages :: ulong
  zone_lock :: spinlock_t
  return_addr :: u64
  rflags :: u64

record 's mm_ext =
  PageBuddy :: "page \<Rightarrow> bool"
  SetPageBuddy :: "page \<Rightarrow> page"
  ClearPageBuddy :: "page \<Rightarrow> page"
  SetPageGuard :: "page \<Rightarrow> page"
  ClearPageGuard :: "page \<Rightarrow> page"
  set_page_private :: "page \<Rightarrow> u64 \<Rightarrow> page"
  page_order :: "page \<Rightarrow> nat"
  set_page_order :: "page \<Rightarrow> nat \<Rightarrow> page"
  get_freepage_migratetype :: "page \<Rightarrow> int"
  set_freepage_migratetype :: "page \<Rightarrow> int \<Rightarrow> page"
  page_zone_id :: "page \<Rightarrow> nat"
  page_zone :: "page \<Rightarrow> nat"
  DEBUG_GUARDPAGE_MINORDER :: nat
  pageblock_order :: nat
  pageblock_nr_pages :: ulong
  zone_is_initialized :: "zone \<Rightarrow> bool"
  zone_end_pfn :: "zone \<Rightarrow> ulong"
  pfn_valid_within :: "ulong \<Rightarrow> bool"
  CHECK_AT_PREP :: ulong
  CHECK_AT_FREE :: ulong
  flag_ops :: bitops
  set_page_count :: "page \<Rightarrow> nat \<Rightarrow> page"
  put_page_testzero :: "page \<Rightarrow> bool \<times> page"
  page_mapcount :: "page \<Rightarrow> int"
  page_ref_count :: "page \<Rightarrow> int"
  PageAnon :: "page \<Rightarrow> bool"
  compound_order :: "page \<Rightarrow> nat"
  page_cpupid_reset_last :: "page \<Rightarrow> page"
  reset_page_owner :: "page \<Rightarrow> nat \<Rightarrow> page"
  init_page_waiters :: "page \<Rightarrow> page"
  clear_page :: "page \<Rightarrow> page"
  free_pcppages_bulk :: "nat \<Rightarrow> ulong \<Rightarrow> 's \<Rightarrow> 's option"
  allocflags_to_migratetype :: "gfp_t \<Rightarrow> int"
  zonelist_first :: "gfp_t \<Rightarrow> nat option"
  set_page_zone :: "page \<Rightarrow> nat \<Rightarrow> page"
  set_page_node :: "page \<Rightarrow> nat \<Rightarrow> page"
  zone_idx :: "nat \<Rightarrow> nat"
  zone_to_nid :: "nat \<Rightarrow> nat"
  page_to_pfn :: "u64 \<Rightarrow> ulong"
  pfn_to_page :: "ulong \<Rightarrow> u64"
  page_address :: "u64 \<Rightarrow> u64"
  virt_to_page :: "u64 \<Rightarrow> u64"
  virt_addr_valid :: "u64 \<Rightarrow> bool"
  MAX_NR_ZONES :: nat
  MAX_NUMNODES :: nat
  uninit_flags :: ulong

text \<open>
  \<open>uninit_flags\<close> is the content of a local variable \<^verbatim>\<open>ulong flags\<close> that is never assigned.  The callers
  pass its value where \<^verbatim>\<open>spin_lock_irqsave\<close> takes a pointer, so the saved register is stored through
  a wild address, outside every object of the model, or they drop the register that
  \<^verbatim>\<open>local_irq_save\<close> returns; what they restore afterwards is this content.  The properties hold for
  whatever it is.

  Field accesses through the pointers.
\<close>

definition upd_page :: "u64 \<Rightarrow> (page \<Rightarrow> page) \<Rightarrow> mm \<Rightarrow> mm option" where
  "upd_page p f s = do { pg \<leftarrow> mem_map s p; Some (s\<lparr>mem_map := (mem_map s)(p \<mapsto> f pg)\<rparr>) }"

definition upd_nodes :: "(node list_heap \<Rightarrow> node list_heap option) \<Rightarrow> mm \<Rightarrow> mm option" where
  "upd_nodes f s = do { h \<leftarrow> f (nodes s); Some (s\<lparr>nodes := h\<rparr>) }"

definition upd_zone :: "nat \<Rightarrow> (zone \<Rightarrow> zone) \<Rightarrow> mm \<Rightarrow> mm option" where
  "upd_zone z f s = do { zn \<leftarrow> zone_at s z; Some (s\<lparr>zone_at := (zone_at s)(z \<mapsto> f zn)\<rparr>) }"

definition area_at :: "nat \<Rightarrow> nat \<Rightarrow> mm \<Rightarrow> free_area option" where
  "area_at z ord s = do { zn \<leftarrow> zone_at s z;
     if ord < length (z_free_area zn) then Some (z_free_area zn ! ord) else None }"

definition upd_area :: "nat \<Rightarrow> nat \<Rightarrow> (free_area \<Rightarrow> free_area) \<Rightarrow> mm \<Rightarrow> mm option" where
  "upd_area z ord f s = do { a \<leftarrow> area_at z ord s;
     upd_zone z (\<lambda>zn. zn\<lparr>z_free_area := (z_free_area zn)[ord := f a]\<rparr>) s }"

text \<open>\<^verbatim>\<open>list_first_entry\<close> of a list of pages: the page that contains the node.\<close>

definition page_of :: "node ptr \<Rightarrow> u64 option" where
  "page_of n = (case n of At (PageLru p) \<Rightarrow> Some p | _ \<Rightarrow> None)"

section \<open>Initialisation\<close>

definition buddy_init :: "mm mm_ext \<Rightarrow> mm \<Rightarrow> mm" where
  "buddy_init E s = s\<lparr>zone_lock := spin_lock_init (zone_lock s),
     zones := replicate (MAX_NR_ZONES E) None,
     node_data := replicate (MAX_NUMNODES E) None\<rparr>"

definition init_free_lists :: "nat \<Rightarrow> mm \<Rightarrow> mm option" where
  "init_free_lists z = for_each (\<lambda>ord s. do {
      s \<leftarrow> for_each (\<lambda>mt. upd_nodes (INIT_LIST_HEAD (At (FreeList z ord (int mt)))))
             [0..<nat MIGRATE_TYPES] s;
      upd_area z ord (\<lambda>a. a\<lparr>nr_free := 0\<rparr>) s }) [0..<MAX_ORDER]"

definition register_zone :: "mm mm_ext \<Rightarrow> nat \<Rightarrow> mm \<Rightarrow> mm option" where
  "register_zone E z s = do {
     r \<leftarrow> spin_lock_irqsave smp_processor_id (return_addr s) (zone_lock s) (rflags s);
     (l, _, rf) \<leftarrow> (case r of Inl _ \<Rightarrow> None | Inr x \<Rightarrow> Some x);
     let s = s\<lparr>zone_lock := l, rflags := rf\<rparr>;
     s \<leftarrow> (if nr_zones s < MAX_NR_ZONES E
           then Some (s\<lparr>zones := (zones s)[nr_zones s := Some z], nr_zones := nr_zones s + 1\<rparr>)
           else Some s);
     (case spin_unlock_irqrestore smp_processor_id (zone_lock s) (uninit_flags E) (rflags s) of
        Inl _ \<Rightarrow> None
      | Inr (l, rf) \<Rightarrow> Some (s\<lparr>zone_lock := l, rflags := rf\<rparr>)) }"

definition init_zone ::
    "mm mm_ext \<Rightarrow> nat option \<Rightarrow> ulong \<Rightarrow> ulong \<Rightarrow> mm \<Rightarrow> (int \<times> mm) option" where
  "init_zone E zone start_pfn sz s = (case zone of
     None \<Rightarrow> Some (- error_code EINVAL, s)
   | Some z \<Rightarrow> do {
       s \<leftarrow> upd_zone z (\<lambda>zn. zn\<lparr>zone_start_pfn := start_pfn, spanned_pages := sz,
              present_pages := sz, managed_pages := sz,
              z_lock := spin_lock_init (z_lock zn), lru_lock := spin_lock_init (lru_lock zn)\<rparr>) s;
       s \<leftarrow> init_free_lists z s;
       s \<leftarrow> upd_zone z (\<lambda>zn. zn\<lparr>watermark_min := sz div 256, watermark_low := sz div 128,
              watermark_high := sz div 64, z_free_pages := 0, pages_scanned := 0\<rparr>) s;
       s \<leftarrow> for_each (\<lambda>l. upd_nodes (INIT_LIST_HEAD (At (LruList z l)))) [0..<NR_LRU_LISTS] s;
       s \<leftarrow> upd_zone z (\<lambda>zn. zn\<lparr>compact_cached_free_pfn := start_pfn,
              compact_cached_migrate_pfn := [start_pfn, start_pfn],
              compact_init_migrate_pfn := start_pfn, compact_init_free_pfn := start_pfn + sz,
              compact_considered := 0, compact_defer_shift := 0, compact_order_failed := -1,
              wait_table := None, wait_table_hash_nr_entries := 0, wait_table_bits := 0\<rparr>) s;
       s \<leftarrow> register_zone E z s;
       Some (0, s) })"

section \<open>Orders and buddies\<close>

function get_order_loop :: "ulong \<Rightarrow> nat \<Rightarrow> nat" where
  "get_order_loop sz ord = (if sz \<noteq> 0 then get_order_loop (drop_bit 1 sz) (ord + 1) else ord)"
  by auto
termination
proof (relation "measure (\<lambda>(sz, _). unat sz)")
  fix sz :: ulong and ord :: nat
  assume "sz \<noteq> 0"
  then have "0 < unat sz" by (simp add: unat_gt_0)
  then have "unat (drop_bit 1 sz) < unat sz"
    by (simp only: unat_drop_bit_eq) (simp add: drop_bit_eq_div)
  then show "((drop_bit 1 sz, ord + 1), (sz, ord)) \<in> measure (\<lambda>(sz, _). unat sz)"
    by simp
qed simp

declare get_order_loop.simps [simp del]

definition get_order :: "ulong \<Rightarrow> nat" where
  "get_order sz = get_order_loop (drop_bit PAGE_SHIFT (sz - 1)) 0"

definition get_pageblock_migratetype :: "u64 option \<Rightarrow> int" where
  "get_pageblock_migratetype page = MIGRATE_UNMOVABLE"

definition set_pageblock_migratetype :: "u64 option \<Rightarrow> int \<Rightarrow> mm \<Rightarrow> mm" where
  "set_pageblock_migratetype page mt s = s"

definition raw_find_buddy_pfn :: "ulong \<Rightarrow> nat \<Rightarrow> ulong" where
  "raw_find_buddy_pfn page_pfn ord = page_pfn XOR push_bit ord 1"

definition get_buddy_page :: "mm mm_ext \<Rightarrow> u64 \<Rightarrow> nat \<Rightarrow> u64" where
  "get_buddy_page E p ord = pfn_to_page E (raw_find_buddy_pfn (page_to_pfn E p) ord)"

definition page_is_buddy :: "mm mm_ext \<Rightarrow> u64 option \<Rightarrow> u64 option \<Rightarrow> nat \<Rightarrow> mm \<Rightarrow> bool option" where
  "page_is_buddy E page buddy ord s = (case (page, buddy) of
     (Some p, Some b) \<Rightarrow> do {
       bg \<leftarrow> mem_map s b;
       if \<not> PageBuddy E bg then Some False
       else if page_order E bg \<noteq> ord then Some False
       else do { pg \<leftarrow> mem_map s p; Some (page_zone_id E pg = page_zone_id E bg) } }
   | _ \<Rightarrow> Some False)"

section \<open>Free lists\<close>

definition raw_del_page_from_free_list ::
    "mm mm_ext \<Rightarrow> u64 \<Rightarrow> nat \<Rightarrow> nat \<Rightarrow> int \<Rightarrow> mm \<Rightarrow> mm option" where
  "raw_del_page_from_free_list E p z ord mt s = do {
     s \<leftarrow> upd_page p (ClearPageBuddy E) s;
     s \<leftarrow> upd_page p (\<lambda>pg. set_page_private E pg 0) s;
     s \<leftarrow> upd_nodes (list_del (At (PageLru p))) s;
     s \<leftarrow> upd_area z ord (\<lambda>a. a\<lparr>nr_free := nr_free a - 1\<rparr>) s;
     upd_zone z (\<lambda>zn. zn\<lparr>z_free_pages := z_free_pages zn - push_bit ord 1\<rparr>) s }"

definition raw_add_page_to_free_list ::
    "mm mm_ext \<Rightarrow> u64 \<Rightarrow> nat \<Rightarrow> nat \<Rightarrow> int \<Rightarrow> mm \<Rightarrow> mm option" where
  "raw_add_page_to_free_list E p z ord mt s = do {
     s \<leftarrow> upd_nodes (list_add (At (PageLru p)) (At (FreeList z ord mt))) s;
     s \<leftarrow> upd_page p (SetPageBuddy E) s;
     s \<leftarrow> upd_page p (\<lambda>pg. set_page_private E pg (of_nat ord)) s;
     s \<leftarrow> upd_area z ord (\<lambda>a. a\<lparr>nr_free := nr_free a + 1\<rparr>) s;
     upd_zone z (\<lambda>zn. zn\<lparr>z_free_pages := z_free_pages zn + push_bit ord 1\<rparr>) s }"

definition set_page_guard :: "mm mm_ext \<Rightarrow> u64 \<Rightarrow> nat \<Rightarrow> mm \<Rightarrow> mm option" where
  "set_page_guard E p ord s =
     (if DEBUG_GUARDPAGE_MINORDER E \<le> ord
      then upd_page p (\<lambda>pg. set_page_private E (SetPageGuard E pg) (of_nat ord)) s
      else Some s)"

definition clear_page_guard :: "mm mm_ext \<Rightarrow> u64 \<Rightarrow> nat \<Rightarrow> mm \<Rightarrow> mm option" where
  "clear_page_guard E p ord s =
     (if DEBUG_GUARDPAGE_MINORDER E \<le> ord
      then upd_page p (\<lambda>pg. set_page_private E (ClearPageGuard E pg) 0) s
      else Some s)"

fun expand_loop ::
    "mm mm_ext \<Rightarrow> nat \<Rightarrow> u64 \<Rightarrow> nat \<Rightarrow> nat \<Rightarrow> ulong \<Rightarrow> int \<Rightarrow> mm \<Rightarrow> mm option" where
  "expand_loop E z p low high sz mt s =
     (if low < high then do {
        let high = high - 1;
        let sz = drop_bit 1 sz;
        s \<leftarrow> raw_add_page_to_free_list E (p + ucast sz) z high mt s;
        s \<leftarrow> set_page_guard E (p + ucast sz) high s;
        expand_loop E z p low high sz mt s }
      else Some s)"

declare expand_loop.simps [simp del]

definition expand ::
    "mm mm_ext \<Rightarrow> nat \<Rightarrow> u64 \<Rightarrow> nat \<Rightarrow> nat \<Rightarrow> int \<Rightarrow> mm \<Rightarrow> mm option" where
  "expand E z p low high mt s = expand_loop E z p low high (push_bit high 1) mt s"

section \<open>Taking pages\<close>

function rmqueue_smallest_loop ::
    "mm mm_ext \<Rightarrow> nat \<Rightarrow> nat \<Rightarrow> int \<Rightarrow> nat \<Rightarrow> mm \<Rightarrow> (u64 option \<times> mm) option" where
  "rmqueue_smallest_loop E z ord mt current_order s =
     (if current_order < MAX_ORDER then do {
        e \<leftarrow> list_empty (At (FreeList z current_order mt)) (nodes s);
        if e then rmqueue_smallest_loop E z ord mt (current_order + 1) s
        else do {
          n \<leftarrow> load_next (At (FreeList z current_order mt)) (nodes s);
          p \<leftarrow> page_of n;
          s \<leftarrow> raw_del_page_from_free_list E p z current_order mt s;
          s \<leftarrow> expand E z p ord current_order mt s;
          s \<leftarrow> upd_page p (\<lambda>pg. set_freepage_migratetype E pg mt) s;
          Some (Some p, s) } }
      else Some (None, s))"
  by auto
termination by (relation "measure (\<lambda>(E, z, ord, mt, cur, s). MAX_ORDER - cur)") auto

declare rmqueue_smallest_loop.simps [simp del]

definition raw_rmqueue_smallest ::
    "mm mm_ext \<Rightarrow> nat \<Rightarrow> nat \<Rightarrow> int \<Rightarrow> mm \<Rightarrow> (u64 option \<times> mm) option" where
  "raw_rmqueue_smallest E z ord mt s = rmqueue_smallest_loop E z ord mt ord s"

text \<open>
  The table of \<^verbatim>\<open>__rmqueue_fallback\<close>: rows of four entries, the missing ones zero; an index
  beyond the row is a wild read.
\<close>

definition fallback_row :: "int \<Rightarrow> int list" where
  "fallback_row mt =
     (if mt = MIGRATE_UNMOVABLE then [MIGRATE_RECLAIMABLE, MIGRATE_MOVABLE, MIGRATE_TYPES, 0]
      else if mt = MIGRATE_RECLAIMABLE then [MIGRATE_UNMOVABLE, MIGRATE_MOVABLE, MIGRATE_TYPES, 0]
      else if mt = MIGRATE_MOVABLE then [MIGRATE_RECLAIMABLE, MIGRATE_UNMOVABLE, MIGRATE_TYPES, 0]
      else if mt = MIGRATE_CMA then [MIGRATE_TYPES, 0, 0, 0]
      else if mt = MIGRATE_RESERVE then [MIGRATE_RESERVE, 0, 0, 0]
      else if mt = MIGRATE_ISOLATE then [MIGRATE_TYPES, 0, 0, 0]
      else [])"

definition can_steal_fallback :: "mm mm_ext \<Rightarrow> nat \<Rightarrow> int \<Rightarrow> bool" where
  "can_steal_fallback E ord start_mt \<longleftrightarrow> pageblock_order E \<le> ord \<or> start_mt = MIGRATE_MOVABLE"

function find_fallback_loop ::
    "mm mm_ext \<Rightarrow> nat \<Rightarrow> nat \<Rightarrow> int \<Rightarrow> bool \<Rightarrow> bool \<Rightarrow> nat \<Rightarrow> mm \<Rightarrow> (int \<times> bool) option" where
  "find_fallback_loop E z ord mt only_stealable can_steal i s =
     (if i < length (fallback_row mt) then
        let fallback_mt = fallback_row mt ! i in
        if fallback_mt = MIGRATE_TYPES then Some (-1, can_steal)
        else do {
          e \<leftarrow> list_empty (At (FreeList z ord fallback_mt)) (nodes s);
          if e then find_fallback_loop E z ord mt only_stealable can_steal (i + 1) s
          else let can_steal = can_steal \<or> can_steal_fallback E ord mt in
            if \<not> only_stealable then Some (fallback_mt, can_steal)
            else if can_steal then Some (fallback_mt, can_steal)
            else find_fallback_loop E z ord mt only_stealable can_steal (i + 1) s }
      else None)"
  by auto
termination
  by (relation "measure (\<lambda>(E, z, ord, mt, os, c, i, s). length (fallback_row mt) - i)") auto

declare find_fallback_loop.simps [simp del]

definition find_suitable_fallback ::
    "mm mm_ext \<Rightarrow> nat \<Rightarrow> nat \<Rightarrow> int \<Rightarrow> bool \<Rightarrow> bool \<Rightarrow> mm \<Rightarrow> (int \<times> bool) option" where
  "find_suitable_fallback E z ord mt only_stealable can_steal s = do {
     a \<leftarrow> area_at z ord s;
     if nr_free a = 0 then Some (-1, can_steal)
     else find_fallback_loop E z ord mt only_stealable False 0 s }"

partial_function (option) move_freepages ::
    "mm mm_ext \<Rightarrow> nat \<Rightarrow> u64 \<Rightarrow> u64 \<Rightarrow> int \<Rightarrow> int \<Rightarrow> mm \<Rightarrow> (int \<times> mm) option" where
  "move_freepages E z page end_page mt pages_moved s =
     (if page \<le> end_page then
        if \<not> pfn_valid_within E (page_to_pfn E page)
        then move_freepages E z (page + 1) end_page mt pages_moved s
        else do {
          pg \<leftarrow> mem_map s page;
          if \<not> PageBuddy E pg then move_freepages E z (page + 1) end_page mt pages_moved s
          else do {
            let ord = page_order E pg;
            s \<leftarrow> raw_del_page_from_free_list E page z ord (get_freepage_migratetype E pg) s;
            s \<leftarrow> raw_add_page_to_free_list E page z ord mt s;
            move_freepages E z (page + push_bit ord 1) end_page mt (pages_moved + 2 ^ ord) s } }
      else Some (pages_moved, s))"

definition move_freepages_block ::
    "mm mm_ext \<Rightarrow> nat \<Rightarrow> u64 \<Rightarrow> int \<Rightarrow> mm \<Rightarrow> (int \<times> mm) option" where
  "move_freepages_block E z page mt s = do {
     zn \<leftarrow> zone_at s z;
     let start_pfn = page_to_pfn E page AND NOT (pageblock_nr_pages E - 1);
     let start_page = pfn_to_page E start_pfn;
     let end_page = start_page + ucast (pageblock_nr_pages E) - 1;
     let end_pfn = start_pfn + pageblock_nr_pages E - 1;
     let start_page = (if start_pfn < zone_start_pfn zn then pfn_to_page E (zone_start_pfn zn)
                       else start_page);
     if zone_end_pfn E zn \<le> end_pfn then Some (0, s)
     else move_freepages E z start_page end_page mt 0 s }"

definition steal_suitable_fallback :: "mm mm_ext \<Rightarrow> nat \<Rightarrow> u64 \<Rightarrow> int \<Rightarrow> mm \<Rightarrow> mm option" where
  "steal_suitable_fallback E z page start_type s = do {
     pg \<leftarrow> mem_map s page;
     let current_order = page_order E pg;
     if current_order < pageblock_order E then Some s
     else do {
       let s = set_pageblock_migratetype (Some page) start_type s;
       (_, s) \<leftarrow> move_freepages_block E z page start_type s;
       Some s } }"

text \<open>
  The loop of \<^verbatim>\<open>__rmqueue_fallback\<close> runs while \<^verbatim>\<open>current_order >= order\<close> on unsigned integers;
  at order 0 the decrement of 0 wraps around and the next access is far outside
  \<^verbatim>\<open>free_area\<close>.
\<close>

function rmqueue_fallback_loop ::
    "mm mm_ext \<Rightarrow> nat \<Rightarrow> nat \<Rightarrow> int \<Rightarrow> u32 \<Rightarrow> bool \<Rightarrow> mm \<Rightarrow> (u64 option \<times> mm) option" where
  "rmqueue_fallback_loop E z ord mt current_order can_steal s =
     (if ord \<le> unat current_order then
        if MAX_ORDER \<le> unat current_order then None
        else do {
          (fallback_mt, can_steal) \<leftarrow>
            find_suitable_fallback E z (unat current_order) mt False can_steal s;
          if fallback_mt = -1
          then rmqueue_fallback_loop E z ord mt (current_order - 1) can_steal s
          else do {
            n \<leftarrow> load_next (At (FreeList z (unat current_order) fallback_mt)) (nodes s);
            p \<leftarrow> page_of n;
            s \<leftarrow> raw_del_page_from_free_list E p z (unat current_order) fallback_mt s;
            s \<leftarrow> (if can_steal then steal_suitable_fallback E z p mt s else Some s);
            s \<leftarrow> expand E z p ord (unat current_order) mt s;
            s \<leftarrow> upd_page p (\<lambda>pg. set_freepage_migratetype E pg mt) s;
            Some (Some p, s) } }
      else Some (None, s))"
  by auto
termination
proof (relation "measure (\<lambda>(E, z, ord, mt, cur, c, s). unat (cur + 1))")
  fix cur :: u32
  assume "\<not> MAX_ORDER \<le> unat cur"
  then have "unat (cur + 1) = unat cur + 1"
    by (subst unat_plus_eq) (simp_all add: MAX_ORDER_def)
  then have "unat (cur - 1 + 1) < unat (cur + 1)" by simp
  then show "((E, z, ord, mt, cur - 1, cs, s), (E, z, ord, mt, cur, c, s))
      \<in> measure (\<lambda>(E, z, ord, mt, cur, c, s). unat (cur + 1))"
    for E z ord mt c cs s by simp
qed simp_all

declare rmqueue_fallback_loop.simps [simp del]

definition raw_rmqueue_fallback ::
    "mm mm_ext \<Rightarrow> nat \<Rightarrow> nat \<Rightarrow> int \<Rightarrow> bool \<Rightarrow> mm \<Rightarrow> (u64 option \<times> mm) option" where
  "raw_rmqueue_fallback E z ord mt can_steal s =
     rmqueue_fallback_loop E z ord mt (of_nat (MAX_ORDER - 1)) can_steal s"

text \<open>
  The eight flags that \<^verbatim>\<open>clear_page_flags\<close> resets, and the preparation of each page of the
  block.
\<close>

definition clear_page_flags :: "page \<Rightarrow> page" where
  "clear_page_flags pg = pg\<lparr>pg_flags := pg_flags pg AND
     NOT (push_bit (pg_bit PG_locked) 1 OR push_bit (pg_bit PG_error) 1
       OR push_bit (pg_bit PG_referenced) 1 OR push_bit (pg_bit PG_dirty) 1
       OR push_bit (pg_bit PG_active) 1 OR push_bit (pg_bit PG_reserved) 1
       OR push_bit (pg_bit PG_private) 1 OR push_bit (pg_bit PG_writeback) 1)\<rparr>"

definition prep_one_page :: "mm mm_ext \<Rightarrow> gfp_t \<Rightarrow> page \<Rightarrow> page" where
  "prep_one_page E gfp_flags pg =
     (let pg = clear_page_flags pg;
          pg = set_page_count E pg 1;
          pg = (if gfp_flags AND raw_GFP_ZERO \<noteq> 0 then clear_page E pg else pg);
          pg = set_page_private E pg 0
      in init_page_waiters E pg)"

definition prep_new_page :: "mm mm_ext \<Rightarrow> u64 \<Rightarrow> nat \<Rightarrow> gfp_t \<Rightarrow> mm \<Rightarrow> mm option" where
  "prep_new_page E page ord gfp_flags =
     for_each (\<lambda>i. upd_page (page + of_nat i) (prep_one_page E gfp_flags)) [0..<2 ^ ord]"

text \<open>The zone lock, with and without interrupts.\<close>

definition set_zone_lock :: "nat \<Rightarrow> spinlock_t \<Rightarrow> mm \<Rightarrow> mm option" where
  "set_zone_lock z l s = upd_zone z (\<lambda>zn. zn\<lparr>z_lock := l\<rparr>) s"

definition zone_lock_irqsave :: "nat \<Rightarrow> mm \<Rightarrow> mm option" where
  "zone_lock_irqsave z s = do {
     zn \<leftarrow> zone_at s z;
     r \<leftarrow> spin_lock_irqsave smp_processor_id (return_addr s) (z_lock zn) (rflags s);
     (l, _, rf) \<leftarrow> (case r of Inl _ \<Rightarrow> None | Inr x \<Rightarrow> Some x);
     s \<leftarrow> set_zone_lock z l s;
     Some (s\<lparr>rflags := rf\<rparr>) }"

definition zone_unlock_irqrestore :: "nat \<Rightarrow> ulong \<Rightarrow> mm \<Rightarrow> mm option" where
  "zone_unlock_irqrestore z flags s = do {
     zn \<leftarrow> zone_at s z;
     (l, rf) \<leftarrow> (case spin_unlock_irqrestore smp_processor_id (z_lock zn) flags (rflags s) of
        Inl _ \<Rightarrow> None | Inr x \<Rightarrow> Some x);
     s \<leftarrow> set_zone_lock z l s;
     Some (s\<lparr>rflags := rf\<rparr>) }"

definition zone_spin_lock :: "nat \<Rightarrow> mm \<Rightarrow> mm option" where
  "zone_spin_lock z s = do {
     zn \<leftarrow> zone_at s z;
     r \<leftarrow> spin_lock smp_processor_id (return_addr s) (z_lock zn);
     l \<leftarrow> (case r of Inl _ \<Rightarrow> None | Inr l \<Rightarrow> Some l);
     set_zone_lock z l s }"

definition zone_spin_unlock :: "nat \<Rightarrow> mm \<Rightarrow> mm option" where
  "zone_spin_unlock z s = do {
     zn \<leftarrow> zone_at s z;
     l \<leftarrow> (case spin_unlock smp_processor_id (z_lock zn) of Inl _ \<Rightarrow> None | Inr l \<Rightarrow> Some l);
     set_zone_lock z l s }"

definition rmqueue ::
    "mm mm_ext \<Rightarrow> nat \<Rightarrow> nat \<Rightarrow> gfp_t \<Rightarrow> int \<Rightarrow> bool \<Rightarrow> mm \<Rightarrow> (u64 option \<times> mm) option" where
  "rmqueue E z ord gfp_flags mt can_steal s = do {
     s \<leftarrow> zone_lock_irqsave z s;
     (page, s) \<leftarrow> raw_rmqueue_smallest E z ord mt s;
     (page, s) \<leftarrow> (case page of
         None \<Rightarrow> raw_rmqueue_fallback E z ord mt can_steal s
       | Some p \<Rightarrow> Some (page, s));
     s \<leftarrow> zone_unlock_irqrestore z (uninit_flags E) s;
     s \<leftarrow> (case page of None \<Rightarrow> Some s | Some p \<Rightarrow> prep_new_page E p ord gfp_flags s);
     Some (page, s) }"

text \<open>
  \<^verbatim>\<open>can_steal\<close> is a local variable that \<^verbatim>\<open>__rmqueue_fallback\<close> leaves uninitialised; its
  first value is an argument here.
\<close>

definition alloc_pages :: "mm mm_ext \<Rightarrow> gfp_t \<Rightarrow> nat \<Rightarrow> bool \<Rightarrow> mm \<Rightarrow> (u64 option \<times> mm) option" where
  "alloc_pages E gfp_mask ord can_steal s = (case zonelist_first E gfp_mask of
     None \<Rightarrow> Some (None, s)
   | Some z \<Rightarrow> do {
       (page, s) \<leftarrow> rmqueue E z ord gfp_mask (allocflags_to_migratetype E gfp_mask) can_steal s;
       case page of
         None \<Rightarrow> Some (None, s)
       | Some p \<Rightarrow> do {
           let s = s\<lparr>free_pages_count := free_pages_count s - push_bit ord 1\<rparr>;
           s \<leftarrow> upd_page p (\<lambda>pg. set_page_node E (set_page_zone E pg (zone_idx E z))
                 (zone_to_nid E z)) s;
           Some (Some p, s) } })"

definition alloc_page :: "mm mm_ext \<Rightarrow> gfp_t \<Rightarrow> bool \<Rightarrow> mm \<Rightarrow> (u64 option \<times> mm) option" where
  "alloc_page E gfp_mask = alloc_pages E gfp_mask 0"

definition raw_get_free_pages :: "mm mm_ext \<Rightarrow> gfp_t \<Rightarrow> nat \<Rightarrow> bool \<Rightarrow> mm \<Rightarrow> (ulong \<times> mm) option" where
  "raw_get_free_pages E gfp_mask ord can_steal s = do {
     (page, s) \<leftarrow> alloc_pages E gfp_mask ord can_steal s;
     case page of None \<Rightarrow> Some (0, s) | Some p \<Rightarrow> Some (ucast (page_address E p), s) }"

definition raw_get_free_page :: "mm mm_ext \<Rightarrow> gfp_t \<Rightarrow> bool \<Rightarrow> mm \<Rightarrow> (ulong \<times> mm) option" where
  "raw_get_free_page E gfp_mask = raw_get_free_pages E gfp_mask 0"

definition get_zeroed_page :: "mm mm_ext \<Rightarrow> gfp_t \<Rightarrow> bool \<Rightarrow> mm \<Rightarrow> (ulong \<times> mm) option" where
  "get_zeroed_page E gfp_mask = raw_get_free_pages E (gfp_mask OR raw_GFP_ZERO) 0"

section \<open>Returning pages\<close>

text \<open>
  \<^verbatim>\<open>page + (buddy_pfn - pfn)\<close> adds an unsigned difference of the 32 bits of \<^verbatim>\<open>ulong\<close> to a 64-bit
  pointer.
\<close>

definition page_plus :: "u64 \<Rightarrow> ulong \<Rightarrow> u64" where "page_plus p d = p + ucast d"

function free_one_page_loop ::
    "mm mm_ext \<Rightarrow> u64 \<Rightarrow> ulong \<Rightarrow> nat \<Rightarrow> nat \<Rightarrow> int \<Rightarrow> mm \<Rightarrow> mm option" where
  "free_one_page_loop E page pfn z ord mt s =
     (let finish = do {
            s \<leftarrow> upd_page page (\<lambda>pg. set_page_order E pg ord) s;
            raw_add_page_to_free_list E page z ord mt s } in
      if ord < MAX_ORDER - 1 then do {
        let buddy_pfn = raw_find_buddy_pfn pfn ord;
        let buddy = page_plus page (buddy_pfn - pfn);
        b \<leftarrow> page_is_buddy E (Some page) (Some buddy) ord s;
        if \<not> b then finish
        else do {
          bg \<leftarrow> mem_map s buddy;
          s \<leftarrow> raw_del_page_from_free_list E buddy z ord (get_freepage_migratetype E bg) s;
          let combined_pfn = buddy_pfn AND pfn;
          let combined_page = page_plus page (combined_pfn - pfn);
          free_one_page_loop E combined_page combined_pfn z (ord + 1) mt s } }
      else finish)"
  by auto
termination by (relation "measure (\<lambda>(E, p, pfn, z, ord, mt, s). MAX_ORDER - ord)") auto

declare free_one_page_loop.simps [simp del]

definition raw_free_one_page ::
    "mm mm_ext \<Rightarrow> u64 \<Rightarrow> ulong \<Rightarrow> nat \<Rightarrow> nat \<Rightarrow> int \<Rightarrow> mm \<Rightarrow> mm option" where
  "raw_free_one_page E page pfn z ord mt s = do {
     zn \<leftarrow> zone_at s z;
     pg \<leftarrow> mem_map s page;
     if \<not> zone_is_initialized E zn \<or> pg_flags pg AND CHECK_AT_PREP E \<noteq> 0 \<or> mt = -1 then None
     else free_one_page_loop E page pfn z ord mt s }"

definition free_one_page ::
    "mm mm_ext \<Rightarrow> nat \<Rightarrow> u64 \<Rightarrow> ulong \<Rightarrow> nat \<Rightarrow> int \<Rightarrow> mm \<Rightarrow> mm option" where
  "free_one_page E z page pfn ord mt s = do {
     s \<leftarrow> zone_spin_lock z s;
     s \<leftarrow> raw_free_one_page E page pfn z ord mt s;
     zone_spin_unlock z s }"

text \<open>\<^verbatim>\<open>free_page_check\<close> returns 1 for a page that may not be freed.\<close>

definition free_page_check :: "mm mm_ext \<Rightarrow> page \<Rightarrow> nat \<times> page" where
  "free_page_check E pg =
     (if page_mapcount E pg \<noteq> 0 \<or> pg_mapping pg \<noteq> None \<or> page_ref_count E pg \<noteq> 0
         \<or> pg_flags pg AND CHECK_AT_FREE E \<noteq> 0
      then (1, pg)
      else let pg = page_cpupid_reset_last E pg
           in (0, if pg_flags pg AND CHECK_AT_PREP E \<noteq> 0
                  then pg\<lparr>pg_flags := pg_flags pg AND NOT (CHECK_AT_PREP E)\<rparr> else pg))"

definition check_one_page :: "mm mm_ext \<Rightarrow> u64 \<Rightarrow> nat \<times> mm \<Rightarrow> (nat \<times> mm) option" where
  "check_one_page E p = (\<lambda>(bad, s). do {
     pg \<leftarrow> mem_map s p;
     let pg = (if PageAnon E pg then pg\<lparr>pg_mapping := None\<rparr> else pg);
     let (b, pg) = free_page_check E pg;
     Some (bad + b, s\<lparr>mem_map := (mem_map s)(p \<mapsto> pg)\<rparr>) })"

definition free_page_prepare :: "mm mm_ext \<Rightarrow> u64 \<Rightarrow> nat \<Rightarrow> mm \<Rightarrow> (bool \<times> mm) option" where
  "free_page_prepare E page ord s = do {
     pg \<leftarrow> mem_map s page;
     let compound = PageFlag (flag_ops E) PG_compound pg;
     if PageFlag (flag_ops E) PG_tail pg \<or> compound \<and> compound_order E pg \<noteq> ord then None
     else do {
       (bad, s) \<leftarrow> for_each (\<lambda>i. check_one_page E (page + of_nat i)) [0..<2 ^ ord] (0, s);
       if bad \<noteq> 0 then Some (False, s)
       else do {
         s \<leftarrow> upd_page page (page_cpupid_reset_last E) s;
         s \<leftarrow> upd_page page (\<lambda>pg. pg\<lparr>pg_flags := pg_flags pg AND NOT (CHECK_AT_PREP E)\<rparr>) s;
         s \<leftarrow> upd_page page (\<lambda>pg. reset_page_owner E pg ord) s;
         Some (True, s) } } }"

definition irq_save :: "mm \<Rightarrow> mm" where
  "irq_save s = (let (saved, rf) = local_irq_save (rflags s) in s\<lparr>rflags := rf\<rparr>)"

definition irq_restore :: "ulong \<Rightarrow> mm \<Rightarrow> mm" where
  "irq_restore flags s = s\<lparr>rflags := local_irq_restore (ucast flags) (rflags s)\<rparr>"

definition raw_free_pages_ok :: "mm mm_ext \<Rightarrow> u64 \<Rightarrow> nat \<Rightarrow> mm \<Rightarrow> mm option" where
  "raw_free_pages_ok E page ord s = do {
     (ok, s) \<leftarrow> free_page_prepare E page ord s;
     if \<not> ok then Some s
     else do {
       pg \<leftarrow> mem_map s page;
       let s = irq_save s;
       s \<leftarrow> free_one_page E (page_zone E pg) page (page_to_pfn E page) ord
              (get_freepage_migratetype E pg) s;
       Some (irq_restore (uninit_flags E) s) } }"

definition upd_pcp :: "nat \<Rightarrow> (per_cpu_pages \<Rightarrow> per_cpu_pages) \<Rightarrow> mm \<Rightarrow> mm option" where
  "upd_pcp z f s = (let c = unat smp_processor_id in
     upd_zone z (\<lambda>zn. zn\<lparr>pageset := (pageset zn)(c := f (pageset zn c))\<rparr>) s)"

definition free_hot_cold_page :: "mm mm_ext \<Rightarrow> u64 \<Rightarrow> bool \<Rightarrow> mm \<Rightarrow> mm option" where
  "free_hot_cold_page E page cold s = do {
     pg \<leftarrow> mem_map s page;
     let z = page_zone E pg;
     (ok, s) \<leftarrow> free_page_prepare E page 0 s;
     if \<not> ok then Some s
     else do {
       pg \<leftarrow> mem_map s page;
       let mt = get_freepage_migratetype E pg;
       let s = irq_save s;
       let c = unat smp_processor_id;
       s \<leftarrow> (if cold then upd_nodes (list_add_tail (At (PageLru page)) (At (PcpList z c mt))) s
             else upd_nodes (list_add (At (PageLru page)) (At (PcpList z c mt))) s);
       s \<leftarrow> upd_pcp z (\<lambda>p. p\<lparr>pcp_count := pcp_count p + 1\<rparr>) s;
       zn \<leftarrow> zone_at s z;
       s \<leftarrow> (if pcp_high (pageset zn c) \<le> pcp_count (pageset zn c) then do {
                let batch = (word_of_int (pcp_batch (pageset zn c)) :: ulong);
                s \<leftarrow> free_pcppages_bulk E z batch s;
                upd_pcp z (\<lambda>p. p\<lparr>pcp_count :=
                  sint (word_of_int (pcp_count p) - batch :: ulong)\<rparr>) s }
             else Some s);
       Some (irq_restore (uninit_flags E) s) } }"

definition raw_free_pages :: "mm mm_ext \<Rightarrow> u64 \<Rightarrow> nat \<Rightarrow> mm \<Rightarrow> mm option" where
  "raw_free_pages E page ord s = do {
     pg \<leftarrow> mem_map s page;
     let (zero, pg) = put_page_testzero E pg;
     s \<leftarrow> upd_page page (\<lambda>_. pg) s;
     if zero then
       if ord = 0 then free_hot_cold_page E page False s else raw_free_pages_ok E page ord s
     else Some s }"

definition free_pages :: "mm mm_ext \<Rightarrow> ulong \<Rightarrow> nat \<Rightarrow> mm \<Rightarrow> mm option" where
  "free_pages E addr ord s =
     (if addr \<noteq> 0 then
        if \<not> virt_addr_valid E (ucast addr) then None
        else raw_free_pages E (virt_to_page E (ucast addr)) ord s
      else Some s)"

definition free_page :: "mm mm_ext \<Rightarrow> ulong \<Rightarrow> mm \<Rightarrow> mm option" where
  "free_page E addr = free_pages E addr 0"

section \<open>Statistics\<close>

record sysinfo =
  totalram :: ulong
  freeram :: ulong
  sharedram :: ulong
  bufferram :: ulong
  totalswap :: ulong
  freeswap :: ulong
  totalhigh :: ulong
  freehigh :: ulong
  mem_unit :: ulong

definition si_meminfo :: "mm \<Rightarrow> sysinfo" where
  "si_meminfo s = \<lparr>totalram = total_pages s, freeram = free_pages_count s, sharedram = 0,
     bufferram = 0, totalswap = 0, freeswap = 0, totalhigh = 0, freehigh = 0,
     mem_unit = PAGE_SIZE\<rparr>"

text \<open>The sums that the loop of \<^verbatim>\<open>show_mem\<close> accumulates over the registered zones.\<close>

definition show_mem_zone :: "mm \<Rightarrow> nat \<Rightarrow> ulong \<times> ulong \<times> ulong \<Rightarrow> (ulong \<times> ulong \<times> ulong) option" where
  "show_mem_zone s i = (\<lambda>(total, free, reserved).
     if length (zones s) \<le> i then None
     else case zones s ! i of
       None \<Rightarrow> Some (total, free, reserved)
     | Some z \<Rightarrow> do {
         zn \<leftarrow> zone_at s z;
         Some (total + present_pages zn, free + z_free_pages zn,
               reserved + (present_pages zn - managed_pages zn)) })"

definition show_mem :: "mm \<Rightarrow> (ulong \<times> ulong \<times> ulong) option" where
  "show_mem s = for_each (show_mem_zone s) [0..<nr_zones s] (0, 0, 0)"

end
