(* ===== verification/Buddy_Spec.thy ===== *)
theory Buddy_Spec
  imports Buddy_C
begin

text \<open>
  What the buddy system promises, without lists, flags and counters: the free memory is a set
  of blocks, a block being the number of its first page and its order.  Blocks are aligned to
  their size and do not overlap.  Splitting a block and merging a returned one are functions
  on such sets; the pages they cover, the absence of two free buddies of the same order and
  the fact that returning what was taken restores the set are proved here once, and the
  theory \<open>Buddy_Inv\<close> shows that the code of \<^verbatim>\<open>buddy.c\<close> computes these functions.
\<close>

section \<open>Buddies\<close>

definition buddy_of :: "nat \<Rightarrow> nat \<Rightarrow> nat" where "buddy_of p k = p XOR 2 ^ k"

lemma nat_xor_1: "(q::nat) XOR 1 = (if even q then q + 1 else q - 1)"
  by (cases "even q") (auto simp: xor_nat_unfold elim!: evenE oddE)

lemma nat_and_xor_1: "(q::nat) AND (q XOR 1) = (if even q then q else q - 1)"
  unfolding nat_xor_1 by (auto simp: and_nat_rec [of q] elim!: evenE oddE)

lemma buddy_cases:
  assumes "2 ^ k dvd p"
  shows "(even (p div 2 ^ k) \<and> buddy_of p k = p + 2 ^ k \<and> buddy_of p k AND p = p)
    \<or> (odd (p div 2 ^ k) \<and> 2 ^ k \<le> p \<and> buddy_of p k = p - 2 ^ k \<and> buddy_of p k AND p = p - 2 ^ k)"
proof -
  obtain q where q: "p = 2 ^ k * q" using assms by blast
  have push: "p = push_bit k q" "2 ^ k = push_bit k (1::nat)"
    using q by (simp_all add: push_bit_eq_mult)
  have "buddy_of p k = push_bit k (q XOR 1)"
    unfolding buddy_of_def push by (simp add: push_bit_xor)
  moreover from this have "buddy_of p k AND p = push_bit k (q AND (q XOR 1))"
    by (simp add: push(1) push_bit_and and.commute)
  ultimately show ?thesis
    using q unfolding nat_and_xor_1 unfolding nat_xor_1
    by (cases "even q") (auto simp: push_bit_eq_mult algebra_simps elim!: oddE)
qed

lemma buddy_aligned: "2 ^ k dvd p \<Longrightarrow> 2 ^ k dvd buddy_of p k"
  using buddy_cases [of k p] by (auto simp: dvd_diff_nat)

lemma buddy_buddy [simp]: "buddy_of (buddy_of p k) k = p"
  by (simp add: buddy_of_def xor.assoc)

lemma buddy_neq [simp]: "buddy_of p k \<noteq> p"
proof
  assume "buddy_of p k = p"
  then have "p XOR (p XOR 2 ^ k) = 0" by (simp add: buddy_of_def)
  then show False by (simp flip: xor.assoc)
qed

lemma combined_aligned: "2 ^ k dvd p \<Longrightarrow> 2 ^ Suc k dvd buddy_of p k AND p"
  using buddy_cases [of k p] by (auto elim!: dvdE oddE evenE simp: algebra_simps)

section \<open>Sets of blocks\<close>

definition block :: "nat \<Rightarrow> nat \<Rightarrow> nat set" where "block p k = {p ..< p + 2 ^ k}"

definition pages_in :: "(nat \<times> nat) set \<Rightarrow> nat set" where
  "pages_in B = (\<Union>(p, k) \<in> B. block p k)"

definition blocks_wf :: "(nat \<times> nat) set \<Rightarrow> bool" where
  "blocks_wf B \<longleftrightarrow> (\<forall>p k. (p, k) \<in> B \<longrightarrow> k < MAX_ORDER \<and> 2 ^ k dvd p)
     \<and> (\<forall>p k q j. (p, k) \<in> B \<longrightarrow> (q, j) \<in> B \<longrightarrow> (p, k) \<noteq> (q, j) \<longrightarrow> block p k \<inter> block q j = {})"

definition coalesced :: "(nat \<times> nat) set \<Rightarrow> bool" where
  "coalesced B \<longleftrightarrow> (\<forall>p k. (p, k) \<in> B \<longrightarrow> k < MAX_ORDER - 1 \<longrightarrow> (buddy_of p k, k) \<notin> B)"

lemma block_combined:
  assumes "2 ^ k dvd p"
  shows "block (buddy_of p k AND p) (Suc k) = block p k \<union> block (buddy_of p k) k"
  using buddy_cases [OF assms] by (auto simp: block_def)

lemma block_not_empty [simp]: "block p k \<noteq> {}" "p \<in> block p k"
  by (simp_all add: block_def)

lemma pages_in_simps [simp]:
  "pages_in {} = {}" "pages_in (insert (p, k) B) = block p k \<union> pages_in B"
  "pages_in (A \<union> B) = pages_in A \<union> pages_in B"
  by (auto simp: pages_in_def)

lemma block_sub_pages: "(p, k) \<in> B \<Longrightarrow> block p k \<subseteq> pages_in B"
  by (auto simp: pages_in_def)

lemma blocks_wfD:
  assumes "blocks_wf B" "(p, k) \<in> B"
  shows "k < MAX_ORDER" "2 ^ k dvd p"
  using assms by (auto simp: blocks_wf_def)

lemma blocks_wf_disjoint:
  "blocks_wf B \<Longrightarrow> (p, k) \<in> B \<Longrightarrow> (q, j) \<in> B \<Longrightarrow> (p, k) \<noteq> (q, j) \<Longrightarrow> block p k \<inter> block q j = {}"
  unfolding blocks_wf_def by blast

lemma blocks_wf_subset: "blocks_wf B \<Longrightarrow> A \<subseteq> B \<Longrightarrow> blocks_wf A"
  unfolding blocks_wf_def by blast

lemma pages_in_remove:
  assumes "blocks_wf B" "(p, k) \<in> B"
  shows "pages_in (B - {(p, k)}) = pages_in B - block p k"
proof -
  have "block q j \<inter> block p k = {}" if "(q, j) \<in> B - {(p, k)}" for q j
    using that assms blocks_wf_disjoint by blast
  then show ?thesis using assms(2) by (auto simp: pages_in_def)
qed

lemma blocks_wf_union:
  assumes "blocks_wf A" "blocks_wf B" "pages_in A \<inter> pages_in B = {}"
  shows "blocks_wf (A \<union> B)"
proof -
  have *: "block p k \<inter> block q j = {}" if "(p, k) \<in> A" "(q, j) \<in> B" for p k q j
    using that assms(3) by (auto simp: pages_in_def)
  have "block p k \<inter> block q j = {}"
    if ne: "(p, k) \<noteq> (q, j)" and "(p, k) \<in> A \<union> B" "(q, j) \<in> A \<union> B" for p k q j
    using that(2,3)
  proof (elim UnE)
    assume "(p, k) \<in> A" "(q, j) \<in> A" with ne show ?thesis by (rule_tac blocks_wf_disjoint [OF assms(1)])
  next
    assume "(p, k) \<in> B" "(q, j) \<in> B" with ne show ?thesis by (rule_tac blocks_wf_disjoint [OF assms(2)])
  next
    assume "(p, k) \<in> A" "(q, j) \<in> B" then show ?thesis by (rule *)
  next
    assume "(p, k) \<in> B" "(q, j) \<in> A" then show ?thesis using * [of q j p k] by blast
  qed
  moreover have "k < MAX_ORDER \<and> 2 ^ k dvd p" if "(p, k) \<in> A \<union> B" for p k
    using that assms(1,2) unfolding blocks_wf_def by blast
  ultimately show ?thesis unfolding blocks_wf_def by blast
qed

lemma blocks_wf_insert:
  assumes "blocks_wf B" "k < MAX_ORDER" "2 ^ k dvd p" "block p k \<inter> pages_in B = {}"
  shows "blocks_wf (insert (p, k) B)"
proof -
  have "blocks_wf {(p, k)}" using assms by (simp add: blocks_wf_def)
  from blocks_wf_union [OF this assms(1)] assms(4) show ?thesis by simp
qed

section \<open>Returning a block\<close>

function merge :: "(nat \<times> nat) set \<Rightarrow> nat \<Rightarrow> nat \<Rightarrow> (nat \<times> nat) set" where
  "merge B p k =
     (if k < MAX_ORDER - 1 \<and> (buddy_of p k, k) \<in> B
      then merge (B - {(buddy_of p k, k)}) (buddy_of p k AND p) (Suc k)
      else insert (p, k) B)"
  by auto
termination by (relation "measure (\<lambda>(B, p, k). MAX_ORDER - k)") auto

declare merge.simps [simp del]

text \<open>Whether every buddy that the merge looks at lies above the block it belongs to.\<close>

function upward :: "(nat \<times> nat) set \<Rightarrow> nat \<Rightarrow> nat \<Rightarrow> bool" where
  "upward B p k \<longleftrightarrow>
     (k < MAX_ORDER - 1 \<longrightarrow> even (p div 2 ^ k)
        \<and> ((buddy_of p k, k) \<in> B
             \<longrightarrow> upward (B - {(buddy_of p k, k)}) (buddy_of p k AND p) (Suc k)))"
  by auto
termination by (relation "measure (\<lambda>(B, p, k). MAX_ORDER - k)") auto

declare upward.simps [simp del]

lemma merge_spec:
  assumes "blocks_wf B" "k < MAX_ORDER" "2 ^ k dvd p" "block p k \<inter> pages_in B = {}"
  shows "blocks_wf (merge B p k) \<and> pages_in (merge B p k) = pages_in B \<union> block p k
    \<and> (coalesced B \<longrightarrow> coalesced (merge B p k))"
  using assms
proof (induction B p k rule: merge.induct)
  case (1 B p k)
  let ?b = "buddy_of p k"
  show ?case
  proof (cases "k < MAX_ORDER - 1 \<and> (?b, k) \<in> B")
    case True
    let ?C = "B - {(?b, k)}"
    have C: "blocks_wf ?C" "pages_in ?C = pages_in B - block ?b k"
      using blocks_wf_subset [OF 1(2), of ?C] pages_in_remove [OF 1(2)] True by auto
    have comb: "block (?b AND p) (Suc k) = block p k \<union> block ?b k"
      using block_combined [OF 1(4)] .
    have sub: "block ?b k \<subseteq> pages_in B" using True by (auto simp: pages_in_def)
    have "coalesced B \<Longrightarrow> coalesced ?C" by (auto simp: coalesced_def)
    moreover have "blocks_wf (merge ?C (?b AND p) (Suc k))
        \<and> pages_in (merge ?C (?b AND p) (Suc k)) = pages_in ?C \<union> block (?b AND p) (Suc k)
        \<and> (coalesced ?C \<longrightarrow> coalesced (merge ?C (?b AND p) (Suc k)))"
    proof (intro "1.IH" True)
      show "block (?b AND p) (Suc k) \<inter> pages_in ?C = {}"
        unfolding comb C(2) using 1(5) by blast
    qed (use True C(1) combined_aligned [OF 1(4)] in auto)
    moreover have "merge B p k = merge ?C (?b AND p) (Suc k)" using True by (subst merge.simps) simp
    moreover have "pages_in ?C \<union> block (?b AND p) (Suc k) = pages_in B \<union> block p k"
      unfolding comb C(2) using sub by blast
    ultimately show ?thesis by simp
  next
    case False
    have "coalesced (insert (p, k) B)" if "coalesced B"
      using False that by (auto simp: coalesced_def)
    moreover have "merge B p k = insert (p, k) B" using False by (subst merge.simps) auto
    ultimately show ?thesis using 1 blocks_wf_insert by auto
  qed
qed

section \<open>Taking a block\<close>

definition halves :: "nat \<Rightarrow> nat \<Rightarrow> nat \<Rightarrow> (nat \<times> nat) set" where
  "halves p low high = {(p + 2 ^ j, j) | j. low \<le> j \<and> j < high}"

lemma halves_simps [simp]:
  "halves p high high = {}"
  "low < high \<Longrightarrow> halves p low high = insert (p + 2 ^ (high - 1), high - 1) (halves p low (high - 1))"
  by (auto simp: halves_def)

lemma ivl_join: "(a::nat) \<le> b \<Longrightarrow> {p + a ..< p + b} \<union> {p + b ..< p + b + c} = {p + a ..< p + (b + c)}"
  by auto

lemma pages_in_halves: "low \<le> high \<Longrightarrow> pages_in (halves p low high) = {p + 2 ^ low ..< p + 2 ^ high}"
proof (induction high)
  case (Suc high)
  show ?case
  proof (cases "low = Suc high")
    case False
    with Suc have *: "low \<le> high" "pages_in (halves p low high) = {p + 2 ^ low ..< p + 2 ^ high}"
      by simp_all
    then have "pages_in (halves p low (Suc high)) = {p + 2 ^ low ..< p + 2 ^ high} \<union> block (p + 2 ^ high) high"
      by auto
    then show ?thesis
      unfolding block_def using ivl_join [of "2 ^ low" "2 ^ high" p "2 ^ high"] *(1)
      by (simp add: mult_2)
  qed simp
qed simp

lemma halves_wf:
  assumes "2 ^ high dvd p" "high < MAX_ORDER" "low \<le> high"
  shows "blocks_wf (halves p low high)"
  using assms
proof (induction high)
  case (Suc high)
  show ?case
  proof (cases "low = Suc high")
    case False
    have d: "2 ^ high dvd p" using Suc(2) by (metis dvd_trans le_add2 le_imp_power_dvd plus_1_eq_Suc)
    with False Suc have "blocks_wf (halves p low high)" by simp
    moreover have "block (p + 2 ^ high) high \<inter> pages_in (halves p low high) = {}"
      using False Suc by (subst pages_in_halves) (auto simp: block_def)
    ultimately show ?thesis
      using False Suc d by (auto intro: blocks_wf_insert)
  qed (simp add: blocks_wf_def)
qed (simp add: blocks_wf_def)

definition split_block :: "(nat \<times> nat) set \<Rightarrow> nat \<Rightarrow> nat \<Rightarrow> nat \<Rightarrow> (nat \<times> nat) set" where
  "split_block B p low high = (B - {(p, high)}) \<union> halves p low high"

lemma block_halves: "low \<le> high \<Longrightarrow> block p high = block p low \<union> pages_in (halves p low high)"
proof -
  assume "low \<le> high"
  then have "{p ..< p + 2 ^ high} = {p ..< p + 2 ^ low} \<union> {p + 2 ^ low ..< p + 2 ^ high}"
    by (intro ivl_disj_un_two(3) [symmetric]) simp_all
  with \<open>low \<le> high\<close> show ?thesis by (simp add: pages_in_halves block_def)
qed

lemma split_spec:
  assumes "blocks_wf B" "(p, high) \<in> B" "low \<le> high"
  shows "blocks_wf (split_block B p low high)"
    and "pages_in (split_block B p low high) = pages_in B - block p low"
proof -
  note h = blocks_wfD [OF assms(1,2)]
  have rm: "pages_in (B - {(p, high)}) = pages_in B - block p high"
    using assms by (simp add: pages_in_remove)
  have bl: "block p high = block p low \<union> pages_in (halves p low high)"
    "block p low \<inter> pages_in (halves p low high) = {}" "block p high \<subseteq> pages_in B"
  proof -
    show "block p high = block p low \<union> pages_in (halves p low high)"
      using assms(3) by (rule block_halves)
    show "block p low \<inter> pages_in (halves p low high) = {}"
      using assms(3) by (auto simp: pages_in_halves block_def)
    show "block p high \<subseteq> pages_in B"
      using assms(2) by (auto simp: pages_in_def)
  qed
  show "blocks_wf (split_block B p low high)"
    unfolding split_block_def using assms h rm bl
    by (intro blocks_wf_union blocks_wf_subset [OF assms(1)] halves_wf) auto
  show "pages_in (split_block B p low high) = pages_in B - block p low"
    unfolding split_block_def using rm bl by auto
qed

lemma buddy_of_half:
  assumes "2 ^ high dvd p" "j < high"
  shows "buddy_of p j = p + 2 ^ j" "buddy_of (p + 2 ^ j) j = p" "buddy_of p j AND p = p"
    "even (p div 2 ^ j)"
proof -
  have "2 ^ Suc j dvd p" using assms by (meson Suc_leI dvd_trans le_imp_power_dvd)
  then obtain q where "p = 2 ^ Suc j * q" by blast
  then have p: "2 ^ j dvd p" "even (p div 2 ^ j)" by simp_all
  then show "buddy_of p j = p + 2 ^ j" "buddy_of p j AND p = p" "even (p div 2 ^ j)"
    using buddy_cases [OF p(1)] by auto
  then show "buddy_of (p + 2 ^ j) j = p" by (metis buddy_buddy)
qed

lemma split_coalesced:
  assumes "blocks_wf B" "(p, high) \<in> B" "low \<le> high" "coalesced B"
  shows "coalesced (split_block B p low high)"
proof -
  let ?S = "split_block B p low high"
  note h = blocks_wfD [OF assms(1,2)]
  have p_out: "(p, j) \<notin> ?S" if "j < high" for j
  proof
    assume "(p, j) \<in> ?S"
    then have "(p, j) \<in> B" using that by (auto simp: split_block_def halves_def)
    with that blocks_wf_disjoint [OF assms(1,2), of p j] show False
      by (auto simp: block_def)
  qed
  show ?thesis
    unfolding coalesced_def
  proof (clarify)
    fix q j assume q: "(q, j) \<in> ?S" "j < MAX_ORDER - 1" "(buddy_of q j, j) \<in> ?S"
    consider "(q, j) \<in> halves p low high" | "(buddy_of q j, j) \<in> halves p low high"
      | "(q, j) \<in> B" "(buddy_of q j, j) \<in> B"
      using q by (auto simp: split_block_def)
    then show False
    proof cases
      case 1
      then have "buddy_of q j = p" "j < high"
        using buddy_of_half [OF h(2)] by (auto simp: halves_def)
      with q p_out show False by auto
    next
      case 2
      then have "buddy_of (buddy_of q j) j = p" "j < high"
        using buddy_of_half [OF h(2)] by (auto simp: halves_def simp del: buddy_buddy)
      with q p_out show False by auto
    next
      case 3
      with assms(4) q(2) show False by (auto simp: coalesced_def)
    qed
  qed
qed

lemma split_block_rest:
  assumes "blocks_wf B" "(p, high) \<in> B" "low < high"
  shows "(p + 2 ^ low, low) \<in> split_block B p low high"
    "split_block B p low high - {(p + 2 ^ low, low)} = split_block B p (Suc low) high"
proof -
  have out: "(p + 2 ^ low, low) \<notin> B"
  proof
    assume "(p + 2 ^ low, low) \<in> B"
    moreover have "p + 2 ^ low \<in> block p high" using assms(3) by (simp add: block_def)
    ultimately show False
      using blocks_wf_disjoint [OF assms(1,2), of "p + 2 ^ low" low] assms(3) by (auto simp: block_def)
  qed
  have step: "halves p low high = insert (p + 2 ^ low, low) (halves p (Suc low) high)"
    using assms(3) by (auto simp: halves_def le_eq_less_or_eq)
  have new: "(p + 2 ^ low, low) \<notin> halves p (Suc low) high" by (auto simp: halves_def)
  show "split_block B p low high - {(p + 2 ^ low, low)} = split_block B p (Suc low) high"
    unfolding split_block_def step using out new by auto
  show "(p + 2 ^ low, low) \<in> split_block B p low high"
    unfolding split_block_def step by simp
qed

text \<open>Returning a block right after it was split off restores the set.\<close>

lemma merge_split:
  assumes "blocks_wf B" "(p, high) \<in> B" "coalesced B" "low \<le> high"
  shows "merge (split_block B p low high) p low = B"
  using assms(4)
proof (induction "high - low" arbitrary: low)
  case 0
  then have low: "low = high" by simp
  have "\<not> (high < MAX_ORDER - 1 \<and> (buddy_of p high, high) \<in> B - {(p, high)})"
    using assms(2,3) by (auto simp: coalesced_def)
  then show ?case
    using assms(2) unfolding low split_block_def
    by (subst merge.simps) auto
next
  case (Suc n)
  then have low: "low < high" by simp
  note h = blocks_wfD [OF assms(1,2)]
  note half = buddy_of_half [OF h(2) low]
  have "low < MAX_ORDER - 1" using low h(1) by simp
  moreover have "merge (split_block B p (Suc low) high) p (Suc low) = B"
    using Suc low by simp
  ultimately show ?case
    using split_block_rest [OF assms(1,2) low]
    by (subst merge.simps) (simp add: half half(3) [unfolded half(1)])
qed

text \<open>
  Between split and return every buddy lies above, up to the order of the block that was split;
  the buddy of that block itself is looked at too, unless the block has the largest order.
\<close>

lemma upward_split:
  assumes "blocks_wf B" "(p, high) \<in> B" "coalesced B" "low \<le> high"
  shows "upward (split_block B p low high) p low \<longleftrightarrow> (high < MAX_ORDER - 1 \<longrightarrow> even (p div 2 ^ high))"
  using assms(4)
proof (induction "high - low" arbitrary: low)
  case 0
  then have low: "low = high" by simp
  have "\<not> (high < MAX_ORDER - 1 \<and> (buddy_of p high, high) \<in> split_block B p high high)"
    using assms(2,3) by (auto simp: coalesced_def split_block_def)
  then show ?case unfolding low by (subst upward.simps) auto
next
  case (Suc n)
  then have low: "low < high" by simp
  note h = blocks_wfD [OF assms(1,2)]
  note half = buddy_of_half [OF h(2) low]
  note rest = split_block_rest [OF assms(1,2) low]
  have "low < MAX_ORDER - 1" using low h(1) by simp
  then have "upward (split_block B p low high) p low = upward (split_block B p (Suc low) high) p (Suc low)"
    using rest by (subst upward.simps) (simp add: half half(3) [unfolded half(1)])
  then show ?case using Suc low by simp
qed

end
