(* ===== verification/Buddy_Inv.thy ===== *)
theory Buddy_Inv
  imports Buddy_Spec
begin

text \<open>
  The invariant of a zone of \<^verbatim>\<open>buddy.c\<close> and the operations on its free lists: adding a page
  to and deleting one from a free list keep the invariant and act on the set of free blocks
  as insertion and removal.
\<close>

lemma unat_eq: "unat v = unat w \<longleftrightarrow> v = w" for v w :: "'w::len word"
  by (simp add: word_unat_eq_iff)

section \<open>What the code relies on from the page accessors\<close>

definition mm_ext_ok :: "mm mm_ext \<Rightarrow> bool" where
  "mm_ext_ok E \<longleftrightarrow>
     (\<forall>pg. PageBuddy E (SetPageBuddy E pg)) \<and> (\<forall>pg. \<not> PageBuddy E (ClearPageBuddy E pg))
   \<and> (\<forall>pg v. PageBuddy E (set_page_private E pg v) = PageBuddy E pg)
   \<and> (\<forall>pg k. PageBuddy E (set_page_order E pg k) = PageBuddy E pg)
   \<and> (\<forall>pg. PageBuddy E (SetPageGuard E pg) = PageBuddy E pg)
   \<and> (\<forall>pg mt. PageBuddy E (set_freepage_migratetype E pg mt) = PageBuddy E pg)
   \<and> (\<forall>pg k. k < MAX_ORDER \<longrightarrow> page_order E (set_page_private E pg (of_nat k)) = k)
   \<and> (\<forall>pg. page_zone_id E (SetPageBuddy E pg) = page_zone_id E pg)
   \<and> (\<forall>pg. page_zone_id E (ClearPageBuddy E pg) = page_zone_id E pg)
   \<and> (\<forall>pg v. page_zone_id E (set_page_private E pg v) = page_zone_id E pg)
   \<and> (\<forall>pg k. page_zone_id E (set_page_order E pg k) = page_zone_id E pg)
   \<and> (\<forall>pg. page_zone_id E (SetPageGuard E pg) = page_zone_id E pg)
   \<and> (\<forall>pg mt. page_zone_id E (set_freepage_migratetype E pg mt) = page_zone_id E pg)
   \<and> (\<forall>pg mt. 0 \<le> mt \<and> mt < MIGRATE_TYPES
        \<longrightarrow> get_freepage_migratetype E (set_freepage_migratetype E pg mt) = mt)"

lemma mm_ext_laws [page_simps]:
  assumes "mm_ext_ok E"
  shows "PageBuddy E (SetPageBuddy E pg)" "\<not> PageBuddy E (ClearPageBuddy E pg)"
    "PageBuddy E (set_page_private E pg v) = PageBuddy E pg"
    "PageBuddy E (set_page_order E pg k) = PageBuddy E pg"
    "PageBuddy E (SetPageGuard E pg) = PageBuddy E pg"
    "PageBuddy E (set_freepage_migratetype E pg mt) = PageBuddy E pg"
    "k < MAX_ORDER \<Longrightarrow> page_order E (set_page_private E pg (of_nat k)) = k"
    "page_zone_id E (SetPageBuddy E pg) = page_zone_id E pg"
    "page_zone_id E (ClearPageBuddy E pg) = page_zone_id E pg"
    "page_zone_id E (set_page_private E pg v) = page_zone_id E pg"
    "page_zone_id E (set_page_order E pg k) = page_zone_id E pg"
    "page_zone_id E (SetPageGuard E pg) = page_zone_id E pg"
    "page_zone_id E (set_freepage_migratetype E pg mt) = page_zone_id E pg"
    "0 \<le> mt \<Longrightarrow> mt < MIGRATE_TYPES \<Longrightarrow>
      get_freepage_migratetype E (set_freepage_migratetype E pg mt) = mt"
  using assms by (simp_all add: mm_ext_ok_def)

text \<open>
  The documented numbering of a flat memory map: the frame number of the page with index \<open>p\<close> is
  \<open>p\<close>, cut to the width of \<^verbatim>\<open>ulong\<close>.
\<close>

definition flat_memmap :: "mm mm_ext \<Rightarrow> bool" where
  "flat_memmap E \<longleftrightarrow> (\<forall>p. page_to_pfn E p = ucast p)"

section \<open>The free lists of a zone\<close>

type_synonym forest = "node \<rightharpoonup> node list"

definition free_list :: "forest \<Rightarrow> nat \<Rightarrow> nat \<Rightarrow> int \<Rightarrow> node list" where
  "free_list F z k mt = (case F (FreeList z k mt) of None \<Rightarrow> [] | Some xs \<Rightarrow> xs)"

definition is_mt :: "int \<Rightarrow> bool" where "is_mt mt \<longleftrightarrow> 0 \<le> mt \<and> mt < MIGRATE_TYPES"

definition has_free_lists :: "forest \<Rightarrow> nat \<Rightarrow> bool" where
  "has_free_lists F z \<longleftrightarrow>
     (\<forall>k mt. F (FreeList z k mt) \<noteq> None \<longleftrightarrow> k < MAX_ORDER \<and> is_mt mt)"

definition listed :: "forest \<Rightarrow> nat \<Rightarrow> u64 \<Rightarrow> nat \<Rightarrow> int \<Rightarrow> bool" where
  "listed F z p k mt \<longleftrightarrow> PageLru p \<in> set (free_list F z k mt)"

definition free_blocks :: "forest \<Rightarrow> nat \<Rightarrow> (nat \<times> nat) set" where
  "free_blocks F z = {(unat p, k) | p k. \<exists>mt. listed F z p k mt}"

definition free_count :: "forest \<Rightarrow> nat \<Rightarrow> nat \<Rightarrow> nat" where
  "free_count F z k = (\<Sum>mt \<in> {0..<MIGRATE_TYPES}. length (free_list F z k mt))"

definition free_total :: "forest \<Rightarrow> nat \<Rightarrow> nat" where
  "free_total F z = (\<Sum>k < MAX_ORDER. free_count F z k * 2 ^ k)"

definition set_list :: "forest \<Rightarrow> nat \<Rightarrow> nat \<Rightarrow> int \<Rightarrow> node list \<Rightarrow> forest" where
  "set_list F z k mt xs = F(FreeList z k mt \<mapsto> xs)"

lemma free_list_set_list [simp]:
  "free_list (set_list F z k mt xs) z' k' mt' =
     (if z' = z \<and> k' = k \<and> mt' = mt then xs else free_list F z' k' mt')"
  by (simp add: free_list_def set_list_def)

lemma has_free_listsD:
  assumes "has_free_lists F z" "k < MAX_ORDER" "is_mt mt"
  shows "F (FreeList z k mt) = Some (free_list F z k mt)"
proof -
  have "F (FreeList z k mt) \<noteq> None" using assms by (simp add: has_free_lists_def)
  then show ?thesis by (auto simp: free_list_def)
qed

lemma listedD:
  assumes "has_free_lists F z" "listed F z p k mt"
  shows "k < MAX_ORDER" "is_mt mt" "F (FreeList z k mt) = Some (free_list F z k mt)"
proof -
  have "F (FreeList z k mt) \<noteq> None" using assms(2) by (cases "F (FreeList z k mt)") (simp_all add: listed_def free_list_def)
  with assms(1) show "k < MAX_ORDER" "is_mt mt" by (simp_all add: has_free_lists_def)
  then show "F (FreeList z k mt) = Some (free_list F z k mt)" using assms(1) has_free_listsD by blast
qed

lemma has_free_lists_set_list:
  "has_free_lists F z \<Longrightarrow> k < MAX_ORDER \<Longrightarrow> is_mt mt \<Longrightarrow> has_free_lists (set_list F z k mt xs) z"
  by (simp add: has_free_lists_def set_list_def)

lemma free_count_set_list:
  assumes "is_mt mt"
  shows "free_count (set_list F z k mt xs) z k + length (free_list F z k mt)
    = free_count F z k + length xs"
    and "j \<noteq> k \<Longrightarrow> free_count (set_list F z k mt xs) z j = free_count F z j"
proof -
  have mt: "mt \<in> {0..<MIGRATE_TYPES}" using assms by (simp add: is_mt_def)
  then show "free_count (set_list F z k mt xs) z k + length (free_list F z k mt)
    = free_count F z k + length xs"
    by (simp add: free_count_def sum.remove [of _ mt])
  show "free_count (set_list F z k mt xs) z j = free_count F z j" if "j \<noteq> k"
    using that by (simp add: free_count_def)
qed

lemma free_total_set_list:
  assumes "is_mt mt" "k < MAX_ORDER"
  shows "free_total (set_list F z k mt xs) z + length (free_list F z k mt) * 2 ^ k
    = free_total F z + length xs * 2 ^ k"
proof -
  have "free_count (set_list F z k mt xs) z k * 2 ^ k + length (free_list F z k mt) * 2 ^ k
      = free_count F z k * 2 ^ k + length xs * 2 ^ k"
    using free_count_set_list(1) [OF assms(1), of F z k xs] by (metis add_mult_distrib)
  then show ?thesis
    using assms by (simp add: free_total_def sum.remove [of "{..<MAX_ORDER}" k] free_count_set_list(2))
qed

text \<open>A node is on at most one list, so the blocks change exactly by the node moved.\<close>

lemma listed_unique:
  assumes "lists h F" "has_free_lists F z" "listed F z p k mt" "listed F z p k' mt'"
  shows "k' = k \<and> mt' = mt"
proof -
  have "FreeList z k mt = FreeList z k' mt'"
    by (rule lh.member_unique [OF assms(1) listedD(3) [OF assms(2,3)] listedD(3) [OF assms(2,4)]])
      (use assms(3,4) in \<open>simp_all add: listed_def\<close>)
  then show ?thesis by simp
qed

lemma free_blocks_add:
  "free_blocks (set_list F z k mt (PageLru p # free_list F z k mt)) z = insert (unat p, k) (free_blocks F z)"
proof -
  have "listed (set_list F z k mt (PageLru p # free_list F z k mt)) z q j m
      \<longleftrightarrow> listed F z q j m \<or> q = p \<and> j = k \<and> m = mt" for q j m
    by (auto simp: listed_def)
  then show ?thesis by (auto simp: free_blocks_def)
qed

lemma free_blocks_del:
  assumes "lists h F" "has_free_lists F z" "listed F z p k mt"
  shows "free_blocks (set_list F z k mt (remove1 (PageLru p) (free_list F z k mt))) z
    = free_blocks F z - {(unat p, k)}"
proof -
  have dist: "distinct (free_list F z k mt)"
    using lh.holds_distinct [OF assms(1) listedD(3) [OF assms(2,3)]] by simp
  have "listed (set_list F z k mt (remove1 (PageLru p) (free_list F z k mt))) z q j m
      \<longleftrightarrow> listed F z q j m \<and> q \<noteq> p" for q j m
  proof (cases "j = k \<and> m = mt")
    case True
    then show ?thesis using dist by (simp add: listed_def)
  next
    case False
    moreover have "q \<noteq> p" if "listed F z q j m"
      using listed_unique [OF assms] that False by blast
    ultimately show ?thesis by (auto simp: listed_def)
  qed
  moreover have "j = k" if "listed F z p j m" for j m
    using listed_unique [OF assms that] by simp
  ultimately show ?thesis
    by (auto simp: free_blocks_def unat_eq)
qed


section \<open>The invariant of a zone\<close>

definition page_in :: "mm mm_ext \<Rightarrow> nat \<Rightarrow> mm \<Rightarrow> u64 \<Rightarrow> bool" where
  "page_in E z s p \<longleftrightarrow> (\<exists>pg. mem_map s p = Some pg \<and> page_zone_id E pg = z)"

text \<open>The pages of a block that lies in the zone and in the 64-bit index range.\<close>

definition block_in :: "mm mm_ext \<Rightarrow> nat \<Rightarrow> mm \<Rightarrow> nat \<Rightarrow> nat \<Rightarrow> bool" where
  "block_in E z s p k \<longleftrightarrow> p + 2 ^ k \<le> 2 ^ 64 \<and> (\<forall>n \<in> block p k. page_in E z s (of_nat n))"

definition free_page_ok :: "mm mm_ext \<Rightarrow> nat \<Rightarrow> mm \<Rightarrow> u64 \<Rightarrow> nat \<Rightarrow> bool" where
  "free_page_ok E z s p k \<longleftrightarrow>
     (\<exists>pg. mem_map s p = Some pg \<and> PageBuddy E pg \<and> page_order E pg = k \<and> page_zone_id E pg = z)"

definition counters_ok :: "forest \<Rightarrow> nat \<Rightarrow> mm \<Rightarrow> bool" where
  "counters_ok F z s \<longleftrightarrow> (\<exists>zn. zone_at s z = Some zn \<and> length (z_free_area zn) = MAX_ORDER
     \<and> (\<forall>k < MAX_ORDER. nr_free (z_free_area zn ! k) = of_nat (free_count F z k))
     \<and> z_free_pages zn = of_nat (free_total F z))"

definition zone_inv :: "mm mm_ext \<Rightarrow> nat \<Rightarrow> forest \<Rightarrow> mm \<Rightarrow> bool" where
  "zone_inv E z F s \<longleftrightarrow>
     lists (nodes s) F \<and> has_free_lists F z
   \<and> (\<forall>p \<in> dom (mem_map s). PageLru p \<in> dom (nodes s))
   \<and> (\<forall>k mt. \<forall>n \<in> set (free_list F z k mt). \<exists>p. n = PageLru p \<and> free_page_ok E z s p k)
   \<and> (\<forall>p k. free_page_ok E z s p k \<longrightarrow> (\<exists>mt. listed F z p k mt))
   \<and> counters_ok F z s
   \<and> blocks_wf (free_blocks F z)
   \<and> (\<forall>p k. (p, k) \<in> free_blocks F z \<longrightarrow> block_in E z s p k
        \<and> (\<forall>n \<in> block p k. n \<noteq> p \<longrightarrow> PageLru (of_nat n) \<notin> members F))"

lemma zone_invD:
  assumes "zone_inv E z F s"
  shows "lists (nodes s) F" "has_free_lists F z"
    "p \<in> dom (mem_map s) \<Longrightarrow> PageLru p \<in> dom (nodes s)"
    "n \<in> set (free_list F z k mt) \<Longrightarrow> \<exists>p. n = PageLru p \<and> free_page_ok E z s p k"
    "free_page_ok E z s p k \<Longrightarrow> \<exists>mt. listed F z p k mt"
    "counters_ok F z s" "blocks_wf (free_blocks F z)"
    "(q, k) \<in> free_blocks F z \<Longrightarrow> block_in E z s q k"
    "(q, k) \<in> free_blocks F z \<Longrightarrow> i \<in> block q k \<Longrightarrow> i \<noteq> q \<Longrightarrow> PageLru (of_nat i) \<notin> members F"
  using assms unfolding zone_inv_def by blast+

lemma zone_inv_listed:
  assumes "zone_inv E z F s"
  shows "listed F z p k mt \<Longrightarrow> free_page_ok E z s p k"
    and "(\<exists>mt. listed F z p k mt) \<longleftrightarrow> (unat p, k) \<in> free_blocks F z"
    and "(\<exists>mt. listed F z p k mt) \<longleftrightarrow> free_page_ok E z s p k"
proof -
  show *: "free_page_ok E z s p k" if "listed F z p k mt" for p k mt
    using zone_invD(4) [OF assms] that by (auto simp: listed_def)
  then show "(\<exists>mt. listed F z p k mt) \<longleftrightarrow> free_page_ok E z s p k"
    using zone_invD(5) [OF assms] by blast
  show "(\<exists>mt. listed F z p k mt) \<longleftrightarrow> (unat p, k) \<in> free_blocks F z"
    by (auto simp: free_blocks_def unat_eq)
qed

text \<open>
  What an operation on zone \<open>z\<close> that touches the pages in \<open>W\<close> leaves alone: the other pages,
  the zone every page belongs to, the other zones, the zone's own fields other than the free
  areas and the count of free pages, and the rest of the allocator's state.
\<close>

definition frame :: "mm mm_ext \<Rightarrow> nat \<Rightarrow> u64 set \<Rightarrow> mm \<Rightarrow> mm \<Rightarrow> bool" where
  "frame E z W s t \<longleftrightarrow>
     (\<forall>p. p \<notin> W \<longrightarrow> mem_map t p = mem_map s p)
   \<and> (\<forall>p. map_option (page_zone_id E) (mem_map t p) = map_option (page_zone_id E) (mem_map s p))
   \<and> dom (nodes t) = dom (nodes s)
   \<and> (\<exists>zn fa fp. zone_at s z = Some zn
        \<and> zone_at t = (zone_at s)(z \<mapsto> zn\<lparr>z_free_area := fa, z_free_pages := fp\<rparr>))
   \<and> t\<lparr>mem_map := mem_map s, nodes := nodes s, zone_at := zone_at s\<rparr> = s"

lemma zone_unchanged:
  "zone_at s z = Some zn \<Longrightarrow> \<exists>zn fa fp. zone_at s z = Some zn
     \<and> zone_at s = (zone_at s)(z \<mapsto> zn\<lparr>z_free_area := fa, z_free_pages := fp\<rparr>)"
  by (intro exI [of _ zn] exI [of _ "z_free_area zn"] exI [of _ "z_free_pages zn"]) auto

lemma frame_refl: "zone_inv E z F s \<Longrightarrow> frame E z W s s"
proof -
  assume "zone_inv E z F s"
  then have "counters_ok F z s" by (rule zone_invD)
  then obtain zn where "zone_at s z = Some zn" by (auto simp: counters_ok_def)
  from zone_unchanged [of s, OF this] show ?thesis by (simp add: frame_def)
qed

lemma frame_trans:
  assumes "frame E z V s t" "frame E z W t u"
  shows "frame E z (V \<union> W) s u"
proof -
  obtain zn fa fp where 1: "zone_at s z = Some zn"
    "zone_at t = (zone_at s)(z \<mapsto> zn\<lparr>z_free_area := fa, z_free_pages := fp\<rparr>)"
    using assms(1) by (auto simp: frame_def)
  obtain zm fb fq where 2: "zone_at t z = Some zm"
    "zone_at u = (zone_at t)(z \<mapsto> zm\<lparr>z_free_area := fb, z_free_pages := fq\<rparr>)"
    using assms(2) by (auto simp: frame_def)
  have "zm = zn\<lparr>z_free_area := fa, z_free_pages := fp\<rparr>" using 1 2 by simp
  then have "zone_at u = (zone_at s)(z \<mapsto> zn\<lparr>z_free_area := fb, z_free_pages := fq\<rparr>)"
    using 1 2 by simp
  moreover have "u\<lparr>mem_map := mem_map s, nodes := nodes s, zone_at := zone_at s\<rparr> = s"
  proof -
    have "t\<lparr>mem_map := mem_map s, nodes := nodes s, zone_at := zone_at s\<rparr> = s"
      "u\<lparr>mem_map := mem_map t, nodes := nodes t, zone_at := zone_at t\<rparr> = t"
      using assms by (simp_all add: frame_def)
    then show ?thesis by (cases s; cases t; cases u) simp
  qed
  ultimately show ?thesis using assms 1(1) unfolding frame_def by auto
qed

lemma frame_page_in: "frame E z W s t \<Longrightarrow> page_in E y t p = page_in E y s p"
proof -
  assume "frame E z W s t"
  then have "map_option (page_zone_id E) (mem_map t p) = map_option (page_zone_id E) (mem_map s p)"
    by (simp add: frame_def)
  then show ?thesis by (cases "mem_map t p"; cases "mem_map s p") (auto simp: page_in_def)
qed

lemma frame_block_in: "frame E z W s t \<Longrightarrow> block_in E y t p k = block_in E y s p k"
  by (simp add: block_in_def frame_page_in)

lemma frame_dom: "frame E z W s t \<Longrightarrow> dom (mem_map t) = dom (mem_map s)"
proof -
  assume "frame E z W s t"
  then have "map_option (page_zone_id E) (mem_map t p) = map_option (page_zone_id E) (mem_map s p)" for p
    by (simp add: frame_def)
  then have "mem_map t p = None \<longleftrightarrow> mem_map s p = None" for p
    by (metis option.map_disc_iff)
  then show ?thesis by (simp add: dom_def)
qed

lemma frame_mono: "frame E z V s t \<Longrightarrow> V \<subseteq> W \<Longrightarrow> frame E z W s t"
  unfolding frame_def by blast

section \<open>Adding and deleting a page\<close>

lemma counters_set_list:
  assumes "counters_ok F z s" "is_mt mt" "k < MAX_ORDER" "zone_at s z = Some zn"
    and "d = of_nat (length xs) - of_nat (length (free_list F z k mt))"
    and "zone_at t = (zone_at s)(z \<mapsto> zn\<lparr>z_free_area :=
        (z_free_area zn)[k := (z_free_area zn ! k)\<lparr>nr_free := nr_free (z_free_area zn ! k) + d\<rparr>],
      z_free_pages := z_free_pages zn + d * 2 ^ k\<rparr>)"
  shows "counters_ok (set_list F z k mt xs) z t"
proof -
  have zn: "length (z_free_area zn) = MAX_ORDER" "z_free_pages zn = of_nat (free_total F z)"
    "\<And>k. k < MAX_ORDER \<Longrightarrow> nr_free (z_free_area zn ! k) = of_nat (free_count F z k)"
    using assms(1,4) by (auto simp: counters_ok_def)
  have "(of_nat (free_count (set_list F z k mt xs) z k + length (free_list F z k mt)) :: ulong)
      = of_nat (free_count F z k + length xs)"
    by (simp only: free_count_set_list(1) [OF assms(2)])
  then have count: "of_nat (free_count (set_list F z k mt xs) z k) = of_nat (free_count F z k) + d"
    unfolding assms(5) by (simp add: algebra_simps)
  have "(of_nat (free_total (set_list F z k mt xs) z + length (free_list F z k mt) * 2 ^ k) :: ulong)
      = of_nat (free_total F z + length xs * 2 ^ k)"
    by (simp only: free_total_set_list [OF assms(2,3)])
  then have total: "of_nat (free_total (set_list F z k mt xs) z) = of_nat (free_total F z) + d * 2 ^ k"
    unfolding assms(5) by (simp add: algebra_simps)
  have "nr_free (((z_free_area zn)[k := (z_free_area zn ! k)\<lparr>nr_free := nr_free (z_free_area zn ! k) + d\<rparr>]) ! j)
      = of_nat (free_count (set_list F z k mt xs) z j)" if "j < MAX_ORDER" for j
    using that zn(1,3) assms(3) count
    by (cases "j = k") (simp_all add: nth_list_update free_count_set_list(2) [OF assms(2)])
  then show ?thesis
    unfolding counters_ok_def assms(6) using zn(1,2) total by simp
qed


lemma upd_page_Some:
  "mem_map s p = Some pg \<Longrightarrow> upd_page p f s = Some (s\<lparr>mem_map := (mem_map s)(p \<mapsto> f pg)\<rparr>)"
  by (simp add: upd_page_def)

lemma upd_area_Some:
  "zone_at s z = Some zn \<Longrightarrow> k < length (z_free_area zn) \<Longrightarrow>
   upd_area z k f s = Some (s\<lparr>zone_at := (zone_at s)(z \<mapsto>
     zn\<lparr>z_free_area := (z_free_area zn)[k := f (z_free_area zn ! k)]\<rparr>)\<rparr>)"
  by (simp add: upd_area_def area_at_def upd_zone_def)

text \<open>The common part: how the state looks after the five assignments of either operation.\<close>

definition relinked :: "mm \<Rightarrow> node list_heap \<Rightarrow> u64 \<Rightarrow> page \<Rightarrow> nat \<Rightarrow> nat \<Rightarrow> ulong \<Rightarrow> mm" where
  "relinked s h p pg z k d = (case zone_at s z of None \<Rightarrow> s | Some zn \<Rightarrow>
     s\<lparr>mem_map := (mem_map s)(p \<mapsto> pg), nodes := h,
       zone_at := (zone_at s)(z \<mapsto> zn\<lparr>z_free_area :=
          (z_free_area zn)[k := (z_free_area zn ! k)\<lparr>nr_free := nr_free (z_free_area zn ! k) + d\<rparr>],
        z_free_pages := z_free_pages zn + d * 2 ^ k\<rparr>)\<rparr>)"

lemma raw_add_eq:
  assumes "mem_map s p = Some pg" "zone_at s z = Some zn" "k < length (z_free_area zn)"
    "list_add (At (PageLru p)) (At (FreeList z k mt)) (nodes s) = Some h"
  shows "raw_add_page_to_free_list E p z k mt s =
    Some (relinked s h p (set_page_private E (SetPageBuddy E pg) (of_nat k)) z k 1)"
  using assms
  by (simp add: raw_add_page_to_free_list_def upd_nodes_def upd_page_Some upd_area_Some upd_zone_def
      relinked_def)

lemma raw_del_eq:
  assumes "mem_map s p = Some pg" "zone_at s z = Some zn" "k < length (z_free_area zn)"
    "list_del (At (PageLru p)) (nodes s) = Some h"
  shows "raw_del_page_from_free_list E p z k mt s =
    Some (relinked s h p (set_page_private E (ClearPageBuddy E pg) 0) z k (-1))"
  using assms
  by (simp add: raw_del_page_from_free_list_def upd_nodes_def upd_page_Some upd_area_Some upd_zone_def
      relinked_def)

lemma relinked_frame:
  assumes "zone_at s z = Some zn" "mem_map s p = Some pg" "page_zone_id E pg' = page_zone_id E pg"
    "dom h = dom (nodes s)"
  shows "frame E z {p} s (relinked s h p pg' z k d)"
  using assms by (auto simp: frame_def relinked_def)

lemma relinked_fields:
  assumes "zone_at s z = Some zn"
  shows "mem_map (relinked s h p pg z k d) = (mem_map s)(p \<mapsto> pg)" "nodes (relinked s h p pg z k d) = h"
  using assms by (simp_all add: relinked_def)

lemma relinked_counters:
  assumes "counters_ok F z s" "is_mt mt" "k < MAX_ORDER"
    "d = of_nat (length xs) - of_nat (length (free_list F z k mt))"
  shows "counters_ok (set_list F z k mt xs) z (relinked s h p pg z k d)"
proof -
  obtain zn where "zone_at s z = Some zn" using assms(1) by (auto simp: counters_ok_def)
  then show ?thesis
    using assms by (intro counters_set_list [OF assms(1-3) _ assms(4)]) (simp_all add: relinked_def)
qed

lemma free_page_ok_upd:
  "mem_map t = (mem_map s)(p \<mapsto> pg) \<Longrightarrow> free_page_ok E z t q k \<longleftrightarrow>
     (if q = p then PageBuddy E pg \<and> page_order E pg = k \<and> page_zone_id E pg = z
      else free_page_ok E z s q k)"
  by (auto simp: free_page_ok_def)

lemma block_in_range: "block_in E z s p k \<Longrightarrow> n \<in> block p k \<Longrightarrow> unat (of_nat n :: u64) = n"
  by (simp add: block_in_def block_def unat_of_nat take_bit_nat_eq_self)


lemma block_in_head: "block_in E z s (unat p) k \<Longrightarrow> page_in E z s p"
proof -
  assume "block_in E z s (unat p) k"
  then have "page_in E z s (of_nat (unat p))"
    using block_not_empty(2) [of "unat p" k] unfolding block_in_def by blast
  then show ?thesis by simp
qed

definition unlisted :: "forest \<Rightarrow> nat \<Rightarrow> nat \<Rightarrow> bool" where
  "unlisted F p k \<longleftrightarrow> (\<forall>n \<in> block p k. PageLru (of_nat n) \<notin> members F)"

definition with_page :: "forest \<Rightarrow> nat \<Rightarrow> nat \<Rightarrow> int \<Rightarrow> u64 \<Rightarrow> forest" where
  "with_page F z k mt p = set_list F z k mt (PageLru p # free_list F z k mt)"

definition without_page :: "forest \<Rightarrow> nat \<Rightarrow> nat \<Rightarrow> int \<Rightarrow> u64 \<Rightarrow> forest" where
  "without_page F z k mt p = set_list F z k mt (remove1 (PageLru p) (free_list F z k mt))"

lemma members_with_page:
  assumes "has_free_lists F z" "k < MAX_ORDER" "is_mt mt"
  shows "members (with_page F z k mt p) = insert (PageLru p) (members F)"
proof -
  let ?r = "FreeList z k mt"
  have "F = F(?r \<mapsto> free_list F z k mt)" using has_free_listsD [OF assms] by auto
  then have "members F = members (F(?r := None)) \<union> set (?r # free_list F z k mt)"
    by (metis members_upd)
  then show ?thesis by (auto simp: with_page_def set_list_def members_upd)
qed

lemma listed_member: "has_free_lists F z \<Longrightarrow> listed F z p k mt \<Longrightarrow> PageLru p \<in> members F"
  using listedD(3) [of F z p k mt] members_I [of F "FreeList z k mt" "free_list F z k mt"]
  by (auto simp: listed_def)

lemma members_without_page:
  assumes "lists h F" "has_free_lists F z" "listed F z p k mt"
  shows "members (without_page F z k mt p) \<subseteq> members F - {PageLru p}"
proof -
  note F = listedD(3) [OF assms(2,3)]
  have "PageLru p \<notin> members (without_page F z k mt p)"
    using lh.removed_not_member [OF assms(1) F] assms(3)
    by (simp add: listed_def without_page_def set_list_def)
  moreover have "members (without_page F z k mt p) \<subseteq> members F"
    using F notin_set_remove1
    by (fastforce simp: without_page_def set_list_def members_iff split: if_splits)
  ultimately show ?thesis by blast
qed

lemma listed_with_page:
  "listed (with_page F z k mt p) z q j m \<longleftrightarrow> listed F z q j m \<or> q = p \<and> j = k \<and> m = mt"
  by (auto simp: with_page_def listed_def)

lemma listed_without_page:
  assumes "lists h F" "has_free_lists F z" "listed F z p k mt"
  shows "listed (without_page F z k mt p) z q j m \<longleftrightarrow> listed F z q j m \<and> q \<noteq> p"
proof (cases "q = p")
  case True
  have "has_free_lists (without_page F z k mt p) z"
    using assms(2) listedD [OF assms(2,3)] by (simp add: without_page_def has_free_lists_set_list)
  then show ?thesis using listed_member members_without_page [OF assms] True by blast
qed (auto simp: listed_def without_page_def)

text \<open>What is left to show of either operation: the lists hold exactly the free pages, and the blocks
  are well formed.\<close>

lemma zone_inv_relinked:
  assumes inv: "zone_inv E z F s" and k: "k < MAX_ORDER" "is_mt mt"
    and pg: "mem_map s p = Some pg" "page_zone_id E pg' = page_zone_id E pg"
    and F': "F' = set_list F z k mt xs" and h: "lists h F'" "dom h = dom (nodes s)"
    and t: "t = relinked s h p pg' z k (of_nat (length xs) - of_nat (length (free_list F z k mt)))"
    and xs: "set xs \<subseteq> insert (PageLru p) (set (free_list F z k mt))"
    and heads: "\<And>q j. (\<exists>m. listed F' z q j m) \<longleftrightarrow>
      (if q = p then PageBuddy E pg' \<and> page_order E pg' = j \<and> page_zone_id E pg' = z else free_page_ok E z s q j)"
    and blocks: "blocks_wf (free_blocks F' z)" "\<And>q j. (q, j) \<in> free_blocks F' z \<Longrightarrow> block_in E z s q j"
      "\<And>q j n. (q, j) \<in> free_blocks F' z \<Longrightarrow> n \<in> block q j \<Longrightarrow> n \<noteq> q \<Longrightarrow> PageLru (of_nat n) \<notin> members F'"
  shows "zone_inv E z F' t" "frame E z {p} s t"
proof -
  note i = zone_invD [OF inv]
  obtain zn where zn: "zone_at s z = Some zn" using i(6) by (auto simp: counters_ok_def)
  show frame: "frame E z {p} s t" unfolding t by (rule relinked_frame [OF zn pg h(2)])
  have fields: "mem_map t = (mem_map s)(p \<mapsto> pg')" "nodes t = h" unfolding t by (rule relinked_fields [OF zn])+
  have heads': "(\<exists>m. listed F' z q j m) \<longleftrightarrow> free_page_ok E z t q j" for q j
    unfolding heads free_page_ok_upd [OF fields(1)] ..
  have old: "\<exists>q. n = PageLru q" if "n \<in> set (free_list F z j m)" for n j m using i(4) [OF that] by blast
  show "zone_inv E z F' t"
    unfolding zone_inv_def
  proof (intro conjI allI ballI impI)
    show "lists (nodes t) F'" using h(1) fields(2) by simp
    show "has_free_lists F' z" using i(2) k by (simp add: F' has_free_lists_set_list)
    show "PageLru q \<in> dom (nodes t)" if "q \<in> dom (mem_map t)" for q
      using that i(3) frame frame_dom [OF frame] by (simp add: frame_def)
    show "\<exists>q. n = PageLru q \<and> free_page_ok E z t q j" if n: "n \<in> set (free_list F' z j m)" for j m n
    proof -
      obtain q where "n = PageLru q" using n xs old by (fastforce simp: F' split: if_splits)
      then show ?thesis using n heads' by (auto simp: listed_def)
    qed
    show "\<exists>m. listed F' z q j m" if "free_page_ok E z t q j" for q j using that heads' by blast
    show "counters_ok F' z t" unfolding F' t by (rule relinked_counters [OF i(6) k(2,1) refl])
    show "block_in E z t q j" if "(q, j) \<in> free_blocks F' z" for q j
      using that blocks(2) by (simp add: frame_block_in [OF frame])
  qed (use blocks in auto)
qed

text \<open>The pages inside a block stay off the lists.\<close>

lemma with_page_tails:
  assumes inv: "zone_inv E z F s" and k: "k < MAX_ORDER" "is_mt mt"
    and p: "block_in E z s (unat p) k" "unlisted F (unat p) k" "block (unat p) k \<inter> pages_in (free_blocks F z) = {}"
    and q: "(q, j) \<in> free_blocks (with_page F z k mt p) z" and n: "n \<in> block q j" "n \<noteq> q"
  shows "PageLru (of_nat n) \<notin> members (with_page F z k mt p)"
proof -
  note i = zone_invD [OF inv]
  note mem = members_with_page [OF i(2) k, of p]
  show ?thesis
  proof (cases "(q, j) = (unat p, k)")
    case True
    then have "unat (of_nat n :: u64) = n" using block_in_range [OF p(1)] n by simp
    then have "of_nat n \<noteq> p" using True n(2) by auto
    moreover have "PageLru (of_nat n) \<notin> members F" using p(2) n(1) True by (simp add: unlisted_def)
    ultimately show ?thesis by (simp add: mem)
  next
    case False
    then have q: "(q, j) \<in> free_blocks F z" using q by (auto simp: with_page_def free_blocks_add)
    then have "unat (of_nat n :: u64) = n" using block_in_range [OF i(8)] n(1) by simp
    moreover have "n \<noteq> unat p"
      using p(3) block_sub_pages [OF q] n(1) block_not_empty(2) [of "unat p" k] by blast
    ultimately have "of_nat n \<noteq> p" by auto
    then show ?thesis using i(9) [OF q n] by (simp add: mem)
  qed
qed

lemma zone_inv_add:
  assumes ok: "mm_ext_ok E" and inv: "zone_inv E z F s" and k: "k < MAX_ORDER" "is_mt mt"
    and p: "block_in E z s (unat p) k" "unlisted F (unat p) k" "2 ^ k dvd unat p"
      "block (unat p) k \<inter> pages_in (free_blocks F z) = {}"
  shows "\<exists>t. raw_add_page_to_free_list E p z k mt s = Some t
    \<and> zone_inv E z (with_page F z k mt p) t \<and> frame E z {p} s t"
proof -
  let ?F = "with_page F z k mt p"
  note i = zone_invD [OF inv]
  have pn: "PageLru p \<notin> members F"
    using bspec [OF p(2) [unfolded unlisted_def] block_not_empty(2)] by simp
  obtain pg where pg: "mem_map s p = Some pg" "page_zone_id E pg = z"
    using block_in_head [OF p(1)] by (auto simp: page_in_def)
  obtain zn where zn: "zone_at s z = Some zn" "length (z_free_area zn) = MAX_ORDER"
    using i(6) by (auto simp: counters_ok_def)
  have "PageLru p \<in> dom (nodes s)" using pg i(3) by auto
  from lh.add_ok [OF i(1) has_free_listsD [OF i(2) k] pn this] obtain h
    where h: "list_add (At (PageLru p)) (At (FreeList z k mt)) (nodes s) = Some h" "lists h ?F"
      "dom h = dom (nodes s)"
    by (auto simp: with_page_def set_list_def)
  let ?pg = "set_page_private E (SetPageBuddy E pg) (of_nat k)"
  have new: "PageBuddy E ?pg" "page_order E ?pg = k" "page_zone_id E ?pg = z"
    using ok k(1) pg(2) by (simp_all add: page_simps)
  have off: "\<not> listed F z p j m" for j m using listed_member [OF i(2)] pn by blast
  have heads: "(\<exists>m. listed ?F z q j m) \<longleftrightarrow> (if q = p then PageBuddy E ?pg \<and> page_order E ?pg = j \<and> page_zone_id E ?pg = z
      else free_page_ok E z s q j)" for q j
    using off new zone_inv_listed(3) [OF inv, of q j] by (auto simp: listed_with_page)
  have blocks: "free_blocks ?F z = insert (unat p, k) (free_blocks F z)"
    by (simp add: with_page_def free_blocks_add)
  have wf: "blocks_wf (free_blocks ?F z)"
    unfolding blocks using i(7) k(1) p(3,4) by (rule blocks_wf_insert)
  have "block_in E z s q j" if "(q, j) \<in> free_blocks ?F z" for q j
    using that i(8) p(1) unfolding blocks by auto
  note rel = zone_inv_relinked [OF inv k pg(1) _ with_page_def h(2,3) _ _ heads wf this
      with_page_tails [OF inv k p(1,2,4)]]
  show ?thesis using raw_add_eq [OF pg(1) zn(1) _ h(1)] k(1) zn(2) new(3) pg(2) rel by auto
qed

lemma zone_inv_del:
  assumes ok: "mm_ext_ok E" and inv: "zone_inv E z F s" and l: "listed F z p k mt"
  shows "\<exists>t. raw_del_page_from_free_list E p z k mt' s = Some t
    \<and> zone_inv E z (without_page F z k mt p) t \<and> frame E z {p} s t
    \<and> unlisted (without_page F z k mt p) (unat p) k
    \<and> (\<exists>pg. mem_map t p = Some pg \<and> page_order E pg = 0)"
proof -
  let ?F = "without_page F z k mt p"
  note i = zone_invD [OF inv]
  note k = listedD [OF i(2) l]
  note mem = members_without_page [OF i(1,2) l]
  obtain pg where pg: "mem_map s p = Some pg" "page_zone_id E pg = z"
    using zone_inv_listed(1) [OF inv l] by (auto simp: free_page_ok_def)
  obtain zn where zn: "zone_at s z = Some zn" "length (z_free_area zn) = MAX_ORDER"
    using i(6) by (auto simp: counters_ok_def)
  have pin: "PageLru p \<in> set (free_list F z k mt)" using l by (simp add: listed_def)
  from lh.del_ok [OF i(1) k(3) pin] obtain h
    where h: "list_del (At (PageLru p)) (nodes s) = Some h" "lists h ?F" "dom h = dom (nodes s)"
    by (auto simp: without_page_def set_list_def)
  let ?pg = "set_page_private E (ClearPageBuddy E pg) 0"
  let ?t = "relinked s h p ?pg z k (-1)"
  have new: "\<not> PageBuddy E ?pg" "page_zone_id E ?pg = page_zone_id E pg"
    using ok by (simp_all add: page_simps)
  obtain n where "length (free_list F z k mt) = Suc n"
    using pin by (metis length_pos_if_in_set gr0_conv_Suc)
  then have t: "?t = relinked s h p ?pg z k (of_nat (length (remove1 (PageLru p) (free_list F z k mt)))
      - of_nat (length (free_list F z k mt)))"
    using pin by (simp add: length_remove1)
  have heads: "(\<exists>m. listed ?F z q j m) \<longleftrightarrow> (if q = p then PageBuddy E ?pg \<and> page_order E ?pg = j \<and> page_zone_id E ?pg = z
      else free_page_ok E z s q j)" for q j
    using new(1) zone_inv_listed(3) [OF inv, of q j] by (auto simp: listed_without_page [OF i(1,2) l])
  have blocks: "free_blocks ?F z = free_blocks F z - {(unat p, k)}"
    unfolding without_page_def by (rule free_blocks_del [OF i(1,2) l])
  have wf: "blocks_wf (free_blocks ?F z)" unfolding blocks by (rule blocks_wf_subset [OF i(7)]) blast
  have bin: "block_in E z s q j" if "(q, j) \<in> free_blocks ?F z" for q j using that i(8) unfolding blocks by blast
  have tails: "PageLru (of_nat m) \<notin> members ?F"
    if "(q, j) \<in> free_blocks ?F z" "m \<in> block q j" "m \<noteq> q" for q j m
    using that i(9) mem unfolding blocks by blast
  have "set (remove1 (PageLru p) (free_list F z k mt)) \<subseteq> insert (PageLru p) (set (free_list F z k mt))"
    using set_remove1_subset by fast
  note rel = zone_inv_relinked [OF inv k(1,2) pg(1) new(2) without_page_def h(2,3) t this heads wf bin tails]
  have "(unat p, k) \<in> free_blocks F z" using l by (auto simp: free_blocks_def)
  then have "PageLru (of_nat m) \<notin> members ?F" if "m \<in> block (unat p) k" for m
    using i(9) that mem by (cases "m = unat p") auto
  moreover have "mem_map ?t p = Some ?pg \<and> page_order E ?pg = 0"
    using mm_ext_laws(7) [OF ok, of 0 "ClearPageBuddy E pg"] by (simp add: relinked_fields [OF zn(1)] MAX_ORDER_def)
  ultimately show ?thesis
    using raw_del_eq [OF pg(1) zn(1) _ h(1)] k(1) zn(2) rel by (simp add: unlisted_def)
qed

end
