(* ===== verification/Buddy_Ops.thy ===== *)
theory Buddy_Ops
  imports Buddy_Inv
begin

text \<open>
  The operations of \<^verbatim>\<open>buddy.c\<close> on a zone that satisfies the invariant: \<^verbatim>\<open>expand\<close> and
  \<^verbatim>\<open>__rmqueue_smallest\<close> compute \<open>split_block\<close>, \<^verbatim>\<open>__free_one_page\<close> computes \<open>merge\<close>.
\<close>

section \<open>Writing a page without touching what the free lists rely on\<close>

lemma zone_inv_page:
  assumes inv: "zone_inv E z F s" and pg: "mem_map s p = Some pg"
    and f: "PageBuddy E (f pg) = PageBuddy E pg" "page_zone_id E (f pg) = page_zone_id E pg"
      "PageBuddy E pg \<Longrightarrow> page_order E (f pg) = page_order E pg"
  shows "\<exists>t. upd_page p f s = Some t \<and> zone_inv E z F t \<and> frame E z {p} s t"
proof -
  let ?t = "s\<lparr>mem_map := (mem_map s)(p \<mapsto> f pg)\<rparr>"
  note i = zone_invD [OF inv]
  obtain zn where "zone_at s z = Some zn" using i(6) by (auto simp: counters_ok_def)
  from zone_unchanged [of s, OF this] have frame: "frame E z {p} s ?t"
    using pg f(2) by (simp add: frame_def)
  have fpo: "free_page_ok E z ?t q k = free_page_ok E z s q k" for q k
    using pg f by (auto simp: free_page_ok_def)
  have cnt: "counters_ok F z ?t" using i(6) by (simp add: counters_ok_def)
  have "zone_inv E z F ?t"
    unfolding zone_inv_def
  proof (intro conjI allI ballI impI)
    show "PageLru q \<in> dom (nodes ?t)" if "q \<in> dom (mem_map ?t)" for q
      using that i(3) pg by (auto split: if_splits)
  qed (use i fpo cnt frame_block_in [OF frame] in \<open>auto\<close>)
  then show ?thesis using frame upd_page_Some [of s p pg f, OF pg] by blast
qed

lemma zone_inv_guard:
  assumes "mm_ext_ok E" "zone_inv E z F s" "free_page_ok E z s p k" "k < MAX_ORDER"
  shows "\<exists>t. set_page_guard E p k s = Some t \<and> zone_inv E z F t \<and> frame E z {p} s t"
proof (cases "DEBUG_GUARDPAGE_MINORDER E \<le> k")
  case True
  obtain pg where "mem_map s p = Some pg" "page_order E pg = k" "PageBuddy E pg"
    using assms(3) by (auto simp: free_page_ok_def)
  then show ?thesis
    using zone_inv_page [OF assms(2), of p pg "\<lambda>pg. set_page_private E (SetPageGuard E pg) (of_nat k)"]
      True assms(1,4) by (simp add: set_page_guard_def page_simps)
next
  case False
  have "frame E z {p} s s" by (rule frame_refl [OF assms(2)])
  with False assms(2) show ?thesis by (simp add: set_page_guard_def)
qed

section \<open>Splitting\<close>

fun expand_forest :: "forest \<Rightarrow> nat \<Rightarrow> u64 \<Rightarrow> nat \<Rightarrow> nat \<Rightarrow> int \<Rightarrow> forest" where
  "expand_forest F z p low high mt =
     (if low < high
      then expand_forest (with_page F z (high - 1) mt (p + 2 ^ (high - 1))) z p low (high - 1) mt
      else F)"

declare expand_forest.simps [simp del]

lemma block_in_sub: "block_in E z s p k \<Longrightarrow> block q j \<subseteq> block p k \<Longrightarrow> q + 2 ^ j \<le> 2 ^ 64 \<Longrightarrow> block_in E z s q j"
  unfolding block_in_def by blast

lemma unlisted_sub: "unlisted F p k \<Longrightarrow> block q j \<subseteq> block p k \<Longrightarrow> unlisted F q j"
  unfolding unlisted_def by blast

lemma upper_half:
  fixes p :: u64
  assumes "block_in E z s (unat p) (Suc h)" "h < 64"
  shows "unat (p + 2 ^ h) = unat p + 2 ^ h"
    and "block (unat p) (Suc h) = block (unat p) h \<union> block (unat p + 2 ^ h) h"
    and "block (unat p) h \<inter> block (unat p + 2 ^ h) h = {}"
proof -
  have "unat p + 2 ^ h + 2 ^ h \<le> 2 ^ 64" using assms(1) by (simp add: block_in_def)
  moreover have "(0::nat) < 2 ^ h" by simp
  ultimately have "unat p + 2 ^ h < 2 ^ 64" by linarith
  then show "unat (p + 2 ^ h) = unat p + 2 ^ h"
    using assms(2) by (subst unat_plus_eq) (simp_all add: unat_exp)
qed (auto simp: block_def)

lemma expand_step:
  assumes ok: "mm_ext_ok E" and inv: "zone_inv E z F s" and mt: "is_mt mt" and h: "Suc h < MAX_ORDER"
    and p: "2 ^ Suc h dvd unat p" "block_in E z s (unat p) (Suc h)" "unlisted F (unat p) (Suc h)"
      "block (unat p) (Suc h) \<inter> pages_in (free_blocks F z) = {}"
  defines "F' \<equiv> with_page F z h mt (p + 2 ^ h)"
  shows "\<exists>t u. raw_add_page_to_free_list E (p + 2 ^ h) z h mt s = Some t
    \<and> set_page_guard E (p + 2 ^ h) h t = Some u
    \<and> zone_inv E z F' u \<and> frame E z {p + 2 ^ h} s u
    \<and> free_blocks F' z = insert (unat p + 2 ^ h, h) (free_blocks F z)
    \<and> block_in E z u (unat p) h \<and> unlisted F' (unat p) h
    \<and> block (unat p) h \<inter> pages_in (free_blocks F' z) = {}"
proof -
  have h64: "h < 64" using h by (simp add: MAX_ORDER_def)
  note u = upper_half [OF p(2) h64]
  have bd: "unat p + 2 ^ h + 2 ^ h \<le> 2 ^ 64" using p(2) by (simp add: block_in_def)
  have dvd: "2 ^ h dvd unat (p + 2 ^ h)"
    using p(1) unfolding u(1) by (metis dvd_add_triv_right_iff dvd_mult_right power_Suc)
  have "\<exists>t. raw_add_page_to_free_list E (p + 2 ^ h) z h mt s = Some t
    \<and> zone_inv E z F' t \<and> frame E z {p + 2 ^ h} s t"
    unfolding F'_def
  proof (rule zone_inv_add [OF ok inv _ mt _ _ dvd])
    show "block_in E z s (unat (p + 2 ^ h)) h"
      using u bd by (intro block_in_sub [OF p(2)]) (auto simp: u(1))
    show "unlisted F (unat (p + 2 ^ h)) h" using u by (intro unlisted_sub [OF p(3)]) auto
    show "block (unat (p + 2 ^ h)) h \<inter> pages_in (free_blocks F z) = {}" using p(4) u by auto
  qed (use h in simp)
  then obtain t where t: "raw_add_page_to_free_list E (p + 2 ^ h) z h mt s = Some t"
    "zone_inv E z F' t" "frame E z {p + 2 ^ h} s t" by blast
  have "listed F' z (p + 2 ^ h) h mt" by (simp add: F'_def listed_with_page)
  then have "free_page_ok E z t (p + 2 ^ h) h" by (rule zone_inv_listed(1) [OF t(2)])
  from zone_inv_guard [OF ok t(2) this] h obtain v
    where v: "set_page_guard E (p + 2 ^ h) h t = Some v" "zone_inv E z F' v" "frame E z {p + 2 ^ h} t v"
    by auto
  have fr: "frame E z {p + 2 ^ h} s v" using frame_trans [OF t(3) v(3)] by simp
  have bl: "free_blocks F' z = insert (unat p + 2 ^ h, h) (free_blocks F z)"
    unfolding F'_def with_page_def free_blocks_add u(1) ..
  have "block_in E z v (unat p) h"
    unfolding frame_block_in [OF fr] using u bd by (intro block_in_sub [OF p(2)]) auto
  moreover have "unlisted F' (unat p) h"
    unfolding unlisted_def
  proof
    fix n assume n: "n \<in> block (unat p) h"
    then have "unat (of_nat n :: u64) = n" using block_in_range [OF p(2)] u(2) by auto
    moreover have "n \<noteq> unat (p + 2 ^ h)" using n u(3) by (auto simp: u(1))
    ultimately have "of_nat n \<noteq> p + 2 ^ h" by metis
    moreover have "PageLru (of_nat n) \<notin> members F" using p(3) u(2) n by (auto simp: unlisted_def)
    ultimately show "PageLru (of_nat n) \<notin> members F'"
      using members_with_page [OF zone_invD(2) [OF inv] _ mt, of h] h by (simp add: F'_def)
  qed
  moreover have "block (unat p) h \<inter> pages_in (free_blocks F' z) = {}"
    unfolding bl using u p(4) by auto
  ultimately show ?thesis using t(1) v fr bl by blast
qed

lemma ucast_exp: "k < 32 \<Longrightarrow> (ucast (2 ^ k :: ulong) :: u64) = 2 ^ k"
  by (simp add: word_unat_eq_iff unat_exp unsigned_ucast_eq take_bit_nat_eq_self)

lemma half_size: "Suc h < 32 \<Longrightarrow> drop_bit 1 (2 ^ Suc h :: ulong) = 2 ^ h"
  by (simp only: drop_bit_exp_eq) simp

definition upper_pages :: "u64 \<Rightarrow> nat \<Rightarrow> nat \<Rightarrow> u64 set" where
  "upper_pages p low high = {p + 2 ^ j | j. low \<le> j \<and> j < high}"

lemma expand_loop_spec:
  assumes ok: "mm_ext_ok E" and mt: "is_mt mt" and "zone_inv E z F s" "low \<le> high" "high < MAX_ORDER"
    "2 ^ high dvd unat p" "block_in E z s (unat p) high" "unlisted F (unat p) high"
    "block (unat p) high \<inter> pages_in (free_blocks F z) = {}"
  shows "\<exists>t. expand_loop E z p low high (2 ^ high) mt s = Some t
    \<and> zone_inv E z (expand_forest F z p low high mt) t
    \<and> frame E z (upper_pages p low high) s t
    \<and> free_blocks (expand_forest F z p low high mt) z = free_blocks F z \<union> halves (unat p) low high
    \<and> unlisted (expand_forest F z p low high mt) (unat p) low"
  using assms(3-)
proof (induction high arbitrary: F s)
  case 0
  have "frame E z {} s s" by (rule frame_refl [OF 0(1)])
  with 0 show ?case
    by (subst expand_loop.simps) (simp add: expand_forest.simps upper_pages_def)
next
  case (Suc h)
  show ?case
  proof (cases "low = Suc h")
    case True
    with Suc frame_refl [OF Suc(2)] show ?thesis
      by (subst expand_loop.simps) (simp add: expand_forest.simps)
  next
    case False
    let ?F = "with_page F z h mt (p + 2 ^ h)"
    have h32: "Suc h < 32" using Suc(4) by (simp add: MAX_ORDER_def)
    obtain t u where tu: "raw_add_page_to_free_list E (p + 2 ^ h) z h mt s = Some t"
      "set_page_guard E (p + 2 ^ h) h t = Some u" "zone_inv E z ?F u" "frame E z {p + 2 ^ h} s u"
      "free_blocks ?F z = insert (unat p + 2 ^ h, h) (free_blocks F z)"
      "block_in E z u (unat p) h" "unlisted ?F (unat p) h"
      "block (unat p) h \<inter> pages_in (free_blocks ?F z) = {}"
      using expand_step [OF ok Suc(2) mt Suc(4-8)] by blast
    have dvd: "2 ^ h dvd unat p" using Suc(5) by (metis dvd_mult_right power_Suc)
    have le: "low \<le> h" "h < MAX_ORDER" using False Suc by simp_all
    obtain v where v: "expand_loop E z p low h (2 ^ h) mt u = Some v"
      "zone_inv E z (expand_forest ?F z p low h mt) v" "frame E z (upper_pages p low h) u v"
      "free_blocks (expand_forest ?F z p low h mt) z = free_blocks ?F z \<union> halves (unat p) low h"
      "unlisted (expand_forest ?F z p low h mt) (unat p) low"
      using Suc.IH [OF tu(3) le dvd tu(6-8)] by blast
    have ef: "expand_forest F z p low (Suc h) mt = expand_forest ?F z p low h mt"
      using le by (subst expand_forest.simps) simp
    have "expand_loop E z p low (Suc h) (2 ^ Suc h) mt s = Some v"
      using le tu(1,2) v(1) half_size [OF h32] ucast_exp [of h] h32
      by (subst expand_loop.simps) (simp del: power_Suc)
    moreover have "frame E z (upper_pages p low (Suc h)) s v"
      by (rule frame_mono [OF frame_trans [OF tu(4) v(3)]]) (use le in \<open>auto simp: upper_pages_def\<close>)
    ultimately show ?thesis
      unfolding ef using v tu(5) le by auto
  qed
qed


section \<open>Taking the smallest block\<close>

lemma free_list_head:
  assumes "zone_inv E z F s" "k < MAX_ORDER" "is_mt mt"
  shows "list_empty (At (FreeList z k mt)) (nodes s) = Some (free_list F z k mt = [])"
    and "free_list F z k mt = PageLru p # xs \<Longrightarrow>
      load_next (At (FreeList z k mt)) (nodes s) = Some (At (PageLru p)) \<and> listed F z p k mt"
  using lh.is_empty_ok [OF zone_invD(1) [OF assms(1)] has_free_listsD [OF zone_invD(2) [OF assms(1)] assms(2,3)]]
    lh.first_ok [OF zone_invD(1) [OF assms(1)], of "FreeList z k mt" "PageLru p" xs]
    has_free_listsD [OF zone_invD(2) [OF assms(1)] assms(2,3)]
  by (simp_all add: listed_def)

definition taken_forest :: "forest \<Rightarrow> nat \<Rightarrow> u64 \<Rightarrow> nat \<Rightarrow> nat \<Rightarrow> int \<Rightarrow> int \<Rightarrow> forest" where
  "taken_forest F z p low high mt mt' = expand_forest (without_page F z high mt p) z p low high mt'"

text \<open>The free lists afterwards, one by one: only the list that loses its head and those that get a
  half change.\<close>

lemma expand_lists:
  "free_list (expand_forest F z p low high mt) z' k m =
     (if z' = z \<and> m = mt \<and> low \<le> k \<and> k < high then PageLru (p + 2 ^ k) # free_list F z k mt
      else free_list F z' k m)"
proof (induction F z p low high mt rule: expand_forest.induct)
  case (1 F z p low high mt)
  show ?case
  proof (cases "low < high")
    case True
    then show ?thesis using 1 [OF True] by (subst expand_forest.simps) (auto simp: with_page_def)
  next
    case False
    then show ?thesis by (subst expand_forest.simps) auto
  qed
qed

lemma taken_lists:
  assumes "free_list F z high mt = PageLru p # xs"
  shows "free_list (taken_forest F z p low high mt mt') z' k m =
     (if z' = z \<and> k = high \<and> m = mt then xs
      else if z' = z \<and> m = mt' \<and> low \<le> k \<and> k < high then PageLru (p + 2 ^ k) # free_list F z k mt'
      else free_list F z' k m)"
  using assms by (auto simp: taken_forest_def expand_lists without_page_def)

text \<open>
  The steps that \<^verbatim>\<open>__rmqueue_smallest\<close> and \<^verbatim>\<open>__rmqueue_fallback\<close> share: unlink a block of order
  \<open>high\<close> from the list of \<open>mt\<close>, split it down to \<open>low\<close> with the rest going to \<open>mt'\<close>, and mark
  the page.
\<close>

lemma take_block:
  assumes ok: "mm_ext_ok E" and inv: "zone_inv E z F s" and l: "listed F z p high mt"
    and mt': "is_mt mt'" and low: "low \<le> high"
  defines "F' \<equiv> taken_forest F z p low high mt mt'"
  shows "\<exists>t u v. raw_del_page_from_free_list E p z high mt s = Some t
    \<and> expand E z p low high mt' t = Some u
    \<and> upd_page p (\<lambda>pg. set_freepage_migratetype E pg mt') u = Some v
    \<and> zone_inv E z F' v \<and> frame E z (insert p (upper_pages p low high)) s v
    \<and> free_blocks F' z = split_block (free_blocks F z) (unat p) low high
    \<and> unlisted F' (unat p) low \<and> block_in E z v (unat p) low
    \<and> (\<exists>pg. mem_map t p = Some pg \<and> page_order E pg = 0)"
proof -
  let ?F = "without_page F z high mt p"
  note i = zone_invD [OF inv]
  note k = listedD [OF i(2) l]
  have inB: "(unat p, high) \<in> free_blocks F z" using l by (auto simp: free_blocks_def)
  note wf = blocks_wfD [OF i(7) inB]
  obtain t where t: "raw_del_page_from_free_list E p z high mt s = Some t" "zone_inv E z ?F t"
    "frame E z {p} s t" "unlisted ?F (unat p) high"
    "\<exists>pg. mem_map t p = Some pg \<and> page_order E pg = 0"
    using zone_inv_del [OF ok inv l] by blast
  obtain pg where pg: "mem_map s p = Some pg" "page_zone_id E pg = z"
    using zone_inv_listed(1) [OF inv l] by (auto simp: free_page_ok_def)
  have bl: "free_blocks ?F z = free_blocks F z - {(unat p, high)}"
    unfolding without_page_def by (rule free_blocks_del [OF i(1,2) l])
  have bin: "block_in E z t (unat p) high" using i(8) [OF inB] by (simp add: frame_block_in [OF t(3)])
  have dis: "block (unat p) high \<inter> pages_in (free_blocks ?F z) = {}"
    unfolding bl using pages_in_remove [OF i(7) inB] by blast
  obtain u where u: "expand_loop E z p low high (2 ^ high) mt' t = Some u" "zone_inv E z F' u"
    "frame E z (upper_pages p low high) t u"
    "free_blocks F' z = free_blocks ?F z \<union> halves (unat p) low high" "unlisted F' (unat p) low"
    using expand_loop_spec [OF ok mt' t(2) low wf bin t(4) dis] unfolding F'_def taken_forest_def by blast
  have "dom (mem_map u) = dom (mem_map s)"
    using frame_dom [OF t(3)] frame_dom [OF u(3)] by simp
  then obtain pu where pu: "mem_map u p = Some pu" using pg(1) by blast
  have "PageLru p \<notin> members F'"
    using bspec [OF u(5) [unfolded unlisted_def] block_not_empty(2)] by simp
  then have "\<not> PageBuddy E pu \<or> page_zone_id E pu \<noteq> z"
    using zone_inv_listed(3) [OF u(2), of p "page_order E pu"] listed_member [OF zone_invD(2) [OF u(2)]]
      pu by (auto simp: free_page_ok_def)
  moreover have "page_in E z u p"
    unfolding frame_page_in [OF u(3)] frame_page_in [OF t(3)] using pg by (simp add: page_in_def)
  then have "page_zone_id E pu = z" using pu by (simp add: page_in_def)
  ultimately obtain v where v: "upd_page p (\<lambda>pg. set_freepage_migratetype E pg mt') u = Some v"
    "zone_inv E z F' v" "frame E z {p} u v"
    using zone_inv_page [OF u(2) pu, of "\<lambda>pg. set_freepage_migratetype E pg mt'"] ok
    by (auto simp: page_simps)
  have fr: "frame E z (insert p (upper_pages p low high)) s v"
    by (rule frame_mono [OF frame_trans [OF frame_trans [OF t(3) u(3)] v(3)]]) auto
  have "unat p + 2 ^ low \<le> unat p + 2 ^ high" using low by simp
  then have "unat p + 2 ^ low \<le> 2 ^ 64" "block (unat p) low \<subseteq> block (unat p) high"
    using bin block_halves [OF low] unfolding block_in_def by (blast intro: le_trans)+
  then have "block_in E z v (unat p) low"
    using block_in_sub [OF i(8) [OF inB]] by (simp add: frame_block_in [OF fr])
  then show ?thesis
    using t(1,5) u v fr bl unfolding expand_def split_block_def by auto
qed

lemma rmqueue_smallest_loop_none:
  assumes "zone_inv E z F s" "is_mt mt" "\<And>k. cur \<le> k \<Longrightarrow> k < MAX_ORDER \<Longrightarrow> free_list F z k mt = []"
  shows "rmqueue_smallest_loop E z low mt cur s = Some (None, s)"
  using assms(3)
proof (induction "MAX_ORDER - cur" arbitrary: cur)
  case 0
  then show ?case by (subst rmqueue_smallest_loop.simps) simp
next
  case (Suc n)
  then have "cur < MAX_ORDER" "free_list F z cur mt = []"
    "rmqueue_smallest_loop E z low mt (Suc cur) s = Some (None, s)" by simp_all
  then show ?case
    using free_list_head(1) [OF assms(1) _ assms(2)] by (subst rmqueue_smallest_loop.simps) simp
qed

lemma rmqueue_smallest_loop_some:
  assumes ok: "mm_ext_ok E" and inv: "zone_inv E z F s" and mt: "is_mt mt"
    and k: "k < MAX_ORDER" "free_list F z k mt = PageLru p # xs" "low \<le> k"
    and cur: "cur \<le> k" "\<And>j. cur \<le> j \<Longrightarrow> j < k \<Longrightarrow> free_list F z j mt = []"
  shows "\<exists>v. rmqueue_smallest_loop E z low mt cur s = Some (Some p, v)
    \<and> zone_inv E z (taken_forest F z p low k mt mt) v
    \<and> frame E z (insert p (upper_pages p low k)) s v
    \<and> free_blocks (taken_forest F z p low k mt mt) z = split_block (free_blocks F z) (unat p) low k
    \<and> unlisted (taken_forest F z p low k mt mt) (unat p) low \<and> block_in E z v (unat p) low"
  using cur
proof (induction "k - cur" arbitrary: cur)
  case 0
  then have "cur = k" by simp
  moreover note head = free_list_head(1) [OF inv k(1) mt] free_list_head(2) [OF inv k(1) mt k(2)]
  moreover obtain t u v where "raw_del_page_from_free_list E p z k mt s = Some t"
    "expand E z p low k mt t = Some u"
    "upd_page p (\<lambda>pg. set_freepage_migratetype E pg mt) u = Some v"
    and v: "zone_inv E z (taken_forest F z p low k mt mt) v"
    "frame E z (insert p (upper_pages p low k)) s v"
    "free_blocks (taken_forest F z p low k mt mt) z = split_block (free_blocks F z) (unat p) low k"
    "unlisted (taken_forest F z p low k mt mt) (unat p) low" "block_in E z v (unat p) low"
    using take_block [OF ok inv _ mt k(3)] head(2) by blast
  ultimately have "rmqueue_smallest_loop E z low mt cur s = Some (Some p, v)"
    using k(1,2) by (subst rmqueue_smallest_loop.simps) (simp add: page_of_def)
  with v show ?case by blast
next
  case (Suc n)
  then have cur: "cur < k" "free_list F z cur mt = []" by simp_all
  then have "rmqueue_smallest_loop E z low mt cur s = rmqueue_smallest_loop E z low mt (Suc cur) s"
    using free_list_head(1) [OF inv _ mt, of cur] k(1) by (subst rmqueue_smallest_loop.simps) simp
  then show ?case using Suc cur(1) by simp
qed


section \<open>Returning a block\<close>

text \<open>
  The pointer to the buddy is right when the buddy lies above.  When it lies below, the 32-bit
  difference of the frame numbers is \<open>2^32 - 2^k\<close> and the pointer is beyond every page whose
  frame number fits 32 bits.
\<close>

lemma unat_find_buddy: "k < 32 \<Longrightarrow> unat (raw_find_buddy_pfn pfn k) = buddy_of (unat pfn) k"
  by (simp add: raw_find_buddy_pfn_def buddy_of_def unat_xor unat_exp)

lemma buddy_above:
  fixes pfn :: ulong and p :: u64
  assumes k: "k < 32" "2 ^ k dvd unat p" "unat pfn = unat p" and even: "even (unat p div 2 ^ k)"
  shows "unat (page_plus p (raw_find_buddy_pfn pfn k - pfn)) = buddy_of (unat p) k"
    and "unat (page_plus p ((raw_find_buddy_pfn pfn k AND pfn) - pfn)) = buddy_of (unat p) k AND unat p"
proof -
  note b = unat_find_buddy [OF k(1), of pfn]
  have up: "buddy_of (unat p) k = unat p + 2 ^ k" "buddy_of (unat p) k AND unat p = unat p"
    using buddy_cases [OF k(2)] even by auto
  have "unat (raw_find_buddy_pfn pfn k) < 2 ^ LENGTH(32)" by (rule unsigned_less)
  then have less: "unat pfn + 2 ^ k < 2 ^ 32" using b up k(3) by simp
  then have "raw_find_buddy_pfn pfn k = pfn + 2 ^ k"
    using b up(1) k(1,3) by (simp add: word_unat_eq_iff unat_exp unat_plus_eq)
  moreover have "raw_find_buddy_pfn pfn k AND pfn = pfn"
    using b up(2) k(3) by (simp add: word_unat_eq_iff unat_and)
  moreover have "unat (ucast (2 ^ k :: ulong) :: u64) = 2 ^ k"
    using k(1) by (simp add: unsigned_ucast_eq unat_exp take_bit_nat_eq_self)
  ultimately show "unat (page_plus p (raw_find_buddy_pfn pfn k - pfn)) = buddy_of (unat p) k"
    "unat (page_plus p ((raw_find_buddy_pfn pfn k AND pfn) - pfn)) = buddy_of (unat p) k AND unat p"
    using up less k(3) by (simp_all add: page_plus_def unat_plus_eq)
qed

lemma buddy_below:
  fixes pfn :: ulong and p :: u64
  assumes k: "k < 32" "2 ^ k dvd unat p" "unat pfn = unat p" and odd: "odd (unat p div 2 ^ k)"
  shows "2 ^ 32 \<le> unat (page_plus p (raw_find_buddy_pfn pfn k - pfn))"
proof -
  have b: "2 ^ k \<le> unat p" "buddy_of (unat p) k = unat p - 2 ^ k"
    using buddy_cases [OF k(2)] odd by auto
  have "unat pfn < 2 ^ LENGTH(32)" by (rule unsigned_less)
  then have p32: "unat p < 2 ^ 32" using k(3) by simp
  have "2 ^ k \<le> pfn" using b(1) k by (simp add: word_le_nat_alt unat_exp)
  then have "raw_find_buddy_pfn pfn k = pfn - 2 ^ k"
    using unat_find_buddy [of k pfn] k b by (simp add: word_unat_eq_iff unat_sub unat_exp)
  then have diff: "raw_find_buddy_pfn pfn k - pfn = - (2 ^ k)" by simp
  have le: "(2::nat) ^ k \<le> 2 ^ 32" using k(1) by (intro power_increasing) simp_all
  then have "(- (2 ^ k) :: ulong) = of_nat (2 ^ 32 - 2 ^ k)" by (simp add: of_nat_diff)
  moreover have "(2::nat) ^ 32 - 2 ^ k < 2 ^ 32" by simp
  ultimately have "unat (- (2 ^ k) :: ulong) = 2 ^ 32 - 2 ^ k"
    by (simp add: unat_of_nat take_bit_nat_eq_self)
  then have "unat (ucast (- (2 ^ k) :: ulong) :: u64) = 2 ^ 32 - 2 ^ k"
    by (simp add: unsigned_ucast_eq take_bit_nat_eq_self)
  then have "unat (page_plus p (raw_find_buddy_pfn pfn k - pfn)) = unat p + (2 ^ 32 - 2 ^ k)"
    unfolding diff page_plus_def using p32 by (subst unat_plus_eq) simp_all
  then show ?thesis using b(1) le by linarith
qed

text \<open>A memory map of at most \<open>2^32\<close> pages.\<close>

definition small_map :: "mm \<Rightarrow> bool" where
  "small_map s \<longleftrightarrow> (\<forall>q. mem_map s q \<noteq> None \<longrightarrow> unat q < 2 ^ 32)"

lemma below_faults:
  assumes "small_map s" "k < MAX_ORDER - 1" "2 ^ k dvd unat p" "unat pfn = unat p" "odd (unat p div 2 ^ k)"
  shows "free_one_page_loop E p pfn z k mt s = None"
proof -
  have "k < 32" using assms(2) by (simp add: MAX_ORDER_def)
  from buddy_below [OF this assms(3-5)] have "mem_map s (page_plus p (raw_find_buddy_pfn pfn k - pfn)) = None"
    using assms(1) unfolding small_map_def by (metis not_le)
  then show ?thesis
    using assms(2) by (subst free_one_page_loop.simps) (simp add: page_is_buddy_def Let_def)
qed

text \<open>The memory map holds the buddy of every page it holds, up to the largest merge.\<close>

definition buddies_mapped :: "mm \<Rightarrow> bool" where
  "buddies_mapped s \<longleftrightarrow>
     (\<forall>p b. \<forall>k < MAX_ORDER - 1. mem_map s p \<noteq> None \<longrightarrow> unat b = buddy_of (unat p) k \<longrightarrow> mem_map s b \<noteq> None)"


lemma page_is_buddy_eq:
  assumes "page_in E z s p" "mem_map s b \<noteq> None"
  shows "page_is_buddy E (Some p) (Some b) k s = Some (free_page_ok E z s b k)"
  using assms by (auto simp: page_is_buddy_def page_in_def free_page_ok_def)

lemma unlisted_not_buddy:
  assumes "zone_inv E z F s" "unlisted F (unat p) k" "mem_map s p = Some pg" "page_zone_id E pg = z"
  shows "\<not> PageBuddy E pg"
proof
  assume "PageBuddy E pg"
  then obtain mt where "listed F z p (page_order E pg) mt"
    using assms(3,4) zone_invD(5) [OF assms(1), of p "page_order E pg"] by (auto simp: free_page_ok_def)
  then have "PageLru p \<in> members F" by (rule listed_member [OF zone_invD(2) [OF assms(1)]])
  with bspec [OF assms(2) [unfolded unlisted_def] block_not_empty(2)] show False by simp
qed

text \<open>The label \<^verbatim>\<open>done_merging\<close>.\<close>

lemma finish_merge:
  assumes ok: "mm_ext_ok E" and inv: "zone_inv E z F s" and k: "k < MAX_ORDER" "is_mt mt"
    and p: "block_in E z s (unat p) k" "unlisted F (unat p) k" "2 ^ k dvd unat p"
      "block (unat p) k \<inter> pages_in (free_blocks F z) = {}"
  shows "\<exists>t. do { s \<leftarrow> upd_page p (\<lambda>pg. set_page_order E pg k) s;
        raw_add_page_to_free_list E p z k mt s } = Some t
    \<and> zone_inv E z (with_page F z k mt p) t \<and> frame E z {p} s t"
proof -
  obtain pg where pg: "mem_map s p = Some pg" "page_zone_id E pg = z"
    using block_in_head [OF p(1)] by (auto simp: page_in_def)
  note nb = unlisted_not_buddy [OF inv p(2) pg]
  obtain t where t: "upd_page p (\<lambda>pg. set_page_order E pg k) s = Some t" "zone_inv E z F t"
    "frame E z {p} s t"
    using zone_inv_page [OF inv pg(1), of "\<lambda>pg. set_page_order E pg k"] ok nb
    by (auto simp: page_simps)
  have "block_in E z t (unat p) k" using p(1) by (simp add: frame_block_in [OF t(3)])
  from zone_inv_add [OF ok t(2) k this p(2-4)] obtain u
    where "raw_add_page_to_free_list E p z k mt t = Some u" "zone_inv E z (with_page F z k mt p) u"
      "frame E z {p} t u" by blast
  with t frame_trans [OF t(3), of "{p}" u] show ?thesis by simp
qed

lemma merge_step:
  fixes p b c :: u64
  assumes ok: "mm_ext_ok E" and inv: "zone_inv E z F s" and l: "listed F z b k m"
    and p: "block_in E z s (unat p) k" "unlisted F (unat p) k" "2 ^ k dvd unat p"
      "block (unat p) k \<inter> pages_in (free_blocks F z) = {}"
    and b: "unat b = buddy_of (unat p) k" "unat c = buddy_of (unat p) k AND unat p"
  defines "F' \<equiv> without_page F z k m b"
  shows "\<exists>t. raw_del_page_from_free_list E b z k mt' s = Some t \<and> zone_inv E z F' t
    \<and> frame E z {b} s t \<and> free_blocks F' z = free_blocks F z - {(buddy_of (unat p) k, k)}
    \<and> block_in E z t (unat c) (Suc k) \<and> unlisted F' (unat c) (Suc k)
    \<and> 2 ^ Suc k dvd unat c \<and> block (unat c) (Suc k) \<inter> pages_in (free_blocks F' z) = {}"
proof -
  note i = zone_invD [OF inv]
  have inB: "(buddy_of (unat p) k, k) \<in> free_blocks F z" using l b(1) by (force simp: free_blocks_def)
  obtain t where t: "raw_del_page_from_free_list E b z k mt' s = Some t" "zone_inv E z F' t"
    "frame E z {b} s t" "unlisted F' (unat b) k"
    using zone_inv_del [OF ok inv l] unfolding F'_def by blast
  have bl: "free_blocks F' z = free_blocks F z - {(buddy_of (unat p) k, k)}"
    unfolding F'_def without_page_def free_blocks_del [OF i(1,2) l] b(1) ..
  have comb: "block (unat c) (Suc k) = block (unat p) k \<union> block (unat b) k"
    unfolding b by (rule block_combined [OF p(3)])
  have bin: "block_in E z s (unat b) k" using i(8) [OF inB] by (simp add: b(1))
  have "unat c + 2 ^ Suc k \<le> 2 ^ 64"
    using buddy_cases [OF p(3)] p(1) bin unfolding b block_in_def by auto
  then have "block_in E z t (unat c) (Suc k)"
    using p(1) bin unfolding block_in_def comb frame_page_in [OF t(3)] by blast
  moreover have "unlisted F' (unat c) (Suc k)"
    using p(2) t(4) members_without_page [OF i(1,2) l]
    unfolding unlisted_def comb F'_def by blast
  moreover have "2 ^ Suc k dvd unat c" unfolding b(2) by (rule combined_aligned [OF p(3)])
  moreover have "block (unat c) (Suc k) \<inter> pages_in (free_blocks F' z) = {}"
    unfolding bl comb pages_in_remove [OF i(7) inB] b(1) using p(4) by blast
  ultimately show ?thesis using t bl by blast
qed

lemma buddies_mapped_frame: "frame E z W s t \<Longrightarrow> buddies_mapped t = buddies_mapped s"
proof -
  assume "frame E z W s t"
  then have "mem_map t p = None \<longleftrightarrow> mem_map s p = None" for p
    using frame_dom by (metis domIff)
  then show ?thesis by (simp add: buddies_mapped_def)
qed

lemma small_map_frame: "frame E z W s t \<Longrightarrow> small_map t = small_map s"
proof -
  assume "frame E z W s t"
  then have "mem_map t p = None \<longleftrightarrow> mem_map s p = None" for p
    using frame_dom by (metis domIff)
  then show ?thesis by (simp add: small_map_def)
qed

definition same_roots :: "nat \<Rightarrow> forest \<Rightarrow> forest \<Rightarrow> bool" where
  "same_roots z F F' \<longleftrightarrow> (\<forall>r. (\<forall>k mt. r \<noteq> FreeList z k mt) \<longrightarrow> F' r = F r)"

lemma same_roots_page [simp]:
  "same_roots z F (with_page F z k mt p)" "same_roots z F (without_page F z k mt p)"
  by (simp_all add: same_roots_def with_page_def without_page_def set_list_def)

lemma same_roots_trans: "same_roots z F G \<Longrightarrow> same_roots z G H \<Longrightarrow> same_roots z F H"
  by (simp add: same_roots_def)

lemma same_roots_expand: "same_roots z F (expand_forest F z p low high mt)"
proof (induction F z p low high mt rule: expand_forest.induct)
  case (1 F z p low high mt)
  show ?case
  proof (cases "low < high")
    case True
    then show ?thesis
      using same_roots_trans [OF same_roots_page(1) 1 [OF True]] by (subst expand_forest.simps) simp
  next
    case False
    then show ?thesis by (subst expand_forest.simps) (simp add: same_roots_def)
  qed
qed

lemma same_roots_taken: "same_roots z F (taken_forest F z p low high mt mt')"
  unfolding taken_forest_def by (rule same_roots_trans [OF same_roots_page(2) same_roots_expand])

text \<open>What \<^verbatim>\<open>__free_one_page\<close> reaches from a state: the merged set of blocks, its list in front.\<close>

definition freed :: "mm mm_ext \<Rightarrow> nat \<Rightarrow> forest \<Rightarrow> mm \<Rightarrow> nat \<Rightarrow> nat \<Rightarrow> int \<Rightarrow> mm \<Rightarrow> bool" where
  "freed E z F s p k mt t \<longleftrightarrow> (\<exists>F'. zone_inv E z F' t \<and> free_blocks F' z = merge (free_blocks F z) p k
     \<and> frame E z UNIV s t \<and> same_roots z F F'
     \<and> (\<exists>c j xs. free_list F' z j mt = PageLru c # xs \<and> block p k \<subseteq> block (unat c) j))"

text \<open>The last turn of the loop, with no buddy to merge, and a turn that merges.\<close>

lemma freed_alone:
  assumes ok: "mm_ext_ok E" and inv: "zone_inv E z F s" and k: "k < MAX_ORDER" and mt: "is_mt mt"
    and p: "block_in E z s (unat p) k" "unlisted F (unat p) k" "2 ^ k dvd unat p"
      "block (unat p) k \<inter> pages_in (free_blocks F z) = {}"
    and alone: "\<not> (k < MAX_ORDER - 1 \<and> (buddy_of (unat p) k, k) \<in> free_blocks F z)"
  shows "\<exists>t. do { s \<leftarrow> upd_page p (\<lambda>pg. set_page_order E pg k) s; raw_add_page_to_free_list E p z k mt s } = Some t
    \<and> freed E z F s (unat p) k mt t"
proof -
  obtain t where t: "do { s \<leftarrow> upd_page p (\<lambda>pg. set_page_order E pg k) s; raw_add_page_to_free_list E p z k mt s } = Some t"
    "zone_inv E z (with_page F z k mt p) t" "frame E z {p} s t"
    using finish_merge [OF ok inv k mt p] by blast
  have "merge (free_blocks F z) (unat p) k = insert (unat p, k) (free_blocks F z)"
    using alone by (subst merge.simps) auto
  then have "free_blocks (with_page F z k mt p) z = merge (free_blocks F z) (unat p) k"
    by (simp add: with_page_def free_blocks_add)
  moreover have "free_list (with_page F z k mt p) z k mt = PageLru p # free_list F z k mt"
    by (simp add: with_page_def)
  moreover have "frame E z UNIV s t" using t(3) by (rule frame_mono) simp
  ultimately show ?thesis using t(1,2) unfolding freed_def by (metis order_refl same_roots_page(1))
qed

lemma freed_merged:
  assumes k: "k < MAX_ORDER - 1" "(buddy_of p k, k) \<in> free_blocks F z" "2 ^ k dvd p" "c = buddy_of p k AND p"
    and t: "frame E z {b} s t" "free_blocks (without_page F z k m b) z = free_blocks F z - {(buddy_of p k, k)}"
    and u: "freed E z (without_page F z k m b) t c (Suc k) mt u"
  shows "freed E z F s p k mt u"
proof -
  have "merge (free_blocks F z) p k = merge (free_blocks (without_page F z k m b) z) c (Suc k)"
    using k t(2) by (subst merge.simps) simp
  moreover have "frame E z UNIV s v" if "frame E z UNIV t v" for v
    using frame_trans [OF t(1) that] by simp
  moreover have "same_roots z F G" if "same_roots z (without_page F z k m b) G" for G
    using same_roots_page(2) that by (rule same_roots_trans)
  moreover have "block p k \<subseteq> block c (Suc k)" using block_combined [OF k(3)] k(4) by auto
  ultimately show ?thesis using u unfolding freed_def by (metis subset_trans)
qed

text \<open>The pointers of a turn: the buddy and the combined block, and the test of the buddy.\<close>

lemma loop_pointers:
  fixes pfn :: ulong
  assumes inv: "zone_inv E z F s" and k: "k < MAX_ORDER - 1"
    and bm: "buddies_mapped s" and pfn: "unat pfn = unat p" and up: "even (unat p div 2 ^ k)"
    and p: "block_in E z s (unat p) k" "2 ^ k dvd unat p"
    and b: "b = page_plus p (raw_find_buddy_pfn pfn k - pfn)" "c = page_plus p ((raw_find_buddy_pfn pfn k AND pfn) - pfn)"
  shows "unat b = buddy_of (unat p) k" "unat c = buddy_of (unat p) k AND unat p" "mem_map s b \<noteq> None"
    "unat (raw_find_buddy_pfn pfn k AND pfn) = unat c"
    "page_is_buddy E (Some p) (Some b) k s = Some ((buddy_of (unat p) k, k) \<in> free_blocks F z)"
proof -
  have kw: "k < 32" using k by (simp add: MAX_ORDER_def)
  show b': "unat b = buddy_of (unat p) k" "unat c = buddy_of (unat p) k AND unat p"
    using buddy_above [OF kw p(2) pfn up] by (simp_all add: b)
  show "unat (raw_find_buddy_pfn pfn k AND pfn) = unat c"
    using unat_find_buddy [OF kw, of pfn] pfn b'(2) by (simp add: unat_and)
  have "mem_map s p \<noteq> None" using block_in_head [OF p(1)] by (auto simp: page_in_def)
  then show m: "mem_map s b \<noteq> None" using bm k b'(1) unfolding buddies_mapped_def by blast
  show "page_is_buddy E (Some p) (Some b) k s = Some ((buddy_of (unat p) k, k) \<in> free_blocks F z)"
    using page_is_buddy_eq [OF block_in_head [OF p(1)] m] zone_inv_listed(2,3) [OF inv, of b k] b'(1) by simp
qed

text \<open>The loop returns exactly when every buddy it looks at lies above.\<close>

lemma free_one_page_loop_spec:
  fixes pfn :: ulong
  assumes ok: "mm_ext_ok E" and mt: "is_mt mt"
    and "zone_inv E z F s" "k < MAX_ORDER" "buddies_mapped s" "small_map s" "unat pfn = unat p"
    "block_in E z s (unat p) k" "unlisted F (unat p) k" "2 ^ k dvd unat p"
    "block (unat p) k \<inter> pages_in (free_blocks F z) = {}"
  shows "if upward (free_blocks F z) (unat p) k
    then \<exists>t. free_one_page_loop E p pfn z k mt s = Some t \<and> freed E z F s (unat p) k mt t
    else free_one_page_loop E p pfn z k mt s = None"
  using assms(3-)
proof (induction "MAX_ORDER - k" arbitrary: k p pfn F s)
  case 0
  then show ?case by simp
next
  case (Suc n)
  note inv = Suc(3) and k = Suc(4) and bm = Suc(5) and sm = Suc(6) and pfn = Suc(7) and p = Suc(8-11)
  let ?B = "free_blocks F z" and ?bn = "buddy_of (unat p) k" and ?cfn = "raw_find_buddy_pfn pfn k AND pfn"
  note finish = freed_alone [OF ok inv k mt p]
  consider (top) "\<not> k < MAX_ORDER - 1" | (below) "k < MAX_ORDER - 1" "odd (unat p div 2 ^ k)"
    | (above) "k < MAX_ORDER - 1" "even (unat p div 2 ^ k)" by blast
  then show ?case
  proof cases
    case top
    then have "upward ?B (unat p) k" by (subst upward.simps) simp
    with finish top show ?thesis by (subst (1 2) free_one_page_loop.simps) simp
  next
    case below
    then have "\<not> upward ?B (unat p) k" by (subst upward.simps) simp
    with below_faults [OF sm below(1) p(3) pfn below(2)] show ?thesis by simp
  next
    case above
    define b c where bc: "b = page_plus p (raw_find_buddy_pfn pfn k - pfn)" "c = page_plus p (?cfn - pfn)"
    note b = loop_pointers [OF inv above(1) bm pfn above(2) p(1,3) bc]
    show ?thesis
    proof (cases "(?bn, k) \<in> ?B")
      case False
      then have "upward ?B (unat p) k" using above(2) by (subst upward.simps) simp
      with finish False above(1) b(5) show ?thesis by (subst (1 2) free_one_page_loop.simps) (simp add: bc)
    next
      case inB: True
      obtain m where l: "listed F z b k m" using zone_inv_listed(2) [OF inv, of b k] inB b(1) by auto
      let ?F = "without_page F z k m b"
      obtain bg where bg: "mem_map s b = Some bg" using b(3) by blast
      obtain t where t: "raw_del_page_from_free_list E b z k (get_freepage_migratetype E bg) s = Some t"
        "zone_inv E z ?F t" "frame E z {b} s t" "free_blocks ?F z = ?B - {(?bn, k)}"
        "block_in E z t (unat c) (Suc k)" "unlisted ?F (unat c) (Suc k)" "2 ^ Suc k dvd unat c"
        "block (unat c) (Suc k) \<inter> pages_in (free_blocks ?F z) = {}"
        using merge_step [OF ok inv l p b(1,2)] by blast
      have up: "upward ?B (unat p) k = upward (free_blocks ?F z) (unat c) (Suc k)"
        using above inB b(2) t(4) by (subst upward.simps) simp
      have ih: "if upward (free_blocks ?F z) (unat c) (Suc k)
        then \<exists>u. free_one_page_loop E c ?cfn z (Suc k) mt t = Some u \<and> freed E z ?F t (unat c) (Suc k) mt u
        else free_one_page_loop E c ?cfn z (Suc k) mt t = None"
        using Suc(2) above(1) t bm sm buddies_mapped_frame [OF t(3)] small_map_frame [OF t(3)] b(4)
        by (intro Suc(1)) auto
      have "free_one_page_loop E p pfn z k mt s = free_one_page_loop E c ?cfn z (Suc k) mt t"
        using above(1) inB b(5) bg t(1) by (subst free_one_page_loop.simps) (simp add: bc Let_def)
      then show ?thesis using ih freed_merged [OF above(1) inB p(3) b(2) t(3,4)] unfolding up by auto
    qed
  qed
qed

end
