(* ===== verification/Buddy_Demo.thy ===== *)
theory Buddy_Demo
  imports Buddy_Ops
begin

text \<open>
  A concrete instance for the witnesses of the allocator's properties: the page accessors as
  operations on the fields of \<^verbatim>\<open>struct page\<close> (a free page is marked in \<^verbatim>\<open>_mapcount\<close>, its order is
  in \<^verbatim>\<open>private\<close>), and a machine of 1024 pages in one zone whose upper half is one free
  block of order 9.
\<close>

definition demo_ext :: "mm mm_ext" where
  "demo_ext = \<lparr>
     PageBuddy = (\<lambda>pg. pg_mapcount pg = 0xFFFFFF80),
     SetPageBuddy = (\<lambda>pg. pg\<lparr>pg_mapcount := 0xFFFFFF80\<rparr>),
     ClearPageBuddy = (\<lambda>pg. pg\<lparr>pg_mapcount := 0\<rparr>),
     SetPageGuard = id, ClearPageGuard = id,
     set_page_private = (\<lambda>pg v. pg\<lparr>pg_priv := v\<rparr>),
     page_order = (\<lambda>pg. unat (pg_priv pg)),
     set_page_order = (\<lambda>pg k. pg\<lparr>pg_priv := of_nat k\<rparr>),
     get_freepage_migratetype = (\<lambda>pg. sint (pg_index pg)),
     set_freepage_migratetype = (\<lambda>pg mt. pg\<lparr>pg_index := of_int mt\<rparr>),
     page_zone_id = pg_zone, page_zone = pg_zone,
     DEBUG_GUARDPAGE_MINORDER = 1, pageblock_order = 9, pageblock_nr_pages = 512,
     zone_is_initialized = (\<lambda>_. True),
     zone_end_pfn = (\<lambda>zn. zone_start_pfn zn + spanned_pages zn),
     pfn_valid_within = (\<lambda>_. True),
     CHECK_AT_PREP = 0, CHECK_AT_FREE = 0, flag_ops = plain_bitops,
     set_page_count = (\<lambda>pg n. pg\<lparr>pg_refcount := of_nat n\<rparr>),
     put_page_testzero = (\<lambda>pg. (pg_refcount pg = 1, pg\<lparr>pg_refcount := pg_refcount pg - 1\<rparr>)),
     page_mapcount = (\<lambda>pg. sint (pg_mapcount pg)), page_ref_count = (\<lambda>pg. sint (pg_refcount pg)),
     PageAnon = (\<lambda>_. False), compound_order = (\<lambda>_. 0), page_cpupid_reset_last = id,
     reset_page_owner = (\<lambda>pg _. pg), init_page_waiters = (\<lambda>pg. pg\<lparr>pg_waiters := None\<rparr>),
     clear_page = id, free_pcppages_bulk = (\<lambda>_ _ s. Some s),
     allocflags_to_migratetype = (\<lambda>_. 1), zonelist_first = (\<lambda>_. Some 0),
     set_page_zone = (\<lambda>pg _. pg), set_page_node = (\<lambda>pg n. pg\<lparr>pg_node := n\<rparr>),
     zone_idx = id, zone_to_nid = (\<lambda>_. 0),
     page_to_pfn = ucast, pfn_to_page = ucast,
     page_address = (\<lambda>p. KERNEL_VIRTUAL_BASE + p * 4096),
     virt_to_page = (\<lambda>a. (a - KERNEL_VIRTUAL_BASE) div 4096),
     virt_addr_valid = (\<lambda>a. KERNEL_VIRTUAL_BASE \<le> a),
     MAX_NR_ZONES = 6, MAX_NUMNODES = 1, uninit_flags = 0\<rparr>"

lemma demo_ext_ok: "mm_ext_ok demo_ext"
proof -
  have "sint (word_of_int mt :: ulong) = mt" if "0 \<le> mt" "mt < 6" for mt
    using that by (simp add: sint_uint uint_word_of_int_eq take_bit_int_eq_self signed_take_bit_int_eq_self)
  moreover have "unat (word_of_nat k :: u64) = k" if "k < 11" for k
    using that by (simp add: unat_of_nat take_bit_nat_eq_self)
  ultimately show ?thesis
    by (simp add: mm_ext_ok_def demo_ext_def MAX_ORDER_def MIGRATE_TYPES_def)
qed

definition demo_page :: "u64 \<Rightarrow> page" where
  "demo_page p = (if p = 512 then blank_page\<lparr>pg_mapcount := 0xFFFFFF80, pg_priv := 9\<rparr> else blank_page)"

definition demo_node :: "node \<Rightarrow> node list_head" where
  "demo_node n =
     (if n = PageLru 512 then list_node (At (FreeList 0 9 1)) (At (FreeList 0 9 1))
      else if n = FreeList 0 9 1 then list_node (At (PageLru 512)) (At (PageLru 512))
      else list_node (At n) (At n))"

definition demo_nodes :: "node list_heap" where
  "demo_nodes n = (case n of
     FreeList z k mt \<Rightarrow> if z = 0 \<and> k < MAX_ORDER \<and> is_mt mt then Some (demo_node n) else None
   | PageLru p \<Rightarrow> if p < 1024 then Some (demo_node n) else None
   | _ \<Rightarrow> None)"

definition demo_forest :: forest where
  "demo_forest n = (case n of
     FreeList z k mt \<Rightarrow>
       if z = 0 \<and> k < MAX_ORDER \<and> is_mt mt
       then Some (if k = 9 \<and> mt = 1 then [PageLru 512] else []) else None
   | _ \<Rightarrow> None)"

definition demo_zone :: zone where
  "demo_zone = \<lparr>watermark_min = 4, watermark_low = 8, watermark_high = 16,
     pageset = (\<lambda>_. \<lparr>pcp_count = 0, pcp_high = 6, pcp_batch = 1\<rparr>),
     z_lock = SPINLOCK_INIT ''zone'', z_free_pages = 512,
     z_free_area = map (\<lambda>k. \<lparr>nr_free = (if k = 9 then 1 else 0)\<rparr>) [0..<MAX_ORDER],
     pages_scanned = 0, lru_lock = SPINLOCK_INIT ''lru'', compact_cached_free_pfn = 0,
     compact_cached_migrate_pfn = [0, 0], compact_init_migrate_pfn = 0,
     compact_init_free_pfn = 1024, compact_considered = 0, compact_defer_shift = 0,
     compact_order_failed = -1, zone_start_pfn = 0, managed_pages = 1024, spanned_pages = 1024,
     present_pages = 1024, wait_table = None, wait_table_hash_nr_entries = 0,
     wait_table_bits = 0\<rparr>"

definition demo_mm :: mm where
  "demo_mm = \<lparr>mem_map = (\<lambda>p. if p < 1024 then Some (demo_page p) else None), nodes = demo_nodes,
     zone_at = [0 \<mapsto> demo_zone], zones = [Some 0, None, None, None, None, None], nr_zones = 1,
     node_data = [None], total_pages = 0, free_pages_count = 0, reserved_pages = 0,
     zone_lock = SPINLOCK_INIT ''zones'', return_addr = 4096, rflags = 0x202\<rparr>"

lemma demo_free_list: "free_list demo_forest z k mt = (if z = 0 \<and> k = 9 \<and> mt = 1 then [PageLru 512] else [])"
  by (auto simp: free_list_def demo_forest_def MAX_ORDER_def is_mt_def MIGRATE_TYPES_def)

lemma demo_blocks: "free_blocks demo_forest 0 = {(512, 9)}"
  by (auto simp: free_blocks_def listed_def demo_free_list)

lemma demo_forest_Some:
  "demo_forest r = Some xs \<longleftrightarrow> (\<exists>k mt. r = FreeList 0 k mt \<and> k < MAX_ORDER \<and> is_mt mt
     \<and> xs = (if k = 9 \<and> mt = 1 then [PageLru 512] else []))"
  by (cases r) (auto simp: demo_forest_def)

lemma demo_listed_page: "PageLru p \<in> members demo_forest \<Longrightarrow> p = 512"
  by (auto simp: members_iff demo_forest_Some split: if_splits)

lemma of_nat_small: "n < 1024 \<Longrightarrow> unat (of_nat n :: u64) = n"
  by (simp add: unat_of_nat take_bit_nat_eq_self)

lemma demo_lists: "lists demo_nodes demo_forest"
proof -
  have "(9::nat) < MAX_ORDER" "is_mt 1" by (simp_all add: MAX_ORDER_def is_mt_def MIGRATE_TYPES_def)
  then show ?thesis
    unfolding lists_def demo_forest_Some
    by (auto simp: dlist_def link_def heap_simps demo_nodes_def demo_node_def list_node_def)
qed

lemma demo_block: "block 512 9 = {512..<1024}" by (simp add: block_def)

lemma demo_free_page: "free_page_ok demo_ext 0 demo_mm p k \<longleftrightarrow> p = 512 \<and> k = 9"
  by (auto simp: free_page_ok_def demo_mm_def demo_ext_def demo_page_def blank_page_def)

lemma demo_counts: "free_count demo_forest 0 k = (if k = 9 then 1 else 0)"
proof -
  have "(\<Sum>mt \<in> {0..<MIGRATE_TYPES}. if mt = 1 then 1 else 0) = (1::nat)"
    by (simp add: MIGRATE_TYPES_def)
  moreover have "length (free_list demo_forest 0 9 mt) = (if mt = 1 then 1 else 0)" for mt
    by (simp add: demo_free_list)
  ultimately show ?thesis by (simp add: free_count_def demo_free_list)
qed

lemma demo_total: "free_total demo_forest 0 = 512"
proof -
  have "free_total demo_forest 0 = (\<Sum>k < MAX_ORDER. if k = 9 then 512 else 0)"
    unfolding free_total_def by (intro sum.cong) (auto simp: demo_counts)
  then show ?thesis by (simp add: MAX_ORDER_def)
qed

lemma demo_in:
  assumes "p + 2 ^ k \<le> 1024"
  shows "block_in demo_ext 0 demo_mm p k"
proof -
  have "(of_nat n :: u64) < 1024" if "n < 1024" for n
    using that by (simp add: word_less_nat_alt unat_of_nat take_bit_nat_eq_self)
  with assms show ?thesis
    by (auto simp: block_in_def block_def page_in_def demo_mm_def demo_ext_def demo_page_def blank_page_def)
qed

lemma demo_inv: "zone_inv demo_ext 0 demo_forest demo_mm"
  unfolding zone_inv_def
proof (intro conjI allI ballI impI)
  show "lists (nodes demo_mm) demo_forest" using demo_lists by (simp add: demo_mm_def)
  show "has_free_lists demo_forest 0"
    by (auto simp: has_free_lists_def demo_forest_def)
  show "PageLru p \<in> dom (nodes demo_mm)" if "p \<in> dom (mem_map demo_mm)" for p
    using that by (auto simp: demo_mm_def demo_nodes_def split: if_splits)
  show "\<exists>p. n = PageLru p \<and> free_page_ok demo_ext 0 demo_mm p k"
    if "n \<in> set (free_list demo_forest 0 k mt)" for n k mt
    using that by (auto simp: demo_free_list demo_free_page split: if_splits)
  show "\<exists>mt. listed demo_forest 0 p k mt" if "free_page_ok demo_ext 0 demo_mm p k" for p k
    using that by (auto simp: demo_free_page listed_def demo_free_list)
  show "counters_ok demo_forest 0 demo_mm"
    by (auto simp: counters_ok_def demo_mm_def demo_zone_def demo_counts demo_total)
  show "blocks_wf (free_blocks demo_forest 0)"
    by (simp add: demo_blocks blocks_wf_def MAX_ORDER_def)
  show "block_in demo_ext 0 demo_mm p k" if "(p, k) \<in> free_blocks demo_forest 0" for p k
    using that by (intro demo_in) (simp add: demo_blocks)
  show "PageLru (of_nat n) \<notin> members demo_forest"
    if "(p, k) \<in> free_blocks demo_forest 0" "n \<in> block p k" "n \<noteq> p" for p k n
  proof -
    have "n < 1024" "n \<noteq> 512" using that by (auto simp: demo_blocks demo_block)
    then have "unat (of_nat n :: u64) \<noteq> unat (512 :: u64)" by (simp add: of_nat_small)
    then show ?thesis using demo_listed_page by fastforce
  qed
qed


lemma demo_unlisted: "512 \<notin> block p k \<Longrightarrow> p + 2 ^ k \<le> 1024 \<Longrightarrow> unlisted demo_forest p k"
proof -
  assume p: "512 \<notin> block p k" "p + 2 ^ k \<le> 1024"
  have "PageLru (of_nat n) \<notin> members demo_forest" if "n \<in> block p k" for n
  proof -
    have "n < 1024" "n \<noteq> 512" using that p by (auto simp: block_def)
    then have "unat (of_nat n :: u64) \<noteq> unat (512 :: u64)" by (simp add: of_nat_small)
    then show ?thesis using demo_listed_page by fastforce
  qed
  then show ?thesis by (simp add: unlisted_def)
qed

lemma demo_buddies_mapped: "buddies_mapped demo_mm"
proof -
  have "b < 1024" if "unat b = buddy_of (unat p) k" "k < MAX_ORDER - 1" "p < 1024" for p b :: u64 and k
  proof -
    have "unat p < 2 ^ 10" using that(3) by (simp add: word_less_nat_alt)
    moreover have "(2::nat) ^ k < 2 ^ 10"
      using that(2) by (intro power_strict_increasing) (simp_all add: MAX_ORDER_def)
    ultimately have "unat p XOR 2 ^ k < 2 ^ 10"
      by (metis take_bit_nat_eq_self take_bit_xor take_bit_nat_less_exp)
    then show ?thesis using that(1) by (simp add: word_less_nat_alt buddy_of_def)
  qed
  then show ?thesis by (auto simp: buddies_mapped_def demo_mm_def)
qed

end
