(* ===== verification/Buddy_Props.thy ===== *)
theory Buddy_Props
  imports Buddy_Demo
begin

text \<open>
  The properties of the page allocator: what its operations do to the set of free pages, to
  the counters and to the invariant, on every branch; and where the code does not do what it
  means to, the pointer to a buddy below at the 32 bits of \<^verbatim>\<open>ulong\<close>: \<^verbatim>\<open>__free_one_page\<close> returns exactly
  when every buddy it looks at lies above.
\<close>

lemma demo_mt: "is_mt 1" by (simp add: is_mt_def MIGRATE_TYPES_def)

section \<open>The counters count pages\<close>

lemma card_listed:
  assumes "zone_inv E z F s"
  shows "free_count F z k = card {p. (p, k) \<in> free_blocks F z}"
    and "finite {p. (p, k) \<in> free_blocks F z}"
proof -
  note i = zone_invD [OF assms]
  let ?M = "{0..<MIGRATE_TYPES}"
  define U where "U mt = {p. listed F z p k mt}" for mt
  have U: "PageLru ` U mt = set (free_list F z k mt)" for mt
    using i(4) [of _ k mt] by (force simp: U_def listed_def)
  have dist: "distinct (free_list F z k mt)" for mt
    using lh.holds_distinct [OF i(1), of "FreeList z k mt"]
    by (cases "F (FreeList z k mt)") (auto simp: free_list_def)
  have card_U: "card (U mt) = length (free_list F z k mt)" and fin: "finite (U mt)" for mt
  proof -
    have "inj_on PageLru (U mt)" by (simp add: inj_on_def)
    then show "card (U mt) = length (free_list F z k mt)" "finite (U mt)"
      using U [of mt] distinct_card [OF dist [of mt]] card_image [of PageLru "U mt"]
        finite_imageD [of PageLru "U mt"] by auto
  qed
  have disj: "U mt \<inter> U mt' = {}" if "mt \<noteq> mt'" for mt mt'
    using that listed_unique [OF i(1,2)] by (auto simp: U_def)
  have "{p. (p, k) \<in> free_blocks F z} = unat ` (\<Union>mt \<in> ?M. U mt)"
  proof -
    have "mt \<in> ?M" if "listed F z p k mt" for p mt
      using listedD(2) [OF i(2) that] by (simp add: is_mt_def)
    then have "(\<Union>mt \<in> ?M. U mt) = {p. \<exists>mt. listed F z p k mt}" by (force simp: U_def)
    then show ?thesis by (auto simp: free_blocks_def)
  qed
  moreover have "inj_on unat (\<Union>mt \<in> ?M. U mt)" by (simp add: inj_on_def unat_eq)
  moreover have "card (\<Union>mt \<in> ?M. U mt) = (\<Sum>mt \<in> ?M. card (U mt))"
    using fin disj by (intro card_UN_disjoint) auto
  ultimately show "free_count F z k = card {p. (p, k) \<in> free_blocks F z}"
    "finite {p. (p, k) \<in> free_blocks F z}"
    using card_U fin by (simp_all add: card_image free_count_def)
qed

lemma free_total_card:
  assumes "zone_inv E z F s"
  shows "free_total F z = card (pages_in (free_blocks F z))" "finite (pages_in (free_blocks F z))"
proof -
  note i = zone_invD [OF assms]
  define A where "A k = (\<Union>p \<in> {p. (p, k) \<in> free_blocks F z}. block p k)" for k
  have un: "pages_in (free_blocks F z) = (\<Union>k \<in> {..<MAX_ORDER}. A k)"
    using blocks_wfD(1) [OF i(7)] by (fastforce simp: pages_in_def A_def)
  have A: "card (A k) = free_count F z k * 2 ^ k" "finite (A k)" for k
  proof -
    have "card (A k) = (\<Sum>p \<in> {p. (p, k) \<in> free_blocks F z}. card (block p k))"
      unfolding A_def using card_listed(2) [OF assms] blocks_wf_disjoint [OF i(7)]
      by (intro card_UN_disjoint) (auto simp: block_def)
    then show "card (A k) = free_count F z k * 2 ^ k"
      using card_listed(1) [OF assms] by (simp add: block_def)
    show "finite (A k)" using card_listed(2) [OF assms] by (simp add: A_def block_def)
  qed
  have "A k \<inter> A j = {}" if "k \<noteq> j" for k j
    using that blocks_wf_disjoint [OF i(7)] by (fastforce simp: A_def)
  then have "card (\<Union>k \<in> {..<MAX_ORDER}. A k) = (\<Sum>k < MAX_ORDER. card (A k))"
    using A(2) by (intro card_UN_disjoint) auto
  then show "free_total F z = card (pages_in (free_blocks F z))"
    unfolding un free_total_def using A(1) by simp
  show "finite (pages_in (free_blocks F z))" unfolding un using A(2) by simp
qed

lemma zone_inv_free_pages:
  assumes "zone_inv E z F s" "zone_at s z = Some zn"
  shows "z_free_pages zn = of_nat (card (pages_in (free_blocks F z)))"
  using zone_invD(6) [OF assms(1)] assms(2) free_total_card(1) [OF assms(1)]
  by (auto simp: counters_ok_def)


section \<open>Orders and buddies\<close>

lemma get_order_loop_spec:
  fixes sz :: ulong
  shows "unat sz < 2 ^ (get_order_loop sz n - n) \<and> n \<le> get_order_loop sz n
    \<and> (sz \<noteq> 0 \<longrightarrow> n < get_order_loop sz n \<and> 2 ^ (get_order_loop sz n - n - 1) \<le> unat sz)"
proof (induction sz n rule: get_order_loop.induct)
  case (1 sz n)
  show ?case
  proof (cases "sz = 0")
    case True
    then show ?thesis by (subst (1 2 3 4) get_order_loop.simps) simp
  next
    case False
    let ?h = "drop_bit 1 sz" and ?m = "get_order_loop (drop_bit 1 sz) (n + 1)"
    have eq: "get_order_loop sz n = ?m" using False by (subst get_order_loop.simps) simp
    have half: "unat ?h = unat sz div 2"
      by (simp only: unat_drop_bit_eq) (simp add: drop_bit_eq_div)
    have ih: "unat ?h < 2 ^ (?m - (n + 1))" "n + 1 \<le> ?m"
      "?h \<noteq> 0 \<Longrightarrow> n + 1 < ?m \<and> 2 ^ (?m - (n + 1) - 1) \<le> unat ?h"
      using 1 [OF False] by auto
    define d where "d = ?m - (n + 1)"
    have m: "?m - n = Suc d" using ih(2) by (simp add: d_def)
    have "unat sz < 2 ^ Suc d" using ih(1) unfolding half d_def [symmetric] by simp
    moreover have "2 ^ d \<le> unat sz"
    proof (cases "?h = 0")
      case True
      then have "unat sz div 2 = 0" by (simp flip: half)
      moreover have "d = 0"
        using True by (simp add: d_def) (subst get_order_loop.simps, simp)
      ultimately show ?thesis using False by (simp add: unat_gt_0 Suc_le_eq)
    next
      case h: False
      then have "0 < d" "2 ^ (d - 1) \<le> unat sz div 2" using ih(3) half by (auto simp: d_def)
      then obtain e where "d = Suc e" "2 ^ e \<le> unat sz div 2" by (metis Suc_pred' )
      then show ?thesis by simp
    qed
    ultimately show ?thesis using ih(2) m unfolding eq by simp
  qed
qed

text \<open>
  \<^verbatim>\<open>get_order\<close> returns the smallest order whose block holds \<open>size\<close> bytes, for every positive
  size that fits the type.
\<close>

theorem get_order_minimal:
  fixes size :: ulong
  assumes "size \<noteq> 0"
  shows "unat size \<le> 2 ^ (get_order size + PAGE_SHIFT)
    \<and> (get_order size \<noteq> 0 \<longrightarrow> 2 ^ (get_order size - 1 + PAGE_SHIFT) < unat size)"
proof -
  let ?m = "drop_bit PAGE_SHIFT (size - 1)"
  have pos: "0 < unat size" using assms by (simp add: unat_gt_0)
  have "unat (size - 1) = unat size - 1" using assms by (rule unat_minus_one)
  then have m: "unat ?m = (unat size - 1) div 2 ^ 12"
    by (simp only: unat_drop_bit_eq PAGE_SHIFT_def) (simp add: drop_bit_eq_div)
  note spec = get_order_loop_spec [of ?m 0]
  have g: "get_order size = get_order_loop ?m 0" by (simp add: get_order_def)
  have "(unat size - 1) div 2 ^ 12 < 2 ^ get_order size" using spec by (simp add: g m)
  then have "unat size - 1 < 2 ^ get_order size * 2 ^ 12" by (simp add: div_less_iff_less_mult)
  then have "unat size \<le> 2 ^ (get_order size + PAGE_SHIFT)" by (simp add: power_add PAGE_SHIFT_def)
  moreover have "2 ^ (get_order size - 1 + PAGE_SHIFT) < unat size" if "get_order size \<noteq> 0"
  proof -
    have "?m \<noteq> 0" using that unfolding g by (subst (asm) get_order_loop.simps) (auto split: if_splits)
    then have "2 ^ (get_order size - 1) \<le> (unat size - 1) div 2 ^ 12" using spec by (simp add: g m)
    then have "2 ^ (get_order size - 1) * 2 ^ 12 \<le> unat size - 1" by (simp add: less_eq_div_iff_mult_less_eq)
    then show ?thesis using pos by (simp add: power_add PAGE_SHIFT_def)
  qed
  ultimately show ?thesis by blast
qed

theorem get_order_minimal_witness:
  "unat (8193 :: ulong) \<le> 2 ^ (get_order (8193 :: ulong) + PAGE_SHIFT)"
  using get_order_minimal [of "8193 :: ulong"] by simp


text \<open>
  Buddies come in pairs: the buddy of the buddy is the page itself, the frame
  number both share, \<^verbatim>\<open>buddy_pfn & pfn\<close>, is aligned to the next order, and its block of that
  order is exactly the two blocks, which are disjoint.
\<close>

theorem find_buddy_pairs:
  assumes "k < 32" "2 ^ k dvd unat pfn"
  shows "raw_find_buddy_pfn (raw_find_buddy_pfn pfn k) k = pfn
    \<and> 2 ^ Suc k dvd unat (raw_find_buddy_pfn pfn k AND pfn)
    \<and> block (unat (raw_find_buddy_pfn pfn k AND pfn)) (Suc k)
        = block (unat pfn) k \<union> block (unat (raw_find_buddy_pfn pfn k)) k
    \<and> block (unat pfn) k \<inter> block (unat (raw_find_buddy_pfn pfn k)) k = {}"
proof -
  have "raw_find_buddy_pfn (raw_find_buddy_pfn pfn k) k = pfn"
    by (simp add: raw_find_buddy_pfn_def xor.assoc)
  moreover have "block (unat pfn) k \<inter> block (buddy_of (unat pfn) k) k = {}"
    using buddy_cases [OF assms(2)] by (auto simp: block_def)
  ultimately show ?thesis
    using combined_aligned [OF assms(2)] block_combined [OF assms(2)]
    by (simp add: unat_and unat_find_buddy [OF assms(1)])
qed

theorem find_buddy_pairs_witness:
  "raw_find_buddy_pfn (raw_find_buddy_pfn (12 :: ulong) 2) 2 = 12
   \<and> block (unat (raw_find_buddy_pfn (12 :: ulong) 2 AND 12)) 3 = {8..<16}"
proof -
  have c: "unat (raw_find_buddy_pfn (12 :: ulong) 2 AND 12) = 8"
    by (simp add: raw_find_buddy_pfn_def)
  have "2 ^ 2 dvd unat (12 :: ulong)" by simp
  from find_buddy_pairs [OF _ this] show ?thesis unfolding c by (simp add: block_def)
qed

section \<open>Allocation\<close>

text \<open>
  The allocated state and the forest are determined by the order \<open>j\<close> of the block that is
  split, the smallest that has a block of the migration type.
\<close>

lemma free_list_cases:
  assumes "zone_inv E z F s"
  obtains "\<And>k. ord \<le> k \<Longrightarrow> k < MAX_ORDER \<Longrightarrow> free_list F z k mt = []"
  | j p xs where "ord \<le> j" "j < MAX_ORDER" "free_list F z j mt = PageLru p # xs"
      "\<And>k. ord \<le> k \<Longrightarrow> k < j \<Longrightarrow> free_list F z k mt = []"
proof (cases "\<exists>k. ord \<le> k \<and> k < MAX_ORDER \<and> free_list F z k mt \<noteq> []")
  case True
  define j where "j = (LEAST k. ord \<le> k \<and> k < MAX_ORDER \<and> free_list F z k mt \<noteq> [])"
  have j: "ord \<le> j \<and> j < MAX_ORDER \<and> free_list F z j mt \<noteq> []"
    unfolding j_def using True by (rule LeastI_ex)
  then obtain n xs where n: "free_list F z j mt = n # xs" by (cases "free_list F z j mt") auto
  then obtain p where "n = PageLru p" using zone_invD(4) [OF assms, of n j mt] by auto
  moreover have "free_list F z k mt = []" if "ord \<le> k" "k < j" for k
    using that j not_less_Least [of k "\<lambda>k. ord \<le> k \<and> k < MAX_ORDER \<and> free_list F z k mt \<noteq> []"]
    unfolding j_def by force
  ultimately show thesis using that(2) j n by blast
next
  case False
  then show thesis using that(1) by blast
qed

lemma rmqueue_smallest_hit_spec:
  assumes "mm_ext_ok E" "zone_inv E z F s" "is_mt mt" "zone_at s z = Some zn"
    and j: "ord \<le> j" "j < MAX_ORDER" "free_list F z j mt = PageLru p # xs"
      "\<And>k. ord \<le> k \<Longrightarrow> k < j \<Longrightarrow> free_list F z k mt = []"
  defines "F' \<equiv> taken_forest F z p ord j mt mt"
  shows "\<exists>t zn'. raw_rmqueue_smallest E z ord mt s = Some (Some p, t) \<and> zone_inv E z F' t
    \<and> 2 ^ ord dvd unat p \<and> block (unat p) ord \<subseteq> pages_in (free_blocks F z)
    \<and> pages_in (free_blocks F' z) = pages_in (free_blocks F z) - block (unat p) ord
    \<and> zone_at t z = Some zn' \<and> z_free_pages zn' = z_free_pages zn - 2 ^ ord
    \<and> (coalesced (free_blocks F z) \<longrightarrow> coalesced (free_blocks F' z))
    \<and> unlisted F' (unat p) ord \<and> frame E z (insert p (upper_pages p ord j)) s t"
proof -
  let ?B = "free_blocks F z"
  note i = zone_invD [OF assms(2)]
  obtain t where t: "raw_rmqueue_smallest E z ord mt s = Some (Some p, t)" "zone_inv E z F' t"
    "frame E z (insert p (upper_pages p ord j)) s t"
    "free_blocks F' z = split_block ?B (unat p) ord j" "unlisted F' (unat p) ord"
    using rmqueue_smallest_loop_some [OF assms(1-3) j(2,3,1) j(1) j(4)]
    unfolding raw_rmqueue_smallest_def F'_def by blast
  have inB: "(unat p, j) \<in> ?B"
    using free_list_head(2) [OF assms(2) j(2) assms(3) j(3)] by (auto simp: free_blocks_def)
  note split = split_spec [OF i(7) inB j(1), folded t(4)]
  have sub: "block (unat p) ord \<subseteq> pages_in ?B"
    using block_halves [OF j(1)] block_sub_pages [OF inB] by blast
  obtain zn' where zn': "zone_at t z = Some zn'" using t(3) by (auto simp: frame_def)
  have fin: "finite (pages_in ?B)" by (rule free_total_card(2) [OF assms(2)])
  have le: "card (block (unat p) ord) \<le> card (pages_in ?B)" using fin sub by (rule card_mono)
  have "z_free_pages zn' = of_nat (card (pages_in ?B) - card (block (unat p) ord))"
    unfolding zone_inv_free_pages [OF t(2) zn'] split(2)
    using sub by (simp add: card_Diff_subset block_def)
  also have "\<dots> = z_free_pages zn - 2 ^ ord"
    unfolding zone_inv_free_pages [OF assms(2,4)] using le by (simp add: of_nat_diff block_def)
  finally have count: "z_free_pages zn' = z_free_pages zn - 2 ^ ord" .
  have dvd: "2 ^ ord dvd unat p"
    using blocks_wfD(2) [OF i(7) inB] j(1) by (meson dvd_trans le_imp_power_dvd)
  moreover have "coalesced ?B \<longrightarrow> coalesced (free_blocks F' z)"
    using split_coalesced [OF i(7) inB j(1)] t(4) by simp
  ultimately show ?thesis using t(1,2,3,5) sub split(2) zn' count by blast
qed

text \<open>
  C2: \<^verbatim>\<open>__rmqueue_smallest\<close> on a zone that satisfies the invariant.  When no list of the
  migration type from the wanted order up has a block it returns \<^verbatim>\<open>NULL\<close> and changes nothing.
  Otherwise it takes the head of the list of the smallest such order \<open>j\<close> that has one and
  splits it: afterwards that list is without its head, each list of the migration type below \<open>j\<close>
  and from the wanted order up, all empty before, holds exactly the upper half of that order,
  and every other list is as it was.  The page returned is an aligned block of free pages;
  the invariant holds, exactly these pages are no longer free, the counter \<^verbatim>\<open>free_pages\<close> has gone
  down by their number, no two free buddies are left unmerged if there were none before, and
  no page structure but those of the block and its halves has changed.
\<close>

theorem rmqueue_smallest_correct:
  assumes "mm_ext_ok E" "zone_inv E z F s" "is_mt mt" "zone_at s z = Some zn"
  shows "if \<forall>k. ord \<le> k \<and> k < MAX_ORDER \<longrightarrow> free_list F z k mt = []
    then raw_rmqueue_smallest E z ord mt s = Some (None, s)
    else \<exists>j p xs t F' zn'. raw_rmqueue_smallest E z ord mt s = Some (Some p, t)
      \<and> zone_inv E z F' t
      \<and> ord \<le> j \<and> j < MAX_ORDER \<and> free_list F z j mt = PageLru p # xs
      \<and> (\<forall>k. ord \<le> k \<and> k < j \<longrightarrow> free_list F z k mt = [])
      \<and> (\<forall>k m. free_list F' z k m = (if k = j \<and> m = mt then xs
           else if m = mt \<and> ord \<le> k \<and> k < j then [PageLru (p + 2 ^ k)] else free_list F z k m))
      \<and> 2 ^ ord dvd unat p \<and> block (unat p) ord \<subseteq> pages_in (free_blocks F z)
      \<and> pages_in (free_blocks F' z) = pages_in (free_blocks F z) - block (unat p) ord
      \<and> zone_at t z = Some zn' \<and> z_free_pages zn' = z_free_pages zn - 2 ^ ord
      \<and> (coalesced (free_blocks F z) \<longrightarrow> coalesced (free_blocks F' z))
      \<and> unlisted F' (unat p) ord \<and> frame E z (insert p (upper_pages p ord j)) s t"
  using assms(2)
proof (cases rule: free_list_cases [where ord = ord and mt = mt])
  case 1
  then show ?thesis
    using rmqueue_smallest_loop_none [OF assms(2,3), of ord ord] by (simp add: raw_rmqueue_smallest_def)
next
  case (2 j p xs)
  have "\<not> (\<forall>k. ord \<le> k \<and> k < MAX_ORDER \<longrightarrow> free_list F z k mt = [])" using 2 by auto
  moreover have "free_list (taken_forest F z p ord j mt mt) z k m = (if k = j \<and> m = mt then xs
      else if m = mt \<and> ord \<le> k \<and> k < j then [PageLru (p + 2 ^ k)] else free_list F z k m)" for k m
    using 2(4) by (simp add: taken_lists [OF 2(3)])
  moreover note rmqueue_smallest_hit_spec [OF assms 2]
  ultimately show ?thesis using 2 by (simp only: if_False) blast
qed

theorem rmqueue_smallest_correct_witness:
  "\<exists>t F'. raw_rmqueue_smallest demo_ext 0 3 1 demo_mm = Some (Some 512, t)
     \<and> free_list F' 0 9 1 = [] \<and> free_list F' 0 3 1 = [PageLru 520] \<and> zone_inv demo_ext 0 F' t
     \<and> pages_in (free_blocks F' 0) = {512..<1024} - block 512 3 \<and> coalesced (free_blocks F' 0)"
proof -
  have ne: "(\<forall>k. 3 \<le> k \<and> k < MAX_ORDER \<longrightarrow> free_list demo_forest 0 k 1 = []) = False"
    by (auto simp: demo_free_list MAX_ORDER_def)
  have "coalesced (free_blocks demo_forest 0)" "pages_in (free_blocks demo_forest 0) = {512..<1024}"
    by (simp_all add: demo_blocks demo_block coalesced_def)
  moreover have "zone_at demo_mm 0 = Some demo_zone" by (simp add: demo_mm_def)
  ultimately obtain j p xs t F' where *: "raw_rmqueue_smallest demo_ext 0 3 1 demo_mm = Some (Some p, t)"
    "zone_inv demo_ext 0 F' t" "free_list demo_forest 0 j 1 = PageLru p # xs"
    "\<And>k m. free_list F' 0 k m = (if k = j \<and> m = 1 then xs
       else if m = 1 \<and> 3 \<le> k \<and> k < j then [PageLru (p + 2 ^ k)] else free_list demo_forest 0 k m)"
    "pages_in (free_blocks F' 0) = {512..<1024} - block (unat p) 3" "coalesced (free_blocks F' 0)"
    using rmqueue_smallest_correct [OF demo_ext_ok demo_inv demo_mt, of demo_zone 3]
    unfolding ne if_False by blast
  then have "j = 9" "p = 512" "xs = []" by (auto simp: demo_free_list split: if_splits)
  then show ?thesis using * by (intro exI [of _ t] exI [of _ F']) auto
qed

section \<open>Returning blocks\<close>

definition free_ready :: "mm mm_ext \<Rightarrow> nat \<Rightarrow> forest \<Rightarrow> mm \<Rightarrow> u64 \<Rightarrow> nat \<Rightarrow> bool" where
  "free_ready E z F s p k \<longleftrightarrow> block_in E z s (unat p) k \<and> unlisted F (unat p) k
     \<and> 2 ^ k dvd unat p \<and> block (unat p) k \<inter> pages_in (free_blocks F z) = {}"

definition free_checks :: "mm mm_ext \<Rightarrow> nat \<Rightarrow> mm \<Rightarrow> u64 \<Rightarrow> bool" where
  "free_checks E z s p \<longleftrightarrow> (\<exists>zn pg. zone_at s z = Some zn \<and> zone_is_initialized E zn
     \<and> mem_map s p = Some pg \<and> pg_flags pg AND CHECK_AT_PREP E = 0)"

lemma raw_free_one_page_spec:
  assumes "mm_ext_ok E" "zone_inv E z F s" "is_mt mt" "k < MAX_ORDER" "buddies_mapped s" "small_map s"
    "free_ready E z F s p k" "free_checks E z s p" "unat pfn = unat p"
  shows "if upward (free_blocks F z) (unat p) k
    then \<exists>t. raw_free_one_page E p pfn z k mt s = Some t \<and> freed E z F s (unat p) k mt t
    else raw_free_one_page E p pfn z k mt s = None"
proof -
  have "mt \<noteq> -1" using assms(3) by (auto simp: is_mt_def)
  then have "raw_free_one_page E p pfn z k mt s = free_one_page_loop E p pfn z k mt s"
    using assms(8) by (auto simp: raw_free_one_page_def free_checks_def)
  then show ?thesis
    using free_one_page_loop_spec [OF assms(1,3,2,4-6,9)] assms(7) by (simp add: free_ready_def)
qed

lemma small_pfn: "flat_memmap E \<Longrightarrow> small_map s \<Longrightarrow> mem_map s p \<noteq> None \<Longrightarrow> unat (page_to_pfn E p) = unat p"
  by (simp add: flat_memmap_def small_map_def unsigned_ucast_eq take_bit_nat_eq_self)

lemma ready_pfn:
  assumes "flat_memmap E" "small_map s" "free_ready E z F s p k"
  shows "unat (page_to_pfn E p) = unat p"
  using assms block_in_head [of E z s p k] small_pfn [of E s p]
  by (auto simp: free_ready_def page_in_def)

lemma merged_count:
  assumes "zone_inv E z F s" "zone_at s z = Some zn" "k < MAX_ORDER" "free_ready E z F s p k"
    and "zone_inv E z F' t" "free_blocks F' z = merge (free_blocks F z) (unat p) k" "zone_at t z = Some zn'"
  shows "pages_in (free_blocks F' z) = pages_in (free_blocks F z) \<union> block (unat p) k"
    "z_free_pages zn' = z_free_pages zn + 2 ^ k"
    "coalesced (free_blocks F z) \<Longrightarrow> coalesced (free_blocks F' z)"
proof -
  have ready: "2 ^ k dvd unat p" "block (unat p) k \<inter> pages_in (free_blocks F z) = {}"
    using assms(4) by (simp_all add: free_ready_def)
  note m = merge_spec [OF zone_invD(7) [OF assms(1)] assms(3) ready, folded assms(6)]
  then show "pages_in (free_blocks F' z) = pages_in (free_blocks F z) \<union> block (unat p) k"
    "coalesced (free_blocks F z) \<Longrightarrow> coalesced (free_blocks F' z)" by simp_all
  have fin: "finite (pages_in (free_blocks F z))" by (rule free_total_card(2) [OF assms(1)])
  have "card (pages_in (free_blocks F' z)) = card (pages_in (free_blocks F z)) + 2 ^ k"
    using m fin ready(2) by (simp add: card_Un_disjoint Int_commute block_def)
  then show "z_free_pages zn' = z_free_pages zn + 2 ^ k"
    using zone_inv_free_pages [OF assms(5,7)] zone_inv_free_pages [OF assms(1,2)] by simp
qed

text \<open>
  C1: \<^verbatim>\<open>__free_one_page\<close> on a block of the zone that is not free, with its 32-bit frame number in a
  memory map of at most \<open>2^32\<close> pages.  It returns exactly when every buddy that its loop looks at
  lies above the block merged so far.  Then it keeps the invariant, makes exactly the pages of
  the block free in addition, raises \<^verbatim>\<open>free_pages\<close> by their number, computes the merge of the
  specification, leaves no two free buddies of the same order if there were none, and puts the
  merged block, which contains the freed one, at the head of the list of the migration type.
  Otherwise it reads outside the memory map.
\<close>

theorem free_one_page_correct:
  assumes "mm_ext_ok E" "flat_memmap E" "zone_inv E z F s" "is_mt mt" "k < MAX_ORDER"
    "buddies_mapped s" "small_map s" "free_ready E z F s p k" "free_checks E z s p" "zone_at s z = Some zn"
  shows "if upward (free_blocks F z) (unat p) k
    then \<exists>t F' zn'. raw_free_one_page E p (page_to_pfn E p) z k mt s = Some t
      \<and> zone_inv E z F' t \<and> frame E z UNIV s t
      \<and> free_blocks F' z = merge (free_blocks F z) (unat p) k
      \<and> pages_in (free_blocks F' z) = pages_in (free_blocks F z) \<union> block (unat p) k
      \<and> zone_at t z = Some zn' \<and> z_free_pages zn' = z_free_pages zn + 2 ^ k
      \<and> (coalesced (free_blocks F z) \<longrightarrow> coalesced (free_blocks F' z))
      \<and> (\<exists>c j xs. free_list F' z j mt = PageLru c # xs \<and> block (unat p) k \<subseteq> block (unat c) j)
    else raw_free_one_page E p (page_to_pfn E p) z k mt s = None"
proof -
  note spec = raw_free_one_page_spec [OF assms(1,3-9) ready_pfn [OF assms(2,7,8)]]
  show ?thesis
  proof (cases "upward (free_blocks F z) (unat p) k")
    case True
    then obtain t F' where t: "raw_free_one_page E p (page_to_pfn E p) z k mt s = Some t"
      "zone_inv E z F' t" "free_blocks F' z = merge (free_blocks F z) (unat p) k" "frame E z UNIV s t"
      "\<exists>c j xs. free_list F' z j mt = PageLru c # xs \<and> block (unat p) k \<subseteq> block (unat c) j"
      using spec unfolding if_P [OF True] freed_def by blast
    obtain zn' where zn': "zone_at t z = Some zn'" using t(4) by (auto simp: frame_def)
    note m = merged_count [OF assms(3,10,5,8) t(2,3) zn']
    show ?thesis unfolding if_P [OF True] using t m zn' by blast
  qed (use spec in simp)
qed

lemma demo_free_ready: "p + 2 ^ k \<le> 512 \<Longrightarrow> 2 ^ k dvd p \<Longrightarrow> free_ready demo_ext 0 demo_forest demo_mm (of_nat p) k"
proof -
  assume p: "p + 2 ^ k \<le> 512" "2 ^ k dvd p"
  have "(0::nat) < 2 ^ k" by simp
  with p(1) have "p < 1024" "512 \<notin> block p k" "block p k \<inter> {512..<1024} = {}"
    by (auto simp: block_def)
  then show ?thesis
    using p demo_in [of p k] demo_unlisted [of p k] demo_block
    by (simp add: free_ready_def of_nat_small demo_blocks)
qed

lemma demo_checks: "p < 1024 \<Longrightarrow> free_checks demo_ext 0 demo_mm p"
  by (simp add: free_checks_def demo_mm_def demo_ext_def)

lemma demo_flat: "flat_memmap demo_ext" by (simp add: flat_memmap_def demo_ext_def)

lemma demo_small: "small_map demo_mm"
  by (auto simp: small_map_def demo_mm_def word_less_nat_alt split: if_splits)

lemma demo_upward: "upward (free_blocks demo_forest 0) 0 9 = True"
  by (subst upward.simps, subst upward.simps) (simp add: demo_blocks buddy_of_def MAX_ORDER_def)

theorem free_one_page_correct_witness:
  "\<exists>t F'. raw_free_one_page demo_ext 0 (page_to_pfn demo_ext 0) 0 9 1 demo_mm = Some t
     \<and> zone_inv demo_ext 0 F' t \<and> pages_in (free_blocks F' 0) = {0..<1024}"
proof -
  have "free_ready demo_ext 0 demo_forest demo_mm 0 9" using demo_free_ready [of 0 9] by simp
  moreover have "zone_at demo_mm 0 = Some demo_zone" by (simp add: demo_mm_def)
  moreover have "pages_in (free_blocks demo_forest 0) \<union> block (unat (0::u64)) 9 = {0..<1024}"
    by (auto simp: demo_blocks block_def)
  moreover have "9 < MAX_ORDER" by (simp add: MAX_ORDER_def)
  moreover note demo_upward
  ultimately show ?thesis
    using free_one_page_correct [OF demo_ext_ok demo_flat demo_inv demo_mt _ demo_buddies_mapped demo_small _ demo_checks, of 9 0]
    by auto
qed


text \<open>
  C9: At the width that \<^verbatim>\<open>types.h\<close> gives \<^verbatim>\<open>ulong\<close>, freeing any block whose buddy lies below it is a
  wild access: \<^verbatim>\<open>page + (buddy_pfn - pfn)\<close> adds \<open>2^32 - 2^k\<close> instead of subtracting \<open>2^k\<close>, so
  the test of the buddy reads outside a memory map of at most \<open>2^32\<close> pages, whether or not the
  buddy is free.  The frame number of page \<open>p\<close> in a flat map is \<open>ucast p\<close>.
\<close>

theorem free_lower_buddy_faults:
  assumes "\<And>q. mem_map s q \<noteq> None \<Longrightarrow> unat q < 2 ^ 32"
    "k < MAX_ORDER - 1" "2 ^ k dvd unat p" "odd (unat p div 2 ^ k)"
  shows "raw_free_one_page E p (ucast p :: ulong) z k mt s = None"
proof (cases "mem_map s p")
  case None
  then show ?thesis by (cases "zone_at s z") (simp_all add: raw_free_one_page_def)
next
  case (Some pg)
  then have "unat (ucast p :: ulong) = unat p"
    using assms(1) [of p] by (simp add: unsigned_ucast_eq take_bit_nat_eq_self)
  moreover have "small_map s" using assms(1) by (simp add: small_map_def)
  ultimately have "free_one_page_loop E p (ucast p) z k mt s = None"
    using below_faults assms(2-4) by blast
  then show ?thesis by (cases "zone_at s z") (simp_all add: raw_free_one_page_def Some)
qed

theorem free_lower_buddy_faults_witness:
  "free_ready demo_ext 0 demo_forest demo_mm 256 8
   \<and> raw_free_one_page demo_ext 256 (ucast (256 :: u64)) 0 8 1 demo_mm = None"
proof -
  have "unat q < 2 ^ 32" if "mem_map demo_mm q \<noteq> None" for q
    using that by (auto simp: demo_mm_def word_less_nat_alt split: if_splits)
  from free_lower_buddy_faults [OF this, where k = 8 and p = 256 and E = demo_ext and z = 0 and mt = 1] demo_free_ready [of 256 8]
  show ?thesis by (simp add: MAX_ORDER_def)
qed

section \<open>Allocation followed by the return of the block\<close>

lemma rmqueue_smallest_Some:
  assumes "mm_ext_ok E" "zone_inv E z F s" "is_mt mt"
    "raw_rmqueue_smallest E z ord mt s = Some (Some p, t)"
  obtains j F' where "ord \<le> j" "j < MAX_ORDER" "(unat p, j) \<in> free_blocks F z" "zone_inv E z F' t"
    "free_blocks F' z = split_block (free_blocks F z) (unat p) ord j" "free_ready E z F' t p ord"
    "frame E z UNIV s t" "same_roots z F F'"
  using assms(2)
proof (cases rule: free_list_cases [where ord = ord and mt = mt])
  case 1
  then show thesis
    using rmqueue_smallest_loop_none [OF assms(2,3), of ord ord] assms(4)
    by (simp add: raw_rmqueue_smallest_def)
next
  case (2 j q xs)
  let ?F = "taken_forest F z q ord j mt mt" and ?B = "free_blocks F z"
  obtain u where u: "raw_rmqueue_smallest E z ord mt s = Some (Some q, u)" "zone_inv E z ?F u"
    "frame E z (insert q (upper_pages q ord j)) s u"
    "free_blocks ?F z = split_block ?B (unat q) ord j" "unlisted ?F (unat q) ord"
    "block_in E z u (unat q) ord"
    using rmqueue_smallest_loop_some [OF assms(1-3) 2(2,3,1) 2(1) 2(4)]
    unfolding raw_rmqueue_smallest_def by blast
  then have eq: "q = p" "u = t" using assms(4) by auto
  have inB: "(unat p, j) \<in> ?B"
    using free_list_head(2) [OF assms(2) 2(2) assms(3) 2(3)] eq(1) by (auto simp: free_blocks_def)
  note wf = zone_invD(7) [OF assms(2)]
  have "2 ^ ord dvd unat p"
    using blocks_wfD(2) [OF wf inB] 2(1) by (meson dvd_trans le_imp_power_dvd)
  moreover have "block (unat p) ord \<inter> pages_in (free_blocks ?F z) = {}"
    using split_spec(2) [OF wf inB 2(1)] u(4) eq(1) by auto
  ultimately have "free_ready E z ?F t p ord" using u(5,6) eq by (simp add: free_ready_def)
  moreover have "frame E z UNIV s t" using u(3) eq frame_mono by blast
  ultimately show thesis using that [OF 2(1,2) inB] u(2,4) eq same_roots_taken by blast
qed

text \<open>
  C3: Round trip at the 32 bits of \<^verbatim>\<open>ulong\<close>, in a zone without unmerged free buddies: a block that
  \<^verbatim>\<open>__rmqueue_smallest\<close> hands out was split from one free block \<open>(p, j)\<close>, and returning it right
  afterwards restores the set of free blocks exactly, block by block, when \<open>j\<close> is the largest
  order or the buddy of \<open>(p, j)\<close> lies above.  When that buddy lies below, the return faults.
\<close>

theorem alloc_free_roundtrip:
  assumes "mm_ext_ok E" "flat_memmap E" "zone_inv E z F s" "is_mt mt" "coalesced (free_blocks F z)"
    "buddies_mapped s" "small_map s"
    "raw_rmqueue_smallest E z ord mt s = Some (Some p, t)" "free_checks E z t p" "is_mt mt'"
  shows "\<exists>j. ord \<le> j \<and> (unat p, j) \<in> free_blocks F z
    \<and> (if j < MAX_ORDER - 1 \<and> odd (unat p div 2 ^ j)
       then raw_free_one_page E p (page_to_pfn E p) z ord mt' t = None
       else \<exists>u F'. raw_free_one_page E p (page_to_pfn E p) z ord mt' t = Some u
         \<and> zone_inv E z F' u \<and> free_blocks F' z = free_blocks F z)"
proof -
  obtain j F1 where j: "ord \<le> j" "j < MAX_ORDER" "(unat p, j) \<in> free_blocks F z"
    "zone_inv E z F1 t" "free_blocks F1 z = split_block (free_blocks F z) (unat p) ord j"
    "free_ready E z F1 t p ord" "frame E z UNIV s t" "same_roots z F F1"
    by (rule rmqueue_smallest_Some [OF assms(1,3,4,8)])
  note wf = zone_invD(7) [OF assms(3)]
  have restored: "merge (free_blocks F1 z) (unat p) ord = free_blocks F z"
    unfolding j(5) by (rule merge_split [OF wf j(3) assms(5) j(1)])
  have up: "upward (free_blocks F1 z) (unat p) ord \<longleftrightarrow> \<not> (j < MAX_ORDER - 1 \<and> odd (unat p div 2 ^ j))"
    unfolding j(5) upward_split [OF wf j(3) assms(5) j(1)] by blast
  have t: "buddies_mapped t" "small_map t"
    using assms(6,7) by (simp_all add: buddies_mapped_frame [OF j(7)] small_map_frame [OF j(7)])
  have "ord < MAX_ORDER" using j by simp
  note spec = raw_free_one_page_spec [OF assms(1) j(4) assms(10) this t j(6) assms(9)
      ready_pfn [OF assms(2) t(2) j(6)], unfolded up freed_def restored]
  show ?thesis
  proof (intro exI conjI)
    show "if j < MAX_ORDER - 1 \<and> odd (unat p div 2 ^ j)
       then raw_free_one_page E p (page_to_pfn E p) z ord mt' t = None
       else \<exists>u F'. raw_free_one_page E p (page_to_pfn E p) z ord mt' t = Some u
         \<and> zone_inv E z F' u \<and> free_blocks F' z = free_blocks F z"
    proof (cases "j < MAX_ORDER - 1 \<and> odd (unat p div 2 ^ j)")
      case True
      then show ?thesis using spec by simp
    next
      case False
      then show ?thesis using spec unfolding if_not_P [OF False] if_P [OF False] by blast
    qed
  qed (use j in simp_all)
qed

lemma head_free_block: "free_list F z k mt = PageLru p # xs \<Longrightarrow> (unat p, k) \<in> free_blocks F z"
  by (force simp: free_blocks_def listed_def intro: exI [of _ mt])

text \<open>The demo machine after its lower half was freed: one block of the largest order.\<close>

lemma demo_merged:
  obtains F s xs where "zone_inv demo_ext 0 F s" "free_blocks F 0 = {(0, 10)}"
    "free_list F 0 10 1 = PageLru 0 # xs" "frame demo_ext 0 UNIV demo_mm s"
    "raw_free_one_page demo_ext 0 (page_to_pfn demo_ext 0) 0 9 1 demo_mm = Some s" "same_roots 0 demo_forest F"
proof -
  have ready: "free_ready demo_ext 0 demo_forest demo_mm 0 9" using demo_free_ready [of 0 9] by simp
  have "9 < MAX_ORDER" "unat (page_to_pfn demo_ext 0) = unat (0 :: u64)"
    by (simp_all add: MAX_ORDER_def demo_ext_def)
  from raw_free_one_page_spec [OF demo_ext_ok demo_inv demo_mt this(1) demo_buddies_mapped demo_small ready demo_checks this(2)]
  obtain s F c j xs where s: "raw_free_one_page demo_ext 0 (page_to_pfn demo_ext 0) 0 9 1 demo_mm = Some s"
    "zone_inv demo_ext 0 F s" "free_blocks F 0 = merge (free_blocks demo_forest 0) 0 9"
    "frame demo_ext 0 UNIV demo_mm s" "same_roots 0 demo_forest F" "free_list F 0 j 1 = PageLru c # xs"
    using demo_upward unfolding freed_def by auto
  have m: "merge {(512, 9)} 0 9 = {(0, 10)}"
    by (subst merge.simps, subst merge.simps) (simp add: buddy_of_def MAX_ORDER_def)
  then have blocks: "free_blocks F 0 = {(0, 10)}" using s(3) by (simp add: demo_blocks)
  moreover have "(unat c, j) \<in> free_blocks F 0" using s(6) by (intro head_free_block) simp
  ultimately have "c = 0" "j = 10" by (simp_all add: unsigned_eq_0_iff)
  then show thesis using that [OF s(2) blocks _ s(4,1,5)] s(6) by simp
qed

lemma demo_merged_take:
  assumes "zone_inv demo_ext 0 F s" "free_list F 0 10 1 = PageLru 0 # xs" "frame demo_ext 0 UNIV demo_mm s"
    "free_blocks F 0 = {(0, 10)}"
  obtains t where "raw_rmqueue_smallest demo_ext 0 3 1 s = Some (Some 0, t)" "free_checks demo_ext 0 t 0"
    "frame demo_ext 0 UNIV s t"
proof -
  have "free_list F 0 j 1 = []" if "3 \<le> j" "j < 10" for j
  proof (rule ccontr)
    assume "free_list F 0 j 1 \<noteq> []"
    then obtain n ys where "free_list F 0 j 1 = n # ys" by (cases "free_list F 0 j 1") auto
    moreover from this obtain q where "n = PageLru q" using zone_invD(4) [OF assms(1), of n j 1] by auto
    ultimately have "(unat q, j) \<in> free_blocks F 0" by (intro head_free_block) simp
    with assms(4) that show False by simp
  qed
  then obtain t where t: "raw_rmqueue_smallest demo_ext 0 3 1 s = Some (Some 0, t)"
    "frame demo_ext 0 (insert 0 (upper_pages 0 3 10)) s t"
    using rmqueue_smallest_loop_some [OF demo_ext_ok assms(1) demo_mt, of 10 0 xs 3 3] assms(2)
    by (auto simp: raw_rmqueue_smallest_def MAX_ORDER_def)
  have "dom (mem_map t) = dom (mem_map demo_mm)" using frame_dom [OF t(2)] frame_dom [OF assms(3)] by simp
  moreover have "0 \<in> dom (mem_map demo_mm)" by (simp add: demo_mm_def dom_def)
  ultimately have "mem_map t 0 \<noteq> None" by blast
  moreover have "zone_at t 0 \<noteq> None" using t(2) by (auto simp: frame_def)
  ultimately have "free_checks demo_ext 0 t 0" by (auto simp: free_checks_def demo_ext_def)
  then show thesis using that [OF t(1)] frame_mono [OF t(2)] by simp
qed

theorem alloc_free_roundtrip_witness:
  "\<exists>F s p t u F'. zone_inv demo_ext 0 F s \<and> free_blocks F 0 = {(0, 10)}
     \<and> raw_rmqueue_smallest demo_ext 0 3 1 s = Some (Some p, t)
     \<and> raw_free_one_page demo_ext p (page_to_pfn demo_ext p) 0 3 1 t = Some u
     \<and> free_blocks F' 0 = {(0, 10)} \<and> zone_inv demo_ext 0 F' u"
proof -
  obtain F s xs where s: "zone_inv demo_ext 0 F s" "free_blocks F 0 = {(0, 10)}"
    "free_list F 0 10 1 = PageLru 0 # xs" "frame demo_ext 0 UNIV demo_mm s"
    using demo_merged .
  obtain t where t: "raw_rmqueue_smallest demo_ext 0 3 1 s = Some (Some 0, t)" "free_checks demo_ext 0 t 0"
    using demo_merged_take [OF s(1,3,4,2)] by blast
  have "coalesced (free_blocks F 0)" by (simp add: s(2) coalesced_def MAX_ORDER_def)
  moreover have "buddies_mapped s" "small_map s"
    using demo_buddies_mapped demo_small buddies_mapped_frame [OF s(4)] small_map_frame [OF s(4)] by simp_all
  from alloc_free_roundtrip [OF demo_ext_ok demo_flat s(1) demo_mt calculation this t demo_mt]
  obtain j where j: "if j < MAX_ORDER - 1 \<and> odd (unat (0 :: u64) div 2 ^ j)
     then raw_free_one_page demo_ext 0 (page_to_pfn demo_ext 0) 0 3 1 t = None
     else \<exists>u F'. raw_free_one_page demo_ext 0 (page_to_pfn demo_ext 0) 0 3 1 t = Some u
       \<and> zone_inv demo_ext 0 F' u \<and> free_blocks F' 0 = free_blocks F 0" by blast
  have n: "\<not> (j < MAX_ORDER - 1 \<and> odd (unat (0 :: u64) div 2 ^ j))" by simp
  obtain u F' where "raw_free_one_page demo_ext 0 (page_to_pfn demo_ext 0) 0 3 1 t = Some u"
    "zone_inv demo_ext 0 F' u" "free_blocks F' 0 = {(0, 10)}"
    using j unfolding if_not_P [OF n] s(2) by blast
  then show ?thesis
    using s(1,2) t(1)
    by (intro exI [of _ F] exI [of _ s] exI [of _ 0] exI [of _ t] exI [of _ u] exI [of _ F']) simp
qed

end
