(* ===== verification/Buddy_Fallback.thy ===== *)
theory Buddy_Fallback
  imports Buddy_Props
begin

text \<open>
  \<^verbatim>\<open>__rmqueue_fallback\<close>: which block is taken from another migration type, that pageblocks are
  never stolen, and what happens when there is no block at all.
\<close>

section \<open>The search for a migration type\<close>

definition fallback_types :: "int \<Rightarrow> int list" where
  "fallback_types mt = takeWhile (\<lambda>m. m \<noteq> MIGRATE_TYPES) (fallback_row mt)"

definition first_fallback :: "forest \<Rightarrow> nat \<Rightarrow> nat \<Rightarrow> int \<Rightarrow> int option" where
  "first_fallback F z k mt = find (\<lambda>m. free_list F z k m \<noteq> []) (fallback_types mt)"

definition is_pcp_type :: "int \<Rightarrow> bool" where
  "is_pcp_type mt \<longleftrightarrow> mt \<in> {MIGRATE_UNMOVABLE, MIGRATE_MOVABLE, MIGRATE_RECLAIMABLE}"

lemma pcp_rows:
  assumes "is_pcp_type mt"
  obtains a b where "fallback_row mt = [a, b, MIGRATE_TYPES, 0]" "fallback_types mt = [a, b]"
    "is_mt a" "is_mt b" "a \<noteq> MIGRATE_TYPES" "b \<noteq> MIGRATE_TYPES"
  using assms that
  by (auto simp: is_pcp_type_def fallback_types_def fallback_row_def is_mt_def migrate_defs)

lemma find_fallback_loop_spec:
  assumes inv: "zone_inv E z F s" and k: "k < MAX_ORDER" and mt: "is_pcp_type mt"
  shows "find_fallback_loop E z k mt False False 0 s = Some (case first_fallback F z k mt of
    None \<Rightarrow> (-1, False) | Some m \<Rightarrow> (m, can_steal_fallback E k mt))"
proof -
  obtain a b where r: "fallback_row mt = [a, b, MIGRATE_TYPES, 0]" "fallback_types mt = [a, b]"
    "is_mt a" "is_mt b" "a \<noteq> MIGRATE_TYPES" "b \<noteq> MIGRATE_TYPES"
    using pcp_rows [OF mt] by blast
  note e = free_list_head(1) [OF inv k r(3)] free_list_head(1) [OF inv k r(4)]
  show ?thesis
    by (subst find_fallback_loop.simps, subst find_fallback_loop.simps, subst find_fallback_loop.simps)
      (simp add: r e first_fallback_def Let_def)
qed

lemma of_nat_zero: "n < 2 ^ 32 \<Longrightarrow> (of_nat n :: ulong) = 0 \<longleftrightarrow> n = 0"
proof
  assume "n < 2 ^ 32" "(of_nat n :: ulong) = 0"
  then have "unat (of_nat n :: ulong) = 0" by simp
  with \<open>n < 2 ^ 32\<close> show "n = 0" by (simp add: unat_of_nat take_bit_nat_eq_self)
qed simp

lemma find_suitable_fallback_spec:
  assumes inv: "zone_inv E z F s" and k: "k < MAX_ORDER" and mt: "is_pcp_type mt"
    and few: "card (pages_in (free_blocks F z)) < 2 ^ 32"
  shows "\<exists>c. find_suitable_fallback E z k mt False cs s = Some (case first_fallback F z k mt of
    None \<Rightarrow> (-1, c) | Some m \<Rightarrow> (m, can_steal_fallback E k mt))"
proof -
  obtain zn where zn: "zone_at s z = Some zn" "length (z_free_area zn) = MAX_ORDER"
    "nr_free (z_free_area zn ! k) = of_nat (free_count F z k)"
    using zone_invD(6) [OF inv] k by (auto simp: counters_ok_def)
  have area: "area_at z k s = Some (z_free_area zn ! k)" using zn k by (simp add: area_at_def)
  have "free_count F z k * 2 ^ k \<le> free_total F z"
    unfolding free_total_def using k by (intro member_le_sum) auto
  moreover have "free_count F z k \<le> free_count F z k * 2 ^ k" by simp
  ultimately have "free_count F z k < 2 ^ 32"
    using few unfolding free_total_card(1) [OF inv, symmetric] by linarith
  then have zero: "nr_free (z_free_area zn ! k) = 0 \<longleftrightarrow> free_count F z k = 0"
    unfolding zn(3) by (rule of_nat_zero)
  show ?thesis
  proof (cases "free_count F z k = 0")
    case True
    then have "free_list F z k m = []" if "is_mt m" for m
      using that by (simp add: free_count_def is_mt_def)
    moreover obtain a b where "fallback_types mt = [a, b]" "is_mt a" "is_mt b"
      using pcp_rows [OF mt] by blast
    ultimately have "first_fallback F z k mt = None" by (simp add: first_fallback_def)
    then show ?thesis using True zero area by (simp add: find_suitable_fallback_def)
  next
    case False
    then show ?thesis
      using zero area find_fallback_loop_spec [OF inv k mt]
      by (cases "first_fallback F z k mt") (auto simp: find_suitable_fallback_def)
  qed
qed


section \<open>The loop\<close>

lemma steal_does_nothing:
  assumes "0 < pageblock_order E" "mem_map s p = Some pg" "page_order E pg = 0"
  shows "steal_suitable_fallback E z p mt s = Some s"
  using assms by (simp add: steal_suitable_fallback_def)

lemma pcp_is_mt: "is_pcp_type mt \<Longrightarrow> is_mt mt"
  by (auto simp: is_pcp_type_def is_mt_def migrate_defs)

lemma first_fallback_Some:
  assumes "first_fallback F z k mt = Some m" "is_pcp_type mt"
  shows "is_mt m" "free_list F z k m \<noteq> []" "m \<noteq> -1"
proof -
  obtain a b where "fallback_types mt = [a, b]" "is_mt a" "is_mt b"
    using pcp_rows [OF assms(2)] by blast
  then show "is_mt m" "free_list F z k m \<noteq> []"
    using assms(1) by (auto simp: first_fallback_def split: if_splits)
  then show "m \<noteq> -1" by (auto simp: is_mt_def)
qed

lemma unat_dec: "cur \<noteq> 0 \<Longrightarrow> unat (cur - 1) = unat cur - 1" for cur :: u32
  by (rule unat_minus_one)

lemma fallback_loop_none:
  assumes inv: "zone_inv E z F s" and mt: "is_pcp_type mt"
    and few: "card (pages_in (free_blocks F z)) < 2 ^ 32"
  shows "unat cur < MAX_ORDER \<Longrightarrow> (\<And>k. ord \<le> k \<Longrightarrow> k \<le> unat cur \<Longrightarrow> first_fallback F z k mt = None)
    \<Longrightarrow> rmqueue_fallback_loop E z ord mt cur cs s = (if ord = 0 then None else Some (None, s))"
proof (induction "unat cur" arbitrary: cur cs)
  case 0
  show ?case
  proof (cases "ord = 0")
    case True
    then have none: "first_fallback F z 0 mt = None" using 0 by auto
    have cur: "cur = 0" using 0(1) by (simp add: unsigned_eq_0_iff)
    obtain c where "find_suitable_fallback E z 0 mt False cs s = Some (-1, c)"
      using find_suitable_fallback_spec [OF inv _ mt few, of 0 cs] none by (auto simp: MAX_ORDER_def)
    moreover have "rmqueue_fallback_loop E z ord mt (-1) c s = None"
      using True by (subst rmqueue_fallback_loop.simps)
        (simp add: MAX_ORDER_def unsigned_minus_1_eq_mask mask_eq_exp_minus_1)
    ultimately show ?thesis
      using True cur by (subst rmqueue_fallback_loop.simps) (simp add: MAX_ORDER_def)
  next
    case False
    then show ?thesis using 0(1) by (subst rmqueue_fallback_loop.simps) simp
  qed
next
  case (Suc n)
  show ?case
  proof (cases "ord \<le> unat cur")
    case True
    obtain c where c: "find_suitable_fallback E z (unat cur) mt False cs s = Some (-1, c)"
      using find_suitable_fallback_spec [OF inv Suc(3) mt few, of cs] Suc(4) True by auto
    have dec: "unat (cur - 1) = n" using Suc(2) unat_dec [of cur] by (metis Suc_neq_Zero diff_Suc_1 unsigned_0)
    have "rmqueue_fallback_loop E z ord mt (cur - 1) c s = (if ord = 0 then None else Some (None, s))"
      using Suc dec by (intro Suc(1)) auto
    then show ?thesis
      using True Suc(3) c by (subst rmqueue_fallback_loop.simps) simp
  next
    case False
    then show ?thesis by (subst rmqueue_fallback_loop.simps) simp
  qed
qed

lemma fallback_loop_some:
  assumes ok: "mm_ext_ok E" and inv: "zone_inv E z F s" and mt: "is_pcp_type mt"
    and few: "card (pages_in (free_blocks F z)) < 2 ^ 32" and pb: "0 < pageblock_order E"
    and k: "ord \<le> k" "first_fallback F z k mt = Some m" "free_list F z k m = PageLru p # xs"
  shows "unat cur < MAX_ORDER \<Longrightarrow> k \<le> unat cur \<Longrightarrow>
    (\<And>j. k < j \<Longrightarrow> j \<le> unat cur \<Longrightarrow> first_fallback F z j mt = None) \<Longrightarrow>
    \<exists>v. rmqueue_fallback_loop E z ord mt cur cs s = Some (Some p, v)
    \<and> zone_inv E z (taken_forest F z p ord k m mt) v
    \<and> frame E z (insert p (upper_pages p ord k)) s v
    \<and> free_blocks (taken_forest F z p ord k m mt) z = split_block (free_blocks F z) (unat p) ord k
    \<and> unlisted (taken_forest F z p ord k m mt) (unat p) ord \<and> block_in E z v (unat p) ord"
proof (induction "unat cur - k" arbitrary: cur cs)
  case 0
  then have cur: "unat cur = k" by simp
  note m = first_fallback_Some [OF k(2) mt]
  have kM: "k < MAX_ORDER" using 0(2) cur by simp
  have find: "find_suitable_fallback E z k mt False cs s = Some (m, can_steal_fallback E k mt)"
    using find_suitable_fallback_spec [OF inv kM mt few, of cs] k(2) by auto
  note head = free_list_head(2) [OF inv kM m(1) k(3)]
  obtain t u v where t: "raw_del_page_from_free_list E p z k m s = Some t"
    "expand E z p ord k mt t = Some u"
    "upd_page p (\<lambda>pg. set_freepage_migratetype E pg mt) u = Some v"
    "\<exists>pg. mem_map t p = Some pg \<and> page_order E pg = 0"
    and v: "zone_inv E z (taken_forest F z p ord k m mt) v"
    "frame E z (insert p (upper_pages p ord k)) s v"
    "free_blocks (taken_forest F z p ord k m mt) z = split_block (free_blocks F z) (unat p) ord k"
    "unlisted (taken_forest F z p ord k m mt) (unat p) ord" "block_in E z v (unat p) ord"
    using take_block [OF ok inv _ pcp_is_mt [OF mt] k(1)] head by blast
  have "steal_suitable_fallback E z p mt t = Some t" using steal_does_nothing [OF pb] t(4) by blast
  then have "rmqueue_fallback_loop E z ord mt cur cs s = Some (Some p, v)"
    using find head t(1-3) m(3) kM k(1) cur
    by (subst rmqueue_fallback_loop.simps) (simp add: page_of_def)
  with v show ?case by blast
next
  case (Suc n)
  then have cur: "k < unat cur" "ord \<le> unat cur" using k(1) by simp_all
  obtain c where c: "find_suitable_fallback E z (unat cur) mt False cs s = Some (-1, c)"
    using find_suitable_fallback_spec [OF inv Suc(3) mt few, of cs] Suc(5) cur by auto
  have "cur \<noteq> 0" using cur(1) by auto
  then have dec: "unat (cur - 1) = unat cur - 1" by (rule unat_dec)
  have "rmqueue_fallback_loop E z ord mt cur cs s = rmqueue_fallback_loop E z ord mt (cur - 1) c s"
    using cur(2) Suc(3) c by (subst rmqueue_fallback_loop.simps) simp
  moreover have "n = unat (cur - 1) - k" using Suc(2) dec by simp
  ultimately show ?case
    using Suc(1) [of "cur - 1" c] Suc(3-5) dec cur by auto
qed

section \<open>Properties\<close>

lemma fallback_cases:
  obtains "\<And>k. ord \<le> k \<Longrightarrow> k < MAX_ORDER \<Longrightarrow> first_fallback F z k mt = None"
  | j m where "ord \<le> j" "j < MAX_ORDER" "first_fallback F z j mt = Some m"
      "\<And>k. j < k \<Longrightarrow> k < MAX_ORDER \<Longrightarrow> first_fallback F z k mt = None"
proof (cases "\<exists>k. ord \<le> k \<and> k < MAX_ORDER \<and> first_fallback F z k mt \<noteq> None")
  case True
  let ?S = "{k. ord \<le> k \<and> k < MAX_ORDER \<and> first_fallback F z k mt \<noteq> None}"
  have S: "finite ?S" "?S \<noteq> {}" using True by auto
  define j where "j = Max ?S"
  have "j \<in> ?S" unfolding j_def using S by (rule Max_in)
  then have j: "ord \<le> j" "j < MAX_ORDER" "first_fallback F z j mt \<noteq> None" by simp_all
  then obtain m where m: "first_fallback F z j mt = Some m" by blast
  have "first_fallback F z k mt = None" if k: "j < k" "k < MAX_ORDER" for k
  proof (rule ccontr)
    assume "first_fallback F z k mt \<noteq> None"
    with k j(1) have "k \<in> ?S" by simp
    from Max_ge [OF S(1) this] k(1) show False by (simp add: j_def)
  qed
  then show thesis by (rule that(2) [OF j(1,2) m])
next
  case False
  then show thesis using that(1) by blast
qed

lemma fallback_hit_spec:
  assumes "mm_ext_ok E" "zone_inv E z F s" "is_pcp_type mt" "0 < pageblock_order E"
    "card (pages_in (free_blocks F z)) < 2 ^ 32"
    and j: "ord \<le> j" "j < MAX_ORDER" "first_fallback F z j mt = Some m"
      "\<And>k. j < k \<Longrightarrow> k < MAX_ORDER \<Longrightarrow> first_fallback F z k mt = None"
  shows "\<exists>p xs t. free_list F z j m = PageLru p # xs
    \<and> raw_rmqueue_fallback E z ord mt cs s = Some (Some p, t)
    \<and> zone_inv E z (taken_forest F z p ord j m mt) t
    \<and> free_blocks (taken_forest F z p ord j m mt) z = split_block (free_blocks F z) (unat p) ord j
    \<and> (unat p, j) \<in> free_blocks F z
    \<and> free_ready E z (taken_forest F z p ord j m mt) t p ord
    \<and> frame E z (insert p (upper_pages p ord j)) s t"
proof -
  note m = first_fallback_Some [OF j(3) assms(3)]
  obtain n xs where n: "free_list F z j m = n # xs" using m(2) by (cases "free_list F z j m") auto
  then obtain p where p: "free_list F z j m = PageLru p # xs"
    using zone_invD(4) [OF assms(2), of n j m] by auto
  have inB: "(unat p, j) \<in> free_blocks F z" using p by (rule head_free_block)
  note wf = zone_invD(7) [OF assms(2)]
  let ?F = "taken_forest F z p ord j m mt"
  obtain t where t: "raw_rmqueue_fallback E z ord mt cs s = Some (Some p, t)" "zone_inv E z ?F t"
    "frame E z (insert p (upper_pages p ord j)) s t"
    "free_blocks ?F z = split_block (free_blocks F z) (unat p) ord j"
    "unlisted ?F (unat p) ord" "block_in E z t (unat p) ord"
    using fallback_loop_some [OF assms(1-3,5,4) j(1,3) p, of "of_nat (MAX_ORDER - 1)" cs] j(2,4)
    unfolding raw_rmqueue_fallback_def by (auto simp: MAX_ORDER_def)
  have "2 ^ ord dvd unat p"
    using blocks_wfD(2) [OF wf inB] j(1) by (meson dvd_trans le_imp_power_dvd)
  moreover have "block (unat p) ord \<inter> pages_in (free_blocks ?F z) = {}"
    using split_spec(2) [OF wf inB j(1)] t(4) by auto
  ultimately have "free_ready E z ?F t p ord" using t(5,6) by (simp add: free_ready_def)
  then show ?thesis using p t(1-4) inB by blast
qed

lemma fallback_none_spec:
  assumes "zone_inv E z F s" "is_pcp_type mt" "card (pages_in (free_blocks F z)) < 2 ^ 32"
    "\<And>k. ord \<le> k \<Longrightarrow> k < MAX_ORDER \<Longrightarrow> first_fallback F z k mt = None"
  shows "raw_rmqueue_fallback E z ord mt cs s = (if ord = 0 then None else Some (None, s))"
  unfolding raw_rmqueue_fallback_def
  using assms(4) by (intro fallback_loop_none [OF assms(1-3)]) (auto simp: MAX_ORDER_def)

text \<open>
  C10: \<^verbatim>\<open>__rmqueue_fallback\<close> for a movable, unmovable or reclaimable request, with pageblocks of
  positive order.  When a list of a fallback type has a block of at least the wanted order it
  takes the head \<open>p\<close> of the list of the first such type \<open>m\<close> at the largest such order \<open>j\<close>: that list
  loses its head, the requested type's lists below \<open>j\<close> get the upper halves in front, and every
  other list of every type is as it was, so no pageblock is stolen
  (\<^verbatim>\<open>steal_suitable_fallback\<close> reads the order of the page after it was reset to 0).  Only the page
  structures of the block and its halves change; the result is an aligned block, the invariant
  holds afterwards and exactly these pages are no longer free.  When there is no such block it
  returns \<^verbatim>\<open>NULL\<close> for a positive order, but for order 0 the unsigned loop counter wraps around and
  the code accesses \<^verbatim>\<open>free_area[4294967295]\<close>.
\<close>

theorem rmqueue_fallback_correct:
  assumes "mm_ext_ok E" "zone_inv E z F s" "is_pcp_type mt" "0 < pageblock_order E"
    "card (pages_in (free_blocks F z)) < 2 ^ 32"
  shows "if \<forall>k. ord \<le> k \<and> k < MAX_ORDER \<longrightarrow> first_fallback F z k mt = None
    then raw_rmqueue_fallback E z ord mt cs s = (if ord = 0 then None else Some (None, s))
    else \<exists>j m p xs t F'. raw_rmqueue_fallback E z ord mt cs s = Some (Some p, t)
      \<and> zone_inv E z F' t \<and> 2 ^ ord dvd unat p \<and> ord \<le> j \<and> first_fallback F z j mt = Some m
      \<and> (\<forall>k. j < k \<and> k < MAX_ORDER \<longrightarrow> first_fallback F z k mt = None)
      \<and> free_list F z j m = PageLru p # xs
      \<and> (\<forall>k m'. free_list F' z k m' = (if k = j \<and> m' = m then xs
           else if m' = mt \<and> ord \<le> k \<and> k < j then PageLru (p + 2 ^ k) # free_list F z k mt
           else free_list F z k m'))
      \<and> pages_in (free_blocks F' z) = pages_in (free_blocks F z) - block (unat p) ord
      \<and> (coalesced (free_blocks F z) \<longrightarrow> coalesced (free_blocks F' z))
      \<and> frame E z (insert p (upper_pages p ord j)) s t"
proof (cases rule: fallback_cases [where ord = ord and F = F and z = z and mt = mt])
  case 1
  with fallback_none_spec [OF assms(2,3,5) 1] show ?thesis by simp
next
  case (2 j m)
  note wf = zone_invD(7) [OF assms(2)]
  obtain p xs t where p: "free_list F z j m = PageLru p # xs" "(unat p, j) \<in> free_blocks F z"
    and t: "raw_rmqueue_fallback E z ord mt cs s = Some (Some p, t)"
      "zone_inv E z (taken_forest F z p ord j m mt) t"
      "free_blocks (taken_forest F z p ord j m mt) z = split_block (free_blocks F z) (unat p) ord j"
      "2 ^ ord dvd unat p" "frame E z (insert p (upper_pages p ord j)) s t"
    using fallback_hit_spec [OF assms 2, of cs] by (auto simp: free_ready_def)
  have "\<not> (\<forall>k. ord \<le> k \<and> k < MAX_ORDER \<longrightarrow> first_fallback F z k mt = None)" using 2 by auto
  moreover have "\<forall>k m'. free_list (taken_forest F z p ord j m mt) z k m' = (if k = j \<and> m' = m then xs
      else if m' = mt \<and> ord \<le> k \<and> k < j then PageLru (p + 2 ^ k) # free_list F z k mt
      else free_list F z k m')"
    by (simp add: taken_lists [OF p(1)])
  moreover have "\<forall>k. j < k \<and> k < MAX_ORDER \<longrightarrow> first_fallback F z k mt = None" using 2(4) by blast
  moreover note split_spec(2) [OF wf p(2) 2(1), folded t(3)] split_coalesced [OF wf p(2) 2(1), folded t(3)]
  ultimately show ?thesis
    using t(1,2,4,5) 2(1,3) p(1)
    by (simp only: if_False) (intro exI [of _ j] exI [of _ m] exI [of _ p] exI [of _ xs] exI [of _ t]
        exI [of _ "taken_forest F z p ord j m mt"], blast)
qed

theorem rmqueue_fallback_correct_witness:
  "\<exists>t F'. raw_rmqueue_fallback demo_ext 0 2 MIGRATE_UNMOVABLE False demo_mm = Some (Some 512, t)
     \<and> zone_inv demo_ext 0 F' t \<and> pages_in (free_blocks F' 0) = {512..<1024} - block 512 2
     \<and> free_list F' 0 9 1 = [] \<and> free_list F' 0 8 1 = [] \<and> free_list F' 0 8 MIGRATE_UNMOVABLE = [PageLru 768]"
proof -
  have f: "first_fallback demo_forest 0 k MIGRATE_UNMOVABLE = (if k = 9 then Some 1 else None)" for k
    by (simp add: first_fallback_def fallback_types_def fallback_row_def demo_free_list migrate_defs)
  then have ne: "(\<forall>k. 2 \<le> k \<and> k < MAX_ORDER \<longrightarrow> first_fallback demo_forest 0 k MIGRATE_UNMOVABLE = None) = False"
    using exI [of "\<lambda>k. 2 \<le> k \<and> k < MAX_ORDER \<and> first_fallback demo_forest 0 k MIGRATE_UNMOVABLE \<noteq> None" 9]
    by (auto simp: MAX_ORDER_def)
  have "is_pcp_type MIGRATE_UNMOVABLE" by (simp add: is_pcp_type_def)
  moreover have "0 < pageblock_order demo_ext" by (simp add: demo_ext_def)
  moreover have "pages_in (free_blocks demo_forest 0) = {512..<1024}"
    by (simp add: demo_blocks demo_block)
  ultimately obtain j m p xs t F' where *: "raw_rmqueue_fallback demo_ext 0 2 MIGRATE_UNMOVABLE False demo_mm = Some (Some p, t)"
    "zone_inv demo_ext 0 F' t" "first_fallback demo_forest 0 j MIGRATE_UNMOVABLE = Some m"
    "free_list demo_forest 0 j m = PageLru p # xs"
    "\<forall>k m'. free_list F' 0 k m' = (if k = j \<and> m' = m then xs
       else if m' = MIGRATE_UNMOVABLE \<and> 2 \<le> k \<and> k < j
       then PageLru (p + 2 ^ k) # free_list demo_forest 0 k MIGRATE_UNMOVABLE else free_list demo_forest 0 k m')"
    "pages_in (free_blocks F' 0) = {512..<1024} - block (unat p) 2"
    using rmqueue_fallback_correct [OF demo_ext_ok demo_inv, of MIGRATE_UNMOVABLE 2 False]
    unfolding ne if_False by auto
  moreover have "j = 9" "m = 1" using *(3) by (auto simp: f split: if_splits)
  moreover from this have "p = 512" "xs = []" using *(4) by (simp_all add: demo_free_list)
  ultimately show ?thesis
    by (intro exI [of _ t] exI [of _ F']) (simp add: demo_free_list migrate_defs)
qed

end
