(* ===== verification/Buddy_Zone.thy ===== *)
theory Buddy_Zone
  imports Buddy_Fallback
begin

text \<open>
  \<^verbatim>\<open>init_zone\<close> establishes the invariant that the other operations of \<^verbatim>\<open>buddy.c\<close> keep;
  \<^verbatim>\<open>rmqueue\<close> keeps it under the zone lock; and the addresses that \<^verbatim>\<open>__get_free_pages\<close> returns.
\<close>

section \<open>Loops that initialise list heads\<close>

definition empty_roots :: "node set \<Rightarrow> forest \<Rightarrow> forest" where
  "empty_roots R F = (\<lambda>r. if r \<in> R then Some [] else F r)"

lemma empty_roots_insert: "empty_roots (insert r R) F = (empty_roots R F)(r \<mapsto> [])"
  by (auto simp: empty_roots_def)

lemma members_empty_roots: "members (empty_roots R F) \<subseteq> members F \<union> R"
proof
  fix x assume "x \<in> members (empty_roots R F)"
  then obtain r xs where r: "empty_roots R F r = Some xs" "x \<in> set (r # xs)" by (auto simp: members_iff)
  show "x \<in> members F \<union> R"
  proof (cases "r \<in> R")
    case False
    then have "F r = Some xs" using r(1) by (simp add: empty_roots_def)
    then show ?thesis using members_I [of F r xs] r(2) by blast
  qed (use r in \<open>simp add: empty_roots_def\<close>)
qed

lemma init_heads:
  assumes "lists (nodes s) (empty_roots R F)" "distinct (map g ns)"
    "\<And>n. n \<in> set ns \<Longrightarrow> g n \<in> dom (nodes s) \<and> g n \<notin> members F \<union> R"
  shows "\<exists>h. for_each (\<lambda>n. upd_nodes (INIT_LIST_HEAD (At (g n)))) ns s = Some (s\<lparr>nodes := h\<rparr>)
    \<and> lists h (empty_roots (R \<union> g ` set ns) F) \<and> dom h = dom (nodes s)"
  using assms
proof (induction ns arbitrary: s R)
  case Nil
  then show ?case by (auto intro!: exI [of _ "nodes s"])
next
  case (Cons n ns)
  have "g n \<notin> members (empty_roots R F)" using Cons.prems(3) [of n] members_empty_roots [of R F] by auto
  then obtain h where h: "INIT_LIST_HEAD (At (g n)) (nodes s) = Some h"
    "lists h (empty_roots (insert (g n) R) F)" "dom h = dom (nodes s)"
    using lh.init_ok [OF Cons.prems(1)] Cons.prems(3) [of n] unfolding empty_roots_insert by auto
  have "\<exists>h'. for_each (\<lambda>n. upd_nodes (INIT_LIST_HEAD (At (g n)))) ns (s\<lparr>nodes := h\<rparr>)
      = Some (s\<lparr>nodes := h\<rparr>\<lparr>nodes := h'\<rparr>)
    \<and> lists h' (empty_roots (insert (g n) R \<union> g ` set ns) F) \<and> dom h' = dom (nodes (s\<lparr>nodes := h\<rparr>))"
  proof (intro Cons.IH)
    show "g m \<in> dom (nodes (s\<lparr>nodes := h\<rparr>)) \<and> g m \<notin> members F \<union> insert (g n) R" if "m \<in> set ns" for m
    proof -
      have "g m \<noteq> g n" using Cons.prems(2) imageI [OF that, of g] by auto
      then show ?thesis using Cons.prems(3) [of m] that h(3) by simp
    qed
  qed (use Cons.prems h in simp_all)
  moreover have "upd_nodes (INIT_LIST_HEAD (At (g n))) s = Some (s\<lparr>nodes := h\<rparr>)"
    using h(1) by (simp add: upd_nodes_def)
  ultimately show ?case using h(3) by auto
qed

definition free_roots :: "nat \<Rightarrow> nat set \<Rightarrow> node set" where
  "free_roots z K = {FreeList z k mt | k mt. k \<in> K \<and> is_mt mt}"

lemma mt_range: "(\<lambda>mt. FreeList z k (int mt)) ` set [0..<nat MIGRATE_TYPES] = free_roots z {k}"
proof -
  have "\<exists>n < 6. mt = int n" if "0 \<le> mt" "mt < 6" for mt
    using that by (intro exI [of _ "nat mt"]) auto
  then show ?thesis by (auto simp: free_roots_def is_mt_def MIGRATE_TYPES_def image_iff Bex_def)
qed

text \<open>One order: its list heads become empty lists and its counter zero.\<close>

definition cleared_area :: "zone \<Rightarrow> nat \<Rightarrow> zone" where
  "cleared_area zn k = zn\<lparr>z_free_area := (z_free_area zn)[k := (z_free_area zn ! k)\<lparr>nr_free := 0\<rparr>]\<rparr>"

lemma init_order:
  assumes "zone_at s z = Some zn" "lists (nodes s) (empty_roots (free_roots z K) F)" "k \<notin> K" "k < length (z_free_area zn)"
    and roots: "\<And>r. r \<in> free_roots z {k} \<Longrightarrow> r \<in> dom (nodes s) \<and> r \<notin> members F"
  shows "\<exists>h. do {
      s \<leftarrow> for_each (\<lambda>mt. upd_nodes (INIT_LIST_HEAD (At (FreeList z k (int mt)))))
             [0..<nat MIGRATE_TYPES] s;
      upd_area z k (\<lambda>a. a\<lparr>nr_free := 0\<rparr>) s }
    = Some (s\<lparr>nodes := h, zone_at := (zone_at s)(z \<mapsto> cleared_area zn k)\<rparr>)
    \<and> lists h (empty_roots (free_roots z (insert k K)) F) \<and> dom h = dom (nodes s)"
proof -
  let ?g = "\<lambda>mt. FreeList z k (int mt)"
  have "free_roots z {k} \<inter> free_roots z K = {}" using assms(3) by (auto simp: free_roots_def)
  then have "?g n \<in> dom (nodes s) \<and> ?g n \<notin> members F \<union> free_roots z K"
    if "n \<in> set [0..<nat MIGRATE_TYPES]" for n
    using imageI [OF that, of ?g] mt_range [of z k] roots by blast
  moreover have "distinct (map ?g [0..<nat MIGRATE_TYPES])" by (simp add: distinct_map inj_on_def)
  ultimately obtain h where h: "for_each (\<lambda>mt. upd_nodes (INIT_LIST_HEAD (At (?g mt)))) [0..<nat MIGRATE_TYPES] s
      = Some (s\<lparr>nodes := h\<rparr>)"
    "lists h (empty_roots (free_roots z K \<union> free_roots z {k}) F)" "dom h = dom (nodes s)"
    using init_heads [OF assms(2), of ?g "[0..<nat MIGRATE_TYPES]"] unfolding mt_range by blast
  moreover have "free_roots z K \<union> free_roots z {k} = free_roots z (insert k K)"
    by (auto simp: free_roots_def)
  ultimately show ?thesis using assms(1,4) by (intro exI [of _ h]) (simp add: upd_area_Some cleared_area_def)
qed

lemma init_orders:
  assumes "zone_at s z = Some zn" "lists (nodes s) (empty_roots (free_roots z K) F)"
    "distinct ks" "set ks \<inter> K = {}" "\<And>k. k \<in> set ks \<Longrightarrow> k < length (z_free_area zn)"
    "\<And>r. r \<in> free_roots z (set ks) \<Longrightarrow> r \<in> dom (nodes s) \<and> r \<notin> members F"
  shows "\<exists>h fa. for_each (\<lambda>ord s. do {
      s \<leftarrow> for_each (\<lambda>mt. upd_nodes (INIT_LIST_HEAD (At (FreeList z ord (int mt)))))
             [0..<nat MIGRATE_TYPES] s;
      upd_area z ord (\<lambda>a. a\<lparr>nr_free := 0\<rparr>) s }) ks s
    = Some (s\<lparr>nodes := h, zone_at := (zone_at s)(z \<mapsto> zn\<lparr>z_free_area := fa\<rparr>)\<rparr>)
    \<and> lists h (empty_roots (free_roots z (K \<union> set ks)) F) \<and> dom h = dom (nodes s)
    \<and> length fa = length (z_free_area zn) \<and> (\<forall>k \<in> set ks. nr_free (fa ! k) = 0)
    \<and> (\<forall>k. k \<notin> set ks \<longrightarrow> fa ! k = z_free_area zn ! k)"
  using assms
proof (induction ks arbitrary: s K zn)
  case Nil
  have "(zone_at s)(z \<mapsto> zn) = zone_at s" using Nil(1) by auto
  with Nil show ?case
    by (intro exI [of _ "nodes s"] exI [of _ "z_free_area zn"]) simp
next
  case (Cons k ks)
  let ?zn = "cleared_area zn k"
  have roots: "r \<in> free_roots z (set (k # ks))" if "r \<in> free_roots z {k} \<or> r \<in> free_roots z (set ks)" for r
    using that by (auto simp: free_roots_def)
  obtain h where h: "(\<lambda>ord s. do {
      s \<leftarrow> for_each (\<lambda>mt. upd_nodes (INIT_LIST_HEAD (At (FreeList z ord (int mt)))))
             [0..<nat MIGRATE_TYPES] s;
      upd_area z ord (\<lambda>a. a\<lparr>nr_free := 0\<rparr>) s }) k s
      = Some (s\<lparr>nodes := h, zone_at := (zone_at s)(z \<mapsto> ?zn)\<rparr>)"
    "lists h (empty_roots (free_roots z (insert k K)) F)" "dom h = dom (nodes s)"
    using init_order [OF Cons.prems(1,2), of k] Cons.prems(4-6) roots by auto
  let ?u = "s\<lparr>nodes := h, zone_at := (zone_at s)(z \<mapsto> ?zn)\<rparr>"
  have "zone_at ?u z = Some ?zn" "lists (nodes ?u) (empty_roots (free_roots z (insert k K)) F)"
    "distinct ks" "set ks \<inter> insert k K = {}" "\<And>j. j \<in> set ks \<Longrightarrow> j < length (z_free_area ?zn)"
    "\<And>r. r \<in> free_roots z (set ks) \<Longrightarrow> r \<in> dom (nodes ?u) \<and> r \<notin> members F"
    using h(2,3) Cons.prems(3-6) roots by (auto simp: cleared_area_def)
  from Cons.IH [OF this] obtain h' fa where *: "for_each (\<lambda>ord s. do {
      s \<leftarrow> for_each (\<lambda>mt. upd_nodes (INIT_LIST_HEAD (At (FreeList z ord (int mt)))))
             [0..<nat MIGRATE_TYPES] s;
      upd_area z ord (\<lambda>a. a\<lparr>nr_free := 0\<rparr>) s }) ks ?u
    = Some (?u\<lparr>nodes := h', zone_at := (zone_at ?u)(z \<mapsto> ?zn\<lparr>z_free_area := fa\<rparr>)\<rparr>)"
    "lists h' (empty_roots (free_roots z (insert k K \<union> set ks)) F)" "dom h' = dom (nodes ?u)"
    "length fa = length (z_free_area ?zn)" "\<forall>k \<in> set ks. nr_free (fa ! k) = 0"
    "\<forall>k. k \<notin> set ks \<longrightarrow> fa ! k = z_free_area ?zn ! k"
    by blast
  have fa: "\<forall>j \<in> set (k # ks). nr_free (fa ! j) = 0" "\<forall>j. j \<notin> set (k # ks) \<longrightarrow> fa ! j = z_free_area zn ! j"
    using *(5,6) Cons.prems(3,5) by (auto simp: cleared_area_def)
  have eq: "?u\<lparr>nodes := h', zone_at := (zone_at ?u)(z \<mapsto> ?zn\<lparr>z_free_area := fa\<rparr>)\<rparr>
      = s\<lparr>nodes := h', zone_at := (zone_at s)(z \<mapsto> zn\<lparr>z_free_area := fa\<rparr>)\<rparr>"
    by (simp add: cleared_area_def)
  have len: "length fa = length (z_free_area zn)" "dom h' = dom (nodes s)"
    using *(3,4) h(3) by (simp_all add: cleared_area_def)
  have run: "for_each (\<lambda>ord s. do {
      s \<leftarrow> for_each (\<lambda>mt. upd_nodes (INIT_LIST_HEAD (At (FreeList z ord (int mt)))))
             [0..<nat MIGRATE_TYPES] s;
      upd_area z ord (\<lambda>a. a\<lparr>nr_free := 0\<rparr>) s }) (k # ks) s
    = Some (s\<lparr>nodes := h', zone_at := (zone_at s)(z \<mapsto> zn\<lparr>z_free_area := fa\<rparr>)\<rparr>)"
    using h(1) *(1) unfolding eq by simp
  have lists: "lists h' (empty_roots (free_roots z (K \<union> set (k # ks))) F)" using *(2) by simp
  show ?case using run lists len fa by blast
qed


section \<open>init_zone\<close>

text \<open>
  What \<^verbatim>\<open>init_zone\<close> needs: the lists of the heap before it, the zone's list heads off every list,
  a structure with all its free areas, no page of the zone marked as free, and the lock of the
  zone table free.
\<close>

definition zone_roots :: "nat \<Rightarrow> node set" where
  "zone_roots z = free_roots z {..<MAX_ORDER} \<union> LruList z ` {..<NR_LRU_LISTS}"

definition lock_is_free :: "spinlock_t \<Rightarrow> bool" where
  "lock_is_free l \<longleftrightarrow> sl_magic l = SPINLOCK_MAGIC \<and> sl_lock l = SPINLOCK_UNLOCKED
     \<and> owner_cpu l = NO_CPU \<and> sl_owner l = None"

definition init_ready :: "mm mm_ext \<Rightarrow> nat \<Rightarrow> forest \<Rightarrow> mm \<Rightarrow> bool" where
  "init_ready E z F s \<longleftrightarrow> lists (nodes s) F
     \<and> (\<forall>r \<in> zone_roots z. r \<in> dom (nodes s) \<and> r \<notin> members F)
     \<and> (\<forall>k mt. F (FreeList z k mt) = None)
     \<and> (\<forall>p \<in> dom (mem_map s). PageLru p \<in> dom (nodes s))
     \<and> (\<forall>p k. \<not> free_page_ok E z s p k)
     \<and> (\<exists>zn. zone_at s z = Some zn \<and> length (z_free_area zn) = MAX_ORDER)
     \<and> lock_is_free (zone_lock s) \<and> length (zones s) = MAX_NR_ZONES E"

text \<open>Whatever is passed as the saved flags is what the unlock writes to the register.\<close>

lemma lock_roundtrip:
  assumes "lock_is_free l"
  obtains l' saved r' where "spin_lock_irqsave smp_processor_id ra l rf = Some (Inr (l', saved, r'))"
    "\<And>flags. spin_unlock_irqrestore smp_processor_id l' flags r' = Inr (l, ucast flags)"
proof -
  have "l\<lparr>sl_owner := None\<rparr> = l" using assms by (simp add: lock_is_free_def)
  then show thesis
    using assms that
    by (auto simp: lock_is_free_def spin_lock_irqsave_def spin_unlock_irqrestore_def local_irq_save_def
        local_irq_restore_def spin_lock_def spin_unlock_def spin_acquire.simps)
qed

definition entered :: "mm mm_ext \<Rightarrow> nat \<Rightarrow> mm \<Rightarrow> mm" where
  "entered E z s = (if nr_zones s < MAX_NR_ZONES E
     then s\<lparr>zones := (zones s)[nr_zones s := Some z], nr_zones := nr_zones s + 1\<rparr> else s)
     \<lparr>rflags := ucast (uninit_flags E)\<rparr>"

lemma register_zone_ok:
  assumes "lock_is_free (zone_lock s)"
  shows "register_zone E z s = Some (entered E z s)"
proof -
  obtain l saved r where
    "spin_lock_irqsave smp_processor_id (return_addr s) (zone_lock s) (rflags s) = Some (Inr (l, saved, r))"
    "\<And>flags. spin_unlock_irqrestore smp_processor_id l flags r = Inr (zone_lock s, ucast flags)"
    using lock_roundtrip [OF assms, of "return_addr s"] by blast
  then show ?thesis by (simp add: register_zone_def Let_def entered_def)
qed

lemma empty_zone_inv:
  assumes "lists (nodes s) G" "\<And>k mt. G (FreeList z k mt) = (if k < MAX_ORDER \<and> is_mt mt then Some [] else None)"
    "\<forall>p \<in> dom (mem_map s). PageLru p \<in> dom (nodes s)" "\<And>p k. \<not> free_page_ok E z s p k"
    "zone_at s z = Some zn" "length (z_free_area zn) = MAX_ORDER"
    "\<And>k. k < MAX_ORDER \<Longrightarrow> nr_free (z_free_area zn ! k) = 0" "z_free_pages zn = 0"
  shows "zone_inv E z G s \<and> free_blocks G z = {}"
proof -
  have "free_list G z k mt = []" for k mt by (simp add: free_list_def assms(2))
  then have "free_blocks G z = {}" "free_count G z k = 0" "free_total G z = 0"
    "free_list G z k mt = []" for k mt
    by (simp_all add: free_blocks_def listed_def free_count_def free_total_def)
  then show ?thesis
    using assms by (auto simp: zone_inv_def has_free_lists_def counters_ok_def blocks_wf_def)
qed

definition initialised :: "zone \<Rightarrow> ulong \<Rightarrow> ulong \<Rightarrow> free_area list \<Rightarrow> zone" where
  "initialised zn start_pfn len fa = zn\<lparr>zone_start_pfn := start_pfn, spanned_pages := len,
     present_pages := len, managed_pages := len, z_lock := spin_lock_init (z_lock zn),
     lru_lock := spin_lock_init (lru_lock zn), z_free_area := fa, watermark_min := len div 256,
     watermark_low := len div 128, watermark_high := len div 64, z_free_pages := 0, pages_scanned := 0,
     compact_cached_free_pfn := start_pfn, compact_cached_migrate_pfn := [start_pfn, start_pfn],
     compact_init_migrate_pfn := start_pfn, compact_init_free_pfn := start_pfn + len,
     compact_considered := 0, compact_defer_shift := 0, compact_order_failed := -1,
     wait_table := None, wait_table_hash_nr_entries := 0, wait_table_bits := 0\<rparr>"

lemma init_free_lists_run:
  assumes "init_ready E z F s" "zone_at s z = Some zn" "zone_at s1 z = Some zn1"
    "nodes s1 = nodes s" "z_free_area zn1 = z_free_area zn"
  shows "\<exists>h fa. init_free_lists z s1
      = Some (s1\<lparr>nodes := h, zone_at := (zone_at s1)(z \<mapsto> zn1\<lparr>z_free_area := fa\<rparr>)\<rparr>)
    \<and> lists h (empty_roots (free_roots z {..<MAX_ORDER}) F) \<and> dom h = dom (nodes s)
    \<and> length fa = MAX_ORDER \<and> (\<forall>k < MAX_ORDER. nr_free (fa ! k) = 0)"
proof -
  note r = assms(1) [unfolded init_ready_def]
  have "empty_roots (free_roots z {}) F = F" by (simp add: empty_roots_def free_roots_def)
  then have F1: "lists (nodes s1) (empty_roots (free_roots z {}) F)" using r assms(4) by simp
  have len: "length (z_free_area zn1) = MAX_ORDER" using r assms(2,5) by auto
  have up: "{} \<union> set [0..<MAX_ORDER] = {..<MAX_ORDER}" by auto
  have "\<exists>h fa. init_free_lists z s1
      = Some (s1\<lparr>nodes := h, zone_at := (zone_at s1)(z \<mapsto> zn1\<lparr>z_free_area := fa\<rparr>)\<rparr>)
    \<and> lists h (empty_roots (free_roots z ({} \<union> set [0..<MAX_ORDER])) F) \<and> dom h = dom (nodes s1)
    \<and> length fa = length (z_free_area zn1) \<and> (\<forall>k \<in> set [0..<MAX_ORDER]. nr_free (fa ! k) = 0)
    \<and> (\<forall>k. k \<notin> set [0..<MAX_ORDER] \<longrightarrow> fa ! k = z_free_area zn1 ! k)"
    unfolding init_free_lists_def
    using r assms(2-5) by (intro init_orders [OF _ F1]) (auto simp: zone_roots_def free_roots_def)
  then show ?thesis unfolding up len assms(4) by (metis atLeastLessThan_iff set_upt zero_le)
qed

lemma init_zone_run:
  assumes "init_ready E z F s" "zone_at s z = Some zn"
  shows "\<exists>h fa. init_zone E (Some z) start_pfn len s = Some (0, entered E z
      (s\<lparr>nodes := h, zone_at := (zone_at s)(z \<mapsto> initialised zn start_pfn len fa)\<rparr>))
    \<and> lists h (empty_roots (zone_roots z) F) \<and> dom h = dom (nodes s)
    \<and> length fa = MAX_ORDER \<and> (\<forall>k < MAX_ORDER. nr_free (fa ! k) = 0)"
proof -
  note r = assms(1) [unfolded init_ready_def]
  define zn1 where "zn1 = zn\<lparr>zone_start_pfn := start_pfn, spanned_pages := len, present_pages := len,
    managed_pages := len, z_lock := spin_lock_init (z_lock zn), lru_lock := spin_lock_init (lru_lock zn)\<rparr>"
  define s1 where "s1 = s\<lparr>zone_at := (zone_at s)(z \<mapsto> zn1)\<rparr>"
  obtain h fa where h: "init_free_lists z s1
      = Some (s1\<lparr>nodes := h, zone_at := (zone_at s1)(z \<mapsto> zn1\<lparr>z_free_area := fa\<rparr>)\<rparr>)"
    "lists h (empty_roots (free_roots z {..<MAX_ORDER}) F)" "dom h = dom (nodes s)"
    "length fa = MAX_ORDER" "\<forall>k < MAX_ORDER. nr_free (fa ! k) = 0"
    using init_free_lists_run [OF assms, of s1 zn1] by (auto simp: s1_def zn1_def)
  define zn2 where "zn2 = zn1\<lparr>z_free_area := fa, watermark_min := len div 256,
    watermark_low := len div 128, watermark_high := len div 64, z_free_pages := 0, pages_scanned := 0\<rparr>"
  define s2 where "s2 = s1\<lparr>nodes := h, zone_at := (zone_at s1)(z \<mapsto> zn2)\<rparr>"
  have "\<exists>h'. for_each (\<lambda>l. upd_nodes (INIT_LIST_HEAD (At (LruList z l)))) [0..<NR_LRU_LISTS] s2
      = Some (s2\<lparr>nodes := h'\<rparr>)
    \<and> lists h' (empty_roots (free_roots z {..<MAX_ORDER} \<union> LruList z ` set [0..<NR_LRU_LISTS]) F)
    \<and> dom h' = dom (nodes s2)"
    using r h(2,3) by (intro init_heads)
      (auto simp: s2_def zone_roots_def free_roots_def distinct_map inj_on_def)
  then obtain h' where h': "for_each (\<lambda>l. upd_nodes (INIT_LIST_HEAD (At (LruList z l)))) [0..<NR_LRU_LISTS] s2
      = Some (s2\<lparr>nodes := h'\<rparr>)" "lists h' (empty_roots (zone_roots z) F)" "dom h' = dom (nodes s)"
    using h(3) by (auto simp: s2_def zone_roots_def lessThan_atLeast0)
  define s3 where "s3 = s\<lparr>nodes := h', zone_at := (zone_at s)(z \<mapsto> initialised zn start_pfn len fa)\<rparr>"
  have "lock_is_free (zone_lock s3)" using r by (simp add: s3_def)
  from register_zone_ok [OF this, of E z] have "register_zone E z s3 = Some (entered E z s3)" .
  then have "init_zone E (Some z) start_pfn len s = Some (0, entered E z s3)"
    using h(1) h'(1) assms(2)
    by (simp add: init_zone_def upd_zone_def s1_def [symmetric] zn1_def [symmetric])
      (simp add: s1_def s2_def s3_def zn2_def zn1_def initialised_def)
  then show ?thesis using h'(2,3) h(4,5) unfolding s3_def by blast
qed

text \<open>
  C32: \<^verbatim>\<open>init_zone\<close> on a zone structure returns 0 with the zone's invariant established and no page
  free, the frame range and the watermarks set from the arguments, the zone entered in the
  table if there is room, and the table's lock as before; the flag register holds what the
  uninitialised local \<^verbatim>\<open>flags\<close> contained.  On \<^verbatim>\<open>NULL\<close> it returns the negated error code, which is
  the positive number 3, and changes nothing.
\<close>

theorem init_zone_establishes:
  assumes "init_ready E z F s"
  shows "(\<exists>t G zn. init_zone E (Some z) start_pfn len s = Some (0, t)
      \<and> zone_inv E z G t \<and> free_blocks G z = {} \<and> zone_at t z = Some zn
      \<and> zone_start_pfn zn = start_pfn \<and> spanned_pages zn = len \<and> managed_pages zn = len
      \<and> watermark_min zn = len div 256 \<and> watermark_low zn = len div 128 \<and> watermark_high zn = len div 64
      \<and> compact_init_free_pfn zn = start_pfn + len \<and> sl_lock (z_lock zn) = SPINLOCK_UNLOCKED
      \<and> (nr_zones s < MAX_NR_ZONES E \<longrightarrow> zones t ! nr_zones s = Some z \<and> nr_zones t = nr_zones s + 1)
      \<and> zone_lock t = zone_lock s \<and> rflags t = ucast (uninit_flags E) \<and> mem_map t = mem_map s
      \<and> (\<forall>y. y \<noteq> z \<longrightarrow> zone_at t y = zone_at s y))
    \<and> init_zone E None start_pfn len s = Some (3, s)"
proof -
  note r = assms [unfolded init_ready_def]
  obtain zn where zn: "zone_at s z = Some zn" using r by blast
  obtain h fa where run: "init_zone E (Some z) start_pfn len s = Some (0, entered E z
      (s\<lparr>nodes := h, zone_at := (zone_at s)(z \<mapsto> initialised zn start_pfn len fa)\<rparr>))"
    and h: "lists h (empty_roots (zone_roots z) F)" "dom h = dom (nodes s)"
      "length fa = MAX_ORDER" "\<forall>k < MAX_ORDER. nr_free (fa ! k) = 0"
    using init_zone_run [OF assms zn] by blast
  define t where "t = entered E z
    (s\<lparr>nodes := h, zone_at := (zone_at s)(z \<mapsto> initialised zn start_pfn len fa)\<rparr>)"
  have fields: "nodes t = h" "zone_at t = (zone_at s)(z \<mapsto> initialised zn start_pfn len fa)"
    "mem_map t = mem_map s" "zone_lock t = zone_lock s" "rflags t = ucast (uninit_flags E)"
    by (simp_all add: t_def entered_def)
  have "zone_inv E z (empty_roots (zone_roots z) F) t \<and> free_blocks (empty_roots (zone_roots z) F) z = {}"
  proof (rule empty_zone_inv)
    show "empty_roots (zone_roots z) F (FreeList z k mt) = (if k < MAX_ORDER \<and> is_mt mt then Some [] else None)" for k mt
      using r by (auto simp: empty_roots_def zone_roots_def free_roots_def)
    show "\<not> free_page_ok E z t p k" for p k
      using r fields(3) by (simp add: free_page_ok_def)
  qed (use r fields h in \<open>auto simp: initialised_def\<close>)
  moreover have "nr_zones s < MAX_NR_ZONES E \<longrightarrow> zones t ! nr_zones s = Some z \<and> nr_zones t = nr_zones s + 1"
    using r by (simp add: t_def entered_def)
  moreover have "init_zone E None start_pfn len s = Some (3, s)" by (simp add: init_zone_def)
  ultimately show ?thesis
    using run [folded t_def] fields
    by (intro conjI exI [of _ t] exI [of _ "empty_roots (zone_roots z) F"]
        exI [of _ "initialised zn start_pfn len fa"])
      (auto simp: initialised_def spin_lock_init_def)
qed

definition fresh_mm :: mm where
  "fresh_mm = demo_mm\<lparr>mem_map := (\<lambda>p. if p < 1024 then Some blank_page else None),
     nodes := (\<lambda>n. Some (list_node (At n) (At n))), nr_zones := 0\<rparr>"

lemma fresh_ready: "init_ready demo_ext 0 Map.empty fresh_mm"
  by (auto simp: init_ready_def fresh_mm_def lists_def members_iff demo_mm_def demo_zone_def lock_is_free_def
      SPINLOCK_INIT_def NO_CPU_def free_page_ok_def demo_ext_def blank_page_def split: if_splits)

theorem init_zone_establishes_witness:
  "\<exists>t G zn. init_zone demo_ext (Some 0) 0 1024 fresh_mm = Some (0, t) \<and> zone_inv demo_ext 0 G t
     \<and> free_blocks G 0 = {} \<and> zone_at t 0 = Some zn \<and> watermark_high zn = 16"
proof -
  from init_zone_establishes [OF fresh_ready, of 0 1024] obtain t G zn
    where "init_zone demo_ext (Some 0) 0 1024 fresh_mm = Some (0, t)" "zone_inv demo_ext 0 G t"
      "free_blocks G 0 = {}" "zone_at t 0 = Some zn" "watermark_high zn = 1024 div 64"
    by blast
  moreover have "(1024 :: ulong) div 64 = 16" by simp
  ultimately show ?thesis by metis
qed

section \<open>Allocation under the zone lock\<close>

text \<open>What the preparation of an allocated page leaves alone.\<close>

definition prep_ext_ok :: "mm mm_ext \<Rightarrow> bool" where
  "prep_ext_ok E \<longleftrightarrow> (\<forall>pg.
     PageBuddy E (clear_page_flags pg) = PageBuddy E pg
   \<and> page_zone_id E (clear_page_flags pg) = page_zone_id E pg
   \<and> PageBuddy E (clear_page E pg) = PageBuddy E pg
   \<and> page_zone_id E (clear_page E pg) = page_zone_id E pg
   \<and> PageBuddy E (init_page_waiters E pg) = PageBuddy E pg
   \<and> page_zone_id E (init_page_waiters E pg) = page_zone_id E pg
   \<and> (\<forall>n. PageBuddy E (set_page_count E pg n) = PageBuddy E pg
        \<and> page_zone_id E (set_page_count E pg n) = page_zone_id E pg))"

lemma prep_one_page_laws:
  assumes "mm_ext_ok E" "prep_ext_ok E"
  shows "PageBuddy E (prep_one_page E g pg) = PageBuddy E pg"
    "page_zone_id E (prep_one_page E g pg) = page_zone_id E pg"
  using assms by (simp_all add: prep_one_page_def Let_def prep_ext_ok_def page_simps)

lemma for_each_append:
  "for_each f (xs @ ys) s = do { s \<leftarrow> for_each f xs s; for_each f ys s }"
proof (induction xs arbitrary: s)
  case (Cons x xs)
  then show ?case by (cases "f x s") auto
qed simp

lemma prep_loop:
  assumes ok: "mm_ext_ok E" "prep_ext_ok E" and inv: "zone_inv E z F s"
    and p: "unat p + n \<le> 2 ^ 64"
      "\<And>i. i < n \<Longrightarrow> \<exists>pg. mem_map s (p + of_nat i) = Some pg \<and> \<not> PageBuddy E pg"
  shows "\<exists>t. for_each (\<lambda>i. upd_page (p + of_nat i) (prep_one_page E g)) [0..<n] s = Some t
    \<and> zone_inv E z F t \<and> frame E z {p + of_nat i | i. i < n} s t
    \<and> (\<forall>i < n. \<exists>pg. mem_map t (p + of_nat i) = Some (prep_one_page E g pg))"
  using p
proof (induction n)
  case 0
  then show ?case using inv frame_refl [OF inv] by simp
next
  case (Suc n)
  then obtain t where t: "for_each (\<lambda>i. upd_page (p + of_nat i) (prep_one_page E g)) [0..<n] s = Some t"
    "zone_inv E z F t" "frame E z {p + of_nat i | i. i < n} s t"
    "\<forall>i < n. \<exists>pg. mem_map t (p + of_nat i) = Some (prep_one_page E g pg)"
    by (auto simp del: upt_Suc)
  have ne: "p + of_nat i \<noteq> p + of_nat n" if "i < n" for i
  proof -
    have "n < 2 ^ 64" "i < 2 ^ 64" using Suc(2) that by auto
    then have "unat (of_nat i :: u64) \<noteq> unat (of_nat n :: u64)"
      using that by (simp add: unat_of_nat take_bit_nat_eq_self)
    then show ?thesis by auto
  qed
  obtain pg where pg: "mem_map s (p + of_nat n) = Some pg" "\<not> PageBuddy E pg" using Suc(3) [of n] by auto
  have "p + of_nat n \<notin> {p + of_nat i | i. i < n}" using ne by fastforce
  then have "mem_map t (p + of_nat n) = Some pg" using t(3) pg(1) by (simp add: frame_def)
  from zone_inv_page [OF t(2) this, of "prep_one_page E g"] prep_one_page_laws [OF ok] pg(2)
  obtain u where u: "upd_page (p + of_nat n) (prep_one_page E g) t = Some u" "zone_inv E z F u"
    "frame E z {p + of_nat n} t u" by auto
  have at: "mem_map u (p + of_nat i) = (if i = n then Some (prep_one_page E g pg) else mem_map t (p + of_nat i))"
    if "i < Suc n" for i
    using that u(1) \<open>mem_map t (p + of_nat n) = Some pg\<close> ne [of i] by (auto simp: upd_page_def)
  have "{p + of_nat i | i. i < n} \<union> {p + of_nat n} = {p + of_nat i | i. i < Suc n}"
    by (auto simp: less_Suc_eq)
  then have "frame E z {p + of_nat i | i. i < Suc n} s u" using frame_trans [OF t(3) u(3)] by simp
  moreover have "\<forall>i < Suc n. \<exists>pg. mem_map u (p + of_nat i) = Some (prep_one_page E g pg)"
    using at t(4) by (auto simp: less_Suc_eq)
  ultimately show ?case using t(1) u(1,2) by (simp add: for_each_append)
qed

lemma zone_inv_locks:
  assumes "zone_inv E z F s" "zone_at s z = Some zn"
  shows "zone_inv E z F (s\<lparr>zone_at := (zone_at s)(z \<mapsto> zn\<lparr>z_lock := l\<rparr>), rflags := r\<rparr>)"
  using assms by (simp add: zone_inv_def counters_ok_def block_in_def page_in_def free_page_ok_def)

lemma frame_env: "frame E z W s t \<Longrightarrow> rflags t = rflags s"
proof -
  assume "frame E z W s t"
  then have eq: "t\<lparr>mem_map := mem_map s, nodes := nodes s, zone_at := zone_at s\<rparr> = s"
    by (simp add: frame_def)
  have "rflags (t\<lparr>mem_map := mem_map s, nodes := nodes s, zone_at := zone_at s\<rparr>) = rflags t" by simp
  then show ?thesis unfolding eq by simp
qed

lemma frame_zone_lock:
  assumes "frame E z W s t" "zone_at s z = Some zn"
  obtains zn' where "zone_at t z = Some zn'" "z_lock zn' = z_lock zn"
  using assms by (auto simp: frame_def)

lemma ready_pages:
  assumes "zone_inv E z F s" "free_ready E z F s p k" "i < 2 ^ k"
  shows "\<exists>pg. mem_map s (p + of_nat i) = Some pg \<and> \<not> PageBuddy E pg"
proof -
  let ?q = "p + of_nat i" and ?n = "unat p + i"
  have n: "?n \<in> block (unat p) k" using assms(3) by (simp add: block_def)
  have q: "of_nat ?n = ?q" by simp
  have r: "block_in E z s (unat p) k" "unlisted F (unat p) k" using assms(2) by (simp_all add: free_ready_def)
  obtain pg where pg: "mem_map s ?q = Some pg" "page_zone_id E pg = z"
    using r(1) n q unfolding block_in_def page_in_def by metis
  have "unat ?q = ?n" using block_in_range [OF r(1) n] q by simp
  moreover have "PageLru ?q \<notin> members F" using r(2) n q unfolding unlisted_def by metis
  ultimately have "unlisted F (unat ?q) 0" using q by (simp add: unlisted_def block_def)
  from unlisted_not_buddy [OF assms(1) this pg] pg(1) show ?thesis by blast
qed

text \<open>Taking and giving back the zone lock.\<close>

lemma zone_locked:
  assumes "zone_at s z = Some zn" "lock_is_free (z_lock zn)"
  obtains l r where "zone_lock_irqsave z s = Some (s\<lparr>zone_at := (zone_at s)(z \<mapsto> zn\<lparr>z_lock := l\<rparr>), rflags := r\<rparr>)"
    "\<And>t zn1 flags. zone_at t z = Some zn1 \<Longrightarrow> z_lock zn1 = l \<Longrightarrow> rflags t = r \<Longrightarrow>
      zone_unlock_irqrestore z flags t
        = Some (t\<lparr>zone_at := (zone_at t)(z \<mapsto> zn1\<lparr>z_lock := z_lock zn\<rparr>), rflags := ucast flags\<rparr>)"
proof -
  obtain l saved r where
    "spin_lock_irqsave smp_processor_id (return_addr s) (z_lock zn) (rflags s) = Some (Inr (l, saved, r))"
    "\<And>flags. spin_unlock_irqrestore smp_processor_id l flags r = Inr (z_lock zn, ucast flags)"
    using lock_roundtrip [OF assms(2), of "return_addr s"] by blast
  with assms(1) that [where l = l and r = r] show thesis
    by (simp add: zone_lock_irqsave_def zone_unlock_irqrestore_def set_zone_lock_def upd_zone_def)
qed

definition search :: "mm mm_ext \<Rightarrow> nat \<Rightarrow> nat \<Rightarrow> int \<Rightarrow> bool \<Rightarrow> mm \<Rightarrow> (u64 option \<times> mm) option" where
  "search E z ord mt can_steal s = do {
     (page, s) \<leftarrow> raw_rmqueue_smallest E z ord mt s;
     case page of None \<Rightarrow> raw_rmqueue_fallback E z ord mt can_steal s | Some p \<Rightarrow> Some (page, s) }"

lemma rmqueue_eq:
  "rmqueue E z ord gfp_flags mt cs s = do {
     s \<leftarrow> zone_lock_irqsave z s;
     (page, s) \<leftarrow> search E z ord mt cs s;
     s \<leftarrow> zone_unlock_irqrestore z (uninit_flags E) s;
     s \<leftarrow> (case page of None \<Rightarrow> Some s | Some p \<Rightarrow> prep_new_page E p ord gfp_flags s);
     Some (page, s) }"
  by (simp add: rmqueue_def search_def case_prod_unfold)

text \<open>When the search finds a block, the rest of \<^verbatim>\<open>rmqueue\<close> unlocks and prepares it.\<close>

lemma rmqueue_found:
  assumes ok: "mm_ext_ok E" "prep_ext_ok E" and zn: "zone_at s z = Some zn" "lock_is_free (z_lock zn)"
    and found: "\<And>s1. s1 = s\<lparr>zone_at := (zone_at s)(z \<mapsto> zn\<lparr>z_lock := z_lock (the (zone_at s1 z))\<rparr>), rflags := rflags s1\<rparr> \<Longrightarrow>
      \<exists>t1. search E z ord mt cs s1 = Some (Some p, t1) \<and> zone_inv E z F' t1 \<and> free_ready E z F' t1 p ord
        \<and> frame E z UNIV s1 t1"
  shows "\<exists>t zn'. rmqueue E z ord gfp_flags mt cs s = Some (Some p, t) \<and> zone_inv E z F' t
    \<and> zone_at t z = Some zn' \<and> z_lock zn' = z_lock zn \<and> rflags t = ucast (uninit_flags E)
    \<and> (\<forall>i < 2 ^ ord. \<exists>pg. mem_map t (p + of_nat i) = Some (prep_one_page E gfp_flags pg))"
proof -
  obtain l r where lock: "zone_lock_irqsave z s = Some (s\<lparr>zone_at := (zone_at s)(z \<mapsto> zn\<lparr>z_lock := l\<rparr>), rflags := r\<rparr>)"
    and unlock: "\<And>t zn1 flags. zone_at t z = Some zn1 \<Longrightarrow> z_lock zn1 = l \<Longrightarrow> rflags t = r \<Longrightarrow>
      zone_unlock_irqrestore z flags t
        = Some (t\<lparr>zone_at := (zone_at t)(z \<mapsto> zn1\<lparr>z_lock := z_lock zn\<rparr>), rflags := ucast flags\<rparr>)"
    by (rule zone_locked [OF zn]) blast
  define s1 where "s1 = s\<lparr>zone_at := (zone_at s)(z \<mapsto> zn\<lparr>z_lock := l\<rparr>), rflags := r\<rparr>"
  obtain t1 where t1: "search E z ord mt cs s1 = Some (Some p, t1)" "zone_inv E z F' t1"
    "free_ready E z F' t1 p ord" "frame E z UNIV s1 t1"
    using found [of s1] by (auto simp: s1_def)
  obtain zn1 where zn1: "zone_at t1 z = Some zn1" "z_lock zn1 = l"
    using frame_zone_lock [OF t1(4), of "zn\<lparr>z_lock := l\<rparr>"] by (auto simp: s1_def)
  define t2 where "t2 = t1\<lparr>zone_at := (zone_at t1)(z \<mapsto> zn1\<lparr>z_lock := z_lock zn\<rparr>), rflags := ucast (uninit_flags E)\<rparr>"
  have un: "zone_unlock_irqrestore z (uninit_flags E) t1 = Some t2"
    unfolding t2_def using zn1 frame_env [OF t1(4)] by (intro unlock) (simp_all add: s1_def)
  have inv2: "zone_inv E z F' t2" unfolding t2_def using t1(2) zn1(1) by (rule zone_inv_locks)
  have mapped: "\<exists>pg. mem_map t2 (p + of_nat i) = Some pg \<and> \<not> PageBuddy E pg" if "i < 2 ^ ord" for i
    using ready_pages [OF t1(2,3) that] by (simp add: t2_def)
  have "unat p + 2 ^ ord \<le> 2 ^ 64" using t1(3) by (simp add: free_ready_def block_in_def)
  from prep_loop [OF ok inv2 this mapped] obtain t where t:
    "prep_new_page E p ord gfp_flags t2 = Some t" "zone_inv E z F' t"
    "frame E z {p + of_nat i | i. i < 2 ^ ord} t2 t"
    "\<forall>i < 2 ^ ord. \<exists>pg. mem_map t (p + of_nat i) = Some (prep_one_page E gfp_flags pg)"
    unfolding prep_new_page_def by blast
  have "rmqueue E z ord gfp_flags mt cs s = Some (Some p, t)"
    unfolding rmqueue_eq lock s1_def [symmetric] using t1(1) un t(1) by simp
  moreover obtain zn2 where "zone_at t z = Some zn2" "z_lock zn2 = z_lock zn"
    using frame_zone_lock [OF t(3), of "zn1\<lparr>z_lock := z_lock zn\<rparr>"] by (auto simp: t2_def)
  moreover have "rflags t = ucast (uninit_flags E)" using frame_env [OF t(3)] by (simp add: t2_def)
  ultimately show ?thesis using t(2,4) by blast
qed

text \<open>The block that the search takes: the head of the requested type's list of the smallest order
  that has one, and if there is none, the block of the fallback.\<close>

definition own_block :: "forest \<Rightarrow> nat \<Rightarrow> nat \<Rightarrow> int \<Rightarrow> u64 \<Rightarrow> nat \<Rightarrow> bool" where
  "own_block F z ord mt p j \<longleftrightarrow> ord \<le> j \<and> j < MAX_ORDER \<and> (\<exists>xs. free_list F z j mt = PageLru p # xs)
     \<and> (\<forall>k. ord \<le> k \<and> k < j \<longrightarrow> free_list F z k mt = [])"

definition fallback_block :: "forest \<Rightarrow> nat \<Rightarrow> nat \<Rightarrow> int \<Rightarrow> u64 \<Rightarrow> nat \<Rightarrow> bool" where
  "fallback_block F z ord mt p j \<longleftrightarrow> (\<forall>k. ord \<le> k \<and> k < MAX_ORDER \<longrightarrow> free_list F z k mt = [])
     \<and> ord \<le> j \<and> j < MAX_ORDER \<and> (\<exists>m xs. first_fallback F z j mt = Some m \<and> free_list F z j m = PageLru p # xs)
     \<and> (\<forall>k. j < k \<and> k < MAX_ORDER \<longrightarrow> first_fallback F z k mt = None)"

lemma search_own:
  assumes "mm_ext_ok E" "zone_inv E z F s" "is_mt mt"
    and j: "ord \<le> j" "j < MAX_ORDER" "free_list F z j mt = PageLru p # xs"
      "\<And>k. ord \<le> k \<Longrightarrow> k < j \<Longrightarrow> free_list F z k mt = []"
  shows "\<exists>t. search E z ord mt cs s = Some (Some p, t) \<and> zone_inv E z (taken_forest F z p ord j mt mt) t
    \<and> free_ready E z (taken_forest F z p ord j mt mt) t p ord \<and> frame E z UNIV s t"
proof -
  let ?F = "taken_forest F z p ord j mt mt"
  obtain t where t: "raw_rmqueue_smallest E z ord mt s = Some (Some p, t)" "zone_inv E z ?F t"
    "frame E z (insert p (upper_pages p ord j)) s t"
    "free_blocks ?F z = split_block (free_blocks F z) (unat p) ord j" "unlisted ?F (unat p) ord"
    "block_in E z t (unat p) ord"
    using rmqueue_smallest_loop_some [OF assms(1-3) j(2,3,1) j(1) j(4)]
    unfolding raw_rmqueue_smallest_def by blast
  have inB: "(unat p, j) \<in> free_blocks F z" using j(3) by (rule head_free_block)
  note wf = zone_invD(7) [OF assms(2)]
  have "2 ^ ord dvd unat p" using blocks_wfD(2) [OF wf inB] j(1) by (meson dvd_trans le_imp_power_dvd)
  moreover have "block (unat p) ord \<inter> pages_in (free_blocks ?F z) = {}"
    using split_spec(2) [OF wf inB j(1)] t(4) by auto
  ultimately have "free_ready E z ?F t p ord" using t(5,6) by (simp add: free_ready_def)
  moreover have "frame E z UNIV s t" using t(3) by (rule frame_mono) simp
  ultimately show ?thesis using t(1,2) by (simp add: search_def)
qed

lemma search_none:
  assumes "zone_inv E z F s" "is_mt mt" "\<forall>k. ord \<le> k \<and> k < MAX_ORDER \<longrightarrow> free_list F z k mt = []"
  shows "search E z ord mt cs s = raw_rmqueue_fallback E z ord mt cs s"
  using rmqueue_smallest_loop_none [OF assms(1,2), of ord ord] assms(3)
  by (simp add: search_def raw_rmqueue_smallest_def)

lemma rmqueue_taken:
  assumes ok: "mm_ext_ok E" "prep_ext_ok E" and inv: "zone_inv E z F s" and mt: "is_pcp_type mt"
    and pb: "0 < pageblock_order E" "card (pages_in (free_blocks F z)) < 2 ^ 32"
    and zn: "zone_at s z = Some zn" "lock_is_free (z_lock zn)"
    and p: "own_block F z ord mt p j \<or> fallback_block F z ord mt p j"
  shows "\<exists>t F' zn'. rmqueue E z ord gfp_flags mt cs s = Some (Some p, t) \<and> zone_inv E z F' t
    \<and> 2 ^ ord dvd unat p \<and> block (unat p) ord \<subseteq> pages_in (free_blocks F z)
    \<and> pages_in (free_blocks F' z) = pages_in (free_blocks F z) - block (unat p) ord
    \<and> zone_at t z = Some zn' \<and> z_lock zn' = z_lock zn \<and> rflags t = ucast (uninit_flags E)
    \<and> (\<forall>i < 2 ^ ord. \<exists>pg. mem_map t (p + of_nat i) = Some (prep_one_page E gfp_flags pg))"
proof -
  note wf = zone_invD(7) [OF inv]
  obtain m where m: "free_list F z j m = PageLru p # tl (free_list F z j m)" "ord \<le> j" "j < MAX_ORDER"
    and search: "\<And>s1. s1 = s\<lparr>zone_at := (zone_at s)(z \<mapsto> zn\<lparr>z_lock := z_lock (the (zone_at s1 z))\<rparr>), rflags := rflags s1\<rparr> \<Longrightarrow>
      \<exists>t1. search E z ord mt cs s1 = Some (Some p, t1) \<and> zone_inv E z (taken_forest F z p ord j m mt) t1
        \<and> free_ready E z (taken_forest F z p ord j m mt) t1 p ord \<and> frame E z UNIV s1 t1"
    and m_mt: "is_mt m"
    using p
  proof
    assume own: "own_block F z ord mt p j"
    then obtain xs where xs: "ord \<le> j" "j < MAX_ORDER" "free_list F z j mt = PageLru p # xs"
      "\<And>k. ord \<le> k \<Longrightarrow> k < j \<Longrightarrow> free_list F z k mt = []" by (auto simp: own_block_def)
    show thesis
    proof (rule that [of mt])
      fix s1 assume s1: "s1 = s\<lparr>zone_at := (zone_at s)(z \<mapsto> zn\<lparr>z_lock := z_lock (the (zone_at s1 z))\<rparr>), rflags := rflags s1\<rparr>"
      have "zone_inv E z F s1" by (subst s1) (rule zone_inv_locks [OF inv zn(1)])
      from search_own [OF ok(1) this pcp_is_mt [OF mt] xs] show
        "\<exists>t1. search E z ord mt cs s1 = Some (Some p, t1) \<and> zone_inv E z (taken_forest F z p ord j mt mt) t1
        \<and> free_ready E z (taken_forest F z p ord j mt mt) t1 p ord \<and> frame E z UNIV s1 t1" .
    qed (use xs pcp_is_mt [OF mt] in simp_all)
  next
    assume fb: "fallback_block F z ord mt p j"
    then obtain m xs where xs: "ord \<le> j" "j < MAX_ORDER" "first_fallback F z j mt = Some m"
      "\<And>k. j < k \<Longrightarrow> k < MAX_ORDER \<Longrightarrow> first_fallback F z k mt = None" "free_list F z j m = PageLru p # xs"
      and none: "\<forall>k. ord \<le> k \<and> k < MAX_ORDER \<longrightarrow> free_list F z k mt = []" by (auto simp: fallback_block_def)
    show thesis
    proof (rule that [of m])
      fix s1 assume s1: "s1 = s\<lparr>zone_at := (zone_at s)(z \<mapsto> zn\<lparr>z_lock := z_lock (the (zone_at s1 z))\<rparr>), rflags := rflags s1\<rparr>"
      have inv1: "zone_inv E z F s1" by (subst s1) (rule zone_inv_locks [OF inv zn(1)])
      from fallback_hit_spec [OF ok(1) inv1 mt pb xs(1-4), of cs] xs(5)
      have "\<exists>t1. raw_rmqueue_fallback E z ord mt cs s1 = Some (Some p, t1)
        \<and> zone_inv E z (taken_forest F z p ord j m mt) t1
        \<and> free_ready E z (taken_forest F z p ord j m mt) t1 p ord
        \<and> frame E z (insert p (upper_pages p ord j)) s1 t1" by auto
      then show "\<exists>t1. search E z ord mt cs s1 = Some (Some p, t1) \<and> zone_inv E z (taken_forest F z p ord j m mt) t1
        \<and> free_ready E z (taken_forest F z p ord j m mt) t1 p ord \<and> frame E z UNIV s1 t1"
        unfolding search_none [OF inv1 pcp_is_mt [OF mt] none] using frame_mono by blast
    qed (use xs first_fallback_Some [OF xs(3) mt] in simp_all)
  qed
  let ?F = "taken_forest F z p ord j m mt"
  have inB: "(unat p, j) \<in> free_blocks F z" using m(1) by (rule head_free_block)
  have l: "listed F z p j m" using m(1) by (metis listed_def list.set_intros(1))
  have blocks: "free_blocks ?F z = split_block (free_blocks F z) (unat p) ord j"
    using take_block [OF ok(1) inv l pcp_is_mt [OF mt] m(2)] by blast
  obtain t zn' where "rmqueue E z ord gfp_flags mt cs s = Some (Some p, t)" "zone_inv E z ?F t"
    "zone_at t z = Some zn'" "z_lock zn' = z_lock zn" "rflags t = ucast (uninit_flags E)"
    "\<forall>i < 2 ^ ord. \<exists>pg. mem_map t (p + of_nat i) = Some (prep_one_page E gfp_flags pg)"
    using rmqueue_found [OF ok zn search] by blast
  moreover have "2 ^ ord dvd unat p"
    using blocks_wfD(2) [OF wf inB] m(2) by (meson dvd_trans le_imp_power_dvd)
  moreover have "block (unat p) ord \<subseteq> pages_in (free_blocks F z)"
    using block_halves [OF m(2)] block_sub_pages [OF inB] by blast
  moreover note split_spec(2) [OF wf inB m(2), folded blocks]
  ultimately show ?thesis by blast
qed

lemma rmqueue_nothing:
  assumes inv: "zone_inv E z F s" and mt: "is_pcp_type mt" and few: "card (pages_in (free_blocks F z)) < 2 ^ 32"
    and zn: "zone_at s z = Some zn" "lock_is_free (z_lock zn)"
    and none: "\<forall>k. ord \<le> k \<and> k < MAX_ORDER \<longrightarrow> free_list F z k mt = []"
      "\<And>k. ord \<le> k \<Longrightarrow> k < MAX_ORDER \<Longrightarrow> first_fallback F z k mt = None"
  shows "rmqueue E z ord gfp_flags mt cs s
    = (if ord = 0 then None else Some (None, s\<lparr>rflags := ucast (uninit_flags E)\<rparr>))"
proof -
  obtain l r where lock: "zone_lock_irqsave z s = Some (s\<lparr>zone_at := (zone_at s)(z \<mapsto> zn\<lparr>z_lock := l\<rparr>), rflags := r\<rparr>)"
    and unlock: "\<And>t zn1 flags. zone_at t z = Some zn1 \<Longrightarrow> z_lock zn1 = l \<Longrightarrow> rflags t = r \<Longrightarrow>
      zone_unlock_irqrestore z flags t
        = Some (t\<lparr>zone_at := (zone_at t)(z \<mapsto> zn1\<lparr>z_lock := z_lock zn\<rparr>), rflags := ucast flags\<rparr>)"
    by (rule zone_locked [OF zn]) blast
  define s1 where "s1 = s\<lparr>zone_at := (zone_at s)(z \<mapsto> zn\<lparr>z_lock := l\<rparr>), rflags := r\<rparr>"
  have inv1: "zone_inv E z F s1" unfolding s1_def by (rule zone_inv_locks [OF inv zn(1)])
  have "search E z ord mt cs s1 = (if ord = 0 then None else Some (None, s1))"
    unfolding search_none [OF inv1 pcp_is_mt [OF mt] none(1)] by (rule fallback_none_spec [OF inv1 mt few none(2)])
  moreover have "zone_unlock_irqrestore z (uninit_flags E) s1 = Some (s\<lparr>rflags := ucast (uninit_flags E)\<rparr>)"
    using unlock [of s1 "zn\<lparr>z_lock := l\<rparr>"] zn(1) by (simp add: s1_def fun_upd_idem)
  ultimately show ?thesis unfolding rmqueue_eq lock s1_def [symmetric] by simp
qed

text \<open>
  C33: \<^verbatim>\<open>rmqueue\<close> for a movable, unmovable or reclaimable request, with pageblocks of positive order.
  While the zone lock is taken it does not return.  When the lock is free it hands out the head
  of the requested type's list of the smallest sufficient order that has one; when that type
  has none, the head of the first fallback type's list at the largest order; either way an
  aligned block of free pages, each of them prepared, with the zone's invariant intact and
  exactly these pages no longer free.  When there is no block at all it returns \<^verbatim>\<open>NULL\<close> for a positive
  order and faults at order 0.  On return the lock is free as before, and the flag register
  holds what the uninitialised local \<^verbatim>\<open>flags\<close> contained.
\<close>

theorem rmqueue_correct:
  assumes "mm_ext_ok E" "prep_ext_ok E" and "zone_inv E z F s" and "is_pcp_type mt"
    and "0 < pageblock_order E" "card (pages_in (free_blocks F z)) < 2 ^ 32" and "zone_at s z = Some zn"
  shows "(sl_lock (z_lock zn) \<noteq> SPINLOCK_UNLOCKED \<longrightarrow> rmqueue E z ord gfp_flags mt cs s = None)
    \<and> (lock_is_free (z_lock zn) \<longrightarrow>
        (\<forall>p j. own_block F z ord mt p j \<or> fallback_block F z ord mt p j \<longrightarrow>
           (\<exists>t F' zn'. rmqueue E z ord gfp_flags mt cs s = Some (Some p, t) \<and> zone_inv E z F' t
             \<and> 2 ^ ord dvd unat p \<and> block (unat p) ord \<subseteq> pages_in (free_blocks F z)
             \<and> pages_in (free_blocks F' z) = pages_in (free_blocks F z) - block (unat p) ord
             \<and> zone_at t z = Some zn' \<and> z_lock zn' = z_lock zn \<and> rflags t = ucast (uninit_flags E)
             \<and> (\<forall>i < 2 ^ ord. \<exists>pg. mem_map t (p + of_nat i) = Some (prep_one_page E gfp_flags pg))))
      \<and> ((\<forall>p j. \<not> own_block F z ord mt p j \<and> \<not> fallback_block F z ord mt p j) \<longrightarrow>
           rmqueue E z ord gfp_flags mt cs s
             = (if ord = 0 then None else Some (None, s\<lparr>rflags := ucast (uninit_flags E)\<rparr>))))"
proof (intro conjI impI allI)
  assume "sl_lock (z_lock zn) \<noteq> SPINLOCK_UNLOCKED"
  from spin_lock_taken(2) [OF this] have "zone_lock_irqsave z s = None"
    using assms(7) by (auto simp: zone_lock_irqsave_def split: sum.splits Option.bind_splits)
  then show "rmqueue E z ord gfp_flags mt cs s = None" by (simp add: rmqueue_eq)
next
  fix p j assume "lock_is_free (z_lock zn)" "own_block F z ord mt p j \<or> fallback_block F z ord mt p j"
  then show "\<exists>t F' zn'. rmqueue E z ord gfp_flags mt cs s = Some (Some p, t) \<and> zone_inv E z F' t
     \<and> 2 ^ ord dvd unat p \<and> block (unat p) ord \<subseteq> pages_in (free_blocks F z)
     \<and> pages_in (free_blocks F' z) = pages_in (free_blocks F z) - block (unat p) ord
     \<and> zone_at t z = Some zn' \<and> z_lock zn' = z_lock zn \<and> rflags t = ucast (uninit_flags E)
     \<and> (\<forall>i < 2 ^ ord. \<exists>pg. mem_map t (p + of_nat i) = Some (prep_one_page E gfp_flags pg))"
    by (rule rmqueue_taken [OF assms])
next
  assume free: "lock_is_free (z_lock zn)"
    and no: "\<forall>p j. \<not> own_block F z ord mt p j \<and> \<not> fallback_block F z ord mt p j"
  have own: "\<forall>k. ord \<le> k \<and> k < MAX_ORDER \<longrightarrow> free_list F z k mt = []"
    using assms(3)
  proof (cases rule: free_list_cases [where ord = ord and mt = mt])
    case (2 j p xs)
    then have "own_block F z ord mt p j" by (auto simp: own_block_def)
    with no show ?thesis by blast
  qed blast
  have "first_fallback F z k mt = None" if "ord \<le> k" "k < MAX_ORDER" for k
  proof (cases rule: fallback_cases [where ord = ord and F = F and z = z and mt = mt])
    case (2 j m)
    obtain p xs where "free_list F z j m = PageLru p # xs"
      using fallback_hit_spec [OF assms(1,3-6) 2] by blast
    with 2 own have "fallback_block F z ord mt p j" by (auto simp: fallback_block_def)
    with no show ?thesis by blast
  qed (use that in blast)
  from rmqueue_nothing [OF assms(3,4,6,7) free own this]
  show "rmqueue E z ord gfp_flags mt cs s
     = (if ord = 0 then None else Some (None, s\<lparr>rflags := ucast (uninit_flags E)\<rparr>))" .
qed

lemma demo_prep_ok: "prep_ext_ok demo_ext"
  by (simp add: prep_ext_ok_def demo_ext_def clear_page_flags_def)

lemma demo_lock: "zone_at demo_mm 0 = Some demo_zone" "lock_is_free (z_lock demo_zone)"
  by (simp_all add: demo_mm_def demo_zone_def lock_is_free_def SPINLOCK_INIT_def)

lemma demo_few: "card (pages_in (free_blocks demo_forest 0)) < 2 ^ 32"
  by (simp add: demo_blocks demo_block)

lemma demo_own_block: "own_block demo_forest 0 3 MIGRATE_MOVABLE 512 9"
  by (auto simp: own_block_def demo_free_list MAX_ORDER_def migrate_defs)

theorem rmqueue_correct_witness:
  "(\<exists>t F'. rmqueue demo_ext 0 3 GFP_KERNEL MIGRATE_MOVABLE False demo_mm = Some (Some 512, t)
     \<and> zone_inv demo_ext 0 F' t \<and> pages_in (free_blocks F' 0) = {512..<1024} - block 512 3)
   \<and> (\<exists>t. rmqueue demo_ext 0 3 GFP_KERNEL MIGRATE_UNMOVABLE False demo_mm = Some (Some 512, t))"
proof -
  have "is_pcp_type MIGRATE_MOVABLE" "is_pcp_type MIGRATE_UNMOVABLE" "0 < pageblock_order demo_ext"
    by (simp_all add: is_pcp_type_def demo_ext_def)
  note r = rmqueue_correct [OF demo_ext_ok demo_prep_ok demo_inv this(1,3) demo_few demo_lock(1), of 3 GFP_KERNEL False]
    rmqueue_correct [OF demo_ext_ok demo_prep_ok demo_inv this(2,3) demo_few demo_lock(1), of 3 GFP_KERNEL False]
  have "fallback_block demo_forest 0 3 MIGRATE_UNMOVABLE 512 9"
    by (auto simp: fallback_block_def demo_free_list MAX_ORDER_def migrate_defs first_fallback_def
        fallback_types_def fallback_row_def)
  moreover have "pages_in (free_blocks demo_forest 0) = {512..<1024}" "unat (512 :: u64) = 512"
    by (simp_all add: demo_blocks demo_block)
  ultimately show ?thesis using r demo_lock(2) demo_own_block by metis
qed

section \<open>Addresses\<close>

text \<open>
  What \<^verbatim>\<open>__get_free_pages\<close> returns is the page's address cut to the 32 bits of \<^verbatim>\<open>ulong\<close>: for
  pages that are mapped at or above the kernel's base it is never the address of the page,
  and \<^verbatim>\<open>free_pages\<close>, which takes it back, hits its \<^verbatim>\<open>VM_BUG_ON\<close> unless the low half is zero, in
  which case it does nothing; the memory is lost in either case.
\<close>

theorem get_free_pages_truncates:
  assumes "alloc_pages E gfp_mask ord cs s = Some (Some p, t)" "KERNEL_VIRTUAL_BASE \<le> page_address E p"
    "\<And>a. a < KERNEL_VIRTUAL_BASE \<Longrightarrow> \<not> virt_addr_valid E a"
  shows "\<exists>addr. raw_get_free_pages E gfp_mask ord cs s = Some (addr, t) \<and> ucast addr \<noteq> page_address E p
    \<and> free_pages E addr ord t = (if addr = 0 then Some t else None)"
proof -
  let ?a = "ucast (page_address E p) :: ulong"
  have "unat ?a < 2 ^ LENGTH(32)" by (rule unsigned_less)
  then have "unat (ucast ?a :: u64) < 2 ^ 32"
    by (simp add: unsigned_ucast_eq unsigned_take_bit_eq take_bit_nat_eq_self)
  moreover have "unat KERNEL_VIRTUAL_BASE = 0xFFFF800000000000" by (simp add: KERNEL_VIRTUAL_BASE_def)
  ultimately have less: "(ucast ?a :: u64) < KERNEL_VIRTUAL_BASE" by (simp add: word_less_nat_alt)
  with assms(2) have "(ucast ?a :: u64) \<noteq> page_address E p" by (metis not_less)
  with assms(1) assms(3) [OF less] show ?thesis
    by (simp add: raw_get_free_pages_def free_pages_def)
qed

theorem get_free_pages_truncates_witness:
  "\<exists>addr t. raw_get_free_pages demo_ext GFP_KERNEL 3 False demo_mm = Some (addr, t)
     \<and> free_pages demo_ext addr 3 t = (if addr = 0 then Some t else None)"
proof -
  obtain p t where t: "rmqueue demo_ext 0 3 GFP_KERNEL 1 False demo_mm = Some (Some p, t)"
    "block (unat p) 3 \<subseteq> pages_in (free_blocks demo_forest 0)"
    "\<forall>i < 2 ^ 3. \<exists>pg. mem_map t (p + of_nat i) = Some (prep_one_page demo_ext GFP_KERNEL pg)"
    using rmqueue_taken [OF demo_ext_ok demo_prep_ok demo_inv _ _ demo_few demo_lock disjI1 [OF demo_own_block], of GFP_KERNEL False]
    by (auto simp: is_pcp_type_def demo_ext_def migrate_defs)
  have "mem_map t p \<noteq> None" using spec [OF t(3), of 0] by auto
  then obtain u where u: "alloc_pages demo_ext GFP_KERNEL 3 False demo_mm = Some (Some p, u)"
    using t(1) by (auto simp: alloc_pages_def demo_ext_def upd_page_def)
  have "unat p < 1024" using t(2) by (auto simp: demo_blocks demo_block block_def)
  then have "unat (p * 4096) = unat p * 4096" by (simp add: unat_word_ariths)
  then have "unat (KERNEL_VIRTUAL_BASE + p * 4096) = unat KERNEL_VIRTUAL_BASE + unat p * 4096"
    using \<open>unat p < 1024\<close> by (subst unat_plus_eq) (simp_all add: KERNEL_VIRTUAL_BASE_def)
  then have "KERNEL_VIRTUAL_BASE \<le> page_address demo_ext p"
    by (simp add: word_le_nat_alt demo_ext_def)
  moreover have "\<And>a. a < KERNEL_VIRTUAL_BASE \<Longrightarrow> \<not> virt_addr_valid demo_ext a"
    by (simp add: demo_ext_def)
  ultimately show ?thesis using get_free_pages_truncates [OF u] by blast
qed

end
