(* ===== verification/Buddy_Trace.thy ===== *)
theory Buddy_Trace
  imports Buddy_Props
begin

text \<open>
  The allocator under any sequence of requests: a client of a zone takes blocks with
  \<^verbatim>\<open>__rmqueue_smallest\<close> and returns blocks it holds with \<^verbatim>\<open>__free_one_page\<close>, in any order and at any
  migration type.  The state is the allocator's state together with the blocks that are handed
  out; a request that faults ends the run.  In every reachable state the blocks handed out do
  not overlap each other or free memory, no page is lost, every further request for memory
  returns, and it is known exactly which blocks can be given back.
\<close>

section \<open>Sequences of requests\<close>

type_synonym client = "mm \<times> (u64 \<times> nat) set"

inductive client_step :: "mm mm_ext \<Rightarrow> nat \<Rightarrow> client \<Rightarrow> client \<Rightarrow> bool" for E :: "mm mm_ext" and z :: nat where
  take_block: "is_mt mt \<Longrightarrow> raw_rmqueue_smallest E z ord mt s = Some (Some p, t) \<Longrightarrow>
    client_step E z (s, A) (t, insert (p, ord) A)"
| take_none: "is_mt mt \<Longrightarrow> raw_rmqueue_smallest E z ord mt s = Some (None, t) \<Longrightarrow>
    client_step E z (s, A) (t, A)"
| give_back: "is_mt mt \<Longrightarrow> (p, k) \<in> A \<Longrightarrow>
    raw_free_one_page E p (page_to_pfn E p) z k mt s = Some t \<Longrightarrow>
    client_step E z (s, A) (t, A - {(p, k)})"

inductive client_reach :: "mm mm_ext \<Rightarrow> nat \<Rightarrow> mm \<Rightarrow> client \<Rightarrow> bool"
    for E :: "mm mm_ext" and z :: nat and s0 :: mm where
  start: "client_reach E z s0 (s0, {})"
| step: "client_reach E z s0 c \<Longrightarrow> client_step E z c d \<Longrightarrow> client_reach E z s0 d"

inductive_cases client_stepE: "client_step E z (s, A) d"

section \<open>The invariant\<close>

definition held :: "(u64 \<times> nat) set \<Rightarrow> (nat \<times> nat) set" where
  "held A = (\<lambda>(p, k). (unat p, k)) ` A"

definition only_free :: "forest \<Rightarrow> nat \<Rightarrow> bool" where
  "only_free F z \<longleftrightarrow> (\<forall>r. (\<forall>k mt. r \<noteq> FreeList z k mt) \<longrightarrow> F r = None)"

definition shares :: "forest \<Rightarrow> nat \<Rightarrow> (u64 \<times> nat) set \<Rightarrow> nat set \<Rightarrow> bool" where
  "shares F z A P \<longleftrightarrow> blocks_wf (held A) \<and> pages_in (held A) \<inter> pages_in (free_blocks F z) = {}
     \<and> pages_in (held A) \<union> pages_in (free_blocks F z) = P"

definition client_inv :: "mm mm_ext \<Rightarrow> nat \<Rightarrow> nat set \<Rightarrow> client \<Rightarrow> bool" where
  "client_inv E z P c \<longleftrightarrow> (case c of (s, A) \<Rightarrow> buddies_mapped s \<and> small_map s \<and> (\<forall>(p, k) \<in> A. block_in E z s (unat p) k)
     \<and> (\<exists>F. zone_inv E z F s \<and> only_free F z \<and> shares F z A P))"

lemma held_simps [simp]:
  "held {} = {}" "held (insert (p, k) A) = insert (unat p, k) (held A)" "(unat p, k) \<in> held A \<longleftrightarrow> (p, k) \<in> A"
  by (auto simp: held_def dest: word_unat_eq_iff [THEN iffD2])

lemma held_remove [simp]: "held (A - {(p, k)}) = held A - {(unat p, k)}"
  by (auto simp: held_def word_unat_eq_iff)

lemma only_free_same: "same_roots z F F' \<Longrightarrow> only_free F z \<Longrightarrow> only_free F' z"
  by (auto simp: same_roots_def only_free_def)

text \<open>With no other lists around, pages outside the free blocks are in no list.\<close>

lemma only_free_unlisted:
  assumes "zone_inv E z F s" "only_free F z" "block_in E z s p k" "block p k \<inter> pages_in (free_blocks F z) = {}"
  shows "unlisted F p k"
  unfolding unlisted_def
proof (intro ballI notI)
  fix n assume n: "n \<in> block p k" "PageLru (of_nat n) \<in> members F"
  then obtain r xs where r: "F r = Some xs" "PageLru (of_nat n) \<in> set (r # xs)" by (auto simp: members_iff)
  then obtain j mt where j: "r = FreeList z j mt" using assms(2) by (force simp: only_free_def)
  then have "listed F z (of_nat n) j mt" using r by (auto simp: listed_def free_list_def)
  then have "(unat (of_nat n :: u64), j) \<in> free_blocks F z" by (auto simp: free_blocks_def)
  moreover have "n < 2 ^ 64" using n(1) assms(3) by (auto simp: block_in_def block_def)
  ultimately have "n \<in> pages_in (free_blocks F z)"
    using block_sub_pages by (fastforce simp: unat_of_nat take_bit_nat_eq_self)
  then show False using n(1) assms(4) by blast
qed

lemma held_ready:
  assumes "zone_inv E z F s" "only_free F z" "shares F z A P" "\<forall>(p, k) \<in> A. block_in E z s (unat p) k"
    and "(p, k) \<in> A"
  shows "free_ready E z F s p k" "k < MAX_ORDER"
proof -
  have pk: "(unat p, k) \<in> held A" using assms(5) by simp
  have wf: "blocks_wf (held A)" and dis: "pages_in (held A) \<inter> pages_in (free_blocks F z) = {}"
    using assms(3) by (simp_all add: shares_def)
  show "k < MAX_ORDER" by (rule blocks_wfD(1) [OF wf pk])
  have "block (unat p) k \<inter> pages_in (free_blocks F z) = {}" using dis block_sub_pages [OF pk] by blast
  moreover have "block_in E z s (unat p) k" using assms(4,5) by blast
  ultimately show "free_ready E z F s p k"
    using only_free_unlisted [OF assms(1,2)] blocks_wfD(2) [OF wf pk] by (simp add: free_ready_def)
qed

section \<open>Each request keeps it\<close>

lemma take_keeps:
  assumes "mm_ext_ok E" "client_inv E z P (s, A)" "is_mt mt" "raw_rmqueue_smallest E z ord mt s = Some (Some p, t)"
  shows "client_inv E z P (t, insert (p, ord) A)"
proof -
  obtain F where F: "zone_inv E z F s" "only_free F z" "shares F z A P"
    and s: "buddies_mapped s" "\<forall>(p, k) \<in> A. block_in E z s (unat p) k" "small_map s"
    using assms(2) by (auto simp: client_inv_def)
  obtain j F' where j: "ord \<le> j" "j < MAX_ORDER" "(unat p, j) \<in> free_blocks F z" "zone_inv E z F' t"
    "free_blocks F' z = split_block (free_blocks F z) (unat p) ord j" "free_ready E z F' t p ord"
    "frame E z UNIV s t" "same_roots z F F'"
    using rmqueue_smallest_Some [OF assms(1) F(1) assms(3,4)] by blast
  have pages: "pages_in (free_blocks F' z) = pages_in (free_blocks F z) - block (unat p) ord"
    unfolding j(5) by (rule split_spec(2) [OF zone_invD(7) [OF F(1)] j(3,1)])
  have sub: "block (unat p) ord \<subseteq> pages_in (free_blocks F z)"
    using block_halves [OF j(1)] block_sub_pages [OF j(3)] by blast
  have "blocks_wf (insert (unat p, ord) (held A))"
    using F(3) sub j(1,2,6) by (intro blocks_wf_insert) (auto simp: shares_def free_ready_def)
  then have "shares F' z (insert (p, ord) A) P"
    using F(3) sub unfolding shares_def by (auto simp: pages)
  moreover have "block_in E z t (unat q) k" if "(q, k) \<in> insert (p, ord) A" for q k
    using that j(6) s(2) frame_block_in [OF j(7)] by (auto simp: free_ready_def)
  ultimately show ?thesis
    using j(4) only_free_same [OF j(8) F(2)] s(1,3) buddies_mapped_frame [OF j(7)] small_map_frame [OF j(7)]
    by (auto simp: client_inv_def)
qed

text \<open>Giving a block back returns exactly when every buddy looked at lies above.\<close>

lemma give_returns:
  assumes "mm_ext_ok E" "flat_memmap E" "client_inv E z P (s, A)" "is_mt mt" "(p, k) \<in> A"
    and F: "zone_inv E z F s" "only_free F z" "shares F z A P"
  shows "raw_free_one_page E p (page_to_pfn E p) z k mt s \<noteq> None
      \<longleftrightarrow> free_checks E z s p \<and> upward (free_blocks F z) (unat p) k"
    and "raw_free_one_page E p (page_to_pfn E p) z k mt s = Some t \<Longrightarrow>
      free_ready E z F s p k \<and> k < MAX_ORDER \<and> freed E z F s (unat p) k mt t"
proof -
  have s: "buddies_mapped s" "small_map s" "\<forall>(p, k) \<in> A. block_in E z s (unat p) k"
    using assms(3) by (auto simp: client_inv_def)
  note ready = held_ready [OF F s(3) assms(5)]
  note pfn = ready_pfn [OF assms(2) s(2) ready(1)]
  note spec = raw_free_one_page_spec [OF assms(1) F(1) assms(4) ready(2) s(1,2) ready(1) _ pfn]
  have checked: "free_checks E z s p" if "raw_free_one_page E p (page_to_pfn E p) z k mt s \<noteq> None"
    using that by (auto simp: raw_free_one_page_def free_checks_def bind_eq_Some_conv split: if_splits)
  show "raw_free_one_page E p (page_to_pfn E p) z k mt s \<noteq> None
      \<longleftrightarrow> free_checks E z s p \<and> upward (free_blocks F z) (unat p) k"
    using checked spec by (metis option.distinct(1))
  show "free_ready E z F s p k \<and> k < MAX_ORDER \<and> freed E z F s (unat p) k mt t"
    if "raw_free_one_page E p (page_to_pfn E p) z k mt s = Some t"
    using that checked spec ready by (metis option.distinct(1) option.inject)
qed

lemma give_keeps:
  assumes "mm_ext_ok E" "flat_memmap E" "client_inv E z P (s, A)" "is_mt mt" "(p, k) \<in> A"
    and run: "raw_free_one_page E p (page_to_pfn E p) z k mt s = Some t"
  shows "client_inv E z P (t, A - {(p, k)})"
proof -
  obtain F where F: "zone_inv E z F s" "only_free F z" "shares F z A P"
    and s: "buddies_mapped s" "\<forall>(p, k) \<in> A. block_in E z s (unat p) k" "small_map s"
    using assms(3) by (auto simp: client_inv_def)
  have ready: "free_ready E z F s p k" "k < MAX_ORDER" and "freed E z F s (unat p) k mt t"
    using give_returns(2) [OF assms(1-5) F run] by simp_all
  then obtain F' where t: "zone_inv E z F' t" "free_blocks F' z = merge (free_blocks F z) (unat p) k"
    "frame E z UNIV s t" "same_roots z F F'"
    by (auto simp: freed_def)
  have wf: "blocks_wf (held A)" and dis: "pages_in (held A) \<inter> pages_in (free_blocks F z) = {}"
    using F(3) by (simp_all add: shares_def)
  have pk: "(unat p, k) \<in> held A" using assms(5) by simp
  have pages: "pages_in (free_blocks F' z) = pages_in (free_blocks F z) \<union> block (unat p) k"
    using merge_spec [OF zone_invD(7) [OF F(1)] ready(2)] ready(1) t(2) by (simp add: free_ready_def)
  have "shares F' z (A - {(p, k)}) P"
    using F(3) block_sub_pages [OF pk] pages pages_in_remove [OF wf pk] blocks_wf_subset [OF wf]
    by (auto simp: shares_def)
  moreover have "block_in E z t (unat q) j" if "(q, j) \<in> A" for q j
    using that s(2) frame_block_in [OF t(3)] by blast
  ultimately show ?thesis
    using t(1) only_free_same [OF t(4) F(2)] s(1,3) buddies_mapped_frame [OF t(3)] small_map_frame [OF t(3)]
    by (auto simp: client_inv_def)
qed

lemma rmqueue_smallest_returns:
  assumes "mm_ext_ok E" "zone_inv E z F s" "is_mt mt"
  shows "raw_rmqueue_smallest E z ord mt s \<noteq> None"
    and "raw_rmqueue_smallest E z ord mt s = Some (None, t) \<Longrightarrow> t = s"
proof -
  have "raw_rmqueue_smallest E z ord mt s = Some (None, s)
      \<or> (\<exists>p t. raw_rmqueue_smallest E z ord mt s = Some (Some p, t))"
    using assms(2)
  proof (cases rule: free_list_cases [where ord = ord and mt = mt])
    case 1
    then show ?thesis
      using rmqueue_smallest_loop_none [OF assms(2,3), of ord ord] by (simp add: raw_rmqueue_smallest_def)
  next
    case (2 j p xs)
    then show ?thesis
      using rmqueue_smallest_loop_some [OF assms(1-3) 2(2,3,1) 2(1) 2(4)]
      unfolding raw_rmqueue_smallest_def by blast
  qed
  then show "raw_rmqueue_smallest E z ord mt s \<noteq> None"
    and "raw_rmqueue_smallest E z ord mt s = Some (None, t) \<Longrightarrow> t = s"
    by auto
qed

lemma client_inv_step:
  assumes "mm_ext_ok E" "flat_memmap E" "client_inv E z P c" "client_step E z c d"
  shows "client_inv E z P d"
  using assms(4,3)
proof cases
  case (take_block mt ord s p t A)
  then show ?thesis using take_keeps [OF assms(1)] assms(3) by blast
next
  case (take_none mt ord s t A)
  moreover obtain F where "zone_inv E z F s" using assms(3) take_none(1) by (auto simp: client_inv_def)
  ultimately have "t = s" using rmqueue_smallest_returns(2) [OF assms(1)] by blast
  then show ?thesis using assms(3) take_none(1,2) by simp
next
  case (give_back mt p k A s t)
  then show ?thesis using give_keeps [OF assms(1,2) _ give_back(3-5)] assms(3) by auto
qed

lemma client_reach_inv:
  assumes "client_reach E z s0 c" "mm_ext_ok E" "flat_memmap E" "zone_inv E z F s0" "only_free F z"
    "buddies_mapped s0" "small_map s0"
  shows "client_inv E z (pages_in (free_blocks F z)) c"
  using assms(1)
proof induction
  case start
  show ?case using assms(4-7) by (auto simp: client_inv_def shares_def blocks_wf_def)
next
  case (step c d)
  then show ?case using client_inv_step [OF assms(2,3)] by blast
qed

section \<open>The property\<close>

text \<open>C4: Whatever sequence of requests a zone has served, no page is handed out twice: the blocks
  that are out overlap neither each other nor the free blocks, together they are the
  pages that were free at the start, and the counter of free pages is exact.  Every further
  request for memory returns.  A block that is out can be given back exactly when the checks of
  \<^verbatim>\<open>__free_one_page\<close> pass and every buddy that its loop looks at lies above, because the frame
  numbers have 32 bits; the other returns fault.\<close>

theorem no_double_allocation:
  assumes "mm_ext_ok E" "flat_memmap E" "zone_inv E z F0 s0" "only_free F0 z" "buddies_mapped s0" "small_map s0"
    and "client_reach E z s0 (s, A)"
  shows "(\<forall>p k q j. (p, k) \<in> A \<longrightarrow> (q, j) \<in> A \<longrightarrow> (p, k) \<noteq> (q, j) \<longrightarrow> block (unat p) k \<inter> block (unat q) j = {})
    \<and> (\<exists>F. zone_inv E z F s \<and> pages_in (held A) \<inter> pages_in (free_blocks F z) = {}
         \<and> pages_in (held A) \<union> pages_in (free_blocks F z) = pages_in (free_blocks F0 z)
         \<and> (\<forall>p k mt. (p, k) \<in> A \<longrightarrow> is_mt mt \<longrightarrow>
              (raw_free_one_page E p (page_to_pfn E p) z k mt s \<noteq> None
                 \<longleftrightarrow> free_checks E z s p \<and> upward (free_blocks F z) (unat p) k)))
    \<and> (\<forall>zn. zone_at s z = Some zn \<longrightarrow>
         z_free_pages zn = of_nat (card (pages_in (free_blocks F0 z)) - card (pages_in (held A))))
    \<and> (\<forall>ord mt. is_mt mt \<longrightarrow> raw_rmqueue_smallest E z ord mt s \<noteq> None)"
proof -
  let ?P = "pages_in (free_blocks F0 z)"
  note inv = client_reach_inv [OF assms(7,1-6)]
  then obtain F where F: "zone_inv E z F s" "only_free F z" "shares F z A ?P" by (auto simp: client_inv_def)
  have wf: "blocks_wf (held A)" and dis: "pages_in (held A) \<inter> pages_in (free_blocks F z) = {}"
    and un: "pages_in (held A) \<union> pages_in (free_blocks F z) = ?P"
    using F(3) by (simp_all add: shares_def)
  have "block (unat p) k \<inter> block (unat q) j = {}" if "(p, k) \<in> A" "(q, j) \<in> A" "(p, k) \<noteq> (q, j)" for p k q j
    using that blocks_wf_disjoint [OF wf, of "unat p" k "unat q" j] by (auto simp: word_unat_eq_iff)
  moreover have "z_free_pages zn = of_nat (card ?P - card (pages_in (held A)))" if "zone_at s z = Some zn" for zn
  proof -
    have "finite ?P" by (rule free_total_card(2) [OF assms(3)])
    then have "card ?P = card (pages_in (held A)) + card (pages_in (free_blocks F z))"
      unfolding un [symmetric] using dis by (intro card_Un_disjoint) auto
    then show ?thesis using zone_inv_free_pages [OF F(1) that] by simp
  qed
  moreover have "raw_rmqueue_smallest E z ord mt s \<noteq> None" if "is_mt mt" for ord mt
    by (rule rmqueue_smallest_returns(1) [OF assms(1) F(1) that])
  moreover have "raw_free_one_page E p (page_to_pfn E p) z k mt s \<noteq> None
      \<longleftrightarrow> free_checks E z s p \<and> upward (free_blocks F z) (unat p) k"
    if "(p, k) \<in> A" "is_mt mt" for p k mt
    by (rule give_returns(1) [OF assms(1,2) inv that(2,1) F])
  ultimately show ?thesis using F(1) dis un by blast
qed

theorem no_double_allocation_witness:
  "\<exists>s0 s p zn. client_reach demo_ext 0 s0 (s, {(p, 3)}) \<and> zone_at s 0 = Some zn \<and> z_free_pages zn = 1016"
proof -
  obtain F s0 xs where s0: "zone_inv demo_ext 0 F s0" "free_blocks F 0 = {(0, 10)}"
    "free_list F 0 10 1 = PageLru 0 # xs" "frame demo_ext 0 UNIV demo_mm s0"
    "raw_free_one_page demo_ext 0 (page_to_pfn demo_ext 0) 0 9 1 demo_mm = Some s0" "same_roots 0 demo_forest F"
    by (rule demo_merged)
  have "only_free demo_forest 0"
    by (auto simp: only_free_def demo_forest_def split: node.splits)
  then have only: "only_free F 0" by (rule only_free_same [OF s0(6)])
  obtain t where t: "raw_rmqueue_smallest demo_ext 0 3 1 s0 = Some (Some 0, t)" "free_checks demo_ext 0 t 0"
    "frame demo_ext 0 UNIV s0 t"
    by (rule demo_merged_take [OF s0(1,3,4,2)])
  have reach: "client_reach demo_ext 0 s0 (t, {(0, 3)})"
    using client_reach.step [OF client_reach.start client_step.take_block [OF demo_mt t(1)]] .
  obtain zn where zn: "zone_at t 0 = Some zn" using t(3) by (auto simp: frame_def)
  have "buddies_mapped s0" "small_map s0"
    using demo_buddies_mapped demo_small buddies_mapped_frame [OF s0(4)] small_map_frame [OF s0(4)] by simp_all
  moreover have "pages_in (held {(0, 3)}) = {0..<8}" "pages_in (free_blocks F 0) = {0..<1024}"
    by (simp_all add: s0(2) block_def)
  ultimately have "z_free_pages zn = 1016"
    using no_double_allocation [OF demo_ext_ok demo_flat s0(1) only _ _ reach] zn by simp
  then show ?thesis using reach zn by (intro exI [of _ s0] exI [of _ t] exI [of _ 0] exI [of _ zn]) simp
qed

end
