(* ===== verification/Sched_H.thy ===== *)
theory Sched_H
  imports List_H Spinlock_H Types_H "HOL-Library.Tree"
begin

text \<open>
  The data of the scheduler: the constants and structures of
  \<^verbatim>\<open>kernel/include/sched.h\<close> and \<^verbatim>\<open>kernel/include/config.h\<close> that the scheduler uses, the
  structure \<^verbatim>\<open>cfs_rq\<close> of \<^verbatim>\<open>sched_fair.c\<close>, the state that \<^verbatim>\<open>sched.c\<close> keeps, and the
  functions the sources call but do not define.

  A task is a number.  The scheduling entity embedded in a task is \<open>TaskSe p\<close>
  (\<^verbatim>\<open>&p->se\<close> in the source), so the entities are kept apart from the tasks; likewise the
  fair run queue embedded in run queue \<open>c\<close> is \<open>RootCfs c\<close> and the list nodes of a task are
  \<open>TaskNode\<close> values.  An operation is a function on the whole state with \<open>None\<close> for a
  wild access, a failed \<^verbatim>\<open>BUG_ON\<close>, a lock panic or a loop that does not end.

  The timeline of a fair run queue is a binary tree of entities: the rotations of the
  red-black tree are the external functions of \<open>sched_ext\<close>.
\<close>

section \<open>Constants\<close>

definition TASK_RUNNING :: u64 where "TASK_RUNNING = 0"
definition TASK_INTERRUPTIBLE :: u64 where "TASK_INTERRUPTIBLE = 1"
definition TASK_UNINTERRUPRIBLE :: u64 where "TASK_UNINTERRUPRIBLE = 2"
definition TASK_ZOMBIE :: u64 where "TASK_ZOMBIE = 4"
definition TASK_STOPPED :: u64 where "TASK_STOPPED = 8"
definition TASK_TRACED :: u64 where "TASK_TRACED = 16"

definition DEFAULT_PRIO :: int where "DEFAULT_PRIO = 120"
definition MAX_RT_PRIO :: int where "MAX_RT_PRIO = 100"
definition MAX_PRIO :: int where "MAX_PRIO = 140"
definition MAX_NICE :: int where "MAX_NICE = 19"
definition MIN_NICE :: int where "MIN_NICE = -20"
definition NICE_WIDTH :: int where "NICE_WIDTH = 40"
definition NICE_0_LOAD :: u64 where "NICE_0_LOAD = 1024"
definition NICE_0_SHIFT :: nat where "NICE_0_SHIFT = 10"

definition PF_KTHREAD :: u32 where "PF_KTHREAD = 0x00000001"
definition CLONE_VM :: u64 where "CLONE_VM = 0x00000100"
definition CLONE_VFORK :: u64 where "CLONE_VFORK = 0x00004000"

definition NR_CPUS :: nat where "NR_CPUS = 1"
definition THREAD_SIZE :: u64 where "THREAD_SIZE = 16384"
definition FORK_PREEMPT_COUNT :: u32 where "FORK_PREEMPT_COUNT = 2"
definition PID_MAX :: s32 where "PID_MAX = 32768"
definition BITS_PER_LONG :: nat where "BITS_PER_LONG = 64"

text \<open>The weight of each nice level and its inverse.\<close>

definition prio_to_weight :: "int list" where
  "prio_to_weight = [
     88761, 71755, 56483, 46273, 36291, 29154, 23254, 18705, 14949, 11916,
     9548, 7620, 6100, 4904, 3906, 3121, 2501, 1991, 1586, 1277,
     1024, 820, 655, 526, 423, 335, 272, 215, 172, 137,
     110, 87, 70, 56, 45, 36, 29, 23, 18, 15]"

definition prio_to_wmult :: "int list" where
  "prio_to_wmult = [
     48388, 59856, 76040, 92818, 118348, 147320, 184698, 229616, 287308, 360437,
     449829, 563644, 704093, 875809, 1099582, 1376151, 1717300, 2157191, 2708050, 3363326,
     4194304, 5237765, 6557202, 8165337, 10153587, 12820798, 15790321, 19976592, 24970740, 31350126,
     39045157, 49367440, 61356676, 76695844, 95443717, 119304647, 148102320, 186737708, 238609294,
     286331153]"

section \<open>Entities and tasks\<close>

datatype se_ptr = TaskSe nat | GroupSe nat

datatype cfs_ptr = RootCfs nat | GroupCfs nat

datatype sched_class = Stop_class | Dl_class | Rt_class | Fair_class | Idle_class

record load_weight =
  weight :: u64
  inv_weight :: u64

record sched_entity =
  se_load :: load_weight
  exec_start :: u64
  sum_exec_runtime :: u64
  vruntime :: u64
  prev_sum_exec_runtime :: u64
  nr_migrations :: u64
  on_rq :: bool

record sched_rt_entity =
  rt_timeout :: ulong
  rt_watchdog_stamp :: ulong
  rt_time_slice :: u32
  rt_back :: "nat option"
  rt_parent :: "nat option"
  rt_rq :: "nat option"
  rt_my_q :: "nat option"

record sched_info =
  si_pcount :: ulong
  si_run_delay :: u64
  si_last_arrival :: u64
  si_last_queued :: u64
  si_pcnt :: ulong

datatype task_list_field =
    Tasks | Children | Sibling | Run_list | Ptraced | Ptrace_entry | Rcu_tasks_holdout_list

datatype sched_node = Task_list | Cfs_tasks nat | TaskNode task_list_field nat

text \<open>The rest of a task: what \<^verbatim>\<open>alloc_task_struct\<close> sets and the scheduler only carries along.  The
  pointers are addresses; \<^verbatim>\<open>struct rb_node\<close> is not declared in the sources, so \<^verbatim>\<open>run_node\<close> is a word;
  the members whose types are not declared either are not kept.\<close>

record sigset_t =
  sig_words :: "ulong list"

record wait_queue_head =
  wq_lock :: spinlock_t
  wq_task_list :: "sched_node list_head"

record task_rest =
  t_run_node :: u64
  t_fs :: "nat option"
  t_files :: "nat option"
  t_signal :: "nat option"
  t_sighand :: "nat option"
  t_blocked :: sigset_t
  t_real_blocked :: sigset_t
  t_saved_sigmask :: sigset_t
  t_regs :: "nat option"
  t_thread_fn :: "nat option"
  t_thread_data :: "nat option"
  t_nsproxy :: "nat option"
  t_audit_context :: u32
  t_perf_event_ctxp :: "nat option"
  t_sched_task_group :: "nat option"
  t_cgroups :: "nat option"
  t_personality :: u32
  t_did_exec :: "1 word"
  t_in_execve :: "1 word"
  t_in_iowait :: "1 word"
  t_no_new_privs :: "1 word"
  t_sched_reset_on_fork :: "1 word"
  t_sched_contributes_to_load :: "1 word"
  t_sched_migrated :: "1 word"
  t_security :: "nat option"
  t_trace :: ulong
  t_trace_recursion :: ulong
  t_delays :: "nat option"
  t_make_it_fail :: int
  t_scm_work_list :: "nat option"
  t_wait_chldexit :: wait_queue_head
  t_task_exit_notifier :: "nat option"
  t_stats :: "nat option"
  t_mempolicy :: "nat option"
  t_il_next :: "16 word"
  t_pref_node_fork :: "16 word"
  t_bio_list :: "nat option"
  t_plug :: "nat option"
  t_blocked_on :: "nat option"
  t_tracer :: "nat option"
  t_socket :: "nat option"
  t_net_ns :: "nat option"
  t_migrate_disable :: int
  t_rcu_read_lock_nesting :: int
  t_rcu_read_unlock_special :: int
  t_rcu_blocked_node :: "nat option"
  t_rcu_tasks_holdout :: int

record task_struct =
  t_state :: u64
  t_exit_state :: int
  t_exit_code :: int
  t_exit_signal :: int
  t_flags :: u32
  t_ptrace :: u32
  t_pid :: pid_t
  t_tgid :: pid_t
  t_ppid :: pid_t
  t_pgrp :: pid_t
  t_session :: pid_t
  t_uid :: u32
  t_gid :: u32
  t_euid :: u32
  t_egid :: u32
  t_suid :: u32
  t_sgid :: u32
  t_fsuid :: u32
  t_fsgid :: u32
  t_prio :: int
  t_static_prio :: int
  t_normal_prio :: int
  t_rt :: sched_rt_entity
  t_policy :: u32
  t_cpus_allowed :: u64
  t_nr_cpus_allowed :: u32
  t_real_parent :: "nat option"
  t_parent :: "nat option"
  t_group_leader :: "nat option"
  t_mm :: "nat option"
  t_active_mm :: "nat option"
  t_stack :: "u64 option"
  t_stack_size :: u64
  t_utime :: u64
  t_stime :: u64
  t_gtime :: u64
  t_start_time :: u64
  t_real_start_time :: u64
  t_min_flt :: ulong
  t_maj_flt :: ulong
  t_nvcsw :: ulong
  t_nivcsw :: ulong
  t_comm :: string
  t_alloc_lock :: spinlock_t
  t_pi_lock :: spinlock_t
  t_preempt_count :: u32
  t_usage :: u32
  t_sched_info :: sched_info
  t_last_cpu :: int
  t_wake_cpu :: int
  t_rcu_tasks_idle_cpu :: int
  t_sched_class :: "sched_class option"
  t_thread_flags :: u64
  t_rest :: task_rest

section \<open>Run queues\<close>

text \<open>The bandwidth fields of \<^verbatim>\<open>cfs_rq\<close> are a record of their own; only external functions
  touch them.\<close>

record cfs_bandwidth =
  runtime_enabled :: int
  runtime_expires :: u64
  runtime_remaining :: s64
  throttled_clock :: u64
  throttled_clock_task :: u64
  throttled :: int
  throttle_count :: int

record cfs_rq =
  cfs_load :: load_weight
  cfs_nr_running :: u32
  h_nr_running :: u32
  min_vruntime :: u64
  tasks_timeline :: "se_ptr tree"
  rb_leftmost :: "se_ptr option"
  cfs_curr :: "se_ptr option"
  cfs_next :: "se_ptr option"
  cfs_last :: "se_ptr option"
  cfs_skip :: "se_ptr option"
  cfs_bw :: cfs_bandwidth

record rt_rq =
  rt_nr_running :: u32
  highest_prio_curr :: int
  highest_prio_next :: int

record dl_rq =
  dl_nr_running :: u32
  dl_time :: u64
  dl_bw :: u64

record rq =
  rq_lock :: spinlock_t
  rq_nr_running :: u32
  rq_nr_uninterruptible :: ulong
  rq_load :: load_weight
  nr_switches :: u64
  rq_rt :: rt_rq
  rq_dl :: dl_rq
  rq_curr :: "nat option"
  rq_idle :: "nat option"
  rq_stop :: "nat option"
  prev_mm :: "nat option"
  clock :: u64
  clock_task :: u64
  prev_irq_time :: u64
  prev_steal_time_rq :: u64
  clock_skip_update :: u64
  rq_cpu :: int
  rq_online :: int
  push_cpu :: int
  balance_cpu :: int
  next_balance :: ulong
  balance_callback :: "nat option"
  idle_balance :: u8
  active_balance :: int
  nr_load_updates :: ulong
  avg_idle :: u64
  idle_stamp :: u64
  age_stamp :: u64
  rt_avg :: u64
  prev_steal_time :: u64
  nohz_tick_stopped :: u32
  nohz_flags :: u32
  nohz_stamp :: u64
  last_load_update_tick :: ulong
  last_blocked_load_update_tick :: ulong
  has_blocked_load :: u32
  max_idle_balance_cost :: ulong
  wake_stamp :: ulong
  wake_avg_idle :: u64
  ttwu_count :: u32
  ttwu_local :: u32
  rq_sched_info :: sched_info

record mm_struct =
  mm_users :: u32
  mm_count :: u32

section \<open>The state of the scheduler\<close>

text \<open>\<open>hw_clock\<close> is whatever \<^verbatim>\<open>sched_clock_cpu\<close> reads, \<open>jiffies_get\<close> and \<open>jiffies_update\<close> are
  the two static counters of \<^verbatim>\<open>main.c\<close>.  \<open>regs\<close> are the registers that \<^verbatim>\<open>switch_to\<close> saves, \<open>stack_mem\<close>
  the words of the kernel stacks and \<open>thread_sp\<close> the word at offset \<^verbatim>\<open>0x1000\<close> of each task, where
  \<^verbatim>\<open>switch_to\<close> keeps its stack pointer.  \<open>arch_state\<close> stands for what lies outside the scheduler: the
  address space registers and the state of the tracers and notifiers it calls.\<close>

record cpu_regs =
  rsp :: u64
  rbp :: u64
  rbx :: u64
  r12 :: u64
  r13 :: u64
  r14 :: u64
  r15 :: u64

record sched =
  tasks :: "nat \<rightharpoonup> task_struct"
  se_at :: "se_ptr \<rightharpoonup> sched_entity"
  cfs_at :: "cfs_ptr \<rightharpoonup> cfs_rq"
  runqueues :: "nat \<rightharpoonup> rq"
  mm_at :: "nat \<rightharpoonup> mm_struct"
  sched_nodes :: "sched_node list_heap"
  current_task :: "nat option"
  task_list_lock :: spinlock_t
  next_pid :: pid_t
  caller_addr :: u64
  eflags :: u64
  hw_clock :: u64
  jiffies_get :: u64
  jiffies_update :: u64
  regs :: cpu_regs
  stack_mem :: "u64 \<Rightarrow> u64"
  thread_sp :: "nat \<Rightarrow> u64"
  arch_state :: u64

section \<open>Functions the sources call and do not define\<close>

datatype sched_feature =
  START_DEBIT | GENTLE_FAIR_SLEEPERS | NEXT_BUDDY | LAST_BUDDY | WAKEUP_PREEMPTION

record sched_ext =
  sched_clock_cpu :: "int \<Rightarrow> u64 \<Rightarrow> u64 \<times> u64"
  cpu_of :: "nat \<Rightarrow> int"
  rq_of :: "cfs_ptr \<Rightarrow> nat"
  scale_load_down :: "u64 \<Rightarrow> u64"
  WMULT_CONST :: ulong
  WMULT_SHIFT :: int
  mul_u64_u32_shr :: "u64 \<Rightarrow> u32 \<Rightarrow> int \<Rightarrow> u64"
  earlier_vruntime :: "u64 \<Rightarrow> u64 \<Rightarrow> u64"
  later_vruntime :: "u64 \<Rightarrow> u64 \<Rightarrow> u64"
  rb_insert_color :: "se_ptr \<Rightarrow> se_ptr tree \<Rightarrow> se_ptr tree"
  rb_erase :: "se_ptr \<Rightarrow> se_ptr tree \<Rightarrow> se_ptr tree"
  rb_next :: "se_ptr \<Rightarrow> se_ptr tree \<Rightarrow> se_ptr option"
  entity_is_task :: "se_ptr \<Rightarrow> bool"
  task_of :: "se_ptr \<Rightarrow> nat"
  cfs_rq_of :: "se_ptr \<Rightarrow> cfs_ptr"
  parent_entity :: "se_ptr \<Rightarrow> se_ptr option"
  entity_before :: "sched_entity \<Rightarrow> sched_entity \<Rightarrow> bool"
  wakeup_preempt_entity :: "sched_entity \<Rightarrow> sched_entity \<Rightarrow> int"
  clear_buddies :: "se_ptr \<Rightarrow> cfs_rq \<Rightarrow> cfs_rq"
  set_next_buddy :: "se_ptr \<Rightarrow> cfs_rq \<Rightarrow> cfs_rq"
  set_last_buddy :: "se_ptr \<Rightarrow> cfs_rq \<Rightarrow> cfs_rq"
  set_skip_buddy :: "se_ptr \<Rightarrow> cfs_rq \<Rightarrow> cfs_rq"
  account_entity_enqueue :: "sched_entity \<Rightarrow> cfs_rq \<Rightarrow> cfs_rq"
  account_entity_dequeue :: "sched_entity \<Rightarrow> cfs_rq \<Rightarrow> cfs_rq"
  account_cfs_rq_runtime :: "u64 \<Rightarrow> cfs_bandwidth \<Rightarrow> cfs_bandwidth"
  check_cfs_rq_runtime :: "cfs_bandwidth \<Rightarrow> cfs_bandwidth"
  return_cfs_rq_runtime :: "cfs_bandwidth \<Rightarrow> cfs_bandwidth"
  check_enqueue_throttle :: "cfs_bandwidth \<Rightarrow> cfs_bandwidth"
  cfs_rq_throttled :: "cfs_bandwidth \<Rightarrow> bool"
  throttled_hierarchy :: "cfs_bandwidth \<Rightarrow> bool"
  sched_feat :: "sched_feature \<Rightarrow> bool"
  sched_vslice :: "cfs_rq \<Rightarrow> sched_entity \<Rightarrow> u64"
  sysctl_sched_latency :: ulong
  sched_nr_latency :: u32
  ENQUEUE_WAKEUP :: s32
  ENQUEUE_WAKING :: s32
  ENQUEUE_RESTORE :: s32
  DEQUEUE_SLEEP :: s32
  DEQUEUE_SAVE :: s32
  WF_FORK :: s32
  SCHED_NORMAL :: u32
  SCHED_BATCH :: u32
  SCHED_IDLE :: u32
  find_matching_se :: "se_ptr \<Rightarrow> se_ptr \<Rightarrow> se_ptr \<times> se_ptr option"
  test_tsk_need_resched :: "task_struct \<Rightarrow> bool"
  clear_tsk_need_resched :: "task_struct \<Rightarrow> task_struct"
  resched_curr :: "nat \<Rightarrow> sched \<Rightarrow> sched option"
  add_nr_running :: "u32 \<Rightarrow> rq \<Rightarrow> rq"
  sub_nr_running :: "u32 \<Rightarrow> rq \<Rightarrow> rq"
  irq_time_read :: "int \<Rightarrow> u64"
  steal_account_process_tick :: "int \<Rightarrow> s64"
  rq_clock_skip_update :: "bool \<Rightarrow> rq \<Rightarrow> rq"

text \<open>Field accesses through the pointers.\<close>

definition upd_task :: "nat \<Rightarrow> (task_struct \<Rightarrow> task_struct) \<Rightarrow> sched \<Rightarrow> sched option" where
  "upd_task p f s = do { t \<leftarrow> tasks s p; Some (s\<lparr>tasks := (tasks s)(p \<mapsto> f t)\<rparr>) }"

definition upd_se :: "se_ptr \<Rightarrow> (sched_entity \<Rightarrow> sched_entity) \<Rightarrow> sched \<Rightarrow> sched option" where
  "upd_se e f s = do { se \<leftarrow> se_at s e; Some (s\<lparr>se_at := (se_at s)(e \<mapsto> f se)\<rparr>) }"

definition upd_cfs :: "cfs_ptr \<Rightarrow> (cfs_rq \<Rightarrow> cfs_rq) \<Rightarrow> sched \<Rightarrow> sched option" where
  "upd_cfs q f s = do { cq \<leftarrow> cfs_at s q; Some (s\<lparr>cfs_at := (cfs_at s)(q \<mapsto> f cq)\<rparr>) }"

definition upd_rq :: "nat \<Rightarrow> (rq \<Rightarrow> rq) \<Rightarrow> sched \<Rightarrow> sched option" where
  "upd_rq r f s = do { q \<leftarrow> runqueues s r; Some (s\<lparr>runqueues := (runqueues s)(r \<mapsto> f q)\<rparr>) }"

definition upd_snodes ::
    "(sched_node list_heap \<Rightarrow> sched_node list_heap option) \<Rightarrow> sched \<Rightarrow> sched option" where
  "upd_snodes f s = do { h \<leftarrow> f (sched_nodes s); Some (s\<lparr>sched_nodes := h\<rparr>) }"

definition sched_clock :: "sched_ext \<Rightarrow> int \<Rightarrow> sched \<Rightarrow> u64 \<times> sched" where
  "sched_clock X cpu s = (let (t, h) = sched_clock_cpu X cpu (hw_clock s) in (t, s\<lparr>hw_clock := h\<rparr>))"

section \<open>The run queue clock (sched.c)\<close>

text \<open>\<^verbatim>\<open>s64\<close> is declared as a 32-bit type, so the differences are truncated and read as signed
  32-bit numbers; adding one to a 64-bit field sign-extends it.\<close>

definition update_rq_clock_task :: "sched_ext \<Rightarrow> nat \<Rightarrow> s64 \<Rightarrow> sched \<Rightarrow> sched option" where
  "update_rq_clock_task X r delta s = do {
     q \<leftarrow> runqueues s r;
     let irq_delta = (ucast (irq_time_read X (cpu_of X r) - prev_irq_time q) :: s64);
     let irq_delta = (if sint irq_delta > sint delta then delta else irq_delta);
     s \<leftarrow> upd_rq r (\<lambda>q. q\<lparr>prev_irq_time := prev_irq_time q + scast irq_delta\<rparr>) s;
     let delta = delta - irq_delta;
     let steal = steal_account_process_tick X (cpu_of X r);
     let steal = (if sint steal > sint delta then delta else steal);
     s \<leftarrow> upd_rq r (\<lambda>q. q\<lparr>prev_steal_time_rq := prev_steal_time_rq q + scast steal\<rparr>) s;
     let delta = delta - steal;
     upd_rq r (\<lambda>q. q\<lparr>clock_task := clock_task q + scast delta\<rparr>) s }"

definition update_rq_clock :: "sched_ext \<Rightarrow> nat \<Rightarrow> sched \<Rightarrow> sched option" where
  "update_rq_clock X r s = do {
     q \<leftarrow> runqueues s r;
     let (now, s) = sched_clock X (cpu_of X r) s;
     let delta = (ucast (now - clock q) :: s64);
     if sint delta < 0 then Some s
     else do {
       s \<leftarrow> upd_rq r (\<lambda>q. q\<lparr>clock := clock q + scast delta\<rparr>) s;
       update_rq_clock_task X r delta s } }"

end
