(* ===== verification/Sched_Fair.thy ===== *)
theory Sched_Fair
  imports Sched_H
begin

text \<open>
  The fair scheduling class of \<^verbatim>\<open>kernel/core/sched/sched_fair.c\<close>, function by function.

  Left out are calls that only keep statistics, trace or track load averages
  (\<^verbatim>\<open>schedstat_*\<close>, \<^verbatim>\<open>update_stats_*\<close>, \<^verbatim>\<open>trace_*\<close>, \<^verbatim>\<open>cpuacct_charge\<close>, \<^verbatim>\<open>account_group_exec_runtime\<close>,
  \<^verbatim>\<open>*_load_avg\<close>, \<^verbatim>\<open>check_spread\<close>, \<^verbatim>\<open>enqueue_sleeper\<close>, \<^verbatim>\<open>hrtick_update\<close>, the sleep and block
  time stamps) and those that are empty without group scheduling, which
  \<^verbatim>\<open>config.h\<close> switches off (\<^verbatim>\<open>update_cfs_shares\<close>, \<^verbatim>\<open>list_add_leaf_cfs_rq\<close>).
\<close>

section \<open>Weighted time\<close>

definition raw_update_inv_weight :: "sched_ext \<Rightarrow> load_weight \<Rightarrow> load_weight" where
  "raw_update_inv_weight X lw =
     (if inv_weight lw \<noteq> 0 then lw
      else let w = (ucast (scale_load_down X (weight lw)) :: ulong)
           in if BITS_PER_LONG > 32 \<and> WMULT_CONST X \<le> w then lw\<lparr>inv_weight := 1\<rparr>
              else if w = 0 then lw\<lparr>inv_weight := ucast (WMULT_CONST X)\<rparr>
              else lw\<lparr>inv_weight := ucast (WMULT_CONST X div w)\<rparr>)"

text \<open>The two loops \<^verbatim>\<open>while (fact >> 32)\<close>.\<close>

lemma drop_bit_1_less: "x \<noteq> 0 \<Longrightarrow> unat (drop_bit 1 x) < unat x" for x :: "'w::len word"
  unfolding unat_drop_bit_eq by (simp add: drop_bit_eq_div unat_gt_0 del: drop_bit_of_Suc_0)

function shift_down :: "u64 \<Rightarrow> int \<Rightarrow> u64 \<times> int" where
  "shift_down f shift =
     (if drop_bit 32 f \<noteq> 0 then shift_down (drop_bit 1 f) (shift - 1) else (f, shift))"
  by pat_completeness auto
termination
  by (relation "measure (\<lambda>(f, shift). unat f)") (simp, simp only: in_measure case_prod_conv,
      rule drop_bit_1_less, auto)

declare shift_down.simps [simp del]

definition raw_calc_delta ::
    "sched_ext \<Rightarrow> u64 \<Rightarrow> ulong \<Rightarrow> load_weight \<Rightarrow> u64 \<times> load_weight" where
  "raw_calc_delta X delta_exec wt lw =
     (let f = scale_load_down X (ucast wt);
          lw = raw_update_inv_weight X lw;
          (f, shift) = shift_down f (WMULT_SHIFT X);
          f = ucast (ucast f :: u32) * inv_weight lw;
          (f, shift) = shift_down f shift
      in (mul_u64_u32_shr X delta_exec (ucast f) shift, lw))"

definition calc_delta_fair :: "sched_ext \<Rightarrow> u64 \<Rightarrow> load_weight \<Rightarrow> u64 \<times> load_weight" where
  "calc_delta_fair X delta lw =
     (if weight lw \<noteq> NICE_0_LOAD then raw_calc_delta X delta (ucast NICE_0_LOAD) lw
      else (delta, lw))"

section \<open>The virtual clock\<close>

definition update_min_vruntime :: "sched_ext \<Rightarrow> cfs_ptr \<Rightarrow> sched \<Rightarrow> sched option" where
  "update_min_vruntime X q s = do {
     cq \<leftarrow> cfs_at s q;
     (cur, v) \<leftarrow> (case cfs_curr cq of
          None \<Rightarrow> Some (None, min_vruntime cq)
        | Some c \<Rightarrow> do {
            se \<leftarrow> se_at s c;
            Some (if on_rq se then (Some c, vruntime se) else (None, min_vruntime cq)) });
     v \<leftarrow> (case rb_leftmost cq of
          None \<Rightarrow> Some v
        | Some l \<Rightarrow> do {
            se \<leftarrow> se_at s l;
            Some (if cur = None then vruntime se else earlier_vruntime X v (vruntime se)) });
     upd_cfs q (\<lambda>cq. cq\<lparr>min_vruntime := later_vruntime X (min_vruntime cq) v\<rparr>) s }"

definition update_curr :: "sched_ext \<Rightarrow> cfs_ptr \<Rightarrow> sched \<Rightarrow> sched option" where
  "update_curr X q s = do {
     cq \<leftarrow> cfs_at s q;
     let (now, s) = sched_clock X (cpu_of X (rq_of X q)) s;
     case cfs_curr cq of
       None \<Rightarrow> Some s
     | Some c \<Rightarrow> do {
         se \<leftarrow> se_at s c;
         let delta_exec = now - exec_start se;
         if sint (ucast delta_exec :: s64) \<le> 0 then Some s
         else do {
           s \<leftarrow> upd_se c (\<lambda>se. se\<lparr>exec_start := now\<rparr>) s;
           s \<leftarrow> upd_se c (\<lambda>se. se\<lparr>sum_exec_runtime := sum_exec_runtime se + delta_exec\<rparr>) s;
           s \<leftarrow> upd_se c (\<lambda>se. let (d, lw) = calc_delta_fair X delta_exec (se_load se)
                               in se\<lparr>se_load := lw, vruntime := vruntime se + d\<rparr>) s;
           s \<leftarrow> update_min_vruntime X q s;
           upd_cfs q (\<lambda>cq. cq\<lparr>cfs_bw := account_cfs_rq_runtime X delta_exec (cfs_bw cq)\<rparr>) s } } }"

section \<open>The timeline\<close>

definition entity_key :: "u64 \<Rightarrow> sched_entity \<Rightarrow> s64" where
  "entity_key minv se = ucast (vruntime se - minv)"

text \<open>The descent of \<^verbatim>\<open>__enqueue_entity\<close> together with \<^verbatim>\<open>rb_link_node\<close>, which hangs the new
  node at the link that the loop found.  The flag is the variable \<^verbatim>\<open>leftmost\<close>.\<close>

fun enqueue_walk ::
    "(se_ptr \<rightharpoonup> sched_entity) \<Rightarrow> u64 \<Rightarrow> se_ptr \<Rightarrow> sched_entity \<Rightarrow> se_ptr tree \<Rightarrow> bool \<Rightarrow>
     (se_ptr tree \<times> bool) option" where
  "enqueue_walk ents minv e se Leaf leftmost = Some (Node Leaf e Leaf, leftmost)"
| "enqueue_walk ents minv e se (Node l p r) leftmost = do {
     entry \<leftarrow> ents p;
     if sint (entity_key minv se) < sint (entity_key minv entry)
     then do { (l, b) \<leftarrow> enqueue_walk ents minv e se l leftmost; Some (Node l p r, b) }
     else do { (r, b) \<leftarrow> enqueue_walk ents minv e se r False; Some (Node l p r, b) } }"

definition raw_enqueue_entity :: "sched_ext \<Rightarrow> cfs_ptr \<Rightarrow> se_ptr \<Rightarrow> sched \<Rightarrow> sched option" where
  "raw_enqueue_entity X q e s = do {
     cq \<leftarrow> cfs_at s q;
     se \<leftarrow> se_at s e;
     (t, leftmost) \<leftarrow> enqueue_walk (se_at s) (min_vruntime cq) e se (tasks_timeline cq) True;
     s \<leftarrow> (if leftmost then upd_cfs q (\<lambda>cq. cq\<lparr>rb_leftmost := Some e\<rparr>) s else Some s);
     upd_cfs q (\<lambda>cq. cq\<lparr>tasks_timeline := rb_insert_color X e t\<rparr>) s }"

definition raw_dequeue_entity :: "sched_ext \<Rightarrow> cfs_ptr \<Rightarrow> se_ptr \<Rightarrow> sched \<Rightarrow> sched option" where
  "raw_dequeue_entity X q e s = do {
     cq \<leftarrow> cfs_at s q;
     s \<leftarrow> (if rb_leftmost cq = Some e
           then upd_cfs q (\<lambda>cq. cq\<lparr>rb_leftmost := rb_next X e (tasks_timeline cq)\<rparr>) s
           else Some s);
     upd_cfs q (\<lambda>cq. cq\<lparr>tasks_timeline := rb_erase X e (tasks_timeline cq)\<rparr>) s }"

definition raw_pick_first_entity :: "cfs_rq \<Rightarrow> se_ptr option" where
  "raw_pick_first_entity cq = rb_leftmost cq"

definition raw_pick_next_entity :: "sched_ext \<Rightarrow> cfs_rq \<Rightarrow> se_ptr \<Rightarrow> se_ptr option" where
  "raw_pick_next_entity X cq e = rb_next X e (tasks_timeline cq)"

section \<open>Choosing the next entity\<close>

text \<open>\<^verbatim>\<open>entity_before\<close> and \<^verbatim>\<open>wakeup_preempt_entity\<close> on pointers; a null pointer faults.\<close>

definition before_at :: "sched_ext \<Rightarrow> sched \<Rightarrow> se_ptr \<Rightarrow> se_ptr \<Rightarrow> bool option" where
  "before_at X s a b = do { x \<leftarrow> se_at s a; y \<leftarrow> se_at s b; Some (entity_before X x y) }"

definition preempt_at :: "sched_ext \<Rightarrow> sched \<Rightarrow> se_ptr \<Rightarrow> se_ptr option \<Rightarrow> int option" where
  "preempt_at X s a b = do { b \<leftarrow> b; x \<leftarrow> se_at s a; y \<leftarrow> se_at s b; Some (wakeup_preempt_entity X x y) }"

definition curr_before :: "sched_ext \<Rightarrow> sched \<Rightarrow> se_ptr option \<Rightarrow> se_ptr option \<Rightarrow> bool option" where
  "curr_before X s cur e = (case e of
      None \<Rightarrow> Some True
    | Some l \<Rightarrow> (case cur of None \<Rightarrow> Some False | Some c \<Rightarrow> before_at X s c l))"

definition buddy_choice ::
    "sched_ext \<Rightarrow> sched \<Rightarrow> se_ptr option \<Rightarrow> se_ptr option \<Rightarrow> se_ptr option \<Rightarrow> se_ptr option option" where
  "buddy_choice X s buddy lft se = (case buddy of
      None \<Rightarrow> Some se
    | Some b \<Rightarrow> do { w \<leftarrow> preempt_at X s b lft; Some (if w < 1 then Some b else se) })"

definition pick_next_entity ::
    "sched_ext \<Rightarrow> cfs_ptr \<Rightarrow> se_ptr option \<Rightarrow> sched \<Rightarrow> (se_ptr option \<times> sched) option" where
  "pick_next_entity X q cur s = do {
     cq \<leftarrow> cfs_at s q;
     let first = raw_pick_first_entity cq;
     c \<leftarrow> curr_before X s cur first;
     let lft = (if c then cur else first);
     let se = lft;
     se \<leftarrow> (if cfs_skip cq = se then do {
              second \<leftarrow> (if se = cur then Some (raw_pick_first_entity cq)
                         else do {
                           e \<leftarrow> se;
                           let second = raw_pick_next_entity X cq e;
                           c \<leftarrow> curr_before X s cur second;
                           Some (if c then cur else second) });
              buddy_choice X s second lft se }
            else Some se);
     se \<leftarrow> buddy_choice X s (cfs_last cq) lft se;
     se \<leftarrow> buddy_choice X s (cfs_next cq) lft se;
     s \<leftarrow> (case se of None \<Rightarrow> Some s | Some e \<Rightarrow> upd_cfs q (clear_buddies X e) s);
     Some (se, s) }"

definition set_next_entity :: "sched_ext \<Rightarrow> cfs_ptr \<Rightarrow> se_ptr \<Rightarrow> sched \<Rightarrow> sched option" where
  "set_next_entity X q e s = do {
     se \<leftarrow> se_at s e;
     s \<leftarrow> (if on_rq se then raw_dequeue_entity X q e s else Some s);
     s \<leftarrow> upd_cfs q (\<lambda>cq. cq\<lparr>cfs_curr := Some e\<rparr>) s;
     s \<leftarrow> upd_se e (\<lambda>se. se\<lparr>prev_sum_exec_runtime := sum_exec_runtime se\<rparr>) s;
     let (now, s) = sched_clock X (cpu_of X (rq_of X q)) s;
     upd_se e (\<lambda>se. se\<lparr>exec_start := now\<rparr>) s }"

definition put_prev_entity :: "sched_ext \<Rightarrow> cfs_ptr \<Rightarrow> se_ptr \<Rightarrow> sched \<Rightarrow> sched option" where
  "put_prev_entity X q prev s = do {
     se \<leftarrow> se_at s prev;
     s \<leftarrow> (if on_rq se then update_curr X q s else Some s);
     s \<leftarrow> upd_cfs q (\<lambda>cq. cq\<lparr>cfs_bw := check_cfs_rq_runtime X (cfs_bw cq)\<rparr>) s;
     se \<leftarrow> se_at s prev;
     s \<leftarrow> (if on_rq se then raw_enqueue_entity X q prev s else Some s);
     upd_cfs q (\<lambda>cq. cq\<lparr>cfs_curr := None\<rparr>) s }"

definition pick_next_task_fair ::
    "sched_ext \<Rightarrow> nat \<Rightarrow> nat option \<Rightarrow> sched \<Rightarrow> (nat option \<times> sched) option" where
  "pick_next_task_fair X r prev s = do {
     let q = RootCfs r;
     cq \<leftarrow> cfs_at s q;
     if cfs_nr_running cq = 0 then Some (None, s)
     else do {
       (keep, s) \<leftarrow> (case prev of
           None \<Rightarrow> Some (False, s)
         | Some p \<Rightarrow> do {
             t \<leftarrow> tasks s p;
             if t_sched_class t \<noteq> Some Fair_class then Some (False, s)
             else do {
               s \<leftarrow> update_curr X q s;
               cq \<leftarrow> cfs_at s q;
               pse \<leftarrow> se_at s (TaskSe p);
               keep \<leftarrow> (if on_rq pse \<and> entity_is_task X (TaskSe p)
                        then (case raw_pick_first_entity cq of
                                None \<Rightarrow> Some False
                              | Some e \<Rightarrow> do {
                                  se \<leftarrow> se_at s e;
                                  Some (sint (entity_key (min_vruntime cq) pse)
                                          \<le> sint (entity_key (min_vruntime cq) se)) })
                        else Some False);
               if keep then Some (True, s)
               else do { s \<leftarrow> put_prev_entity X q (TaskSe p) s; Some (False, s) } } });
       if keep then Some (prev, s)
       else do {
         (se, s) \<leftarrow> pick_next_entity X q None s;
         case se of
           None \<Rightarrow> Some (None, s)
         | Some e \<Rightarrow> do {
             s \<leftarrow> set_next_entity X q e s;
             Some (Some (task_of X e), s) } } } }"

section \<open>Entering and leaving the run queue\<close>

definition place_entity :: "sched_ext \<Rightarrow> cfs_ptr \<Rightarrow> se_ptr \<Rightarrow> bool \<Rightarrow> sched \<Rightarrow> sched option" where
  "place_entity X q e initial s = do {
     cq \<leftarrow> cfs_at s q;
     se \<leftarrow> se_at s e;
     let v = min_vruntime cq;
     let v = (if initial \<and> sched_feat X START_DEBIT then v + sched_vslice X cq se else v);
     let v = (if \<not> initial
              then v - ucast (if sched_feat X GENTLE_FAIR_SLEEPERS
                              then drop_bit 1 (sysctl_sched_latency X) else sysctl_sched_latency X)
              else v);
     upd_se e (\<lambda>se. se\<lparr>vruntime := later_vruntime X (vruntime se) v\<rparr>) s }"

definition enqueue_entity :: "sched_ext \<Rightarrow> cfs_ptr \<Rightarrow> se_ptr \<Rightarrow> s32 \<Rightarrow> sched \<Rightarrow> sched option" where
  "enqueue_entity X q e flags s = do {
     cq \<leftarrow> cfs_at s q;
     s \<leftarrow> (if flags AND ENQUEUE_WAKEUP X = 0 \<or> flags AND ENQUEUE_WAKING X \<noteq> 0
           then upd_se e (\<lambda>se. se\<lparr>vruntime := vruntime se + min_vruntime cq\<rparr>) s else Some s);
     s \<leftarrow> update_curr X q s;
     se \<leftarrow> se_at s e;
     s \<leftarrow> upd_cfs q (account_entity_enqueue X se) s;
     s \<leftarrow> (if flags AND ENQUEUE_WAKEUP X \<noteq> 0 then place_entity X q e False s else Some s);
     cq \<leftarrow> cfs_at s q;
     s \<leftarrow> (if cfs_curr cq \<noteq> Some e then raw_enqueue_entity X q e s else Some s);
     s \<leftarrow> upd_se e (\<lambda>se. se\<lparr>on_rq := True\<rparr>) s;
     cq \<leftarrow> cfs_at s q;
     if cfs_nr_running cq = 1
     then upd_cfs q (\<lambda>cq. cq\<lparr>cfs_bw := check_enqueue_throttle X (cfs_bw cq)\<rparr>) s else Some s }"

definition dequeue_entity :: "sched_ext \<Rightarrow> cfs_ptr \<Rightarrow> se_ptr \<Rightarrow> s32 \<Rightarrow> sched \<Rightarrow> sched option" where
  "dequeue_entity X q e flags s = do {
     s \<leftarrow> update_curr X q s;
     s \<leftarrow> upd_cfs q (clear_buddies X e) s;
     cq \<leftarrow> cfs_at s q;
     s \<leftarrow> (if cfs_curr cq \<noteq> Some e then raw_dequeue_entity X q e s else Some s);
     s \<leftarrow> upd_se e (\<lambda>se. se\<lparr>on_rq := False\<rparr>) s;
     se \<leftarrow> se_at s e;
     s \<leftarrow> upd_cfs q (account_entity_dequeue X se) s;
     cq \<leftarrow> cfs_at s q;
     s \<leftarrow> (if flags AND DEQUEUE_SLEEP X = 0
           then upd_se e (\<lambda>se. se\<lparr>vruntime := vruntime se - min_vruntime cq\<rparr>) s else Some s);
     s \<leftarrow> upd_cfs q (\<lambda>cq. cq\<lparr>cfs_bw := return_cfs_rq_runtime X (cfs_bw cq)\<rparr>) s;
     update_min_vruntime X q s }"

text \<open>\<^verbatim>\<open>for_each_sched_entity\<close> follows the parent pointers.\<close>

partial_function (option) enqueue_up ::
    "sched_ext \<Rightarrow> s32 \<Rightarrow> se_ptr option \<Rightarrow> sched \<Rightarrow> (se_ptr option \<times> sched) option" where
  "enqueue_up X flags se s = (case se of
      None \<Rightarrow> Some (None, s)
    | Some e \<Rightarrow> do {
        en \<leftarrow> se_at s e;
        if on_rq en then Some (Some e, s)
        else do {
          s \<leftarrow> enqueue_entity X (cfs_rq_of X e) e flags s;
          cq \<leftarrow> cfs_at s (cfs_rq_of X e);
          if cfs_rq_throttled X (cfs_bw cq) then Some (Some e, s)
          else do {
            s \<leftarrow> upd_cfs (cfs_rq_of X e) (\<lambda>cq. cq\<lparr>h_nr_running := h_nr_running cq + 1\<rparr>) s;
            enqueue_up X (ENQUEUE_WAKEUP X) (parent_entity X e) s } } })"

text \<open>The second loop of both functions, which only counts.\<close>

partial_function (option) count_up ::
    "sched_ext \<Rightarrow> u32 \<Rightarrow> se_ptr option \<Rightarrow> sched \<Rightarrow> (se_ptr option \<times> sched) option" where
  "count_up X d se s = (case se of
      None \<Rightarrow> Some (None, s)
    | Some e \<Rightarrow> do {
        s \<leftarrow> upd_cfs (cfs_rq_of X e) (\<lambda>cq. cq\<lparr>h_nr_running := h_nr_running cq + d\<rparr>) s;
        cq \<leftarrow> cfs_at s (cfs_rq_of X e);
        if cfs_rq_throttled X (cfs_bw cq) then Some (Some e, s)
        else count_up X d (parent_entity X e) s })"

definition enqueue_task_fair :: "sched_ext \<Rightarrow> nat \<Rightarrow> nat \<Rightarrow> s32 \<Rightarrow> sched \<Rightarrow> sched option" where
  "enqueue_task_fair X r p flags s = do {
     (se, s) \<leftarrow> enqueue_up X flags (Some (TaskSe p)) s;
     (se, s) \<leftarrow> count_up X 1 se s;
     if se = None then upd_rq r (add_nr_running X 1) s else Some s }"

partial_function (option) dequeue_up ::
    "sched_ext \<Rightarrow> bool \<Rightarrow> s32 \<Rightarrow> se_ptr option \<Rightarrow> sched \<Rightarrow> (se_ptr option \<times> sched) option" where
  "dequeue_up X task_sleep flags se s = (case se of
      None \<Rightarrow> Some (None, s)
    | Some e \<Rightarrow> do {
        s \<leftarrow> dequeue_entity X (cfs_rq_of X e) e flags s;
        cq \<leftarrow> cfs_at s (cfs_rq_of X e);
        if cfs_rq_throttled X (cfs_bw cq) then Some (Some e, s)
        else do {
          s \<leftarrow> upd_cfs (cfs_rq_of X e) (\<lambda>cq. cq\<lparr>h_nr_running := h_nr_running cq - 1\<rparr>) s;
          if weight (cfs_load cq) \<noteq> 0
          then (case parent_entity X e of
              None \<Rightarrow> Some (None, s)
            | Some pe \<Rightarrow> do {
                s \<leftarrow> (if task_sleep \<and> \<not> throttled_hierarchy X (cfs_bw cq)
                      then upd_cfs (cfs_rq_of X pe) (set_next_buddy X pe) s else Some s);
                Some (Some pe, s) })
          else dequeue_up X task_sleep (flags OR DEQUEUE_SLEEP X) (parent_entity X e) s } })"

definition dequeue_task_fair :: "sched_ext \<Rightarrow> nat \<Rightarrow> nat \<Rightarrow> s32 \<Rightarrow> sched \<Rightarrow> sched option" where
  "dequeue_task_fair X r p flags s = do {
     (se, s) \<leftarrow> dequeue_up X (flags AND DEQUEUE_SLEEP X \<noteq> 0) flags (Some (TaskSe p)) s;
     (se, s) \<leftarrow> count_up X (- 1) se s;
     if se = None then upd_rq r (sub_nr_running X 1) s else Some s }"

section \<open>Preemption and yielding\<close>

definition preempt_curr :: "sched_ext \<Rightarrow> nat \<Rightarrow> nat \<Rightarrow> se_ptr \<Rightarrow> bool \<Rightarrow> sched \<Rightarrow> sched option" where
  "preempt_curr X r cur e scale s = do {
     s \<leftarrow> resched_curr X r s;
     se \<leftarrow> se_at s e;
     q \<leftarrow> runqueues s r;
     if \<not> on_rq se \<or> rq_idle q = Some cur then Some s
     else if sched_feat X LAST_BUDDY \<and> scale \<and> entity_is_task X e
     then upd_cfs (cfs_rq_of X e) (set_last_buddy X e) s
     else Some s }"

definition check_preempt_wakeup :: "sched_ext \<Rightarrow> nat \<Rightarrow> nat \<Rightarrow> s32 \<Rightarrow> sched \<Rightarrow> sched option" where
  "check_preempt_wakeup X r p wake_flags s = do {
     q \<leftarrow> runqueues s r;
     cur \<leftarrow> rq_curr q;
     let e = TaskSe cur; let pe = TaskSe p;
     cq \<leftarrow> cfs_at s (cfs_rq_of X e);
     let scale = (sched_nr_latency X \<le> cfs_nr_running cq);
     if e = pe then Some s
     else do {
       pq \<leftarrow> cfs_at s (cfs_rq_of X pe);
       if throttled_hierarchy X (cfs_bw pq) then Some s
       else do {
         let marked = (sched_feat X NEXT_BUDDY \<and> scale \<and> wake_flags AND WF_FORK X = 0);
         s \<leftarrow> (if marked then upd_cfs (cfs_rq_of X pe) (set_next_buddy X pe) s else Some s);
         ct \<leftarrow> tasks s cur;
         pt \<leftarrow> tasks s p;
         if test_tsk_need_resched X ct then Some s
         else if t_policy ct = SCHED_IDLE X \<and> t_policy pt \<noteq> SCHED_IDLE X
         then preempt_curr X r cur e scale s
         else if t_policy pt \<noteq> SCHED_NORMAL X \<or> \<not> sched_feat X WAKEUP_PREEMPTION then Some s
         else do {
           let (e, pe) = find_matching_se X e pe;
           s \<leftarrow> update_curr X (cfs_rq_of X e) s;
           pe \<leftarrow> pe;
           w \<leftarrow> preempt_at X s e (Some pe);
           if w = 1 then do {
             s \<leftarrow> (if \<not> marked then upd_cfs (cfs_rq_of X pe) (set_next_buddy X pe) s else Some s);
             preempt_curr X r cur e scale s }
           else Some s } } } }"

definition yield_task_fair :: "sched_ext \<Rightarrow> nat \<Rightarrow> sched \<Rightarrow> sched option" where
  "yield_task_fair X r s = do {
     q \<leftarrow> runqueues s r;
     cur \<leftarrow> rq_curr q;
     let e = TaskSe cur;
     if rq_nr_running q = 1 then Some s
     else do {
       s \<leftarrow> upd_cfs (cfs_rq_of X e) (clear_buddies X e) s;
       ct \<leftarrow> tasks s cur;
       s \<leftarrow> (if t_policy ct \<noteq> SCHED_BATCH X then do {
                s \<leftarrow> update_rq_clock X r s;
                s \<leftarrow> update_curr X (cfs_rq_of X e) s;
                upd_rq r (rq_clock_skip_update X True) s }
             else Some s);
       upd_cfs (cfs_rq_of X e) (set_skip_buddy X e) s } }"

section \<open>The class\<close>

text \<open>The operations of a scheduling class that the sources define; \<^verbatim>\<open>fair_sched_class\<close> also names
  \<^verbatim>\<open>yield_to_task_fair\<close>, \<^verbatim>\<open>put_prev_task_fair\<close> and \<^verbatim>\<open>set_curr_task_fair\<close>, which no file defines.\<close>

record sched_class_ops =
  class_next :: sched_class
  op_enqueue_task :: "nat \<Rightarrow> nat \<Rightarrow> s32 \<Rightarrow> sched \<Rightarrow> sched option"
  op_dequeue_task :: "nat \<Rightarrow> nat \<Rightarrow> s32 \<Rightarrow> sched \<Rightarrow> sched option"
  op_yield_task :: "nat \<Rightarrow> sched \<Rightarrow> sched option"
  op_check_preempt_curr :: "nat \<Rightarrow> nat \<Rightarrow> s32 \<Rightarrow> sched \<Rightarrow> sched option"
  op_pick_next_task :: "nat \<Rightarrow> nat option \<Rightarrow> sched \<Rightarrow> (nat option \<times> sched) option"

definition fair_sched_class :: "sched_ext \<Rightarrow> sched_class_ops" where
  "fair_sched_class X = \<lparr>class_next = Idle_class, op_enqueue_task = enqueue_task_fair X,
     op_dequeue_task = dequeue_task_fair X, op_yield_task = yield_task_fair X,
     op_check_preempt_curr = check_preempt_wakeup X, op_pick_next_task = pick_next_task_fair X\<rparr>"

end
