(* ===== verification/Sched_Demo.thy ===== *)
theory Sched_Demo
  imports Sched_Fair
begin

text \<open>
  A concrete choice for the functions the scheduler calls and does not define, used to
  show that the hypotheses of the properties can be met.  The clock of the machine is a
  number that reading advances by nothing; the timeline is rebuilt as a right spine.
\<close>

fun spine :: "'a list \<Rightarrow> 'a tree" where
  "spine [] = Leaf"
| "spine (x # xs) = Node Leaf x (spine xs)"

fun next_in :: "'a \<Rightarrow> 'a list \<Rightarrow> 'a option" where
  "next_in x [] = None"
| "next_in x (y # ys) = (if x = y then (case ys of [] \<Rightarrow> None | z # _ \<Rightarrow> Some z) else next_in x ys)"

definition forget :: "se_ptr \<Rightarrow> se_ptr option \<Rightarrow> se_ptr option" where
  "forget e b = (if b = Some e then None else b)"

definition demo_sched_ext :: sched_ext where
  "demo_sched_ext = \<lparr>
     sched_clock_cpu = (\<lambda>_ h. (h, h)), cpu_of = int, rq_of = (\<lambda>_. 0),
     scale_load_down = (\<lambda>w. w), WMULT_CONST = 0xFFFFFFFF, WMULT_SHIFT = 32,
     mul_u64_u32_shr = (\<lambda>a m k. of_nat (unat a * unat m div 2 ^ nat k)),
     earlier_vruntime = (\<lambda>a b. if sint (b - a) < 0 then b else a),
     later_vruntime = (\<lambda>a b. if sint (b - a) > 0 then b else a),
     rb_insert_color = (\<lambda>_ t. t), rb_erase = (\<lambda>e t. spine (remove1 e (inorder t))),
     rb_next = (\<lambda>e t. next_in e (inorder t)),
     entity_is_task = (\<lambda>e. case e of TaskSe _ \<Rightarrow> True | GroupSe _ \<Rightarrow> False),
     task_of = (\<lambda>e. case e of TaskSe p \<Rightarrow> p | GroupSe _ \<Rightarrow> 0),
     cfs_rq_of = (\<lambda>e. case e of TaskSe _ \<Rightarrow> RootCfs 0 | GroupSe g \<Rightarrow> GroupCfs g),
     parent_entity = (\<lambda>_. None),
     entity_before = (\<lambda>a b. sint (vruntime a - vruntime b) < 0),
     wakeup_preempt_entity = (\<lambda>a b. if sint (vruntime a - vruntime b) \<le> 0 then -1 else 1),
     clear_buddies = (\<lambda>e cq. cq\<lparr>cfs_next := forget e (cfs_next cq),
       cfs_last := forget e (cfs_last cq), cfs_skip := forget e (cfs_skip cq)\<rparr>),
     set_next_buddy = (\<lambda>e cq. cq\<lparr>cfs_next := Some e\<rparr>),
     set_last_buddy = (\<lambda>e cq. cq\<lparr>cfs_last := Some e\<rparr>),
     set_skip_buddy = (\<lambda>e cq. cq\<lparr>cfs_skip := Some e\<rparr>),
     account_entity_enqueue = (\<lambda>se cq. cq\<lparr>cfs_nr_running := cfs_nr_running cq + 1,
       cfs_load := (cfs_load cq)\<lparr>weight := weight (cfs_load cq) + weight (se_load se)\<rparr>\<rparr>),
     account_entity_dequeue = (\<lambda>se cq. cq\<lparr>cfs_nr_running := cfs_nr_running cq - 1,
       cfs_load := (cfs_load cq)\<lparr>weight := weight (cfs_load cq) - weight (se_load se)\<rparr>\<rparr>),
     account_cfs_rq_runtime = (\<lambda>_ b. b), check_cfs_rq_runtime = (\<lambda>b. b),
     return_cfs_rq_runtime = (\<lambda>b. b), check_enqueue_throttle = (\<lambda>b. b),
     cfs_rq_throttled = (\<lambda>_. False), throttled_hierarchy = (\<lambda>b. throttle_count b \<noteq> 0),
     sched_feat = (\<lambda>f. f = GENTLE_FAIR_SLEEPERS \<or> f = WAKEUP_PREEMPTION), sched_vslice = (\<lambda>_ _. 0),
     sysctl_sched_latency = 6000000, sched_nr_latency = 8,
     ENQUEUE_WAKEUP = 1, ENQUEUE_WAKING = 4, ENQUEUE_RESTORE = 2, DEQUEUE_SLEEP = 1,
     DEQUEUE_SAVE = 2, WF_FORK = 2, SCHED_NORMAL = 0, SCHED_BATCH = 3, SCHED_IDLE = 5,
     find_matching_se = (\<lambda>a b. (a, Some b)),
     test_tsk_need_resched = (\<lambda>t. bit (t_thread_flags t) 3),
     clear_tsk_need_resched = (\<lambda>t. t\<lparr>t_thread_flags := unset_bit 3 (t_thread_flags t)\<rparr>),
     resched_curr = (\<lambda>r s. do { q \<leftarrow> runqueues s r; c \<leftarrow> rq_curr q;
       upd_task c (\<lambda>t. t\<lparr>t_thread_flags := set_bit 3 (t_thread_flags t)\<rparr>) s }),
     add_nr_running = (\<lambda>n q. q\<lparr>rq_nr_running := rq_nr_running q + n\<rparr>),
     sub_nr_running = (\<lambda>n q. q\<lparr>rq_nr_running := rq_nr_running q - n\<rparr>),
     irq_time_read = (\<lambda>_. 0), steal_account_process_tick = (\<lambda>_. 0),
     rq_clock_skip_update = (\<lambda>b q. q\<lparr>clock_skip_update := of_bool b\<rparr>)\<rparr>"

lemma inorder_spine [simp]: "inorder (spine xs) = xs"
  by (induction xs) auto

lemma next_in_append:
  "x \<notin> set xs \<Longrightarrow> next_in x (xs @ x # ys) = (case ys of [] \<Rightarrow> None | z # _ \<Rightarrow> Some z)"
  by (induction xs) auto

section \<open>A state with a running and a waiting task\<close>

definition demo_entity :: "u64 \<Rightarrow> sched_entity" where
  "demo_entity v = \<lparr>se_load = \<lparr>weight = 1024, inv_weight = 0\<rparr>, exec_start = 0, sum_exec_runtime = 0,
     vruntime = v, prev_sum_exec_runtime = 0, nr_migrations = 0, on_rq = True\<rparr>"

definition demo_rt :: sched_rt_entity where
  "demo_rt = \<lparr>rt_timeout = 0, rt_watchdog_stamp = 0, rt_time_slice = 100, rt_back = None,
     rt_parent = None, rt_rq = None, rt_my_q = None\<rparr>"

definition demo_rest :: task_rest where
  "demo_rest = \<lparr>t_run_node = 0, t_fs = None, t_files = None, t_signal = None, t_sighand = None,
     t_blocked = \<lparr>sig_words = [0, 0]\<rparr>, t_real_blocked = \<lparr>sig_words = [0, 0]\<rparr>, t_saved_sigmask = \<lparr>sig_words = [0, 0]\<rparr>,
     t_regs = None, t_thread_fn = None, t_thread_data = None, t_nsproxy = None, t_audit_context = 0,
     t_perf_event_ctxp = None, t_sched_task_group = None, t_cgroups = None, t_personality = 0,
     t_did_exec = 0, t_in_execve = 0, t_in_iowait = 0, t_no_new_privs = 0, t_sched_reset_on_fork = 0,
     t_sched_contributes_to_load = 0, t_sched_migrated = 0, t_security = None, t_trace = 0,
     t_trace_recursion = 0, t_delays = None, t_make_it_fail = 0, t_scm_work_list = None,
     t_wait_chldexit = \<lparr>wq_lock = SPINLOCK_INIT ''demo'', wq_task_list = \<lparr>lnext = Null, lprev = Null\<rparr>\<rparr>,
     t_task_exit_notifier = None, t_stats = None, t_mempolicy = None, t_il_next = 0, t_pref_node_fork = 0,
     t_bio_list = None, t_plug = None, t_blocked_on = None, t_tracer = None, t_socket = None, t_net_ns = None,
     t_migrate_disable = 0, t_rcu_read_lock_nesting = 0, t_rcu_read_unlock_special = 0,
     t_rcu_blocked_node = None, t_rcu_tasks_holdout = 0\<rparr>"

definition demo_task :: "pid_t \<Rightarrow> task_struct" where
  "demo_task pid = \<lparr>t_state = 0, t_exit_state = 0, t_exit_code = 0, t_exit_signal = 17, t_flags = 0,
     t_ptrace = 0, t_pid = pid, t_tgid = pid, t_ppid = 0, t_pgrp = 0, t_session = 0, t_uid = 0, t_gid = 0,
     t_euid = 0, t_egid = 0, t_suid = 0, t_sgid = 0, t_fsuid = 0, t_fsgid = 0, t_prio = 120,
     t_static_prio = 120, t_normal_prio = 120, t_rt = demo_rt, t_policy = 0, t_cpus_allowed = 1,
     t_nr_cpus_allowed = 1, t_real_parent = None, t_parent = None, t_group_leader = None,
     t_mm = Some 0, t_active_mm = Some 0, t_stack = Some 0x10000, t_stack_size = THREAD_SIZE,
     t_utime = 0, t_stime = 0, t_gtime = 0, t_start_time = 0, t_real_start_time = 0, t_min_flt = 0,
     t_maj_flt = 0, t_nvcsw = 0, t_nivcsw = 0, t_comm = ''demo'', t_alloc_lock = SPINLOCK_INIT ''demo'',
     t_pi_lock = SPINLOCK_INIT ''demo'', t_preempt_count = 0, t_usage = 1,
     t_sched_info = \<lparr>si_pcount = 0, si_run_delay = 0, si_last_arrival = 0, si_last_queued = 0, si_pcnt = 0\<rparr>,
     t_last_cpu = 0, t_wake_cpu = 0, t_rcu_tasks_idle_cpu = -1, t_sched_class = Some Fair_class,
     t_thread_flags = 0, t_rest = demo_rest\<rparr>"

definition demo_cfs :: cfs_rq where
  "demo_cfs = \<lparr>cfs_load = \<lparr>weight = 2048, inv_weight = 0\<rparr>, cfs_nr_running = 2, h_nr_running = 2,
     min_vruntime = 1000, tasks_timeline = Node Leaf (TaskSe 2) Leaf, rb_leftmost = Some (TaskSe 2),
     cfs_curr = Some (TaskSe 1), cfs_next = None, cfs_last = None, cfs_skip = None,
     cfs_bw = \<lparr>runtime_enabled = 0, runtime_expires = 0, runtime_remaining = 0, throttled_clock = 0,
       throttled_clock_task = 0, throttled = 0, throttle_count = 0\<rparr>\<rparr>"

definition demo_rq :: rq where
  "demo_rq = \<lparr>rq_lock = SPINLOCK_INIT ''demo'', rq_nr_running = 2, rq_nr_uninterruptible = 0,
     rq_load = \<lparr>weight = 2048, inv_weight = 0\<rparr>, nr_switches = 0,
     rq_rt = \<lparr>rt_nr_running = 0, highest_prio_curr = 100, highest_prio_next = 100\<rparr>,
     rq_dl = \<lparr>dl_nr_running = 0, dl_time = 0, dl_bw = 0\<rparr>, rq_curr = Some 1, rq_idle = None,
     rq_stop = None, prev_mm = None, clock = 0, clock_task = 0, prev_irq_time = 0,
     prev_steal_time_rq = 0, clock_skip_update = 0, rq_cpu = 0, rq_online = 1, push_cpu = -1,
     balance_cpu = -1, next_balance = 0, balance_callback = None, idle_balance = 0, active_balance = 0,
     nr_load_updates = 0, avg_idle = 0, idle_stamp = 0, age_stamp = 0, rt_avg = 0, prev_steal_time = 0,
     nohz_tick_stopped = 0, nohz_flags = 0, nohz_stamp = 0, last_load_update_tick = 0,
     last_blocked_load_update_tick = 0, has_blocked_load = 0, max_idle_balance_cost = 0, wake_stamp = 0,
     wake_avg_idle = 0, ttwu_count = 0, ttwu_local = 0,
     rq_sched_info = \<lparr>si_pcount = 0, si_run_delay = 0, si_last_arrival = 0, si_last_queued = 0, si_pcnt = 0\<rparr>\<rparr>"

definition demo_sched :: sched where
  "demo_sched = \<lparr>tasks = [1 \<mapsto> demo_task 1, 2 \<mapsto> demo_task 2],
     se_at = [TaskSe 1 \<mapsto> demo_entity 2000, TaskSe 2 \<mapsto> demo_entity 3000],
     cfs_at = [RootCfs 0 \<mapsto> demo_cfs], runqueues = [0 \<mapsto> demo_rq],
     mm_at = [0 \<mapsto> \<lparr>mm_users = 1, mm_count = 1\<rparr>], sched_nodes = Map.empty, current_task = Some 1,
     task_list_lock = SPINLOCK_INIT ''demo'', next_pid = 3, caller_addr = 0, eflags = 0x202,
     hw_clock = 5000, jiffies_get = 0, jiffies_update = 0,
     regs = \<lparr>rsp = 0x13F00, rbp = 0, rbx = 1, r12 = 2, r13 = 3, r14 = 4, r15 = 5\<rparr>, stack_mem = (\<lambda>_. 0),
     thread_sp = (\<lambda>_. 0x23F00), arch_state = 0\<rparr>"

lemma demo_at [simp]:
  "cfs_at demo_sched (RootCfs 0) = Some demo_cfs"
  "se_at demo_sched (TaskSe (Suc 0)) = Some (demo_entity 2000)"
  "se_at demo_sched (TaskSe 2) = Some (demo_entity 3000)"
  "tasks demo_sched (Suc 0) = Some (demo_task 1)" "hw_clock demo_sched = 5000"
  "cfs_curr demo_cfs = Some (TaskSe (Suc 0))" "min_vruntime demo_cfs = 1000"
  "cfs_nr_running demo_cfs = 2" "rb_leftmost demo_cfs = Some (TaskSe 2)"
  "cfs_next demo_cfs = None" "cfs_last demo_cfs = None" "cfs_skip demo_cfs = None"
  "tasks_timeline demo_cfs = Node Leaf (TaskSe 2) Leaf"
  "vruntime (demo_entity v) = v" "on_rq (demo_entity v)" "exec_start (demo_entity v) = 0"
  "se_load (demo_entity v) = \<lparr>weight = 1024, inv_weight = 0\<rparr>"
  "t_sched_class (demo_task p) = Some Fair_class"
  by (simp_all add: demo_sched_def demo_cfs_def demo_entity_def demo_task_def)

end
