(* ===== verification/Fair_Weight.thy ===== *)
theory Fair_Weight
  imports Sched_Demo
begin

text \<open>
  The weighted time of the fair class: \<^verbatim>\<open>__calc_delta\<close> multiplies by a cached inverse of the
  weight and shifts instead of dividing.  The result is compared with the exact quotient.
\<close>

section \<open>What the external arithmetic promises\<close>

text \<open>The load scale is the identity, the inverse weights are 32-bit fractions, and
  \<^verbatim>\<open>mul_u64_u32_shr\<close> shifts the exact product.\<close>

definition calc_ext_ok :: "sched_ext \<Rightarrow> bool" where
  "calc_ext_ok X \<longleftrightarrow> (\<forall>x. scale_load_down X x = x) \<and> WMULT_CONST X = 0xFFFFFFFF \<and> WMULT_SHIFT X = 32
     \<and> (\<forall>a m k. 0 \<le> k \<longrightarrow>
          mul_u64_u32_shr X a m k = of_nat (unat a * unat m div 2 ^ nat k))"

section \<open>The shifting loops\<close>

lemma unat_less_32: "drop_bit 32 f = 0 \<longleftrightarrow> unat f < 2 ^ 32" for f :: u64
proof -
  have "drop_bit 32 f = 0 \<longleftrightarrow> unat f div 2 ^ 32 = 0"
    unfolding unat_eq_0 [symmetric] unat_drop_bit_eq by (simp add: drop_bit_eq_div)
  then show ?thesis by (simp add: div_eq_0_iff)
qed

lemma shift_down_spec:
  "\<exists>k. shift_down f sh = (drop_bit k f, sh - int k) \<and> unat f div 2 ^ k < 2 ^ 32
     \<and> (k = 0 \<or> 2 ^ 31 \<le> unat f div 2 ^ k)"
proof (induction f sh rule: shift_down.induct)
  case (1 f sh)
  show ?case
  proof (cases "unat f < 2 ^ 32")
    case True
    then show ?thesis by (intro exI [of _ 0]) (simp add: shift_down.simps [of f] unat_less_32)
  next
    case False
    then have step: "shift_down f sh = shift_down (drop_bit 1 f) (sh - 1)"
      by (subst shift_down.simps) (simp add: unat_less_32)
    have half: "unat (drop_bit 1 f) = unat f div 2"
      unfolding unat_drop_bit_eq by (simp add: drop_bit_eq_div)
    obtain k where k: "shift_down (drop_bit 1 f) (sh - 1) = (drop_bit k (drop_bit 1 f), sh - 1 - int k)"
      "unat (drop_bit 1 f) div 2 ^ k < 2 ^ 32"
      "k = 0 \<or> 2 ^ 31 \<le> unat (drop_bit 1 f) div 2 ^ k"
      using "1.IH" False unat_less_32 by blast
    have "unat f div 2 div 2 ^ k = unat f div 2 ^ Suc k"
      by (simp add: div_mult2_eq)
    moreover have "2 ^ 31 \<le> unat f div 2" using False by simp
    ultimately show ?thesis
      using k(1) k(2,3) [unfolded half] step
      by (intro exI [of _ "Suc k"]) (auto simp: drop_bit_drop_bit)
  qed
qed

section \<open>The quotient\<close>

lemma scaled_upper:
  fixes w q g k r d c :: nat
  assumes "q * w \<le> 2 ^ 32" "g * 2 ^ k \<le> c * q" "r * 2 ^ (32 - k) \<le> d * g" "k \<le> 32"
  shows "r * w \<le> d * c"
proof -
  have "2 ^ 32 = (2 ^ (32 - k) * 2 ^ k :: nat)" using assms(4) by (simp flip: power_add)
  then have "(r * w) * 2 ^ 32 = (r * 2 ^ (32 - k)) * (w * 2 ^ k)" by simp
  also have "\<dots> \<le> (d * g) * (w * 2 ^ k)" using assms(3) by (rule mult_right_mono) simp
  also have "\<dots> = (d * w) * (g * 2 ^ k)" by simp
  also have "\<dots> \<le> (d * w) * (c * q)" using assms(2) by (rule mult_left_mono) simp
  also have "\<dots> = (d * c) * (q * w)" by simp
  also have "\<dots> \<le> (d * c) * 2 ^ 32" using assms(1) by (rule mult_left_mono) simp
  finally show ?thesis by simp
qed

lemma div_next_le: "0 < b \<Longrightarrow> a \<le> a div b * b + b" for a b :: nat
  using div_mult_mod_eq [of a b] mod_less_divisor [of b a] by linarith

lemma absorb_carry: "p * 2 ^ 31 \<le> g \<Longrightarrow> (g + p) * (2 ^ 31 - 1) \<le> g * 2 ^ 31" for p g :: nat
  by simp

lemma scaled_lower:
  fixes w q g k r d c :: nat
  assumes "2 ^ 32 \<le> q * w + w" "c * q \<le> g * 2 ^ k + 2 ^ k" "k = 0 \<longrightarrow> c * q \<le> g"
    and "k = 0 \<or> 2 ^ 31 \<le> g" "d * g \<le> (r + 1) * 2 ^ (32 - k)" "k \<le> 32"
  shows "d * c * (2 ^ 32 - w) * (2 ^ 31 - 1) \<le> w * (r + 1) * 2 ^ 63"
proof -
  let ?h = "2 ^ 31 - 1 :: nat"
  have two: "2 ^ 32 = (2 ^ (32 - k) * 2 ^ k :: nat)" using assms(6) by (simp flip: power_add)
  have "c * q * ?h \<le> g * 2 ^ k * 2 ^ 31"
  proof (cases "k = 0")
    case True
    then have "c * q * ?h \<le> g * ?h" using assms(3) by (intro mult_right_mono) auto
    also have "\<dots> \<le> g * 2 ^ 31" by (intro mult_left_mono) auto
    finally show ?thesis using True by simp
  next
    case False
    then have "2 ^ k * 2 ^ 31 \<le> g * 2 ^ k" using assms(4) by (simp add: mult.commute)
    then have "(g * 2 ^ k + 2 ^ k) * ?h \<le> g * 2 ^ k * 2 ^ 31" by (rule absorb_carry)
    moreover have "c * q * ?h \<le> (g * 2 ^ k + 2 ^ k) * ?h"
      using assms(2) by (rule mult_right_mono) simp
    ultimately show ?thesis by (rule order_trans [rotated])
  qed
  then have "d * (c * q * ?h) \<le> d * (g * 2 ^ k * 2 ^ 31)" by (rule mult_left_mono) simp
  also have "\<dots> = (d * g) * (2 ^ k * 2 ^ 31)" by simp
  also have "\<dots> \<le> ((r + 1) * 2 ^ (32 - k)) * (2 ^ k * 2 ^ 31)"
    using assms(5) by (rule mult_right_mono) simp
  also have "\<dots> = (r + 1) * (2 ^ 32 * 2 ^ 31)" unfolding two by (simp only: mult_ac)
  finally have "d * (c * q * ?h) \<le> (r + 1) * (2 ^ 32 * 2 ^ 31)" .
  then have *: "d * (c * q * ?h) * w \<le> (r + 1) * (2 ^ 32 * 2 ^ 31) * w" by (rule mult_right_mono) simp
  have "d * c * (2 ^ 32 - w) * ?h \<le> d * c * (q * w) * ?h"
    using assms(1) by (intro mult_right_mono mult_left_mono) auto
  also have "\<dots> = d * (c * q * ?h) * w" by (simp only: mult_ac)
  also note *
  also have "(r + 1) * (2 ^ 32 * 2 ^ 31) * w = w * (r + 1) * 2 ^ 63" by (simp add: algebra_simps)
  finally show ?thesis .
qed

section \<open>The charge of a run\<close>

lemma unat_bound32: "unat x < 2 ^ 32" for x :: u32
proof -
  have "unat x < 2 ^ LENGTH(32)" by (rule unsigned_less)
  then show ?thesis by simp
qed

lemma unat_up: "unat (ucast x :: u64) = unat x" for x :: u32
proof -
  have "unat x < 2 ^ 32" by (rule unat_bound32)
  then show ?thesis by (simp add: unsigned_ucast_eq take_bit_nat_eq_self)
qed

lemma unat_down: "unat x < 2 ^ 32 \<Longrightarrow> unat (ucast x :: u32) = unat x" for x :: u64
  by (simp add: unsigned_ucast_eq take_bit_nat_eq_self)

text \<open>An inverse weight that has not been computed yet, or one that has.\<close>

definition inv_weight_ok :: "load_weight \<Rightarrow> bool" where
  "inv_weight_ok lw \<longleftrightarrow> inv_weight lw = 0 \<or> unat (inv_weight lw) = (2 ^ 32 - 1) div unat (weight lw)"

lemma update_inv_weight:
  assumes "calc_ext_ok X" "inv_weight_ok lw" "0 < unat (weight lw)" "unat (weight lw) < 2 ^ 32 - 1"
  shows "unat (inv_weight (raw_update_inv_weight X lw)) = (2 ^ 32 - 1) div unat (weight lw)"
    "weight (raw_update_inv_weight X lw) = weight lw"
proof -
  let ?w = "ucast (weight lw) :: ulong"
  have w: "unat ?w = unat (weight lw)"
    using assms(4) by (intro unat_down) simp
  have "\<not> 0xFFFFFFFF \<le> ?w" "?w \<noteq> 0"
    using assms(3,4) w by (auto simp: word_le_nat_alt)
  moreover have "unat (ucast (0xFFFFFFFF div ?w) :: u64) = (2 ^ 32 - 1) div unat (weight lw)"
  proof -
    have "unat (0xFFFFFFFF div ?w) = (2 ^ 32 - 1) div unat ?w" by (simp add: unat_div)
    then show ?thesis by (simp only: unat_up w)
  qed
  ultimately show "unat (inv_weight (raw_update_inv_weight X lw)) = (2 ^ 32 - 1) div unat (weight lw)"
    using assms(1,2)
    by (auto simp: raw_update_inv_weight_def calc_ext_ok_def inv_weight_ok_def Let_def BITS_PER_LONG_def)
  show "weight (raw_update_inv_weight X lw) = weight lw"
    by (simp add: raw_update_inv_weight_def Let_def)
qed

lemma mult_inverse_fits:
  assumes "(2 ^ 32 - 1) div w = (q::nat)" "c < 2 ^ 32"
  shows "c * q < 2 ^ 64"
proof -
  have "q \<le> 2 ^ 32 - 1" using assms(1) by (metis div_le_dividend)
  then have "c * q \<le> (2 ^ 32 - 1) * (2 ^ 32 - 1)" using assms(2) by (intro mult_mono) auto
  then show ?thesis by simp
qed

text \<open>The general form, for any target weight \<open>c\<close>.\<close>

lemma raw_calc_delta_bounds:
  assumes "calc_ext_ok X" "inv_weight_ok lw" "0 < unat (weight lw)" "unat (weight lw) < 2 ^ 32 - 1"
    and "unat d * unat c < 2 ^ 64" "raw_calc_delta X d c lw = (r, lw')"
  shows "unat r * unat (weight lw) \<le> unat d * unat c"
    "unat d * unat c * (2 ^ 32 - unat (weight lw)) * (2 ^ 31 - 1)
       \<le> unat (weight lw) * (unat r + 1) * 2 ^ 63"
    "lw' = raw_update_inv_weight X lw"
proof -
  let ?w = "unat (weight lw)" and ?q = "(2 ^ 32 - 1) div unat (weight lw)"
  let ?lw = "raw_update_inv_weight X lw"
  let ?f = "ucast (ucast (ucast c :: u64) :: u32) * inv_weight ?lw"
  have c: "unat c < 2 ^ 32" by (rule unat_bound32)
  have X: "\<And>x. scale_load_down X x = x" "WMULT_SHIFT X = 32"
    "\<And>a m k. 0 \<le> k \<Longrightarrow> mul_u64_u32_shr X a m k = of_nat (unat a * unat m div 2 ^ nat k)"
    using assms(1) by (auto simp: calc_ext_ok_def)
  have first: "shift_down (ucast c) 32 = (ucast c, 32)"
    using c by (subst shift_down.simps) (simp add: unat_less_32 unat_up)
  have q: "unat (inv_weight ?lw) = ?q" using assms by (intro update_inv_weight)
  have f: "unat ?f = unat c * ?q"
    using mult_inverse_fits [OF refl c, of ?w] c
    by (simp add: unat_word_ariths q unat_up unat_down)
  obtain k where k: "shift_down ?f 32 = (drop_bit k ?f, 32 - int k)"
    and small: "unat c * ?q div 2 ^ k < 2 ^ 32"
    and big: "k = 0 \<or> 2 ^ 31 \<le> unat c * ?q div 2 ^ k"
    using shift_down_spec [of ?f 32] by (auto simp: f)
  let ?g = "unat c * ?q div 2 ^ k"
  let ?r = "unat d * ?g div 2 ^ (32 - k)"
  have g: "unat (drop_bit k ?f) = ?g"
    by (simp only: unat_drop_bit_eq f) (simp add: drop_bit_eq_div)
  have "k \<le> 32"
  proof (rule ccontr)
    assume "\<not> k \<le> 32"
    then have "2 ^ 31 * 2 ^ k \<le> ?g * 2 ^ k" "64 \<le> 31 + k" using big by auto
    moreover from this(2) have "(2::nat) ^ 64 \<le> 2 ^ (31 + k)" by (rule power_increasing) simp
    moreover have "?g * 2 ^ k \<le> unat c * ?q" by simp
    ultimately show False
      using mult_inverse_fits [OF refl c, of ?w] unfolding power_add by linarith
  qed
  then have "0 \<le> 32 - int k" "nat (32 - int k) = 32 - k" by auto
  moreover have "raw_calc_delta X d c lw = (mul_u64_u32_shr X d (ucast (drop_bit k ?f)) (32 - int k), ?lw)"
    by (simp only: raw_calc_delta_def Let_def X(1,2) first k case_prod_conv)
  moreover have "unat (ucast (drop_bit k ?f) :: u32) = ?g"
    using small by (simp only: unat_down g)
  ultimately have r: "r = of_nat ?r" and lw': "lw' = ?lw"
    using assms(6) by (simp_all only: X(3) prod.inject)
  have upper: "?r * ?w \<le> unat d * unat c"
  proof (rule scaled_upper [OF _ _ _ \<open>k \<le> 32\<close>])
    have "?q * ?w \<le> 2 ^ 32 - 1" by (rule div_times_less_eq_dividend)
    then show "?q * ?w \<le> 2 ^ 32" by linarith
  qed (rule div_times_less_eq_dividend)+
  moreover have "?r * 1 \<le> ?r * ?w" using assms(3) by (intro mult_le_mono2) simp
  ultimately have "?r < 2 ^ 64" using assms(5) by linarith
  then have ur: "unat r = ?r" unfolding r by (simp add: unat_of_nat take_bit_nat_eq_self)
  show "unat r * ?w \<le> unat d * unat c" using upper by (simp only: ur)
  show "lw' = raw_update_inv_weight X lw" by (rule lw')
  show "unat d * unat c * (2 ^ 32 - ?w) * (2 ^ 31 - 1) \<le> ?w * (unat r + 1) * 2 ^ 63"
    unfolding ur
  proof (rule scaled_lower [OF _ _ _ big _ \<open>k \<le> 32\<close>])
    show "2 ^ 32 \<le> ?q * ?w + ?w"
      using assms(3) div_mult_mod_eq [of "2 ^ 32 - 1" ?w] mod_less_divisor [OF assms(3), of "2 ^ 32 - 1"]
      by linarith
    show "unat c * ?q \<le> ?g * 2 ^ k + 2 ^ k" by (rule div_next_le) simp
    show "unat d * ?g \<le> (?r + 1) * 2 ^ (32 - k)"
      using div_next_le [of "2 ^ (32 - k)" "unat d * ?g"] by simp
  qed auto
qed

section \<open>Properties\<close>

text \<open>C30: \<^verbatim>\<open>calc_delta_fair\<close> scales a run of \<open>delta\<close> by the ratio of the nice-0 weight to the weight
  of the entity: the result never exceeds the exact quotient, falls short of it by
  less than one unit and a relative error of about the weight divided by \<open>2 ^ 32\<close>, and is exact
  for the nice-0 weight.  The shifting loops of \<^verbatim>\<open>__calc_delta\<close> end, and the weight is kept
  with its inverse computed.\<close>

theorem calc_delta_fair_bounds:
  assumes "calc_ext_ok X" "inv_weight_ok lw" "0 < unat (weight lw)" "unat (weight lw) < 2 ^ 32 - 1"
    and "unat delta * 1024 < 2 ^ 64" "calc_delta_fair X delta lw = (r, lw')"
  shows "unat r * unat (weight lw) \<le> unat delta * 1024
    \<and> unat delta * 1024 * (2 ^ 32 - unat (weight lw)) * (2 ^ 31 - 1)
        \<le> unat (weight lw) * (unat r + 1) * 2 ^ 63
    \<and> (weight lw = NICE_0_LOAD \<longrightarrow> r = delta)
    \<and> weight lw' = weight lw \<and> inv_weight_ok lw'"
proof (cases "weight lw = NICE_0_LOAD")
  case True
  then have "r = delta" "lw' = lw" "unat (weight lw) = 1024"
    using assms(6) by (auto simp: calc_delta_fair_def NICE_0_LOAD_def)
  then show ?thesis using assms(2) by simp
next
  case False
  have nice: "unat (ucast NICE_0_LOAD :: ulong) = 1024" by (simp add: NICE_0_LOAD_def)
  have calc: "raw_calc_delta X delta (ucast NICE_0_LOAD) lw = (r, lw')"
    using assms(6) False by (simp add: calc_delta_fair_def)
  note b = raw_calc_delta_bounds [OF assms(1-4) _ calc, unfolded nice, OF assms(5)]
  have "weight lw' = weight lw" "inv_weight_ok lw'"
    using update_inv_weight [OF assms(1-4)] by (simp_all only: b(3) inv_weight_ok_def) simp
  then show ?thesis using b False by blast
qed

theorem calc_delta_fair_bounds_witness:
  "unat (fst (calc_delta_fair demo_sched_ext 1000000 \<lparr>weight = 335, inv_weight = 0\<rparr>)) * 335
     \<le> 1000000 * 1024"
proof -
  let ?lw = "\<lparr>weight = 335, inv_weight = 0\<rparr>"
  obtain r lw' where r: "calc_delta_fair demo_sched_ext 1000000 ?lw = (r, lw')" by fastforce
  have "calc_ext_ok demo_sched_ext" by (simp add: calc_ext_ok_def demo_sched_ext_def)
  moreover have "inv_weight_ok ?lw" by (simp add: inv_weight_ok_def)
  ultimately show ?thesis
    using calc_delta_fair_bounds [of demo_sched_ext ?lw 1000000 r lw'] r by simp
qed

text \<open>The tables of weights and of their reciprocals have one entry for each of the 40 nice levels; the
  weights decrease, nice 0 has the weight \<^verbatim>\<open>NICE_0_LOAD\<close>, and each entry of
  \<^verbatim>\<open>prio_to_wmult\<close> is the reciprocal of the corresponding weight as a fraction of
  \<open>2 ^ 32\<close>, up to rounding.\<close>

theorem prio_tables_reciprocal:
  "length prio_to_weight = nat NICE_WIDTH \<and> sorted_wrt (>) prio_to_weight
   \<and> prio_to_weight ! nat (DEFAULT_PRIO - MAX_RT_PRIO) = uint NICE_0_LOAD
   \<and> list_all2 (\<lambda>w v. \<bar>w * v - 2 ^ 32\<bar> < w) prio_to_weight prio_to_wmult"
  by (intro conjI) (simp_all add: prio_to_weight_def prio_to_wmult_def NICE_WIDTH_def
      DEFAULT_PRIO_def MAX_RT_PRIO_def NICE_0_LOAD_def)

section \<open>The constants of \<^verbatim>\<open>sched_fair.c\<close>\<close>

text \<open>The file has its own copy of the table of weights, and names for its intervals in nanoseconds.\<close>

definition fair_prio_to_weight :: "int list" where
  "fair_prio_to_weight = [
     88761, 71755, 56483, 46273, 36291, 29154, 23254, 18705, 14949, 11916,
     9548, 7620, 6100, 4904, 3906, 3121, 2501, 1991, 1586, 1277,
     1024, 820, 655, 526, 423, 335, 272, 215, 172, 137,
     110, 87, 70, 56, 45, 36, 29, 23, 18, 15]"

definition SCHED_LATENCY_NS :: u64 where "SCHED_LATENCY_NS = 6 * 1000000"
definition SCHED_MIN_GRANULARITY_NS :: u64 where "SCHED_MIN_GRANULARITY_NS = 750000"
definition SCHED_WAKEUP_GRANULARITY_NS :: u64 where "SCHED_WAKEUP_GRANULARITY_NS = 1000000"

text \<open>Both files weigh tasks alike; a period holds eight slices of the smallest granularity, and no
  interval is longer than the latency.\<close>

theorem fair_constants_agree:
  "fair_prio_to_weight = prio_to_weight"
  "SCHED_LATENCY_NS = 8 * SCHED_MIN_GRANULARITY_NS" "SCHED_WAKEUP_GRANULARITY_NS < SCHED_LATENCY_NS"
  by (simp_all add: fair_prio_to_weight_def prio_to_weight_def SCHED_LATENCY_NS_def SCHED_MIN_GRANULARITY_NS_def
      SCHED_WAKEUP_GRANULARITY_NS_def)

end
