(* ===== verification/Fair_Timeline.thy ===== *)
theory Fair_Timeline
  imports Sched_Demo
begin

text \<open>
  The timeline of a fair run queue: the tree of the waiting entities and the cached
  leftmost node implement a queue ordered by the signed distance of the virtual run times
  from the minimum of the run queue.

  The interface \<open>timed_queue\<close> states what such a queue promises; the laws of the
  red-black tree functions, which the repository does not contain, are in \<open>rb_ok\<close>.
\<close>

section \<open>Queues ordered by a rank\<close>

definition insert_by :: "('a \<Rightarrow> int) \<Rightarrow> 'a \<Rightarrow> 'a list \<Rightarrow> 'a list" where
  "insert_by k a xs = takeWhile (\<lambda>x. k x \<le> k a) xs @ a # dropWhile (\<lambda>x. k x \<le> k a) xs"

definition hd_opt :: "'a list \<Rightarrow> 'a option" where
  "hd_opt xs = (case xs of [] \<Rightarrow> None | x # _ \<Rightarrow> Some x)"

lemma hd_opt_simps [simp]: "hd_opt [] = None" "hd_opt (x # xs) = Some x"
  by (simp_all add: hd_opt_def)

lemma insert_by_Nil: "insert_by k a [] = [a]"
  by (simp add: insert_by_def)

lemma insert_by_Cons:
  "insert_by k a (x # xs) = (if k x \<le> k a then x # insert_by k a xs else a # x # xs)"
  by (simp add: insert_by_def)

lemma set_insert_by [simp]: "set (insert_by k a xs) = insert a (set xs)"
  by (induction xs) (auto simp: insert_by_Nil insert_by_Cons)

lemma length_insert_by [simp]: "length (insert_by k a xs) = Suc (length xs)"
  by (induction xs) (auto simp: insert_by_Nil insert_by_Cons)

lemma distinct_insert_by: "distinct xs \<Longrightarrow> a \<notin> set xs \<Longrightarrow> distinct (insert_by k a xs)"
  by (induction xs) (auto simp: insert_by_Nil insert_by_Cons)

lemma sorted_insert_by: "sorted (map k xs) \<Longrightarrow> sorted (map k (insert_by k a xs))"
proof (induction xs)
  case (Cons x xs)
  then show ?case by (auto simp: insert_by_Cons)
qed (simp add: insert_by_def)

lemma remove1_insert_by: "a \<notin> set xs \<Longrightarrow> remove1 a (insert_by k a xs) = xs"
  by (induction xs) (auto simp: insert_by_def)

lemma hd_insert_by: "hd_opt (insert_by k a xs) = (if takeWhile (\<lambda>x. k x \<le> k a) xs = [] then Some a else hd_opt xs)"
  by (cases xs) (auto simp: insert_by_def)

lemma sorted_map_remove1: "sorted (map k xs) \<Longrightarrow> sorted (map k (remove1 a xs))"
proof (induction xs)
  case (Cons x xs)
  then show ?case using set_remove1_subset [of a xs] by auto
qed simp

text \<open>Serving a queue: take the first item \<open>n\<close> times.\<close>

fun drain :: "('q \<Rightarrow> 'a option) \<Rightarrow> ('a \<Rightarrow> 'q \<Rightarrow> 'q option) \<Rightarrow> nat \<Rightarrow> 'q \<Rightarrow> ('a list \<times> 'q) option" where
  "drain first deq 0 q = Some ([], q)"
| "drain first deq (Suc n) q = do {
     a \<leftarrow> first q; q \<leftarrow> deq a q; (xs, q) \<leftarrow> drain first deq n q; Some (a # xs, q) }"

locale timed_queue =
  fixes inv :: "'q \<Rightarrow> bool" and items :: "'q \<Rightarrow> 'a list" and rank :: "'q \<Rightarrow> 'a \<Rightarrow> int"
    and known :: "'q \<Rightarrow> 'a \<Rightarrow> bool"
    and enq :: "'a \<Rightarrow> 'q \<Rightarrow> 'q option" and deq :: "'a \<Rightarrow> 'q \<Rightarrow> 'q option" and first :: "'q \<Rightarrow> 'a option"
  assumes sorted_items: "inv q \<Longrightarrow> sorted (map (rank q) (items q))"
    and distinct_items: "inv q \<Longrightarrow> distinct (items q)"
    and first_item: "inv q \<Longrightarrow> first q = hd_opt (items q)"
    and enq_item: "inv q \<Longrightarrow> known q a \<Longrightarrow> a \<notin> set (items q) \<Longrightarrow>
      \<exists>q'. enq a q = Some q' \<and> inv q' \<and> rank q' = rank q \<and> items q' = insert_by (rank q) a (items q)"
    and deq_item: "inv q \<Longrightarrow> a \<in> set (items q) \<Longrightarrow>
      \<exists>q'. deq a q = Some q' \<and> inv q' \<and> rank q' = rank q \<and> items q' = remove1 a (items q)"
begin

lemma first_minimal:
  assumes "inv q" "first q = Some a" "b \<in> set (items q)"
  shows "rank q a \<le> rank q b"
  using assms sorted_items [of q] by (cases "items q") (auto simp: first_item)

lemma enq_deq:
  assumes "inv q" "known q a" "a \<notin> set (items q)"
  shows "\<exists>q1 q2. enq a q = Some q1 \<and> deq a q1 = Some q2 \<and> inv q2 \<and> rank q2 = rank q
           \<and> items q1 = insert_by (rank q) a (items q) \<and> items q2 = items q"
proof -
  obtain q1 where q1: "enq a q = Some q1" "inv q1" "rank q1 = rank q"
    "items q1 = insert_by (rank q) a (items q)"
    using enq_item [OF assms] by blast
  then obtain q2 where "deq a q1 = Some q2" "inv q2" "rank q2 = rank q1"
    "items q2 = remove1 a (items q1)"
    using deq_item [of q1 a] by auto
  then show ?thesis using q1 assms(3) by (simp add: remove1_insert_by)
qed

lemma drain_serves: "inv q \<Longrightarrow> length (items q) = n \<Longrightarrow>
  \<exists>q'. drain first deq n q = Some (items q, q') \<and> inv q' \<and> items q' = []"
proof (induction n arbitrary: q)
  case (Suc n)
  then obtain a as where a: "items q = a # as" by (cases "items q") auto
  then obtain q1 where "deq a q = Some q1" "inv q1" "items q1 = as"
    using deq_item [OF Suc.prems(1), of a] by auto
  then show ?case using Suc a first_item [OF Suc.prems(1)] by fastforce
qed simp

end

section \<open>The tree\<close>

definition rb_ok :: "sched_ext \<Rightarrow> bool" where
  "rb_ok X \<longleftrightarrow> (\<forall>e t. inorder (rb_insert_color X e t) = inorder t)
     \<and> (\<forall>e t. distinct (inorder t) \<longrightarrow> e \<in> set_tree t \<longrightarrow>
          inorder (rb_erase X e t) = remove1 e (inorder t))
     \<and> (\<forall>e t xs ys. distinct (inorder t) \<longrightarrow> inorder t = xs @ e # ys \<longrightarrow> rb_next X e t = hd_opt ys)"

lemma takeWhile_stop: "\<not> P p \<Longrightarrow> takeWhile P (xs @ p # ys) = takeWhile P xs"
  by (induction xs) auto

lemma dropWhile_stop: "\<not> P p \<Longrightarrow> dropWhile P (xs @ p # ys) = dropWhile P xs @ p # ys"
  by (induction xs) auto

lemma enqueue_walk_inorder:
  fixes K :: "se_ptr \<Rightarrow> int"
  assumes "\<And>x. x \<in> set_tree t \<Longrightarrow> \<exists>en. ents x = Some en \<and> K x = sint (entity_key m en)"
    and "K e = sint (entity_key m se)" "sorted (map K (inorder t))"
  shows "\<exists>t'. enqueue_walk ents m e se t b = Some (t', b \<and> takeWhile (\<lambda>x. K x \<le> K e) (inorder t) = [])
           \<and> inorder t' = insert_by K e (inorder t)"
  using assms(1,3)
proof (induction t arbitrary: b)
  case Leaf
  then show ?case by (simp add: insert_by_def)
next
  case (Node l p r)
  let ?P = "\<lambda>x. K x \<le> K e"
  obtain en where en: "ents p = Some en" "K p = sint (entity_key m en)" using Node.prems(1) by force
  have sl: "sorted (map K (inorder l))" "sorted (map K (inorder r))" "\<forall>x \<in> set_tree l. K x \<le> K p"
    using Node.prems(2) by (auto simp: sorted_append)
  show ?case
  proof (cases "K e < K p")
    case True
    obtain l' where "enqueue_walk ents m e se l b = Some (l', b \<and> takeWhile ?P (inorder l) = [])"
      "inorder l' = insert_by K e (inorder l)"
      using Node.IH(1) [of b] Node.prems(1) sl(1) by auto
    moreover have "insert_by K e (inorder l @ p # inorder r) = insert_by K e (inorder l) @ p # inorder r"
      using True by (simp add: insert_by_def takeWhile_stop dropWhile_stop)
    ultimately show ?thesis using True en assms(2) by (simp add: takeWhile_stop)
  next
    case False
    then have le: "\<forall>x \<in> set (inorder l @ [p]). K x \<le> K e" using sl(3) by auto
    obtain r' where "enqueue_walk ents m e se r False = Some (r', False)"
      "inorder r' = insert_by K e (inorder r)"
      using Node.IH(2) [of False] Node.prems(1) sl(2) by auto
    moreover have "takeWhile ?P ((inorder l @ [p]) @ inorder r) = (inorder l @ [p]) @ takeWhile ?P (inorder r)"
      "dropWhile ?P ((inorder l @ [p]) @ inorder r) = dropWhile ?P (inorder r)"
      using le by (simp_all only: takeWhile_append2 dropWhile_append2)
    ultimately show ?thesis using False en assms(2) by (simp add: insert_by_def)
  qed
qed

section \<open>The run queue\<close>

text \<open>A virtual run time is near the minimum when the distance fits the 32 bits of
  \<^verbatim>\<open>s64\<close>.\<close>

definition dist :: "u64 \<Rightarrow> u64 \<Rightarrow> int" where "dist m v = sint (v - m)"

definition near :: "u64 \<Rightarrow> u64 \<Rightarrow> bool" where
  "near m v \<longleftrightarrow> - (2 ^ 31) \<le> dist m v \<and> dist m v < 2 ^ 31"

definition timeline :: "cfs_ptr \<Rightarrow> sched \<Rightarrow> se_ptr list" where
  "timeline q s = (case cfs_at s q of None \<Rightarrow> [] | Some cq \<Rightarrow> inorder (tasks_timeline cq))"

definition lag :: "cfs_ptr \<Rightarrow> sched \<Rightarrow> se_ptr \<Rightarrow> int" where
  "lag q s e = (case (cfs_at s q, se_at s e) of
      (Some cq, Some se) \<Rightarrow> dist (min_vruntime cq) (vruntime se) | _ \<Rightarrow> 0)"

definition near_entity :: "cfs_ptr \<Rightarrow> sched \<Rightarrow> se_ptr \<Rightarrow> bool" where
  "near_entity q s e \<longleftrightarrow> (case (cfs_at s q, se_at s e) of
      (Some cq, Some se) \<Rightarrow> near (min_vruntime cq) (vruntime se) | _ \<Rightarrow> False)"

definition first_entity :: "cfs_ptr \<Rightarrow> sched \<Rightarrow> se_ptr option" where
  "first_entity q s = Option.bind (cfs_at s q) raw_pick_first_entity"

definition timeline_ok :: "sched_ext \<Rightarrow> cfs_ptr \<Rightarrow> sched \<Rightarrow> bool" where
  "timeline_ok X q s \<longleftrightarrow> rb_ok X \<and> cfs_at s q \<noteq> None \<and> distinct (timeline q s)
     \<and> (\<forall>e \<in> set (timeline q s). near_entity q s e) \<and> sorted (map (lag q s) (timeline q s))
     \<and> first_entity q s = hd_opt (timeline q s)"

text \<open>Within the window the truncated key is the distance.\<close>

lemma key_truncates: "sint (ucast (v - m) :: s64) = signed_take_bit 31 (dist m v)"
proof -
  have "sint (ucast (v - m) :: s64) = signed_take_bit 31 (uint (v - m))"
    by (simp add: signed_ucast_eq)
  also have "\<dots> = signed_take_bit 31 (sint (v - m))"
    by (simp add: sint_uint signed_take_bit_signed_take_bit)
  finally show ?thesis by (simp add: dist_def)
qed

lemma near_key: "near m v \<Longrightarrow> sint (ucast (v - m) :: s64) = dist m v"
  by (simp add: key_truncates near_def signed_take_bit_int_eq_self_iff)

lemma far_key:
  assumes "2 ^ 31 \<le> dist m v" "dist m v < 2 ^ 32"
  shows "sint (ucast (v - m) :: s64) < 0"
proof -
  have "signed_take_bit 31 (dist m v) = (dist m v + 2 ^ 31) mod 2 ^ 32 - 2 ^ 31"
    by (simp add: signed_take_bit_eq_take_bit_shift take_bit_eq_mod)
  also have "(dist m v + 2 ^ 31) mod 2 ^ 32 = dist m v + 2 ^ 31 - 2 ^ 32"
    using assms mod_add_self2 [of "dist m v + 2 ^ 31 - 2 ^ 32" "2 ^ 32"] by (simp add: add.commute)
  finally show ?thesis using assms by (simp add: key_truncates)
qed

lemma near_entityE:
  assumes "near_entity q s e"
  obtains cq se where "cfs_at s q = Some cq" "se_at s e = Some se"
    "near (min_vruntime cq) (vruntime se)"
    "lag q s e = sint (entity_key (min_vruntime cq) se)"
  using assms near_key unfolding near_entity_def lag_def entity_key_def
  by (fastforce split: option.splits)

text \<open>The observations depend only on the entities and on the minimum of the run queue.\<close>

lemma lag_cong:
  assumes "se_at s' = se_at s" "cfs_at s q = Some cq" "cfs_at s' q = Some cq'"
    "min_vruntime cq' = min_vruntime cq"
  shows "lag q s' = lag q s" "near_entity q s' = near_entity q s"
  using assms by (auto simp: lag_def near_entity_def fun_eq_iff split: option.splits)

lemma timeline_at: "cfs_at s q = Some cq \<Longrightarrow> timeline q s = inorder (tasks_timeline cq)"
  by (simp add: timeline_def)

lemma first_entity_at: "cfs_at s q = Some cq \<Longrightarrow> first_entity q s = rb_leftmost cq"
  by (simp add: first_entity_def raw_pick_first_entity_def)

lemma raw_enqueue_entity_spec:
  assumes "timeline_ok X q s" "near_entity q s e" "e \<notin> set (timeline q s)"
    and "cfs_at s q = Some cq"
  shows "\<exists>t. raw_enqueue_entity X q e s = Some (s\<lparr>cfs_at := (cfs_at s)(q \<mapsto>
             cq\<lparr>rb_leftmost := hd_opt (inorder t), tasks_timeline := t\<rparr>)\<rparr>)
           \<and> inorder t = insert_by (lag q s) e (timeline q s)"
proof -
  obtain se where se: "se_at s e = Some se" "lag q s e = sint (entity_key (min_vruntime cq) se)"
    using assms(2,4) by (auto elim: near_entityE)
  have tl: "timeline q s = inorder (tasks_timeline cq)" using assms(4) by (rule timeline_at)
  have "\<exists>en. se_at s x = Some en \<and> lag q s x = sint (entity_key (min_vruntime cq) en)"
    if "x \<in> set_tree (tasks_timeline cq)" for x
    using assms(1,4) that by (auto simp: timeline_ok_def tl elim!: near_entityE)
  moreover have "sorted (map (lag q s) (inorder (tasks_timeline cq)))"
    using assms(1) by (simp add: timeline_ok_def tl)
  ultimately obtain t' where t': "enqueue_walk (se_at s) (min_vruntime cq) e se (tasks_timeline cq) True
        = Some (t', takeWhile (\<lambda>x. lag q s x \<le> lag q s e) (timeline q s) = [])"
    "inorder t' = insert_by (lag q s) e (timeline q s)"
    using enqueue_walk_inorder [of "tasks_timeline cq" "se_at s" "lag q s" "min_vruntime cq" e se True]
      se(2) tl by auto
  have ins: "inorder (rb_insert_color X e t') = inorder t'"
    using assms(1) by (simp add: timeline_ok_def rb_ok_def)
  have lm: "hd_opt (inorder t') = (if takeWhile (\<lambda>x. lag q s x \<le> lag q s e) (timeline q s) = []
      then Some e else rb_leftmost cq)"
    using assms(1,4) first_entity_at [OF assms(4)] by (simp add: t'(2) hd_insert_by timeline_ok_def)
  show ?thesis
    by (rule exI [of _ "rb_insert_color X e t'"])
      (auto simp: raw_enqueue_entity_def assms(4) se(1) t' upd_cfs_def ins lm [unfolded t'(2)])
qed

lemma raw_dequeue_entity_spec:
  assumes "timeline_ok X q s" "e \<in> set (timeline q s)" "cfs_at s q = Some cq"
  shows "\<exists>t. raw_dequeue_entity X q e s = Some (s\<lparr>cfs_at := (cfs_at s)(q \<mapsto>
             cq\<lparr>rb_leftmost := hd_opt (inorder t), tasks_timeline := t\<rparr>)\<rparr>)
           \<and> inorder t = remove1 e (timeline q s)"
proof -
  have tl: "timeline q s = inorder (tasks_timeline cq)" using assms(3) by (rule timeline_at)
  have d: "distinct (inorder (tasks_timeline cq))" using assms(1) by (simp add: timeline_ok_def tl)
  have er: "inorder (rb_erase X e (tasks_timeline cq)) = remove1 e (timeline q s)"
    using assms(1,2) d by (simp add: timeline_ok_def rb_ok_def tl)
  have lm: "rb_leftmost cq = hd_opt (timeline q s)"
    using assms(1) first_entity_at [OF assms(3)] by (simp add: timeline_ok_def)
  have "hd_opt (remove1 e (timeline q s))
      = (if rb_leftmost cq = Some e then rb_next X e (tasks_timeline cq) else rb_leftmost cq)"
  proof (cases "timeline q s")
    case (Cons x xs)
    then have "x = e \<Longrightarrow> rb_next X e (tasks_timeline cq) = hd_opt xs"
      using assms(1) d tl unfolding timeline_ok_def rb_ok_def by (metis append_Nil)
    then show ?thesis using lm Cons by auto
  qed (use assms(2) in simp)
  then show ?thesis
    by (intro exI [of _ "rb_erase X e (tasks_timeline cq)"])
      (auto simp: raw_dequeue_entity_def assms(3) upd_cfs_def er)
qed

text \<open>The invariant after the tree has been replaced.\<close>

lemma timeline_ok_set:
  assumes "timeline_ok X q s" "cfs_at s q = Some cq"
    and "distinct (inorder t)" "\<And>e. e \<in> set (inorder t) \<Longrightarrow> near_entity q s e"
    and "sorted (map (lag q s) (inorder t))"
    and "s' = s\<lparr>cfs_at := (cfs_at s)(q \<mapsto> cq\<lparr>rb_leftmost := hd_opt (inorder t), tasks_timeline := t\<rparr>)\<rparr>"
  shows "timeline_ok X q s' \<and> lag q s' = lag q s \<and> near_entity q s' = near_entity q s
     \<and> timeline q s' = inorder t"
proof -
  have c: "se_at s' = se_at s"
    "cfs_at s' q = Some (cq\<lparr>rb_leftmost := hd_opt (inorder t), tasks_timeline := t\<rparr>)"
    by (simp_all add: assms(6))
  have "lag q s' = lag q s" "near_entity q s' = near_entity q s"
    using lag_cong [OF c(1) assms(2) c(2)] by simp_all
  moreover have "timeline q s' = inorder t" "first_entity q s' = hd_opt (inorder t)"
    using timeline_at [OF c(2)] first_entity_at [OF c(2)] by simp_all
  ultimately show ?thesis using assms(1,3-5) c(2) unfolding timeline_ok_def by simp
qed

interpretation tl: timed_queue "timeline_ok X q" "timeline q" "lag q" "near_entity q"
    "raw_enqueue_entity X q" "raw_dequeue_entity X q" "first_entity q" for X q
proof (unfold_locales, goal_cases)
  case (4 s e)
  then obtain cq where cq: "cfs_at s q = Some cq" by (auto simp: timeline_ok_def)
  from raw_enqueue_entity_spec [OF 4 cq] obtain t where
    t: "raw_enqueue_entity X q e s = Some (s\<lparr>cfs_at := (cfs_at s)(q \<mapsto>
          cq\<lparr>rb_leftmost := hd_opt (inorder t), tasks_timeline := t\<rparr>)\<rparr>)"
    "inorder t = insert_by (lag q s) e (timeline q s)" by blast
  have "timeline_ok X q (s\<lparr>cfs_at := (cfs_at s)(q \<mapsto>
          cq\<lparr>rb_leftmost := hd_opt (inorder t), tasks_timeline := t\<rparr>)\<rparr>)
      \<and> lag q (s\<lparr>cfs_at := (cfs_at s)(q \<mapsto>
          cq\<lparr>rb_leftmost := hd_opt (inorder t), tasks_timeline := t\<rparr>)\<rparr>) = lag q s"
    using timeline_ok_set [OF 4(1) cq _ _ _ refl, of t] 4
    by (auto simp: t(2) timeline_ok_def distinct_insert_by sorted_insert_by)
  then show ?case using t by (auto simp: timeline_def)
next
  case (5 s e)
  then obtain cq where cq: "cfs_at s q = Some cq" by (auto simp: timeline_ok_def)
  from raw_dequeue_entity_spec [OF 5 cq] obtain t where
    t: "raw_dequeue_entity X q e s = Some (s\<lparr>cfs_at := (cfs_at s)(q \<mapsto>
          cq\<lparr>rb_leftmost := hd_opt (inorder t), tasks_timeline := t\<rparr>)\<rparr>)"
    "inorder t = remove1 e (timeline q s)" by blast
  have "timeline_ok X q (s\<lparr>cfs_at := (cfs_at s)(q \<mapsto>
          cq\<lparr>rb_leftmost := hd_opt (inorder t), tasks_timeline := t\<rparr>)\<rparr>)
      \<and> lag q (s\<lparr>cfs_at := (cfs_at s)(q \<mapsto>
          cq\<lparr>rb_leftmost := hd_opt (inorder t), tasks_timeline := t\<rparr>)\<rparr>) = lag q s"
    using timeline_ok_set [OF 5(1) cq _ _ _ refl, of t] 5 notin_set_remove1
    by (auto simp: t(2) timeline_ok_def sorted_map_remove1)
  then show ?case using t by (auto simp: timeline_def)
qed (auto simp: timeline_ok_def)

section \<open>Properties\<close>

text \<open>C28: The timeline is a queue in the order of the virtual run times.  Inserting an
  entity with \<^verbatim>\<open>__enqueue_entity\<close> never faults and puts it behind every entity that is not
  later than it; the cached leftmost entity has the smallest virtual run time; taking
  the leftmost entity with \<^verbatim>\<open>__dequeue_entity\<close> again and again serves all entities in order;
  and removing the inserted entity restores the sequence.\<close>

theorem timeline_serves_in_order:
  assumes "timeline_ok X q s" "near_entity q s e" "e \<notin> set (timeline q s)"
  shows "\<exists>s1 s2 s3 f. raw_enqueue_entity X q e s = Some s1 \<and> timeline_ok X q s1
    \<and> timeline q s1 = insert_by (lag q s) e (timeline q s)
    \<and> first_entity q s1 = Some f \<and> (\<forall>d \<in> insert e (set (timeline q s)). lag q s f \<le> lag q s d)
    \<and> drain (first_entity q) (raw_dequeue_entity X q) (Suc (length (timeline q s))) s1
        = Some (insert_by (lag q s) e (timeline q s), s2) \<and> timeline q s2 = []
    \<and> raw_dequeue_entity X q e s1 = Some s3 \<and> timeline_ok X q s3 \<and> timeline q s3 = timeline q s"
proof -
  obtain s1 s3 where s1: "raw_enqueue_entity X q e s = Some s1" "raw_dequeue_entity X q e s1 = Some s3"
    "timeline_ok X q s3" "timeline q s1 = insert_by (lag q s) e (timeline q s)"
    "timeline q s3 = timeline q s"
    using tl.enq_deq [OF assms] by blast
  then have ok: "timeline_ok X q s1" "lag q s1 = lag q s" using tl.enq_item [OF assms] by auto
  have len: "length (timeline q s1) = Suc (length (timeline q s))"
    by (simp add: s1(4))
  obtain s2 where s2: "drain (first_entity q) (raw_dequeue_entity X q) (Suc (length (timeline q s))) s1
      = Some (timeline q s1, s2)" "timeline q s2 = []"
    using tl.drain_serves [OF ok(1) len] by blast
  obtain f where f: "first_entity q s1 = Some f"
    using tl.first_item [OF ok(1)] len by (cases "timeline q s1") auto
  have "lag q s f \<le> lag q s d" if "d \<in> insert e (set (timeline q s))" for d
    using tl.first_minimal [OF ok(1) f, of d] that by (simp add: s1(4) ok(2))
  then show ?thesis using s1 s2 f ok(1) by auto
qed

lemma demo_rb_ok: "rb_ok demo_sched_ext"
  by (auto simp: rb_ok_def demo_sched_ext_def next_in_append hd_opt_def)

lemma demo_timeline:
  "timeline (RootCfs 0) demo_sched = [TaskSe 2]" "near_entity (RootCfs 0) demo_sched (TaskSe 1)"
  "timeline_ok demo_sched_ext (RootCfs 0) demo_sched"
  by (simp_all add: timeline_ok_def demo_rb_ok timeline_def near_entity_def near_def dist_def
      first_entity_def raw_pick_first_entity_def )

theorem timeline_serves_in_order_witness:
  "\<exists>s1. raw_enqueue_entity demo_sched_ext (RootCfs 0) (TaskSe 1) demo_sched = Some s1
     \<and> timeline (RootCfs 0) s1 = [TaskSe 1, TaskSe 2]"
proof -
  have "insert_by (lag (RootCfs 0) demo_sched) (TaskSe 1) [TaskSe 2] = [TaskSe 1, TaskSe 2]"
    by (simp add: insert_by_def lag_def dist_def )
  then show ?thesis
    using timeline_serves_in_order [OF demo_timeline(3,2)] by (auto simp: demo_timeline(1))
qed

text \<open>C31: The key by which \<^verbatim>\<open>__enqueue_entity\<close> compares is truncated to the 32 bits of \<^verbatim>\<open>s64\<close>: an
  entity whose virtual run time is from \<open>2 ^ 31\<close> up to \<open>2 ^ 32 - 1\<close> nanoseconds beyond the minimum
  is inserted in front of every waiting entity that is not behind the minimum, although it
  is later than all of them.\<close>

theorem far_entity_jumps_queue:
  assumes "timeline_ok X q s" "cfs_at s q = Some cq" "se_at s e = Some se"
    and "2 ^ 31 \<le> dist (min_vruntime cq) (vruntime se)" "dist (min_vruntime cq) (vruntime se) < 2 ^ 32"
    and "\<forall>d \<in> set (timeline q s). 0 \<le> lag q s d"
  shows "\<exists>s'. raw_enqueue_entity X q e s = Some s' \<and> timeline q s' = e # timeline q s
    \<and> first_entity q s' = Some e \<and> (\<forall>d \<in> set (timeline q s). lag q s' d < lag q s' e)"
proof -
  let ?m = "min_vruntime cq"
  let ?K = "\<lambda>x. if x = e then sint (entity_key ?m se) else lag q s x"
  have key: "sint (entity_key ?m se) < 0"
    using far_key [OF assms(4,5)] by (simp add: entity_key_def)
  have tl: "timeline q s = inorder (tasks_timeline cq)" using assms(2) by (rule timeline_at)
  have far: "lag q s e = dist ?m (vruntime se)" using assms(2,3) by (simp add: lag_def)
  have near: "near_entity q s d" if "d \<in> set (timeline q s)" for d
    using assms(1) that by (simp add: timeline_ok_def)
  have fresh: "e \<notin> set (timeline q s)"
    using near [of e] assms(2-4) by (auto simp: near_entity_def near_def)
  have "map ?K (timeline q s) = map (lag q s) (timeline q s)" using fresh by auto
  then have sorted: "sorted (map ?K (inorder (tasks_timeline cq)))"
    using assms(1) by (simp only: timeline_ok_def tl)
  have ents: "\<exists>en. se_at s x = Some en \<and> ?K x = sint (entity_key ?m en)"
    if "x \<in> set_tree (tasks_timeline cq)" for x
    using near [of x] that fresh assms(2) by (auto simp: tl elim!: near_entityE)
  have none: "takeWhile (\<lambda>x. ?K x \<le> ?K e) (timeline q s) = []"
    using assms(6) fresh key by (cases "timeline q s") auto
  then obtain t where t: "enqueue_walk (se_at s) ?m e se (tasks_timeline cq) True = Some (t, True)"
    "inorder t = insert_by ?K e (timeline q s)"
    using enqueue_walk_inorder [of "tasks_timeline cq" "se_at s" ?K ?m e se True] ents sorted tl by auto
  have order: "inorder t = e # timeline q s"
    using t(2) none assms(6) fresh key by (cases "timeline q s") (auto simp: insert_by_def)
  define cq' where "cq' = cq\<lparr>rb_leftmost := Some e, tasks_timeline := rb_insert_color X e t\<rparr>"
  define s' where "s' = s\<lparr>cfs_at := (cfs_at s)(q \<mapsto> cq')\<rparr>"
  have at: "cfs_at s' q = Some cq'" "se_at s' = se_at s" by (simp_all add: s'_def)
  have "raw_enqueue_entity X q e s = Some s'"
    by (simp add: raw_enqueue_entity_def assms(2,3) t(1) upd_cfs_def s'_def cq'_def)
  moreover have "timeline q s' = e # timeline q s"
    using order assms(1) by (simp add: timeline_at [OF at(1)] cq'_def timeline_ok_def rb_ok_def)
  moreover have "first_entity q s' = Some e" by (simp add: first_entity_at [OF at(1)] cq'_def)
  moreover have "lag q s' d < lag q s' e" if "d \<in> set (timeline q s)" for d
  proof -
    have "lag q s' = lag q s" using lag_cong [OF at(2) assms(2) at(1)] by (simp add: cq'_def)
    moreover have "lag q s d < 2 ^ 31"
      using near [OF that] assms(2) by (auto simp: near_entity_def near_def lag_def split: option.splits)
    ultimately show ?thesis using far assms(4) by simp
  qed
  ultimately show ?thesis by blast
qed

theorem far_entity_jumps_queue_witness:
  "\<exists>s'. raw_enqueue_entity demo_sched_ext (RootCfs 0) (TaskSe 7)
     (demo_sched\<lparr>se_at := (se_at demo_sched)(TaskSe 7 \<mapsto> demo_entity 3000000000)\<rparr>) = Some s'
     \<and> first_entity (RootCfs 0) s' = Some (TaskSe 7)"
proof -
  let ?s = "demo_sched\<lparr>se_at := (se_at demo_sched)(TaskSe 7 \<mapsto> demo_entity 3000000000)\<rparr>"
  have tl: "timeline (RootCfs 0) ?s = [TaskSe 2]"
    by (simp add: timeline_def )
  have "timeline_ok demo_sched_ext (RootCfs 0) ?s"
    unfolding timeline_ok_def tl
    by (simp add: demo_rb_ok near_entity_def near_def dist_def
      first_entity_def raw_pick_first_entity_def )
  moreover have "cfs_at ?s (RootCfs 0) = Some demo_cfs" "se_at ?s (TaskSe 7) = Some (demo_entity 3000000000)"
    by simp_all
  moreover have "2 ^ 31 \<le> dist (min_vruntime demo_cfs) (vruntime (demo_entity 3000000000))"
    "dist (min_vruntime demo_cfs) (vruntime (demo_entity 3000000000)) < 2 ^ 32"
    by (simp_all add: dist_def demo_cfs_def demo_entity_def)
  moreover have "\<forall>d \<in> set (timeline (RootCfs 0) ?s). 0 \<le> lag (RootCfs 0) ?s d"
    unfolding tl by (simp add: lag_def dist_def )
  ultimately show ?thesis using far_entity_jumps_queue by blast
qed

end
