(* ===== verification/Fair_Clock.thy ===== *)
theory Fair_Clock
  imports Fair_Timeline
begin

text \<open>
  The minimum virtual run time of a fair run queue, and the charge of the running entity.
  Moving the minimum moves every distance by the same amount, so the order of the
  timeline is kept as long as the minimum does not pass a waiting entity.
\<close>

section \<open>Signed distances\<close>

lemma sint_diff:
  fixes a b :: u64
  assumes "- (2 ^ 63) \<le> sint a - sint b" "sint a - sint b < 2 ^ 63"
  shows "sint (a - b) = sint a - sint b"
proof -
  have "sint (a - b) = signed_take_bit 63 (sint a - sint b)"
    by (simp add: sint_word_ariths)
  then show ?thesis using assms by (simp add: signed_take_bit_int_eq_self_iff)
qed

lemma sint_small: "uint x < 2 ^ 63 \<Longrightarrow> sint x = uint x" for x :: u64
  by (simp add: sint_uint signed_take_bit_int_eq_self_iff) (use uint_nonnegative [of x] in linarith)

lemma dist_diff:
  assumes "\<bar>dist m v\<bar> < 2 ^ 62" "\<bar>dist m w\<bar> < 2 ^ 62"
  shows "dist w v = dist m v - dist m w"
proof -
  have "v - w = (v - m) - (w - m)" by simp
  then show ?thesis
    using sint_diff [of "v - m" "w - m"] assms unfolding dist_def by (auto simp: abs_less_iff)
qed

lemma near_abs: "near m v \<Longrightarrow> \<bar>dist m v\<bar> < 2 ^ 62"
  by (auto simp: near_def abs_less_iff)

lemma dist_self [simp]: "dist m m = 0"
  by (simp add: dist_def)

definition vr_ok :: "sched_ext \<Rightarrow> bool" where
  "vr_ok X \<longleftrightarrow> (\<forall>a b. earlier_vruntime X a b = (if dist a b < 0 then b else a))
     \<and> (\<forall>a b. later_vruntime X a b = (if 0 < dist a b then b else a))"

section \<open>Moving the minimum\<close>

definition set_min :: "cfs_ptr \<Rightarrow> u64 \<Rightarrow> sched \<Rightarrow> sched" where
  "set_min q m s = (case cfs_at s q of None \<Rightarrow> s
     | Some cq \<Rightarrow> s\<lparr>cfs_at := (cfs_at s)(q \<mapsto> cq\<lparr>min_vruntime := m\<rparr>)\<rparr>)"

lemma set_min_frame [simp]:
  "se_at (set_min q m s) = se_at s" "tasks (set_min q m s) = tasks s"
  "timeline q (set_min q m s) = timeline q s"
  "first_entity q (set_min q m s) = first_entity q s"
  by (auto simp: set_min_def timeline_def first_entity_def raw_pick_first_entity_def split: option.splits)

lemma set_min_at: "cfs_at s q = Some cq \<Longrightarrow> cfs_at (set_min q m s) q = Some (cq\<lparr>min_vruntime := m\<rparr>)"
  by (simp add: set_min_def)

lemma lag_set_min:
  assumes "cfs_at s q = Some cq" "near_entity q s e" "\<bar>dist (min_vruntime cq) m\<bar> < 2 ^ 62"
  shows "lag q (set_min q m s) e = lag q s e - dist (min_vruntime cq) m"
proof -
  obtain se where se: "se_at s e = Some se" "near (min_vruntime cq) (vruntime se)"
    using assms(1,2) by (auto elim: near_entityE)
  then show ?thesis
    using dist_diff [OF near_abs assms(3)] assms(1) by (simp add: lag_def set_min_at)
qed

lemma timeline_ok_advance:
  assumes ok: "timeline_ok X q s" and cq: "cfs_at s q = Some cq"
    and m: "0 \<le> dist (min_vruntime cq) m" "dist (min_vruntime cq) m < 2 ^ 62"
    and below: "\<And>e. e \<in> set (timeline q s) \<Longrightarrow> m = min_vruntime cq \<or> dist (min_vruntime cq) m \<le> lag q s e"
  shows "timeline_ok X q (set_min q m s)"
proof -
  let ?d = "dist (min_vruntime cq) m" and ?s = "set_min q m s"
  have lag: "lag q ?s e = lag q s e - ?d" and nr: "near_entity q ?s e"
    if "e \<in> set (timeline q s)" for e
  proof -
    have near: "near_entity q s e" using ok that by (simp add: timeline_ok_def)
    then show l: "lag q ?s e = lag q s e - ?d" using lag_set_min [OF cq] m by simp
    obtain se where se: "se_at s e = Some se" "near (min_vruntime cq) (vruntime se)"
      "lag q s e = dist (min_vruntime cq) (vruntime se)"
      using near cq by (auto simp: near_entity_def lag_def split: option.splits)
    have "lag q ?s e = dist m (vruntime se)" using se(1) cq by (simp add: lag_def set_min_at)
    moreover have "m = min_vruntime cq \<or> 0 \<le> lag q ?s e" using below [OF that] l by linarith
    ultimately have "near m (vruntime se)" using se(2,3) l m(1) by (auto simp: near_def)
    then show "near_entity q ?s e" using se(1) cq by (simp add: near_entity_def set_min_at)
  qed
  have "map (lag q ?s) (timeline q s) = map (\<lambda>e. lag q s e - ?d) (timeline q s)"
    using lag by simp
  moreover have "sorted (map (\<lambda>e. lag q s e - ?d) xs)" if "sorted (map (lag q s) xs)" for xs
    using that by (induction xs) auto
  ultimately have "sorted (map (lag q ?s) (timeline q s))"
    using ok by (simp only: timeline_ok_def)
  then show ?thesis using ok nr cq by (simp add: timeline_ok_def set_min_at)
qed

section \<open>update_min_vruntime\<close>

definition curr_se :: "cfs_ptr \<Rightarrow> sched \<Rightarrow> sched_entity option" where
  "curr_se q s = do { cq \<leftarrow> cfs_at s q; c \<leftarrow> cfs_curr cq; se_at s c }"

text \<open>The current entity, when there is one, exists and is not waiting; while it is runnable
  it is within the window.\<close>

definition curr_ok :: "cfs_ptr \<Rightarrow> sched \<Rightarrow> bool" where
  "curr_ok q s \<longleftrightarrow> (case cfs_at s q of None \<Rightarrow> False | Some cq \<Rightarrow>
     (case cfs_curr cq of None \<Rightarrow> True | Some c \<Rightarrow> c \<notin> set (timeline q s) \<and>
        (case se_at s c of None \<Rightarrow> False
         | Some se \<Rightarrow> on_rq se \<longrightarrow> near (min_vruntime cq) (vruntime se))))"

lemma earlier_dist:
  assumes "vr_ok X" "\<bar>dist m a\<bar> < 2 ^ 62" "\<bar>dist m b\<bar> < 2 ^ 62"
  shows "dist m (earlier_vruntime X a b) = min (dist m a) (dist m b)"
  using assms dist_diff [OF assms(3,2)] by (auto simp: vr_ok_def)

lemma later_dist:
  assumes "vr_ok X" "\<bar>dist m b\<bar> < 2 ^ 62"
  shows "dist m (later_vruntime X m b) = max 0 (dist m b)"
  using assms by (auto simp: vr_ok_def)

text \<open>The target that the function computes before it takes the maximum.\<close>

definition vruntime_target :: "sched_ext \<Rightarrow> u64 \<Rightarrow> sched_entity option \<Rightarrow> sched_entity option \<Rightarrow> u64" where
  "vruntime_target X m c l = (case c of
      None \<Rightarrow> (case l of None \<Rightarrow> m | Some le \<Rightarrow> vruntime le)
    | Some ce \<Rightarrow> (case l of None \<Rightarrow> vruntime ce | Some le \<Rightarrow> earlier_vruntime X (vruntime ce) (vruntime le)))"

definition running :: "sched_entity option \<Rightarrow> sched_entity option" where
  "running c = (case c of Some se \<Rightarrow> if on_rq se then c else None | None \<Rightarrow> None)"

lemma update_min_vruntime_eq:
  assumes "cfs_at s q = Some cq"
    and "\<And>c. cfs_curr cq = Some c \<Longrightarrow> se_at s c \<noteq> None"
    and "\<And>e. rb_leftmost cq = Some e \<Longrightarrow> se_at s e \<noteq> None"
  shows "update_min_vruntime X q s = Some (set_min q (later_vruntime X (min_vruntime cq)
    (vruntime_target X (min_vruntime cq) (running (curr_se q s)) (Option.bind (rb_leftmost cq) (se_at s)))) s)"
  using assms
  by (cases "cfs_curr cq"; cases "rb_leftmost cq")
    (auto simp: update_min_vruntime_def vruntime_target_def running_def curr_se_def upd_cfs_def set_min_def)

lemma vruntime_target_spec:
  assumes "vr_ok X" "\<And>ce. c = Some ce \<Longrightarrow> near m (vruntime ce)" "\<And>le. l = Some le \<Longrightarrow> near m (vruntime le)"
  shows "near m (vruntime_target X m c l)"
    "vruntime_target X m c l = m
       \<or> (\<forall>ce. c = Some ce \<longrightarrow> dist m (vruntime_target X m c l) \<le> dist m (vruntime ce))
         \<and> (\<forall>le. l = Some le \<longrightarrow> dist m (vruntime_target X m c l) \<le> dist m (vruntime le))"
  using assms earlier_dist [OF assms(1) near_abs near_abs, of m]
  by (auto simp: vruntime_target_def near_def split: option.splits)

lemma update_min_vruntime_spec:
  assumes ok: "timeline_ok X q s" "vr_ok X" and cq: "cfs_at s q = Some cq" and cur: "curr_ok q s"
  shows "\<exists>m. update_min_vruntime X q s = Some (set_min q m s)
    \<and> 0 \<le> dist (min_vruntime cq) m \<and> dist (min_vruntime cq) m < 2 ^ 31
    \<and> (m = min_vruntime cq \<or> (\<forall>e \<in> set (timeline q s). dist (min_vruntime cq) m \<le> lag q s e)
         \<and> (\<forall>se. running (curr_se q s) = Some se \<longrightarrow> dist (min_vruntime cq) m \<le> dist (min_vruntime cq) (vruntime se)))"
proof -
  let ?m = "min_vruntime cq" and ?c = "running (curr_se q s)"
  let ?l = "Option.bind (rb_leftmost cq) (se_at s)"
  let ?x = "vruntime_target X ?m ?c ?l"
  have lm: "rb_leftmost cq = hd_opt (timeline q s)"
    using ok(1) first_entity_at [OF cq] by (simp add: timeline_ok_def)
  have near: "near_entity q s e" if "e \<in> set (timeline q s)" for e
    using ok(1) that by (simp add: timeline_ok_def)
  have l: "\<exists>se. se_at s e = Some se \<and> near ?m (vruntime se) \<and> lag q s e = dist ?m (vruntime se)"
    if "rb_leftmost cq = Some e" for e
    using that near [of e] lm cq
    by (cases "timeline q s") (auto simp: near_entity_def lag_def split: option.splits)
  have c: "\<exists>se. se_at s c = Some se \<and> (on_rq se \<longrightarrow> near ?m (vruntime se))"
    if "cfs_curr cq = Some c" for c
    using that cur cq by (auto simp: curr_ok_def split: option.splits)
  have cn: "near ?m (vruntime ce)" if "?c = Some ce" for ce
    using that c cq by (auto simp: running_def curr_se_def bind_eq_Some_conv split: option.splits if_splits)
  have ln: "near ?m (vruntime le)" if "?l = Some le" for le
    using that l by (auto simp: bind_eq_Some_conv)
  define x where "x = ?x"
  have x1: "near ?m x" unfolding x_def by (rule vruntime_target_spec(1) [OF ok(2)]) (fact cn, fact ln)
  have x2: "x = ?m \<or> (\<forall>ce. ?c = Some ce \<longrightarrow> dist ?m x \<le> dist ?m (vruntime ce))
      \<and> (\<forall>le. ?l = Some le \<longrightarrow> dist ?m x \<le> dist ?m (vruntime le))"
    unfolding x_def by (rule vruntime_target_spec(2) [OF ok(2)]) (fact cn, fact ln)
  have below: "x = ?m \<or> (\<forall>e \<in> set (timeline q s). dist ?m x \<le> lag q s e)"
  proof (cases "timeline q s")
    case (Cons e es)
    then obtain se where se: "?l = Some se" "lag q s e = dist ?m (vruntime se)" using l lm by auto
    have "dist ?m (vruntime se) \<le> lag q s d" if "d \<in> set (timeline q s)" for d
      using tl.first_minimal [OF ok(1) _ that] first_entity_at [OF cq] lm Cons se(2) by simp
    then show ?thesis using x2 se(1) by (meson order_trans)
  qed simp
  have "update_min_vruntime X q s = Some (set_min q (later_vruntime X ?m x) s)"
    unfolding x_def using update_min_vruntime_eq [OF cq] l c by blast
  moreover have "later_vruntime X ?m x = ?m \<or> later_vruntime X ?m x = x \<and> 0 < dist ?m x"
    using ok(2) by (simp add: vr_ok_def)
  moreover have "dist ?m x < 2 ^ 31" using x1 by (simp add: near_def)
  ultimately show ?thesis using x2 below by (intro exI [of _ "later_vruntime X ?m x"]) auto
qed

lemma curr_okD:
  assumes "curr_ok q s" "cfs_at s q = Some cq" "cfs_curr cq = Some c"
  shows "c \<notin> set (timeline q s)" "\<exists>se. se_at s c = Some se \<and> (on_rq se \<longrightarrow> near (min_vruntime cq) (vruntime se))"
  using assms by (auto simp: curr_ok_def split: option.splits)

lemma curr_okI:
  assumes "cfs_at s q = Some cq"
    and "\<And>c. cfs_curr cq = Some c \<Longrightarrow> c \<notin> set (timeline q s) \<and> (\<exists>se. se_at s c = Some se
           \<and> (on_rq se \<longrightarrow> near (min_vruntime cq) (vruntime se)))"
  shows "curr_ok q s"
  using assms by (fastforce simp: curr_ok_def split: option.splits)

lemma near_advance:
  assumes "near m v" "0 \<le> dist m m'" "m' = m \<or> dist m m' \<le> dist m v"
  shows "near m' v"
proof (cases "m' = m")
  case False
  then have "dist m' v = dist m v - dist m m'"
    using assms near_abs [OF assms(1)] by (intro dist_diff) auto
  then show ?thesis using False assms by (auto simp: near_def)
qed (use assms in simp)

text \<open>The minimum moves forward, by less than the window, and the invariants are kept.\<close>

lemma update_min_keeps:
  assumes "timeline_ok X q s" "vr_ok X" "curr_ok q s" "cfs_at s q = Some cq"
  shows "\<exists>m. update_min_vruntime X q s = Some (set_min q m s) \<and> timeline_ok X q (set_min q m s)
    \<and> curr_ok q (set_min q m s) \<and> 0 \<le> dist (min_vruntime cq) m \<and> dist (min_vruntime cq) m < 2 ^ 31"
proof -
  let ?m = "min_vruntime cq"
  obtain m where m: "update_min_vruntime X q s = Some (set_min q m s)" "0 \<le> dist ?m m"
    "dist ?m m < 2 ^ 31"
    "m = ?m \<or> (\<forall>e \<in> set (timeline q s). dist ?m m \<le> lag q s e)
       \<and> (\<forall>se. running (curr_se q s) = Some se \<longrightarrow> dist ?m m \<le> dist ?m (vruntime se))"
    using update_min_vruntime_spec [OF assms(1,2,4,3)] by blast
  have "timeline_ok X q (set_min q m s)"
    using timeline_ok_advance [OF assms(1,4) m(2)] m(3,4) by auto
  moreover have "curr_ok q (set_min q m s)"
  proof (rule curr_okI [OF set_min_at [OF assms(4)]])
    fix c assume "cfs_curr (cq\<lparr>min_vruntime := m\<rparr>) = Some c"
    then have c: "cfs_curr cq = Some c" by simp
    then obtain se where se: "se_at s c = Some se" "on_rq se \<longrightarrow> near ?m (vruntime se)"
      using curr_okD(2) [OF assms(3,4)] by blast
    have "on_rq se \<longrightarrow> near m (vruntime se)"
      using near_advance [OF _ m(2)] m(4) se c assms(4) by (auto simp: running_def curr_se_def)
    then show "c \<notin> set (timeline q (set_min q m s)) \<and> (\<exists>se. se_at (set_min q m s) c = Some se
        \<and> (on_rq se \<longrightarrow> near (min_vruntime (cq\<lparr>min_vruntime := m\<rparr>)) (vruntime se)))"
      using curr_okD(1) [OF assms(3,4) c] se(1) by simp
  qed
  ultimately show ?thesis using m(1-3) by blast
qed

section \<open>update_curr\<close>

text \<open>Two run queues that agree on everything but the bandwidth and the minimum.\<close>

definition same_queue :: "cfs_rq \<Rightarrow> cfs_rq \<Rightarrow> bool" where
  "same_queue a b \<longleftrightarrow> b = a\<lparr>min_vruntime := min_vruntime b, cfs_bw := cfs_bw b\<rparr>"

lemma same_queueD:
  assumes "same_queue a b"
  shows "tasks_timeline b = tasks_timeline a" "rb_leftmost b = rb_leftmost a" "cfs_curr b = cfs_curr a"
    "cfs_nr_running b = cfs_nr_running a" "cfs_next b = cfs_next a" "cfs_last b = cfs_last a"
    "cfs_skip b = cfs_skip a" "h_nr_running b = h_nr_running a" "cfs_load b = cfs_load a"
  by (subst assms [unfolded same_queue_def], simp)+

lemma observe_cong:
  assumes "cfs_at s q = Some cq" "cfs_at s' q = Some cq'" "min_vruntime cq' = min_vruntime cq"
    and "se_at s' e = se_at s e"
  shows "lag q s' e = lag q s e" "near_entity q s' e = near_entity q s e"
  using assms by (simp_all add: lag_def near_entity_def split: option.splits)

lemma timeline_ok_cong:
  assumes ok: "timeline_ok X q s" and cq: "cfs_at s q = Some cq" "cfs_at s' q = Some cq'"
    and same: "same_queue cq cq'" "min_vruntime cq' = min_vruntime cq"
    and se: "\<And>e. e \<in> set (timeline q s) \<Longrightarrow> se_at s' e = se_at s e"
  shows "timeline_ok X q s'" "timeline q s' = timeline q s"
proof -
  show tl: "timeline q s' = timeline q s"
    using cq same_queueD [OF same(1)] by (simp add: timeline_at)
  have "map (lag q s') (timeline q s) = map (lag q s) (timeline q s)"
    using observe_cong(1) [OF cq same(2) se] by simp
  then have "sorted (map (lag q s') (timeline q s))" using ok by (simp only: timeline_ok_def)
  moreover have "first_entity q s' = first_entity q s"
    using cq same_queueD [OF same(1)] by (simp add: first_entity_at)
  ultimately show "timeline_ok X q s'"
    using ok cq(2) observe_cong(2) [OF cq same(2) se] by (simp add: timeline_ok_def tl)
qed

text \<open>The virtual time that the running entity is charged.\<close>

definition clock_now :: "sched_ext \<Rightarrow> cfs_ptr \<Rightarrow> sched \<Rightarrow> u64" where
  "clock_now X q s = fst (sched_clock X (cpu_of X (rq_of X q)) s)"

definition charge :: "sched_ext \<Rightarrow> cfs_ptr \<Rightarrow> sched \<Rightarrow> sched_entity \<Rightarrow> u64" where
  "charge X q s se = (let delta = clock_now X q s - exec_start se in
     if sint (ucast delta :: s64) \<le> 0 then 0 else fst (calc_delta_fair X delta (se_load se)))"

definition window :: "sched_ext \<Rightarrow> cfs_ptr \<Rightarrow> sched \<Rightarrow> bool" where
  "window X q s \<longleftrightarrow> (\<forall>cq se. cfs_at s q = Some cq \<longrightarrow> running (curr_se q s) = Some se \<longrightarrow>
     near (min_vruntime cq) (vruntime se + charge X q s se))"

text \<open>What a call may change.\<close>

definition charged :: "sched_ext \<Rightarrow> cfs_ptr \<Rightarrow> sched \<Rightarrow> sched \<Rightarrow> bool" where
  "charged X q s s' \<longleftrightarrow> tasks s' = tasks s \<and> runqueues s' = runqueues s
     \<and> (\<forall>p. p \<noteq> q \<longrightarrow> cfs_at s' p = cfs_at s p)
     \<and> (\<forall>cq. cfs_at s q = Some cq \<longrightarrow> (\<exists>cq'. cfs_at s' q = Some cq' \<and> same_queue cq cq'
          \<and> 0 \<le> dist (min_vruntime cq) (min_vruntime cq') \<and> dist (min_vruntime cq) (min_vruntime cq') < 2 ^ 31
          \<and> (\<forall>e. cfs_curr cq \<noteq> Some e \<longrightarrow> se_at s' e = se_at s e)
          \<and> (\<forall>e se. cfs_curr cq = Some e \<longrightarrow> se_at s e = Some se \<longrightarrow>
               (\<exists>se'. se_at s' e = Some se' \<and> on_rq se' = on_rq se
                 \<and> vruntime se' = vruntime se + charge X q s se))))"

lemma sched_clock_frame:
  "\<exists>h. snd (sched_clock X c s) = s\<lparr>hw_clock := h\<rparr>"
  by (auto simp: sched_clock_def split: prod.splits)

lemma same_queue_refl [simp]: "same_queue a a"
  by (simp add: same_queue_def)

text \<open>The three updates of the running entity, as one.\<close>

definition charge_se :: "sched_ext \<Rightarrow> u64 \<Rightarrow> sched_entity \<Rightarrow> sched_entity" where
  "charge_se X now se = (let delta = now - exec_start se; (d, lw) = calc_delta_fair X delta (se_load se)
     in se\<lparr>exec_start := now, sum_exec_runtime := sum_exec_runtime se + delta, se_load := lw,
           vruntime := vruntime se + d\<rparr>)"

lemma update_curr_rest:
  assumes "cfs_at s q = Some cq"
    and "cfs_curr cq = None \<or> (\<exists>se. curr_se q s = Some se \<and> sint (ucast (clock_now X q s - exec_start se) :: s64) \<le> 0)"
  shows "update_curr X q s = Some (snd (sched_clock X (cpu_of X (rq_of X q)) s))"
  using assms sched_clock_frame [of X "cpu_of X (rq_of X q)" s]
  by (auto simp: update_curr_def curr_se_def clock_now_def Let_def bind_eq_Some_conv case_prod_beta)

lemma update_curr_run:
  assumes "cfs_at s q = Some cq" "cfs_curr cq = Some c" "se_at s c = Some se"
    and "0 < sint (ucast (clock_now X q s - exec_start se) :: s64)"
    and "s1 = (snd (sched_clock X (cpu_of X (rq_of X q)) s))\<lparr>se_at := (se_at s)(c \<mapsto> charge_se X (clock_now X q s) se)\<rparr>"
  shows "update_curr X q s = do { s' \<leftarrow> update_min_vruntime X q s1;
    upd_cfs q (\<lambda>cq. cq\<lparr>cfs_bw := account_cfs_rq_runtime X (clock_now X q s - exec_start se) (cfs_bw cq)\<rparr>) s' }"
proof -
  obtain now h where clk: "sched_clock_cpu X (cpu_of X (rq_of X q)) (hw_clock s) = (now, h)" by fastforce
  have now: "clock_now X q s = now" "snd (sched_clock X (cpu_of X (rq_of X q)) s) = s\<lparr>hw_clock := h\<rparr>"
    by (simp_all add: clock_now_def sched_clock_def clk)
  have "charge_se X now se = (let (d, lw) = calc_delta_fair X (now - exec_start se) (se_load se)
      in se\<lparr>exec_start := now, sum_exec_runtime := sum_exec_runtime se + (now - exec_start se),
           se_load := lw, vruntime := vruntime se + d\<rparr>)"
    by (simp add: charge_se_def Let_def)
  then show ?thesis
    using assms(1-4) unfolding assms(5) now
    by (simp add: update_curr_def sched_clock_def clk upd_se_def Let_def not_le case_prod_beta)
qed

lemma vruntime_charge_se:
  "0 < sint (ucast (clock_now X q s - exec_start se) :: s64) \<Longrightarrow>
   vruntime (charge_se X (clock_now X q s) se) = vruntime se + charge X q s se"
  "on_rq (charge_se X now se) = on_rq se"
  by (simp_all add: charge_se_def charge_def Let_def case_prod_beta)

lemma update_curr_rest_spec:
  assumes ok: "timeline_ok X q s" "curr_ok q s" and cq: "cfs_at s q = Some cq"
    and rest: "cfs_curr cq = None \<or>
      (\<exists>se. curr_se q s = Some se \<and> sint (ucast (clock_now X q s - exec_start se) :: s64) \<le> 0)"
  shows "\<exists>s'. update_curr X q s = Some s' \<and> timeline_ok X q s' \<and> curr_ok q s'
    \<and> timeline q s' = timeline q s \<and> charged X q s s'"
proof -
  obtain h where h: "snd (sched_clock X (cpu_of X (rq_of X q)) s) = s\<lparr>hw_clock := h\<rparr>"
    using sched_clock_frame by blast
  let ?s = "s\<lparr>hw_clock := h\<rparr>"
  have "timeline_ok X q ?s" "timeline q ?s = timeline q s"
    using timeline_ok_cong [OF ok(1) cq, of ?s cq] cq by simp_all
  moreover have "curr_ok q ?s" using ok(2) cq
    by (auto simp: curr_ok_def calculation(2) split: option.splits)
  moreover have "charged X q s ?s"
    using rest cq by (auto simp: charged_def charge_def curr_se_def Let_def)
  ultimately show ?thesis using update_curr_rest [OF cq rest] h by auto
qed

lemma update_curr_run_spec:
  assumes ok: "timeline_ok X q s" "vr_ok X" "curr_ok q s" "window X q s"
    and cq: "cfs_at s q = Some cq" "cfs_curr cq = Some c" "se_at s c = Some se"
    and run: "0 < sint (ucast (clock_now X q s - exec_start se) :: s64)"
  shows "\<exists>s'. update_curr X q s = Some s' \<and> timeline_ok X q s' \<and> curr_ok q s'
    \<and> timeline q s' = timeline q s \<and> charged X q s s'"
proof -
  let ?se = "charge_se X (clock_now X q s) se" and ?m = "min_vruntime cq"
  obtain h where h: "snd (sched_clock X (cpu_of X (rq_of X q)) s) = s\<lparr>hw_clock := h\<rparr>"
    using sched_clock_frame by blast
  define s1 where "s1 = s\<lparr>hw_clock := h, se_at := (se_at s)(c \<mapsto> ?se)\<rparr>"
  have c: "c \<notin> set (timeline q s)" using curr_okD [OF ok(3) cq(1,2)] by blast
  have s1: "cfs_at s1 q = Some cq" "se_at s1 c = Some ?se"
    "\<And>e. e \<noteq> c \<Longrightarrow> se_at s1 e = se_at s e" "tasks s1 = tasks s" "runqueues s1 = runqueues s"
    using cq(1) by (auto simp: s1_def)
  have tl1: "timeline_ok X q s1" "timeline q s1 = timeline q s"
    using timeline_ok_cong [OF ok(1) cq(1) s1(1) same_queue_refl refl] s1(3) c by metis+
  have v: "vruntime ?se = vruntime se + charge X q s se" "on_rq ?se = on_rq se"
    using vruntime_charge_se(1) [OF run] vruntime_charge_se(2) by auto
  have near: "on_rq se \<Longrightarrow> near ?m (vruntime ?se)"
    using ok(4) cq unfolding window_def by (simp add: running_def curr_se_def v)
  have cur1: "curr_ok q s1"
    using s1 cq(2) near c tl1(2) v(2) by (intro curr_okI [OF s1(1)]) auto
  obtain m where m: "update_min_vruntime X q s1 = Some (set_min q m s1)" "0 \<le> dist ?m m" "dist ?m m < 2 ^ 31"
    and keep: "timeline_ok X q (set_min q m s1)" "curr_ok q (set_min q m s1)"
    using update_min_keeps [OF tl1(1) ok(2) cur1 s1(1)] by blast
  define s2 where "s2 = set_min q m s1"
  have s2: "cfs_at s2 q = Some (cq\<lparr>min_vruntime := m\<rparr>)" "se_at s2 = se_at s1" "tasks s2 = tasks s"
    using set_min_at [OF s1(1)] s1(4) by (simp_all add: s2_def)
  have tl2: "timeline_ok X q s2" "timeline q s2 = timeline q s"
    using keep(1) tl1(2) by (simp_all add: s2_def)
  define cq' where "cq' = cq\<lparr>min_vruntime := m,
    cfs_bw := account_cfs_rq_runtime X (clock_now X q s - exec_start se) (cfs_bw cq)\<rparr>"
  define s3 where "s3 = s2\<lparr>cfs_at := (cfs_at s2)(q \<mapsto> cq')\<rparr>"
  have "s1 = (snd (sched_clock X (cpu_of X (rq_of X q)) s))\<lparr>se_at := (se_at s)(c \<mapsto> ?se)\<rparr>"
    by (simp add: s1_def h)
  from update_curr_run [OF cq run this] m(1) have "update_curr X q s = Some s3"
    by (simp add: s2_def [symmetric] upd_cfs_def s2(1) s3_def cq'_def)
  moreover have s3: "cfs_at s3 q = Some cq'" "se_at s3 = se_at s1" by (simp_all add: s3_def s2)
  moreover have sq: "same_queue (cq\<lparr>min_vruntime := m\<rparr>) cq'" "same_queue cq cq'"
    by (simp_all add: same_queue_def cq'_def)
  have tl3: "timeline_ok X q s3" "timeline q s3 = timeline q s"
    using timeline_ok_cong [OF tl2(1) s2(1) s3(1) sq(1)] s2(2) s3(2) tl2(2) by (auto simp: cq'_def)
  moreover have "curr_ok q s3"
    using keep(2) s2 s3 tl2(2) tl3(2) unfolding s2_def [symmetric]
    by (auto simp: curr_ok_def cq'_def split: option.splits)
  moreover have "charged X q s s3"
    unfolding charged_def
  proof (intro conjI allI impI)
    show "cfs_at s3 p = cfs_at s p" if "p \<noteq> q" for p
      using that s1(1) by (simp add: s3_def s2_def set_min_def) (simp add: s1_def)
    show "runqueues s3 = runqueues s" using s1(1,5) by (simp add: s3_def s2_def set_min_def)
    show "tasks s3 = tasks s" by (simp add: s3_def s2(3))
    fix k assume "cfs_at s q = Some k"
    then show "\<exists>cq'. cfs_at s3 q = Some cq' \<and> same_queue k cq'
          \<and> 0 \<le> dist (min_vruntime k) (min_vruntime cq') \<and> dist (min_vruntime k) (min_vruntime cq') < 2 ^ 31
          \<and> (\<forall>e. cfs_curr k \<noteq> Some e \<longrightarrow> se_at s3 e = se_at s e)
          \<and> (\<forall>e se. cfs_curr k = Some e \<longrightarrow> se_at s e = Some se \<longrightarrow>
               (\<exists>se'. se_at s3 e = Some se' \<and> on_rq se' = on_rq se
                 \<and> vruntime se' = vruntime se + charge X q s se))"
      using cq s3 sq(2) m(2,3) s1(2,3) v by (intro exI [of _ cq']) (auto simp: cq'_def)
  qed
  ultimately show ?thesis by blast
qed

lemma update_curr_spec:
  assumes "timeline_ok X q s" "vr_ok X" "curr_ok q s" "window X q s"
  shows "\<exists>s'. update_curr X q s = Some s' \<and> timeline_ok X q s' \<and> curr_ok q s'
    \<and> timeline q s' = timeline q s \<and> charged X q s s'"
proof -
  obtain cq where cq: "cfs_at s q = Some cq" using assms(1) by (auto simp: timeline_ok_def)
  show ?thesis
  proof (cases "cfs_curr cq")
    case None
    then show ?thesis using update_curr_rest_spec [OF assms(1,3) cq] by blast
  next
    case (Some c)
    then obtain se where se: "se_at s c = Some se" using curr_okD [OF assms(3) cq Some] by blast
    then have "curr_se q s = Some se" using cq Some by (simp add: curr_se_def)
    then show ?thesis
      using update_curr_rest_spec [OF assms(1,3) cq] update_curr_run_spec [OF assms cq Some se]
      by (cases "0 < sint (ucast (clock_now X q s - exec_start se) :: s64)") auto
  qed
qed

section \<open>Properties\<close>

text \<open>C29: \<^verbatim>\<open>update_curr\<close> charges the running entity its weighted run time and nothing else of
  the entities changes; the minimum virtual run time never moves back and never
  passes a waiting entity or the running one; the timeline keeps its order.\<close>

theorem update_curr_charges:
  assumes "timeline_ok X q s" "vr_ok X" "curr_ok q s" "window X q s"
    and "cfs_at s q = Some cq" "cfs_curr cq = Some c" "se_at s c = Some se"
  shows "\<exists>s' cq' se'. update_curr X q s = Some s' \<and> timeline_ok X q s' \<and> curr_ok q s'
    \<and> timeline q s' = timeline q s \<and> cfs_at s' q = Some cq'
    \<and> 0 \<le> dist (min_vruntime cq) (min_vruntime cq')
    \<and> se_at s' c = Some se' \<and> vruntime se' = vruntime se + charge X q s se
    \<and> (\<forall>e. e \<noteq> c \<longrightarrow> se_at s' e = se_at s e)"
proof -
  obtain s' where s': "update_curr X q s = Some s'" "timeline_ok X q s'" "curr_ok q s'"
    "timeline q s' = timeline q s" "charged X q s s'"
    using update_curr_spec [OF assms(1-4)] by blast
  then show ?thesis using assms(5-7) unfolding charged_def by fastforce
qed

lemma demo_curr_ok: "curr_ok (RootCfs 0) demo_sched"
proof (rule curr_okI)
  show "cfs_at demo_sched (RootCfs 0) = Some demo_cfs" by simp
qed (auto simp: demo_timeline near_def dist_def)

lemma demo_vr_ok: "vr_ok demo_sched_ext"
  by (simp add: vr_ok_def demo_sched_ext_def dist_def)

lemma demo_clock: "clock_now demo_sched_ext q s = hw_clock s"
  by (simp add: clock_now_def sched_clock_def demo_sched_ext_def)

lemma demo_charge:
  "charge demo_sched_ext (RootCfs 0) s se = (let delta = hw_clock s - exec_start se in
     if sint (ucast delta :: s64) \<le> 0 then 0 else fst (calc_delta_fair demo_sched_ext delta (se_load se)))"
  by (simp only: charge_def demo_clock)

lemma demo_window: "window demo_sched_ext (RootCfs 0) demo_sched"
proof -
  have "charge demo_sched_ext (RootCfs 0) demo_sched (demo_entity 2000) = 5000"
    by (simp add: demo_charge calc_delta_fair_def NICE_0_LOAD_def)
  then show ?thesis
    by (auto simp: window_def curr_se_def running_def near_def dist_def)
qed

theorem update_curr_charges_witness:
  "\<exists>s'. update_curr demo_sched_ext (RootCfs 0) demo_sched = Some s'
     \<and> timeline (RootCfs 0) s' = [TaskSe 2]"
proof -
  have "cfs_at demo_sched (RootCfs 0) = Some demo_cfs" "cfs_curr demo_cfs = Some (TaskSe 1)"
    "se_at demo_sched (TaskSe 1) = Some (demo_entity 2000)"
    by simp_all
  from update_curr_charges [OF demo_timeline(3) demo_vr_ok demo_curr_ok demo_window this]
  show ?thesis by (auto simp: demo_timeline(1))
qed

text \<open>The run time is tested as a signed 32-bit number: an entity that has run for \<open>2 ^ 31\<close>
  up to \<open>2 ^ 32 - 1\<close> nanoseconds since the last update is charged nothing, and neither its start
  time nor the minimum is changed.\<close>

theorem update_curr_drops_long_run:
  assumes "cfs_at s q = Some cq" "cfs_curr cq = Some c" "se_at s c = Some se"
    and "2 ^ 31 \<le> uint (clock_now X q s - exec_start se)" "uint (clock_now X q s - exec_start se) < 2 ^ 32"
  shows "\<exists>h. update_curr X q s = Some (s\<lparr>hw_clock := h\<rparr>)"
proof -
  let ?d = "clock_now X q s - exec_start se"
  have "sint ?d = uint ?d"
    using assms(5) by (intro sint_small) simp
  then have "sint (ucast ?d :: s64) < 0"
    using far_key [of "exec_start se" "clock_now X q s"] assms(4,5) by (simp add: dist_def)
  then have "update_curr X q s = Some (snd (sched_clock X (cpu_of X (rq_of X q)) s))"
    using assms(1-3) by (intro update_curr_rest) (auto simp: curr_se_def)
  then show ?thesis using sched_clock_frame [of X "cpu_of X (rq_of X q)" s] by auto
qed

theorem update_curr_drops_long_run_witness:
  "\<exists>h. update_curr demo_sched_ext (RootCfs 0) (demo_sched\<lparr>hw_clock := 3000000000\<rparr>)
     = Some (demo_sched\<lparr>hw_clock := h\<rparr>)"
proof -
  let ?s = "demo_sched\<lparr>hw_clock := 3000000000\<rparr>"
  have "cfs_at ?s (RootCfs 0) = Some demo_cfs" "cfs_curr demo_cfs = Some (TaskSe 1)"
    "se_at ?s (TaskSe 1) = Some (demo_entity 2000)"
    by simp_all
  moreover have "clock_now demo_sched_ext (RootCfs 0) ?s - exec_start (demo_entity 2000) = 3000000000"
    by (simp add: demo_clock)
  ultimately show ?thesis
    using update_curr_drops_long_run [of ?s "RootCfs 0" demo_cfs "TaskSe 1" "demo_entity 2000" demo_sched_ext]
    by simp
qed

end
