(* ===== verification/Fair_Pick.thy ===== *)
theory Fair_Pick
  imports Fair_Clock
begin

text \<open>
  Choosing the next task of the fair class: \<^verbatim>\<open>put_prev_entity\<close> returns the running entity to
  the timeline, \<^verbatim>\<open>pick_next_entity\<close> takes the earliest one when no buddy is set, and
  \<^verbatim>\<open>set_next_entity\<close> removes it from the timeline.
\<close>

section \<open>Laws of the external functions\<close>

definition ent_ok :: "sched_ext \<Rightarrow> bool" where
  "ent_ok X \<longleftrightarrow> (\<forall>p. entity_is_task X (TaskSe p) \<and> task_of X (TaskSe p) = p)"

definition buddy_ok :: "sched_ext \<Rightarrow> bool" where
  "buddy_ok X \<longleftrightarrow> (\<forall>e cq. clear_buddies X e cq = cq\<lparr>cfs_next := forget e (cfs_next cq),
     cfs_last := forget e (cfs_last cq), cfs_skip := forget e (cfs_skip cq)\<rparr>)"

definition no_buddies :: "cfs_rq \<Rightarrow> bool" where
  "no_buddies cq \<longleftrightarrow> cfs_next cq = None \<and> cfs_last cq = None \<and> cfs_skip cq = None"

lemma clear_no_buddies: "buddy_ok X \<Longrightarrow> no_buddies cq \<Longrightarrow> clear_buddies X e cq = cq"
  by (simp add: buddy_ok_def no_buddies_def forget_def)

section \<open>Changes that the timeline does not see\<close>

lemma observe_same:
  assumes "cfs_at s q = Some cq" "cfs_at s' q = Some cq'" "min_vruntime cq' = min_vruntime cq"
    and "map_option vruntime (se_at s' e) = map_option vruntime (se_at s e)"
  shows "lag q s' e = lag q s e" "near_entity q s' e = near_entity q s e"
  using assms by (cases "se_at s e"; cases "se_at s' e"; simp add: lag_def near_entity_def)+

lemma timeline_ok_same:
  assumes ok: "timeline_ok X q s" and cq: "cfs_at s q = Some cq" "cfs_at s' q = Some cq'"
    and same: "tasks_timeline cq' = tasks_timeline cq" "rb_leftmost cq' = rb_leftmost cq"
      "min_vruntime cq' = min_vruntime cq"
    and se: "\<And>e. map_option vruntime (se_at s' e) = map_option vruntime (se_at s e)"
  shows "timeline_ok X q s'" "timeline q s' = timeline q s" "lag q s' = lag q s"
    "near_entity q s' = near_entity q s"
proof -
  show l: "lag q s' = lag q s" "near_entity q s' = near_entity q s"
    using observe_same [OF cq same(3) se] by auto
  show tl: "timeline q s' = timeline q s" using cq same by (simp add: timeline_at)
  show "timeline_ok X q s'"
    using ok cq same by (simp add: timeline_ok_def l tl first_entity_at)
qed

lemma timeline_cong:
  assumes "cfs_at s' = cfs_at s" "se_at s' = se_at s"
  shows "timeline q s' = timeline q s" "lag q s' = lag q s" "timeline_ok X q s' = timeline_ok X q s"
    "curr_ok q s' = curr_ok q s" "hw_clock s' = hw_clock s \<Longrightarrow> window X q s' = window X q s"
proof -
  show tl: "timeline q s' = timeline q s" "lag q s' = lag q s" for q
    using assms by (simp_all add: timeline_def lag_def fun_eq_iff)
  have "near_entity q s' = near_entity q s" "first_entity q s' = first_entity q s"
    using assms by (simp_all add: near_entity_def first_entity_def fun_eq_iff)
  then show "timeline_ok X q s' = timeline_ok X q s"
    using assms by (simp add: timeline_ok_def tl)
  show "curr_ok q s' = curr_ok q s"
    unfolding curr_ok_def tl assms by (rule refl)
  show "hw_clock s' = hw_clock s \<Longrightarrow> window X q s' = window X q s"
    by (simp add: window_def curr_se_def charge_def clock_now_def sched_clock_def case_prod_beta assms)
qed

section \<open>put_prev_entity and set_next_entity\<close>

lemma put_prev_entity_spec:
  assumes ok: "timeline_ok X q s" "vr_ok X" "curr_ok q s" "window X q s"
    and cq: "cfs_at s q = Some cq" "cfs_curr cq = Some c" and se: "se_at s c = Some se" "on_rq se"
  shows "\<exists>s' cq'. put_prev_entity X q c s = Some s' \<and> timeline_ok X q s'
    \<and> set (timeline q s') = insert c (set (timeline q s))
    \<and> cfs_at s' q = Some cq' \<and> cfs_curr cq' = None
    \<and> cfs_next cq' = cfs_next cq \<and> cfs_last cq' = cfs_last cq \<and> cfs_skip cq' = cfs_skip cq
    \<and> (\<forall>e. e \<noteq> c \<longrightarrow> se_at s' e = se_at s e)
    \<and> (\<exists>se'. se_at s' c = Some se' \<and> on_rq se' \<and> vruntime se' = vruntime se + charge X q s se)"
proof -
  obtain s1 where s1: "update_curr X q s = Some s1" "timeline_ok X q s1" "curr_ok q s1"
    "timeline q s1 = timeline q s" "charged X q s s1"
    using update_curr_spec [OF ok] by blast
  obtain cq1 se1 where cq1: "cfs_at s1 q = Some cq1" "same_queue cq cq1"
    and se1: "se_at s1 c = Some se1" "on_rq se1" "vruntime se1 = vruntime se + charge X q s se"
    and other: "\<And>e. e \<noteq> c \<Longrightarrow> se_at s1 e = se_at s e"
    using s1(5) cq se unfolding charged_def by fastforce
  note sq = same_queueD [OF cq1(2)]
  define cq2 where "cq2 = cq1\<lparr>cfs_bw := check_cfs_rq_runtime X (cfs_bw cq1)\<rparr>"
  define s2 where "s2 = s1\<lparr>cfs_at := (cfs_at s1)(q \<mapsto> cq2)\<rparr>"
  have s2: "cfs_at s2 q = Some cq2" "se_at s2 = se_at s1" by (simp_all add: s2_def)
  have tl2: "timeline_ok X q s2" "timeline q s2 = timeline q s" "near_entity q s2 = near_entity q s1"
    using timeline_ok_same [OF s1(2) cq1(1) s2(1)] s1(4) by (simp_all add: cq2_def s2(2))
  have "near_entity q s2 c" "c \<notin> set (timeline q s2)"
    using curr_okD [OF s1(3) cq1(1)] sq(3) cq(2) se1 cq1(1) s1(4) tl2 by (auto simp: near_entity_def)
  then obtain t where t: "raw_enqueue_entity X q c s2 = Some (s2\<lparr>cfs_at := (cfs_at s2)(q \<mapsto>
      cq2\<lparr>rb_leftmost := hd_opt (inorder t), tasks_timeline := t\<rparr>)\<rparr>)"
      "inorder t = insert_by (lag q s2) c (timeline q s2)"
    using raw_enqueue_entity_spec [OF tl2(1) _ _ s2(1)] by blast
  define s3 where "s3 = s2\<lparr>cfs_at := (cfs_at s2)(q \<mapsto>
      cq2\<lparr>rb_leftmost := hd_opt (inorder t), tasks_timeline := t\<rparr>)\<rparr>"
  have s3: "timeline_ok X q s3" "timeline q s3 = insert_by (lag q s2) c (timeline q s2)"
    using tl.enq_item [OF tl2(1) \<open>near_entity q s2 c\<close> \<open>c \<notin> _\<close>] t(1) by (auto simp: s3_def)
  define cq4 where "cq4 = cq2\<lparr>rb_leftmost := hd_opt (inorder t), tasks_timeline := t, cfs_curr := None\<rparr>"
  define s4 where "s4 = s3\<lparr>cfs_at := (cfs_at s3)(q \<mapsto> cq4)\<rparr>"
  have at3: "cfs_at s3 q = Some (cq2\<lparr>rb_leftmost := hd_opt (inorder t), tasks_timeline := t\<rparr>)"
    by (simp add: s3_def)
  have s4: "cfs_at s4 q = Some cq4" "se_at s4 = se_at s1" by (simp_all add: s4_def s3_def s2)
  have "timeline_ok X q s4" "timeline q s4 = timeline q s3"
    using timeline_ok_same [OF s3(1) at3 s4(1)] by (simp_all add: cq4_def s4(2) s3_def s2(2))
  moreover have "put_prev_entity X q c s = Some s4"
    using se s1(1) cq1(1) se1 t(1) at3
    by (simp add: put_prev_entity_def upd_cfs_def cq2_def [symmetric] s2_def [symmetric] s2
        s3_def [symmetric] s4_def cq4_def)
  moreover have "cfs_next cq4 = cfs_next cq \<and> cfs_last cq4 = cfs_last cq \<and> cfs_skip cq4 = cfs_skip cq"
    using sq by (simp add: cq4_def cq2_def)
  ultimately show ?thesis
    using s4 s3(2) tl2(2) other se1 by (intro exI [of _ s4] exI [of _ cq4]) (auto simp: cq4_def)
qed

lemma set_next_entity_spec:
  assumes ok: "timeline_ok X q s" and e: "e \<in> set (timeline q s)" "se_at s e = Some se" "on_rq se"
  shows "\<exists>s' cq'. set_next_entity X q e s = Some s' \<and> timeline_ok X q s'
    \<and> timeline q s' = remove1 e (timeline q s) \<and> lag q s' = lag q s
    \<and> cfs_at s' q = Some cq' \<and> cfs_curr cq' = Some e \<and> curr_ok q s'
    \<and> (\<forall>cq. cfs_at s q = Some cq \<longrightarrow> no_buddies cq' = no_buddies cq)
    \<and> (\<forall>d. map_option vruntime (se_at s' d) = map_option vruntime (se_at s d))"
proof -
  obtain cq where cq: "cfs_at s q = Some cq" using ok by (auto simp: timeline_ok_def)
  obtain t where t: "raw_dequeue_entity X q e s = Some (s\<lparr>cfs_at := (cfs_at s)(q \<mapsto>
      cq\<lparr>rb_leftmost := hd_opt (inorder t), tasks_timeline := t\<rparr>)\<rparr>)"
    using raw_dequeue_entity_spec [OF ok e(1) cq] by blast
  define cq1 where "cq1 = cq\<lparr>rb_leftmost := hd_opt (inorder t), tasks_timeline := t\<rparr>"
  define s1 where "s1 = s\<lparr>cfs_at := (cfs_at s)(q \<mapsto> cq1)\<rparr>"
  have s1: "timeline_ok X q s1" "timeline q s1 = remove1 e (timeline q s)" "lag q s1 = lag q s"
    using tl.deq_item [OF ok e(1)] t by (auto simp: s1_def cq1_def)
  have at1: "cfs_at s1 q = Some cq1" "se_at s1 = se_at s" by (simp_all add: s1_def)
  obtain now h where clk: "sched_clock_cpu X (cpu_of X (rq_of X q)) (hw_clock s) = (now, h)" by fastforce
  define s2 where "s2 = s1\<lparr>cfs_at := (cfs_at s1)(q \<mapsto> cq1\<lparr>cfs_curr := Some e\<rparr>), hw_clock := h,
    se_at := (se_at s)(e \<mapsto> se\<lparr>prev_sum_exec_runtime := sum_exec_runtime se, exec_start := now\<rparr>)\<rparr>"
  have run: "set_next_entity X q e s = Some s2"
    using e(2,3) t at1 clk
    by (simp add: set_next_entity_def upd_cfs_def upd_se_def cq1_def [symmetric] s1_def [symmetric]
        sched_clock_def s2_def) (simp add: s1_def clk)
  have at2: "cfs_at s2 q = Some (cq1\<lparr>cfs_curr := Some e\<rparr>)" by (simp add: s2_def)
  have vr: "map_option vruntime (se_at s2 d) = map_option vruntime (se_at s1 d)" for d
    using e(2) at1(2) by (simp add: s2_def)
  note tl2 = timeline_ok_same [OF s1(1) at1(1) at2 _ _ _ vr]
  have "near (min_vruntime cq) (vruntime se)" "e \<notin> set (timeline q s2)"
    using ok e(1,2) cq tl2(2) s1(2) by (auto simp: timeline_ok_def near_entity_def)
  then have "curr_ok q s2" by (intro curr_okI [OF at2]) (auto simp: s2_def cq1_def)
  then show ?thesis using run tl2 s1 at2 cq vr at1(2) by (simp add: no_buddies_def cq1_def)
qed

section \<open>pick_next_task_fair\<close>

lemma pick_next_entity_first:
  assumes "timeline_ok X q s" "buddy_ok X" "cfs_at s q = Some cq" "no_buddies cq"
    and "timeline q s = e # es"
  shows "pick_next_entity X q None s = Some (Some e, s)"
proof -
  have "rb_leftmost cq = Some e"
    using assms(1,5) first_entity_at [OF assms(3)] by (simp add: timeline_ok_def)
  moreover have "s\<lparr>cfs_at := (cfs_at s)(q \<mapsto> cq)\<rparr> = s"
    using assms(3) by (simp add: fun_upd_idem)
  ultimately show ?thesis
    using assms(2-4) clear_no_buddies [OF assms(2,4)]
    by (simp add: pick_next_entity_def raw_pick_first_entity_def curr_before_def no_buddies_def
        buddy_choice_def upd_cfs_def)
qed

text \<open>The choice among the waiting entities, made after the running one has been put back.\<close>

lemma pick_and_set:
  assumes "timeline_ok X q s" "buddy_ok X" "cfs_at s q = Some cq" "no_buddies cq" "timeline q s \<noteq> []"
    and "\<And>e. e \<in> set (timeline q s) \<Longrightarrow> \<exists>se. se_at s e = Some se \<and> on_rq se"
  shows "\<exists>e s' cq'. pick_next_entity X q None s = Some (Some e, s) \<and> set_next_entity X q e s = Some s'
    \<and> e \<in> set (timeline q s) \<and> timeline_ok X q s' \<and> set (timeline q s') = set (timeline q s) - {e}
    \<and> (\<forall>d \<in> set (timeline q s). lag q s' e \<le> lag q s' d)
    \<and> cfs_at s' q = Some cq' \<and> cfs_curr cq' = Some e \<and> curr_ok q s' \<and> no_buddies cq'
    \<and> (\<forall>d. map_option vruntime (se_at s' d) = map_option vruntime (se_at s d))"
proof -
  obtain e es where e: "timeline q s = e # es" using assms(5) by (cases "timeline q s") auto
  then obtain se where se: "se_at s e = Some se" "on_rq se" using assms(6) by force
  obtain s' cq' where s': "set_next_entity X q e s = Some s'" "timeline_ok X q s'"
    "timeline q s' = remove1 e (timeline q s)" "lag q s' = lag q s"
    "cfs_at s' q = Some cq'" "cfs_curr cq' = Some e" "curr_ok q s'" "no_buddies cq'"
    "\<forall>d. map_option vruntime (se_at s' d) = map_option vruntime (se_at s d)"
    using set_next_entity_spec [OF assms(1) _ se] e assms(3,4) by auto
  have "distinct (timeline q s)" using assms(1) by (simp add: timeline_ok_def)
  then have "set (timeline q s') = set (timeline q s) - {e}" by (simp add: s'(3))
  moreover have "lag q s' e \<le> lag q s' d" if "d \<in> set (timeline q s)" for d
    using tl.first_minimal [OF assms(1) _ that] tl.first_item [OF assms(1)] e s'(4) by simp
  ultimately show ?thesis
    using pick_next_entity_first [OF assms(1-4) e] s' e by auto
qed

lemma keep_test:
  assumes "timeline_ok X q s" "cfs_at s q = Some cq" "near_entity q s c" "se_at s c = Some se"
  shows "(case raw_pick_first_entity cq of None \<Rightarrow> Some False
      | Some e \<Rightarrow> do { en \<leftarrow> se_at s e;
          Some (sint (entity_key (min_vruntime cq) se) \<le> sint (entity_key (min_vruntime cq) en)) })
    = Some (case timeline q s of [] \<Rightarrow> False | e # _ \<Rightarrow> lag q s c \<le> lag q s e)"
proof (cases "timeline q s")
  case Nil
  then show ?thesis
    using assms(1) first_entity_at [OF assms(2)] by (simp add: timeline_ok_def raw_pick_first_entity_def)
next
  case (Cons e es)
  then have "rb_leftmost cq = Some e" "near_entity q s e"
    using assms(1) first_entity_at [OF assms(2)] by (auto simp: timeline_ok_def)
  then show ?thesis
    using Cons assms(2-4) by (auto simp: raw_pick_first_entity_def elim!: near_entityE)
qed

text \<open>The running task keeps the CPU when the first waiting one, if there is one, is not before it.\<close>

definition keeps_cpu :: "nat \<Rightarrow> nat \<Rightarrow> sched \<Rightarrow> bool" where
  "keeps_cpu r p s \<longleftrightarrow> (case timeline (RootCfs r) s of [] \<Rightarrow> False
     | e # _ \<Rightarrow> lag (RootCfs r) s (TaskSe p) \<le> lag (RootCfs r) s e)"

text \<open>What the choice charges: the running task pays for its run up to the reading of the clock in
  \<^verbatim>\<open>update_curr\<close>; if it does not keep the CPU, \<^verbatim>\<open>put_prev_entity\<close> reads the clock again and charges what has
  passed since.  The virtual run time of every other task stays the same.\<close>

definition run_charged :: "sched_ext \<Rightarrow> nat \<Rightarrow> nat \<Rightarrow> sched \<Rightarrow> nat \<Rightarrow> sched \<Rightarrow> bool" where
  "run_charged X r p s n s' \<longleftrightarrow> (\<exists>s1 se se1 se'. update_curr X (RootCfs r) s = Some s1
     \<and> se_at s (TaskSe p) = Some se \<and> se_at s1 (TaskSe p) = Some se1 \<and> se_at s' (TaskSe p) = Some se'
     \<and> vruntime se1 = vruntime se + charge X (RootCfs r) s se
     \<and> (keeps_cpu r p s1 \<longrightarrow> n = p)
     \<and> vruntime se' = vruntime se1 + (if keeps_cpu r p s1 then 0 else charge X (RootCfs r) s1 se1)
     \<and> (\<forall>e. e \<noteq> TaskSe p \<longrightarrow> map_option vruntime (se_at s' e) = map_option vruntime (se_at s e)))"

lemma pick_next_task_fair_spec:
  assumes ok: "timeline_ok X (RootCfs r) s" "vr_ok X" "ent_ok X" "buddy_ok X"
    and cq: "cfs_at s (RootCfs r) = Some cq" "cfs_nr_running cq \<noteq> 0" "no_buddies cq"
    and prev: "cfs_curr cq = Some (TaskSe p)" "curr_ok (RootCfs r) s" "tasks s p = Some t"
      "t_sched_class t = Some Fair_class" "se_at s (TaskSe p) = Some pse" "on_rq pse"
    and waiting: "\<forall>e \<in> set (timeline (RootCfs r) s). \<exists>n se. e = TaskSe n \<and> se_at s e = Some se \<and> on_rq se"
    and window: "window X (RootCfs r) s"
      "\<forall>s1. update_curr X (RootCfs r) s = Some s1 \<longrightarrow> window X (RootCfs r) s1"
  shows "\<exists>n s' cq'. pick_next_task_fair X r (Some p) s = Some (Some n, s')
    \<and> TaskSe n \<in> insert (TaskSe p) (set (timeline (RootCfs r) s))
    \<and> (\<forall>e \<in> insert (TaskSe p) (set (timeline (RootCfs r) s)).
         lag (RootCfs r) s' (TaskSe n) \<le> lag (RootCfs r) s' e)
    \<and> timeline_ok X (RootCfs r) s'
    \<and> set (timeline (RootCfs r) s') = insert (TaskSe p) (set (timeline (RootCfs r) s)) - {TaskSe n}
    \<and> cfs_at s' (RootCfs r) = Some cq' \<and> cfs_curr cq' = Some (TaskSe n) \<and> no_buddies cq' \<and> curr_ok (RootCfs r) s'
    \<and> run_charged X r p s n s'"
proof -
  let ?q = "RootCfs r" and ?c = "TaskSe p"
  obtain s1 where s1: "update_curr X ?q s = Some s1" "timeline_ok X ?q s1" "curr_ok ?q s1"
    "timeline ?q s1 = timeline ?q s" "charged X ?q s s1"
    using update_curr_spec [OF ok(1,2) prev(2) window(1)] by blast
  obtain cq1 se1 where cq1: "cfs_at s1 ?q = Some cq1" "same_queue cq cq1"
    and se1: "se_at s1 ?c = Some se1" "on_rq se1" "vruntime se1 = vruntime pse + charge X ?q s pse"
    and other: "\<And>e. e \<noteq> ?c \<Longrightarrow> se_at s1 e = se_at s e"
    and "tasks s1 = tasks s"
    using s1(5) cq prev unfolding charged_def by fastforce
  note sq = same_queueD [OF cq1(2)]
  have cur1: "cfs_curr cq1 = Some ?c" using sq(3) prev(1) by simp
  have near: "near_entity ?q s1 ?c" and notin: "?c \<notin> set (timeline ?q s)"
    using curr_okD [OF s1(3) cq1(1) cur1] se1 cq1(1) s1(4) by (auto simp: near_entity_def)
  define keep where "keep = keeps_cpu r p s1"
  have test: "(case raw_pick_first_entity cq1 of None \<Rightarrow> Some False
      | Some e \<Rightarrow> do { en \<leftarrow> se_at s1 e;
          Some (sint (entity_key (min_vruntime cq1) se1) \<le> sint (entity_key (min_vruntime cq1) en)) })
    = Some keep"
    unfolding keep_def keeps_cpu_def by (rule keep_test [OF s1(2) cq1(1) near se1(1)])
  show ?thesis
  proof (cases keep)
    case True
    then obtain e es where e: "timeline ?q s1 = e # es" "lag ?q s1 ?c \<le> lag ?q s1 e"
      by (auto simp: keep_def keeps_cpu_def split: list.splits)
    have "pick_next_task_fair X r (Some p) s = Some (Some p, s1)"
      using cq prev ok(3) s1(1) cq1(1) se1 test True
      by (simp add: pick_next_task_fair_def ent_ok_def)
    moreover have "lag ?q s1 ?c \<le> lag ?q s1 d" if "d \<in> set (timeline ?q s)" for d
      using tl.first_minimal [OF s1(2), of e d] tl.first_item [OF s1(2)] e that s1(4) by simp
    moreover have "no_buddies cq1" using cq(3) sq by (simp add: no_buddies_def)
    moreover have "run_charged X r p s p s1"
      unfolding run_charged_def using s1(1) prev(5) se1 other True
      by (intro exI [of _ s1] exI [of _ pse] exI [of _ se1]) (simp add: keep_def)
    ultimately show ?thesis using s1(2-4) notin cq1(1) cur1 by auto
  next
    case False
    have "window X ?q s1" using window(2) s1(1) by blast
    then obtain s2 cq2 where s2: "put_prev_entity X ?q ?c s1 = Some s2" "timeline_ok X ?q s2"
      "set (timeline ?q s2) = insert ?c (set (timeline ?q s))" "cfs_at s2 ?q = Some cq2"
      "cfs_next cq2 = cfs_next cq1" "cfs_last cq2 = cfs_last cq1" "cfs_skip cq2 = cfs_skip cq1"
      "\<And>e. e \<noteq> ?c \<Longrightarrow> se_at s2 e = se_at s1 e"
      "\<exists>se. se_at s2 ?c = Some se \<and> on_rq se \<and> vruntime se = vruntime se1 + charge X ?q s1 se1"
      using put_prev_entity_spec [OF s1(2) ok(2) s1(3) _ cq1(1) cur1 se1(1,2)] s1(4) by auto
    have "no_buddies cq2" using s2(5-7) sq cq(3) by (simp add: no_buddies_def)
    moreover have "timeline ?q s2 \<noteq> []" using s2(3) by auto
    moreover have "\<exists>se. se_at s2 e = Some se \<and> on_rq se" if "e \<in> set (timeline ?q s2)" for e
      using that s2(3,8,9) waiting other by (cases "e = ?c") auto
    ultimately obtain e s3 cq3 where s3: "pick_next_entity X ?q None s2 = Some (Some e, s2)"
      "set_next_entity X ?q e s2 = Some s3" "e \<in> set (timeline ?q s2)" "timeline_ok X ?q s3"
      "set (timeline ?q s3) = set (timeline ?q s2) - {e}"
      "\<forall>d \<in> set (timeline ?q s2). lag ?q s3 e \<le> lag ?q s3 d"
      "cfs_at s3 ?q = Some cq3" "cfs_curr cq3 = Some e" "curr_ok ?q s3" "no_buddies cq3"
      "\<forall>d. map_option vruntime (se_at s3 d) = map_option vruntime (se_at s2 d)"
      using pick_and_set [OF s2(2) ok(4) s2(4)] by blast
    obtain n where n: "e = TaskSe n" using s3(3) s2(3) waiting by auto
    have "pick_next_task_fair X r (Some p) s = Some (Some (task_of X e), s3)"
      using cq prev ok(3) s1(1) cq1(1) se1 test False s2(1) s3(1,2)
      by (simp add: pick_next_task_fair_def ent_ok_def)
    moreover have "task_of X e = n" using ok(3) n by (simp add: ent_ok_def)
    moreover have "run_charged X r p s n s3"
    proof -
      obtain se2 where se2: "se_at s2 ?c = Some se2" "vruntime se2 = vruntime se1 + charge X ?q s1 se1"
        using s2(9) by blast
      obtain se3 where "se_at s3 ?c = Some se3" "vruntime se3 = vruntime se2"
        using s3(11) se2(1) by (metis map_option_eq_Some option.map(2))
      then show ?thesis unfolding run_charged_def
        using s1(1) prev(5) se1 se2(2) s3(11) s2(8) other False
        by (intro exI [of _ s1] exI [of _ pse] exI [of _ se1] exI [of _ se3]) (simp add: keep_def)
    qed
    ultimately show ?thesis using s3(3-10) s2(3) n by auto
  qed
qed

text \<open>C17: \<^verbatim>\<open>pick_next_task_fair\<close>, called with the running task as \<^verbatim>\<open>prev\<close> and no buddy set, charges
  that task for its run and returns the task with the smallest virtual run time among
  it and the waiting ones; that task is the current entity afterwards, all the others
  wait in the timeline, and the timeline invariant is kept.  The charge is the weighted time
  that has passed since the task was last charged; it is made once if the task keeps the CPU and
  again, for the time since, if it is put back, and no other task is charged.\<close>

theorem pick_next_task_fair_earliest:
  assumes ok: "timeline_ok X (RootCfs r) s" "vr_ok X" "ent_ok X" "buddy_ok X"
    and cq: "cfs_at s (RootCfs r) = Some cq" "cfs_nr_running cq \<noteq> 0" "no_buddies cq"
    and prev: "cfs_curr cq = Some (TaskSe p)" "curr_ok (RootCfs r) s" "tasks s p = Some t"
      "t_sched_class t = Some Fair_class" "se_at s (TaskSe p) = Some pse" "on_rq pse"
    and waiting: "\<forall>e \<in> set (timeline (RootCfs r) s). \<exists>n se. e = TaskSe n \<and> se_at s e = Some se \<and> on_rq se"
    and window: "window X (RootCfs r) s"
      "\<forall>s1. update_curr X (RootCfs r) s = Some s1 \<longrightarrow> window X (RootCfs r) s1"
  shows "\<exists>n s' cq'. pick_next_task_fair X r (Some p) s = Some (Some n, s')
    \<and> TaskSe n \<in> insert (TaskSe p) (set (timeline (RootCfs r) s))
    \<and> (\<forall>e \<in> insert (TaskSe p) (set (timeline (RootCfs r) s)).
         lag (RootCfs r) s' (TaskSe n) \<le> lag (RootCfs r) s' e)
    \<and> timeline_ok X (RootCfs r) s'
    \<and> set (timeline (RootCfs r) s') = insert (TaskSe p) (set (timeline (RootCfs r) s)) - {TaskSe n}
    \<and> cfs_at s' (RootCfs r) = Some cq' \<and> cfs_curr cq' = Some (TaskSe n) \<and> no_buddies cq' \<and> curr_ok (RootCfs r) s'
    \<and> run_charged X r p s n s'"
  by (rule pick_next_task_fair_spec [OF assms])

text \<open>A second reading of the same clock charges nothing.\<close>

lemma demo_second_window:
  assumes same: "cfs_at s = cfs_at demo_sched" "se_at s = se_at demo_sched" "hw_clock s = hw_clock demo_sched"
    and run: "update_curr demo_sched_ext (RootCfs 0) s = Some s1"
  shows "window demo_sched_ext (RootCfs 0) s1"
proof -
  have s1: "curr_ok (RootCfs 0) s1" "charged demo_sched_ext (RootCfs 0) s s1"
    using update_curr_spec [of demo_sched_ext "RootCfs 0" s] demo_timeline(3) demo_vr_ok demo_curr_ok demo_window run
    by (auto simp: timeline_cong [OF same(1,2)] same(3))
  have "hw_clock s1 = 5000 \<and> map_option exec_start (se_at s1 (TaskSe 1)) = Some 5000"
    using run same
    by (auto simp: update_curr_def sched_clock_def upd_se_def upd_cfs_def update_min_vruntime_def
        demo_sched_ext_def case_prod_beta split: if_splits)
  then have "charge demo_sched_ext (RootCfs 0) s1 se = 0" if "se_at s1 (TaskSe 1) = Some se" for se
    using that by (simp add: demo_charge)
  moreover obtain cq1 where cq1: "cfs_at s1 (RootCfs 0) = Some cq1" "cfs_curr cq1 = Some (TaskSe 1)"
    using s1(2) same same_queueD(3) unfolding charged_def by fastforce
  ultimately show ?thesis
    using curr_okD(2) [OF s1(1) cq1]
    by (auto simp: window_def curr_se_def running_def split: if_splits option.splits)
qed

theorem pick_next_task_fair_earliest_witness:
  "\<exists>n s'. pick_next_task_fair demo_sched_ext 0 (Some 1) demo_sched = Some (Some n, s')
     \<and> lag (RootCfs 0) s' (TaskSe n) \<le> lag (RootCfs 0) s' (TaskSe 2)
     \<and> run_charged demo_sched_ext 0 1 demo_sched n s'"
proof -
  have "ent_ok demo_sched_ext" "buddy_ok demo_sched_ext" "no_buddies demo_cfs"
    by (simp_all add: ent_ok_def buddy_ok_def no_buddies_def demo_sched_ext_def)
  moreover have "\<forall>e \<in> set (timeline (RootCfs 0) demo_sched).
      \<exists>n se. e = TaskSe n \<and> se_at demo_sched e = Some se \<and> on_rq se"
    by (simp add: demo_timeline)
  ultimately show ?thesis
    using pick_next_task_fair_earliest [of demo_sched_ext 0 demo_sched demo_cfs 1 "demo_task 1" "demo_entity 2000"]
      demo_timeline demo_vr_ok demo_curr_ok demo_window demo_second_window
    by auto
qed

end
