(* ===== verification/Fair_Frame.thy ===== *)
theory Fair_Frame
  imports Sched_Fair
begin

text \<open>
  What the functions of the fair class leave alone.  An observation of the state is unchanged
  by every function that is built from updates it does not see; the two locales state this for
  observations that see the \<^verbatim>\<open>on_rq\<close> marks and the counters, and for those that see neither
  entities nor fair run queues.
\<close>

section \<open>Observations of marks and counters\<close>

locale fair_quiet =
  fixes X :: sched_ext and obs :: "sched \<Rightarrow> 'o"
  assumes obs_se: "se_at s e = Some se \<Longrightarrow> on_rq se' = on_rq se \<Longrightarrow> obs (s\<lparr>se_at := (se_at s)(e \<mapsto> se')\<rparr>) = obs s"
    and obs_cfs: "cfs_at s q = Some cq \<Longrightarrow> cfs_nr_running cq' = cfs_nr_running cq \<Longrightarrow>
      h_nr_running cq' = h_nr_running cq \<Longrightarrow> obs (s\<lparr>cfs_at := (cfs_at s)(q \<mapsto> cq')\<rparr>) = obs s"
    and obs_buddies: "cfs_at s q = Some cq \<Longrightarrow> obs (s\<lparr>cfs_at := (cfs_at s)(q \<mapsto> clear_buddies X e cq)\<rparr>) = obs s"
    and obs_clock: "obs (s\<lparr>hw_clock := h\<rparr>) = obs s"
begin

lemma upd_se_obs:
  assumes "upd_se e f s = Some s'" "\<And>se. on_rq (f se) = on_rq se"
  shows "obs s' = obs s"
  using assms by (auto simp: upd_se_def bind_eq_Some_conv obs_se)

lemma upd_cfs_obs:
  assumes "upd_cfs q f s = Some s'" "\<And>cq. cfs_nr_running (f cq) = cfs_nr_running cq"
    "\<And>cq. h_nr_running (f cq) = h_nr_running cq"
  shows "obs s' = obs s"
  using assms by (auto simp: upd_cfs_def bind_eq_Some_conv obs_cfs)

lemma upd_buddies_obs: "upd_cfs q (clear_buddies X e) s = Some s' \<Longrightarrow> obs s' = obs s"
  by (auto simp: upd_cfs_def bind_eq_Some_conv obs_buddies)

lemma quiet_updates:
  "upd_cfs q (\<lambda>cq. cq\<lparr>rb_leftmost := l cq\<rparr>) s = Some s' \<Longrightarrow> obs s' = obs s"
  "upd_cfs q (\<lambda>cq. cq\<lparr>tasks_timeline := t cq\<rparr>) s = Some s' \<Longrightarrow> obs s' = obs s"
  "upd_cfs q (\<lambda>cq. cq\<lparr>min_vruntime := m cq\<rparr>) s = Some s' \<Longrightarrow> obs s' = obs s"
  "upd_cfs q (\<lambda>cq. cq\<lparr>cfs_bw := b cq\<rparr>) s = Some s' \<Longrightarrow> obs s' = obs s"
  "upd_cfs q (\<lambda>cq. cq\<lparr>cfs_curr := c cq\<rparr>) s = Some s' \<Longrightarrow> obs s' = obs s"
  "upd_se e (\<lambda>se. se\<lparr>exec_start := x se\<rparr>) s = Some s' \<Longrightarrow> obs s' = obs s"
  "upd_se e (\<lambda>se. se\<lparr>sum_exec_runtime := x se\<rparr>) s = Some s' \<Longrightarrow> obs s' = obs s"
  "upd_se e (\<lambda>se. se\<lparr>prev_sum_exec_runtime := x se\<rparr>) s = Some s' \<Longrightarrow> obs s' = obs s"
  "upd_se e (\<lambda>se. let p = g se in se\<lparr>se_load := snd p, vruntime := vruntime se + fst p\<rparr>) s = Some s' \<Longrightarrow> obs s' = obs s"
  by (erule upd_cfs_obs upd_se_obs; simp add: Let_def)+

lemma if_obs:
  assumes "(if b then f else Some s) = Some s'" "\<And>t. f = Some t \<Longrightarrow> obs t = obs s"
  shows "obs s' = obs s"
  using assms by (cases b) auto

lemma sched_clock_obs: "obs (snd (sched_clock X c s)) = obs s"
  by (simp add: sched_clock_def obs_clock case_prod_beta)

lemma update_min_vruntime_obs: "update_min_vruntime X q s = Some s' \<Longrightarrow> obs s' = obs s"
  by (auto simp: update_min_vruntime_def bind_eq_Some_conv dest!: quiet_updates split: option.splits)

lemma update_curr_obs: "update_curr X q s = Some s' \<Longrightarrow> obs s' = obs s"
  unfolding update_curr_def case_prod_beta
  by (auto simp: bind_eq_Some_conv Let_def [of "sched_clock _ _ _"] Let_def [of "fst _ - _"] sched_clock_obs
      dest!: quiet_updates update_min_vruntime_obs split: option.splits if_splits)

lemma raw_enqueue_entity_obs: "raw_enqueue_entity X q e s = Some s' \<Longrightarrow> obs s' = obs s"
  by (auto simp: raw_enqueue_entity_def bind_eq_Some_conv dest!: quiet_updates split: if_splits)

lemma raw_dequeue_entity_obs: "raw_dequeue_entity X q e s = Some s' \<Longrightarrow> obs s' = obs s"
  by (auto simp: raw_dequeue_entity_def bind_eq_Some_conv dest!: quiet_updates split: if_splits)

lemma put_prev_entity_obs: "put_prev_entity X q e s = Some s' \<Longrightarrow> obs s' = obs s"
  by (auto simp: put_prev_entity_def bind_eq_Some_conv
      dest!: quiet_updates update_curr_obs raw_enqueue_entity_obs split: if_splits)

lemma set_next_entity_obs: "set_next_entity X q e s = Some s' \<Longrightarrow> obs s' = obs s"
  by (auto simp: set_next_entity_def bind_eq_Some_conv case_prod_beta Let_def sched_clock_obs
      dest!: quiet_updates raw_dequeue_entity_obs split: if_splits)

lemma pick_next_entity_obs: "pick_next_entity X q c s = Some (e, s') \<Longrightarrow> obs s' = obs s"
  unfolding pick_next_entity_def Let_def
  by (elim bind_SomeE) (auto dest!: upd_buddies_obs split: option.splits elim: bind_SomeE)

text \<open>The test that keeps the running task, with the comparison left open.\<close>

lemma keep_obs:
  assumes "(case prev of None \<Rightarrow> Some (False, s)
     | Some p \<Rightarrow> do { t \<leftarrow> tasks s p;
         if D t then Some (False, s)
         else do {
           s \<leftarrow> update_curr X q s; cq \<leftarrow> cfs_at s q; pse \<leftarrow> se_at s (TaskSe p); keep \<leftarrow> K p s cq pse;
           if keep then Some (True, s)
           else do { s \<leftarrow> put_prev_entity X q (TaskSe p) s; Some (False, s) } } }) = Some x"
  shows "obs (snd x) = obs s"
  using assms by (auto simp: bind_eq_Some_conv dest!: update_curr_obs put_prev_entity_obs
      split: option.splits if_splits)

lemma pick_next_task_fair_obs:
  assumes "pick_next_task_fair X r prev s = Some (n, s')"
  shows "obs s' = obs s"
proof -
  obtain cq where cq: "cfs_at s (RootCfs r) = Some cq"
    using assms unfolding pick_next_task_fair_def Let_def by (elim bind_SomeE) blast
  show ?thesis
  proof (cases "cfs_nr_running cq = 0")
    case True
    then show ?thesis using assms cq by (simp add: pick_next_task_fair_def)
  next
    case False
    from assms [unfolded pick_next_task_fair_def Let_def cq bind.bind_lunit if_not_P [OF False]]
    obtain x where "obs (snd x) = obs s"
      and "(case x of (keep, s1) \<Rightarrow> if keep then Some (prev, s1) else do {
         (se, s) \<leftarrow> pick_next_entity X (RootCfs r) None s1;
         case se of None \<Rightarrow> Some (None, s)
         | Some e \<Rightarrow> do { s \<leftarrow> set_next_entity X (RootCfs r) e s; Some (Some (task_of X e), s) } }) = Some (n, s')"
      by (elim bind_SomeE) (rule that, rule keep_obs, assumption+)
    then show ?thesis
      by (auto simp: bind_eq_Some_conv dest!: pick_next_entity_obs set_next_entity_obs
          split: option.splits if_splits prod.splits)
  qed
qed

end

section \<open>Observations of the rest\<close>

locale fair_blind =
  fixes X :: sched_ext and obs :: "sched \<Rightarrow> 'o"
  assumes blind_se: "obs (s\<lparr>se_at := a\<rparr>) = obs s"
    and blind_cfs: "obs (s\<lparr>cfs_at := b\<rparr>) = obs s"
    and blind_clock: "obs (s\<lparr>hw_clock := h\<rparr>) = obs s"

sublocale fair_blind \<subseteq> fair_quiet X obs
  by unfold_locales (simp_all add: blind_se blind_cfs blind_clock)

context fair_blind
begin

lemma upd_blind:
  "upd_se e f s = Some s' \<Longrightarrow> obs s' = obs s" "upd_cfs q g s = Some s' \<Longrightarrow> obs s' = obs s"
  by (auto simp: upd_se_def upd_cfs_def bind_eq_Some_conv blind_se blind_cfs)

lemma place_entity_obs: "place_entity X q e b s = Some s' \<Longrightarrow> obs s' = obs s"
  by (auto simp: place_entity_def Let_def bind_eq_Some_conv dest!: upd_blind)

lemmas step_obs = upd_blind update_curr_obs raw_enqueue_entity_obs place_entity_obs
  raw_dequeue_entity_obs update_min_vruntime_obs

lemma enqueue_entity_obs: "enqueue_entity X q e flags s = Some s' \<Longrightarrow> obs s' = obs s"
  unfolding enqueue_entity_def
  by (elim bind_SomeE) (drule if_obs, erule step_obs | drule step_obs, simp)+

lemma dequeue_entity_obs: "dequeue_entity X q e flags s = Some s' \<Longrightarrow> obs s' = obs s"
  unfolding dequeue_entity_def
  by (elim bind_SomeE) (drule if_obs, erule step_obs | drule step_obs, simp)+

end

section \<open>The state outside the fair class\<close>

definition outside :: "sched \<Rightarrow> _" where
  "outside s = (tasks s, runqueues s, mm_at s, sched_nodes s, current_task s, task_list_lock s,
     next_pid s, caller_addr s, eflags s, arch_state s)"

interpretation out: fair_blind X outside for X
  by unfold_locales (simp_all add: outside_def)

lemma outsideD:
  assumes "outside s' = outside s"
  shows "tasks s' = tasks s" "runqueues s' = runqueues s" "mm_at s' = mm_at s"
    "current_task s' = current_task s" "caller_addr s' = caller_addr s"
    "eflags s' = eflags s"
  using assms by (simp_all add: outside_def)

end
