(* ===== verification/Fair_Queue.thy ===== *)
theory Fair_Queue
  imports Fair_Pick Fair_Frame
begin

text \<open>
  Tasks that become runnable and tasks that stop being so: \<^verbatim>\<open>enqueue_task_fair\<close> and
  \<^verbatim>\<open>dequeue_task_fair\<close> with the entity operations below them.  Group scheduling is switched off in
  \<^verbatim>\<open>config.h\<close>, so an entity has no parent and the loops over the hierarchy run once.

  The invariant of a run queue says that its runnable entities, those on the timeline and the
  running one, are exactly the entities with the \<^verbatim>\<open>on_rq\<close> mark, and that the counters count them.
\<close>

section \<open>The invariant\<close>

definition is_on_rq :: "sched \<Rightarrow> se_ptr \<Rightarrow> bool" where
  "is_on_rq s e \<longleftrightarrow> (\<exists>se. se_at s e = Some se \<and> on_rq se)"

definition runnable :: "cfs_ptr \<Rightarrow> sched \<Rightarrow> se_ptr set" where
  "runnable q s = set (timeline q s) \<union>
     {c. is_on_rq s c \<and> (\<exists>cq. cfs_at s q = Some cq \<and> cfs_curr cq = Some c)}"

definition cfs_wf :: "sched_ext \<Rightarrow> cfs_ptr \<Rightarrow> sched \<Rightarrow> bool" where
  "cfs_wf X q s \<longleftrightarrow> timeline_ok X q s \<and> curr_ok q s
     \<and> runnable q s = {e. cfs_rq_of X e = q \<and> is_on_rq s e}
     \<and> map_option cfs_nr_running (cfs_at s q) = Some (of_nat (card (runnable q s)))"

definition rq_wf :: "sched_ext \<Rightarrow> nat \<Rightarrow> sched \<Rightarrow> bool" where
  "rq_wf X r s \<longleftrightarrow> cfs_wf X (RootCfs r) s
     \<and> map_option h_nr_running (cfs_at s (RootCfs r)) = Some (of_nat (card (runnable (RootCfs r) s)))
     \<and> map_option rq_nr_running (runqueues s r) = Some (of_nat (card (runnable (RootCfs r) s)))"

lemma runnable_at:
  "cfs_at s q = Some cq \<Longrightarrow> runnable q s = set (timeline q s) \<union> {c. cfs_curr cq = Some c \<and> is_on_rq s c}"
  by (auto simp: runnable_def)

lemma finite_runnable [simp]: "finite (runnable q s)"
proof -
  have "runnable q s \<subseteq> set (timeline q s) \<union> {c. \<exists>cq. cfs_at s q = Some cq \<and> cfs_curr cq = Some c}"
    by (auto simp: runnable_def)
  moreover have "finite {c. \<exists>cq. cfs_at s q = Some cq \<and> cfs_curr cq = Some c}"
    by (rule finite_subset [of _ "set_option (Option.bind (cfs_at s q) cfs_curr)"]) auto
  ultimately show ?thesis by (simp add: finite_subset)
qed

lemma cfs_wfD:
  assumes "cfs_wf X q s"
  shows "timeline_ok X q s" "curr_ok q s" "runnable q s = {e. cfs_rq_of X e = q \<and> is_on_rq s e}"
    "\<exists>cq. cfs_at s q = Some cq \<and> cfs_nr_running cq = of_nat (card (runnable q s))"
  using assms by (auto simp: cfs_wf_def)

section \<open>Laws of the external functions\<close>

definition acct_ok :: "sched_ext \<Rightarrow> bool" where
  "acct_ok X \<longleftrightarrow>
     (\<forall>se cq. \<exists>w. account_entity_enqueue X se cq = cq\<lparr>cfs_nr_running := cfs_nr_running cq + 1, cfs_load := w\<rparr>)
   \<and> (\<forall>se cq. \<exists>w. account_entity_dequeue X se cq = cq\<lparr>cfs_nr_running := cfs_nr_running cq - 1, cfs_load := w\<rparr>)
   \<and> (\<forall>n q. add_nr_running X n q = q\<lparr>rq_nr_running := rq_nr_running q + n\<rparr>)
   \<and> (\<forall>n q. sub_nr_running X n q = q\<lparr>rq_nr_running := rq_nr_running q - n\<rparr>)"

text \<open>Without group scheduling and bandwidth control.\<close>

definition flat :: "sched_ext \<Rightarrow> bool" where
  "flat X \<longleftrightarrow> (\<forall>e. parent_entity X e = None) \<and> (\<forall>b. \<not> cfs_rq_throttled X b)
     \<and> (\<forall>e r. cfs_rq_of X e = RootCfs r \<longrightarrow> (\<exists>n. e = TaskSe n))"

section \<open>Changes that leave the timeline alone\<close>

text \<open>Everything but the tree, the cached first entity and the minimum may change, and every
  entity that is not in the tree.\<close>

lemma timeline_ok_off:
  assumes ok: "timeline_ok X q s" and cq: "cfs_at s q = Some cq" "cfs_at s' q = Some cq'"
    and same: "tasks_timeline cq' = tasks_timeline cq" "rb_leftmost cq' = rb_leftmost cq"
      "min_vruntime cq' = min_vruntime cq"
    and se: "\<And>e. e \<in> set (timeline q s) \<Longrightarrow> map_option vruntime (se_at s' e) = map_option vruntime (se_at s e)"
  shows "timeline_ok X q s'" "timeline q s' = timeline q s"
proof -
  show tl: "timeline q s' = timeline q s" using cq same by (simp add: timeline_at)
  have "map (lag q s') (timeline q s) = map (lag q s) (timeline q s)"
    using observe_same(1) [OF cq same(3) se] by simp
  then have "sorted (map (lag q s') (timeline q s))" using ok by (simp only: timeline_ok_def)
  then show "timeline_ok X q s'"
    using ok cq same observe_same(2) [OF cq same(3) se] by (simp add: timeline_ok_def tl first_entity_at)
qed

lemma charged_on_rq:
  assumes "charged X q s s'" "curr_ok q s"
  shows "map_option on_rq (se_at s' e) = map_option on_rq (se_at s e)"
proof -
  obtain cq where cq: "cfs_at s q = Some cq" using assms(2) by (auto simp: curr_ok_def split: option.splits)
  show ?thesis
  proof (cases "cfs_curr cq = Some e")
    case True
    then obtain se where "se_at s e = Some se" using curr_okD(2) [OF assms(2) cq] by blast
    then show ?thesis using assms(1) cq True unfolding charged_def by fastforce
  qed (use assms(1) cq in \<open>auto simp: charged_def\<close>)
qed

lemma is_on_rq_cong: "map_option on_rq (se_at s' e) = map_option on_rq (se_at s e) \<Longrightarrow> is_on_rq s' e = is_on_rq s e"
  by (auto simp: is_on_rq_def map_option_case split: option.splits)

section \<open>Where an arriving entity is placed\<close>

text \<open>The virtual run time with which an entity arrives: relative to the minimum unless it
  wakes up, and charged if it is still the running one.\<close>

definition arrives_with :: "sched_ext \<Rightarrow> cfs_ptr \<Rightarrow> se_ptr \<Rightarrow> s32 \<Rightarrow> sched \<Rightarrow> cfs_rq \<Rightarrow> sched_entity \<Rightarrow> u64" where
  "arrives_with X q e flags s cq se =
     vruntime se + (if flags AND ENQUEUE_WAKEUP X = 0 \<or> flags AND ENQUEUE_WAKING X \<noteq> 0 then min_vruntime cq else 0)
     + (if cfs_curr cq = Some e then charge X q s se else 0)"

text \<open>A sleeper may come from far behind; otherwise the entity arrives in the window.\<close>

definition arrival_ok :: "sched_ext \<Rightarrow> s32 \<Rightarrow> u64 \<Rightarrow> u64 \<Rightarrow> bool" where
  "arrival_ok X flags m v \<longleftrightarrow> dist m v < 2 ^ 31
     \<and> (if flags AND ENQUEUE_WAKEUP X = 0 then 0 \<le> dist m v else - (2 ^ 61) < dist m v)"

definition sleeper_bonus :: "sched_ext \<Rightarrow> u64" where
  "sleeper_bonus X = ucast (if sched_feat X GENTLE_FAIR_SLEEPERS
     then drop_bit 1 (sysctl_sched_latency X) else sysctl_sched_latency X)"

definition latency_ok :: "sched_ext \<Rightarrow> bool" where
  "latency_ok X \<longleftrightarrow> sysctl_sched_latency X < 0x80000000"

definition placed :: "sched_ext \<Rightarrow> s32 \<Rightarrow> u64 \<Rightarrow> u64 \<Rightarrow> u64" where
  "placed X flags m v = (if flags AND ENQUEUE_WAKEUP X \<noteq> 0 then later_vruntime X v (m - sleeper_bonus X) else v)"

lemma sleeper_bonus_small:
  assumes "latency_ok X"
  shows "uint (sleeper_bonus X) < 2 ^ 31"
proof -
  have l: "uint (sysctl_sched_latency X) < 2 ^ 31"
    using assms by (simp add: latency_ok_def word_less_def)
  then have "uint (drop_bit 1 (sysctl_sched_latency X)) < 2 ^ 31"
    by (simp only: unsigned_drop_bit_eq) (simp add: drop_bit_eq_div take_bit_int_eq_self)
  then show ?thesis using l by (simp add: sleeper_bonus_def unsigned_ucast_eq take_bit_int_eq_self)
qed

lemma dist_bonus:
  assumes "latency_ok X"
  shows "dist m (m - sleeper_bonus X) = - uint (sleeper_bonus X)"
proof -
  have "sint (- sleeper_bonus X) = - sint (sleeper_bonus X)"
    using sleeper_bonus_small [OF assms] sint_small [of "sleeper_bonus X"] sint_diff [of 0 "sleeper_bonus X"]
      uint_nonnegative [of "sleeper_bonus X"] by simp
  then show ?thesis using sleeper_bonus_small [OF assms] sint_small [of "sleeper_bonus X"] by (simp add: dist_def)
qed

lemma placed_near:
  assumes "vr_ok X" "latency_ok X" "arrival_ok X flags m v" "0 \<le> dist m m'" "dist m m' < 2 ^ 31"
  shows "near m' (placed X flags m' v)"
    and "flags AND ENQUEUE_WAKEUP X \<noteq> 0 \<Longrightarrow> - uint (sleeper_bonus X) \<le> dist m' (placed X flags m' v)"
proof -
  let ?b = "m' - sleeper_bonus X"
  have d: "dist m' v = dist m v - dist m m'"
    using assms(3-5) by (intro dist_diff) (auto simp: arrival_ok_def split: if_splits)
  obtain u where u: "u = uint (sleeper_bonus X)" "0 \<le> u" by simp
  have b: "dist m' ?b = - u" "u < 2 ^ 31"
    unfolding u(1) by (rule dist_bonus [OF assms(2)], rule sleeper_bonus_small [OF assms(2)])
  have "\<bar>dist m' v\<bar> < 2 ^ 62" using d assms(3-5) by (auto simp: arrival_ok_def split: if_splits)
  then have c: "dist v ?b = dist m' ?b - dist m' v" using b u(2) by (intro dist_diff) auto
  have p: "placed X flags m' v = (if flags AND ENQUEUE_WAKEUP X \<noteq> 0 \<and> 0 < dist v ?b then ?b else v)"
    using assms(1) by (simp add: placed_def vr_ok_def)
  show "near m' (placed X flags m' v)"
    using p b c d u(2) assms(3-5)
    by (auto simp: near_def arrival_ok_def split: if_splits)
  show "- uint (sleeper_bonus X) \<le> dist m' (placed X flags m' v)" if "flags AND ENQUEUE_WAKEUP X \<noteq> 0"
    using p b c u that by auto
qed


section \<open>enqueue_entity\<close>

lemma off_queue:
  assumes "cfs_wf X q s" "se_at s e = Some se" "\<not> on_rq se"
  shows "e \<notin> set (timeline q s)" "e \<notin> runnable q s"
proof -
  show "e \<notin> runnable q s" using assms(2,3) by (simp add: cfs_wfD(3) [OF assms(1)] is_on_rq_def)
  then show "e \<notin> set (timeline q s)" by (simp add: runnable_def)
qed

text \<open>The entity gets its absolute virtual run time and the running one, if it is another, is charged.\<close>

definition curr_charged :: "sched_ext \<Rightarrow> cfs_ptr \<Rightarrow> se_ptr \<Rightarrow> sched \<Rightarrow> sched \<Rightarrow> bool" where
  "curr_charged X q e s s' \<longleftrightarrow> (\<forall>cq c se. cfs_at s q = Some cq \<longrightarrow> cfs_curr cq = Some c \<longrightarrow> c \<noteq> e \<longrightarrow>
     se_at s c = Some se \<longrightarrow> (\<exists>se'. se_at s' c = Some se' \<and> vruntime se' = vruntime se + charge X q s se))"

lemma enqueue_charge:
  assumes wf: "cfs_wf X q s" "vr_ok X" "window X q s" and cq: "cfs_at s q = Some cq"
    and se: "se_at s e = Some se" "\<not> on_rq se"
    and s1: "s1 = s\<lparr>se_at := (se_at s)(e \<mapsto> se\<lparr>vruntime := vruntime se + b\<rparr>)\<rparr>"
  shows "\<exists>s2 cq2 se2. update_curr X q s1 = Some s2 \<and> timeline_ok X q s2 \<and> curr_ok q s2
    \<and> timeline q s2 = timeline q s \<and> cfs_at s2 q = Some cq2 \<and> same_queue cq cq2
    \<and> 0 \<le> dist (min_vruntime cq) (min_vruntime cq2) \<and> dist (min_vruntime cq) (min_vruntime cq2) < 2 ^ 31
    \<and> se_at s2 e = Some se2 \<and> \<not> on_rq se2
    \<and> vruntime se2 = vruntime se + b + (if cfs_curr cq = Some e then charge X q s se else 0)
    \<and> (\<forall>d. is_on_rq s2 d = is_on_rq s d)
    \<and> (\<forall>d. d \<noteq> e \<longrightarrow> cfs_curr cq \<noteq> Some d \<longrightarrow> se_at s2 d = se_at s d) \<and> curr_charged X q e s s2"
proof -
  note e = off_queue [OF wf(1) se]
  have at1: "cfs_at s1 q = Some cq" "se_at s1 e = Some (se\<lparr>vruntime := vruntime se + b\<rparr>)"
    using cq by (simp_all add: s1)
  have tl1: "timeline_ok X q s1" "timeline q s1 = timeline q s"
    by (rule timeline_ok_off [OF cfs_wfD(1) [OF wf(1)] cq at1(1) refl refl refl], use e(1) in \<open>force simp: s1\<close>)+
  have cur1: "curr_ok q s1"
    using curr_okD [OF cfs_wfD(2) [OF wf(1)] cq] se tl1(2) at1(2) by (intro curr_okI [OF at1(1)]) (auto simp: s1)
  have ch: "charge X q s1 (se\<lparr>vruntime := v\<rparr>) = charge X q s se" "charge X q s1 d = charge X q s d" for v d
    by (simp_all add: charge_def clock_now_def sched_clock_def s1 case_prod_beta Let_def)
  have "window X q s1"
    using wf(3) cq se(2) ch unfolding window_def
    by (auto simp: running_def curr_se_def s1 split: option.splits if_splits bind_splits)
  then obtain s2 where s2: "update_curr X q s1 = Some s2" "timeline_ok X q s2" "curr_ok q s2"
    "timeline q s2 = timeline q s1" "charged X q s1 s2"
    using update_curr_spec [OF tl1(1) wf(2) cur1] by blast
  then obtain cq2 where cq2: "cfs_at s2 q = Some cq2" "same_queue cq cq2"
    "0 \<le> dist (min_vruntime cq) (min_vruntime cq2)" "dist (min_vruntime cq) (min_vruntime cq2) < 2 ^ 31"
    and other: "\<And>d. cfs_curr cq \<noteq> Some d \<Longrightarrow> se_at s2 d = se_at s1 d"
    and cur: "\<And>d se. cfs_curr cq = Some d \<Longrightarrow> se_at s1 d = Some se \<Longrightarrow> (\<exists>se'. se_at s2 d = Some se'
      \<and> on_rq se' = on_rq se \<and> vruntime se' = vruntime se + charge X q s1 se)"
    using at1(1) unfolding charged_def by blast
  have "is_on_rq s2 d = is_on_rq s d" for d
    using is_on_rq_cong [OF charged_on_rq [OF s2(5) cur1], of d] se by (auto simp: is_on_rq_def s1)
  moreover have "\<exists>se2. se_at s2 e = Some se2 \<and> \<not> on_rq se2
     \<and> vruntime se2 = vruntime se + b + (if cfs_curr cq = Some e then charge X q s se else 0)"
    using other [of e] cur [of e, OF _ at1(2)] at1(2) se(2) ch(1) by (cases "cfs_curr cq = Some e") auto
  moreover have "curr_charged X q e s s2"
    unfolding curr_charged_def using cur cq ch(2) by (fastforce simp: s1)
  ultimately show ?thesis using s2 cq2 other tl1(2) by (fastforce simp: s1)
qed


text \<open>The timeline takes the entity, and gives it up, unless it is the running one.\<close>

abbreviation retree :: "cfs_rq \<Rightarrow> se_ptr tree \<Rightarrow> cfs_rq" where
  "retree cq t \<equiv> cq\<lparr>rb_leftmost := hd_opt (inorder t), tasks_timeline := t\<rparr>"

lemma retree_same:
  assumes "timeline_ok X q s" "cfs_at s q = Some cq"
  shows "retree cq (tasks_timeline cq) = cq" "s\<lparr>cfs_at := (cfs_at s)(q \<mapsto> cq)\<rparr> = s"
  using assms first_entity_at [OF assms(2)] timeline_at [OF assms(2)] by (simp_all add: timeline_ok_def fun_upd_idem)

lemma enqueue_unless_curr:
  assumes "timeline_ok X q s" "near_entity q s e" "e \<notin> set (timeline q s)" "cfs_at s q = Some cq"
  shows "\<exists>t. (if cfs_curr cq \<noteq> Some e then raw_enqueue_entity X q e s else Some s)
        = Some (s\<lparr>cfs_at := (cfs_at s)(q \<mapsto> retree cq t)\<rparr>)
    \<and> timeline_ok X q (s\<lparr>cfs_at := (cfs_at s)(q \<mapsto> retree cq t)\<rparr>)
    \<and> set_tree t = set (timeline q s) \<union> (if cfs_curr cq = Some e then {} else {e})"
proof (cases "cfs_curr cq = Some e")
  case True
  then show ?thesis
    using assms(1) retree_same [OF assms(1,4)] timeline_at [OF assms(4)] by (intro exI [of _ "tasks_timeline cq"]) simp
next
  case False
  obtain t where t: "raw_enqueue_entity X q e s = Some (s\<lparr>cfs_at := (cfs_at s)(q \<mapsto> retree cq t)\<rparr>)"
    "inorder t = insert_by (lag q s) e (timeline q s)"
    using raw_enqueue_entity_spec [OF assms] by blast
  have "set_tree t = insert e (set (timeline q s))"
    using arg_cong [OF t(2), of set] by simp
  moreover have "timeline_ok X q (s\<lparr>cfs_at := (cfs_at s)(q \<mapsto> retree cq t)\<rparr>)"
    using tl.enq_item [OF assms(1-3)] t(1) by auto
  ultimately show ?thesis using t(1) False by (intro exI [of _ t]) simp
qed

lemma dequeue_unless_curr:
  assumes "timeline_ok X q s" "cfs_curr cq \<noteq> Some e \<Longrightarrow> e \<in> set (timeline q s)" "cfs_at s q = Some cq"
  shows "\<exists>t. (if cfs_curr cq \<noteq> Some e then raw_dequeue_entity X q e s else Some s)
        = Some (s\<lparr>cfs_at := (cfs_at s)(q \<mapsto> retree cq t)\<rparr>)
    \<and> timeline_ok X q (s\<lparr>cfs_at := (cfs_at s)(q \<mapsto> retree cq t)\<rparr>)
    \<and> set_tree t = set (timeline q s) - (if cfs_curr cq = Some e then {} else {e})"
proof (cases "cfs_curr cq = Some e")
  case True
  then show ?thesis
    using assms(1) retree_same [OF assms(1,3)] timeline_at [OF assms(3)] by (intro exI [of _ "tasks_timeline cq"]) simp
next
  case False
  note e = assms(2) [OF False]
  obtain t where t: "raw_dequeue_entity X q e s = Some (s\<lparr>cfs_at := (cfs_at s)(q \<mapsto> retree cq t)\<rparr>)"
    "inorder t = remove1 e (timeline q s)"
    using raw_dequeue_entity_spec [OF assms(1) e assms(3)] by blast
  have "distinct (timeline q s)" using assms(1) by (simp add: timeline_ok_def)
  then have "set_tree t = set (timeline q s) - {e}"
    using arg_cong [OF t(2), of set] by simp
  moreover have "timeline_ok X q (s\<lparr>cfs_at := (cfs_at s)(q \<mapsto> retree cq t)\<rparr>)"
    using tl.deq_item [OF assms(1) e] t(1) by auto
  ultimately show ?thesis using t(1) False by (intro exI [of _ t]) simp
qed

lemma cfs_wfI:
  assumes "timeline_ok X q s" "curr_ok q s" "cfs_at s q = Some cq"
    and "\<And>e. e \<in> runnable q s \<longleftrightarrow> cfs_rq_of X e = q \<and> is_on_rq s e"
    and "cfs_nr_running cq = of_nat (card (runnable q s))"
  shows "cfs_wf X q s"
  using assms by (auto simp: cfs_wf_def)

lemma enqueue_tail:
  assumes ok: "timeline_ok X q s" "curr_ok q s" "acct_ok X"
    and cq: "cfs_at s q = Some cq" and se: "se_at s e = Some se" "\<not> on_rq se" "e \<notin> set (timeline q s)"
    and near: "near (min_vruntime cq) (placed X flags (min_vruntime cq) (vruntime se))"
  shows "\<exists>s' cq'. do {
     se \<leftarrow> se_at s e;
     s \<leftarrow> upd_cfs q (account_entity_enqueue X se) s;
     s \<leftarrow> (if flags AND ENQUEUE_WAKEUP X \<noteq> 0 then place_entity X q e False s else Some s);
     cq \<leftarrow> cfs_at s q;
     s \<leftarrow> (if cfs_curr cq \<noteq> Some e then raw_enqueue_entity X q e s else Some s);
     s \<leftarrow> upd_se e (\<lambda>se. se\<lparr>on_rq := True\<rparr>) s;
     cq \<leftarrow> cfs_at s q;
     if cfs_nr_running cq = 1
     then upd_cfs q (\<lambda>cq. cq\<lparr>cfs_bw := check_enqueue_throttle X (cfs_bw cq)\<rparr>) s else Some s } = Some s'
   \<and> timeline_ok X q s' \<and> curr_ok q s'
   \<and> set (timeline q s') = set (timeline q s) \<union> (if cfs_curr cq = Some e then {} else {e})
   \<and> se_at s' = (se_at s)(e \<mapsto> se\<lparr>vruntime := placed X flags (min_vruntime cq) (vruntime se), on_rq := True\<rparr>)
   \<and> cfs_at s' q = Some cq' \<and> cfs_curr cq' = cfs_curr cq \<and> min_vruntime cq' = min_vruntime cq
   \<and> h_nr_running cq' = h_nr_running cq \<and> cfs_nr_running cq' = cfs_nr_running cq + 1
   \<and> no_buddies cq' = no_buddies cq"
proof -
  obtain w where w: "account_entity_enqueue X se cq = cq\<lparr>cfs_nr_running := cfs_nr_running cq + 1, cfs_load := w\<rparr>"
    using ok(3) unfolding acct_ok_def by blast
  define cq1 where "cq1 = cq\<lparr>cfs_nr_running := cfs_nr_running cq + 1, cfs_load := w\<rparr>"
  define se1 where "se1 = se\<lparr>vruntime := placed X flags (min_vruntime cq) (vruntime se)\<rparr>"
  define s1 where "s1 = s\<lparr>cfs_at := (cfs_at s)(q \<mapsto> cq1), se_at := (se_at s)(e \<mapsto> se1)\<rparr>"
  have st1: "upd_cfs q (account_entity_enqueue X se) s = Some (s\<lparr>cfs_at := (cfs_at s)(q \<mapsto> cq1)\<rparr>)"
    using cq by (simp add: upd_cfs_def w cq1_def)
  have st2: "(if flags AND ENQUEUE_WAKEUP X \<noteq> 0 then place_entity X q e False (s\<lparr>cfs_at := (cfs_at s)(q \<mapsto> cq1)\<rparr>)
      else Some (s\<lparr>cfs_at := (cfs_at s)(q \<mapsto> cq1)\<rparr>)) = Some s1"
    using se(1) by (simp add: place_entity_def upd_se_def s1_def cq1_def se1_def placed_def sleeper_bonus_def fun_upd_idem)
  have at1: "cfs_at s1 q = Some cq1" "se_at s1 e = Some se1" by (simp_all add: s1_def)
  have tl1: "timeline_ok X q s1" "timeline q s1 = timeline q s"
    by (rule timeline_ok_off [OF ok(1) cq at1(1)], simp_all add: cq1_def, use se(3) in \<open>force simp: s1_def\<close>)+
  have "near_entity q s1 e" using near by (simp add: near_entity_def at1 cq1_def se1_def)
  then obtain t where t: "(if cfs_curr cq1 \<noteq> Some e then raw_enqueue_entity X q e s1 else Some s1)
        = Some (s1\<lparr>cfs_at := (cfs_at s1)(q \<mapsto> retree cq1 t)\<rparr>)"
      "timeline_ok X q (s1\<lparr>cfs_at := (cfs_at s1)(q \<mapsto> retree cq1 t)\<rparr>)"
      "set_tree t = set (timeline q s) \<union> (if cfs_curr cq1 = Some e then {} else {e})"
    using enqueue_unless_curr [OF tl1(1) _ _ at1(1)] se(3) tl1(2) by metis
  define s2 where "s2 = s1\<lparr>cfs_at := (cfs_at s1)(q \<mapsto> retree cq1 t)\<rparr>"
  define cq' where "cq' = (retree cq1 t)\<lparr>cfs_bw := (if cfs_nr_running cq1 = 1 then check_enqueue_throttle X (cfs_bw cq1) else cfs_bw cq1)\<rparr>"
  define s' where "s' = s2\<lparr>se_at := (se_at s2)(e \<mapsto> se1\<lparr>on_rq := True\<rparr>), cfs_at := (cfs_at s2)(q \<mapsto> cq')\<rparr>"
  have at2: "cfs_at s2 q = Some (retree cq1 t)" "se_at s2 e = Some se1" by (simp_all add: s2_def s1_def)
  have at': "cfs_at s' q = Some cq'" "se_at s' = (se_at s)(e \<mapsto> se1\<lparr>on_rq := True\<rparr>)"
    by (simp_all add: s'_def s2_def s1_def)
  have tl': "timeline_ok X q s'"
    by (rule timeline_ok_off [OF t(2) [folded s2_def] at2(1) at'(1)]) (auto simp: cq'_def s'_def at2(2))
  have set': "set (timeline q s') = set (timeline q s) \<union> (if cfs_curr cq = Some e then {} else {e})"
    using timeline_at [OF at'(1)] t(3) by (simp add: cq'_def cq1_def)
  have "curr_ok q s'"
    using curr_okD [OF ok(2) cq] near se(3)
    by (intro curr_okI [OF at'(1)]) (auto simp: set' at'(2) cq'_def cq1_def se1_def)
  then show ?thesis
    unfolding se(1) bind.bind_lunit st1 st2 at1(1) t(1) s2_def [symmetric]
    by (intro exI [of _ s'] exI [of _ cq'] conjI)
      (use at2 in \<open>simp add: upd_se_def upd_cfs_def s'_def cq'_def fun_upd_idem\<close>,
       use tl' set' at' in \<open>simp_all add: cq'_def cq1_def se1_def no_buddies_def\<close>)
qed

lemma enqueue_entity_spec:
  assumes wf: "cfs_wf X q s" "vr_ok X" "window X q s" "acct_ok X" "latency_ok X"
    and cq: "cfs_at s q = Some cq" and se: "se_at s e = Some se" "\<not> on_rq se" "cfs_rq_of X e = q"
    and arr: "arrival_ok X flags (min_vruntime cq) (arrives_with X q e flags s cq se)"
  shows "\<exists>s' cq' se'. enqueue_entity X q e flags s = Some s' \<and> cfs_wf X q s'
    \<and> runnable q s' = insert e (runnable q s)
    \<and> cfs_at s' q = Some cq' \<and> cfs_curr cq' = cfs_curr cq \<and> h_nr_running cq' = h_nr_running cq
    \<and> no_buddies cq' = no_buddies cq
    \<and> se_at s' e = Some se' \<and> vruntime se' = placed X flags (min_vruntime cq') (arrives_with X q e flags s cq se)
    \<and> 0 \<le> dist (min_vruntime cq) (min_vruntime cq') \<and> dist (min_vruntime cq) (min_vruntime cq') < 2 ^ 31
    \<and> (\<forall>d. d \<noteq> e \<longrightarrow> cfs_curr cq \<noteq> Some d \<longrightarrow> se_at s' d = se_at s d) \<and> curr_charged X q e s s'"
proof -
  define b where "b = (if flags AND ENQUEUE_WAKEUP X = 0 \<or> flags AND ENQUEUE_WAKING X \<noteq> 0 then min_vruntime cq else 0)"
  define s1 where "s1 = s\<lparr>se_at := (se_at s)(e \<mapsto> se\<lparr>vruntime := vruntime se + b\<rparr>)\<rparr>"
  have st1: "(if flags AND ENQUEUE_WAKEUP X = 0 \<or> flags AND ENQUEUE_WAKING X \<noteq> 0
      then upd_se e (\<lambda>se. se\<lparr>vruntime := vruntime se + min_vruntime cq\<rparr>) s else Some s) = Some s1"
    using se(1) by (simp add: s1_def b_def upd_se_def fun_upd_idem)
  obtain s2 cq2 se2 where s2: "update_curr X q s1 = Some s2" "timeline_ok X q s2" "curr_ok q s2"
      "timeline q s2 = timeline q s" "cfs_at s2 q = Some cq2" "same_queue cq cq2"
    and d: "0 \<le> dist (min_vruntime cq) (min_vruntime cq2)" "dist (min_vruntime cq) (min_vruntime cq2) < 2 ^ 31"
    and se2: "se_at s2 e = Some se2" "\<not> on_rq se2"
      "vruntime se2 = vruntime se + b + (if cfs_curr cq = Some e then charge X q s se else 0)"
    and on2: "\<And>d. is_on_rq s2 d = is_on_rq s d"
    and other: "\<And>d. d \<noteq> e \<Longrightarrow> cfs_curr cq \<noteq> Some d \<Longrightarrow> se_at s2 d = se_at s d"
    and paid: "curr_charged X q e s s2"
    using enqueue_charge [OF wf(1-3) cq se(1,2) s1_def] by blast
  have v: "vruntime se2 = arrives_with X q e flags s cq se" by (simp add: se2(3) arrives_with_def b_def)
  note sq = same_queueD [OF s2(6)]
  note e = off_queue [OF wf(1) se(1,2)]
  have e2: "e \<notin> set (timeline q s2)" using e(1) s2(4) by simp
  have nb: "no_buddies cq2 = no_buddies cq" by (simp add: no_buddies_def sq)
  have n2: "near (min_vruntime cq2) (placed X flags (min_vruntime cq2) (vruntime se2))"
    using placed_near(1) [OF wf(2,5) arr d] v by simp
  obtain s' cq' where run: "enqueue_entity X q e flags s = Some s'"
    and tl': "timeline_ok X q s'" "curr_ok q s'"
      "set (timeline q s') = set (timeline q s) \<union> (if cfs_curr cq = Some e then {} else {e})"
      "se_at s' = (se_at s2)(e \<mapsto> se2\<lparr>vruntime := placed X flags (min_vruntime cq2) (vruntime se2), on_rq := True\<rparr>)"
    and nb': "no_buddies cq' = no_buddies cq"
    and cq': "cfs_at s' q = Some cq'" "cfs_curr cq' = cfs_curr cq" "min_vruntime cq' = min_vruntime cq2"
      "h_nr_running cq' = h_nr_running cq" "cfs_nr_running cq' = cfs_nr_running cq + 1"
    using enqueue_tail [OF s2(2,3) wf(4) s2(5) se2(1,2) e2 n2]
    by (elim exE conjE) (rule that, unfold enqueue_entity_def cq bind.bind_lunit st1 s2(1),
      assumption, simp_all add: sq s2(4) nb)
  have on': "is_on_rq s' d \<longleftrightarrow> d = e \<or> is_on_rq s d" for d
    using on2 [of d] by (cases "d = e") (auto simp: is_on_rq_def tl'(4))
  have run': "runnable q s' = insert e (runnable q s)"
    by (auto simp: runnable_at [OF cq] runnable_at [OF cq'(1)] tl'(3) on' cq'(2))
  have "d \<in> runnable q s' \<longleftrightarrow> cfs_rq_of X d = q \<and> is_on_rq s' d" for d
    using se(3) by (auto simp: run' on' cfs_wfD(3) [OF wf(1)])
  moreover have "cfs_nr_running cq' = of_nat (card (runnable q s'))"
    using cfs_wfD(4) [OF wf(1)] cq e(2) by (simp add: run' cq'(5))
  ultimately have "cfs_wf X q s'" using tl'(1,2) cq'(1) by (blast intro: cfs_wfI)
  moreover have "curr_charged X q e s s'" using paid by (simp add: curr_charged_def tl'(4))
  ultimately show ?thesis
    using run run' nb' cq' tl'(4) d other v by (intro exI [of _ s'] exI [of _ cq']) simp
qed

section \<open>dequeue_entity\<close>

lemma set_min_parts:
  assumes "cfs_at s q = Some cq"
  shows "runnable q (set_min q m s) = runnable q s" "is_on_rq (set_min q m s) d = is_on_rq s d"
  using assms set_min_at [OF assms, of m] by (auto simp: runnable_def is_on_rq_def)

definition departs_with :: "sched_ext \<Rightarrow> s32 \<Rightarrow> u64 \<Rightarrow> u64 \<Rightarrow> u64" where
  "departs_with X flags m v = (if flags AND DEQUEUE_SLEEP X = 0 then v - m else v)"

lemma dequeue_tail:
  assumes ok: "timeline_ok X q s" "curr_ok q s" "acct_ok X" "vr_ok X"
    and cq: "cfs_at s q = Some cq" and se: "se_at s e = Some se" "e \<notin> set (timeline q s)"
  shows "\<exists>s' cq'. do { s \<leftarrow> upd_se e (\<lambda>se. se\<lparr>on_rq := False\<rparr>) s;
     se \<leftarrow> se_at s e;
     s \<leftarrow> upd_cfs q (account_entity_dequeue X se) s;
     cq \<leftarrow> cfs_at s q;
     s \<leftarrow> (if flags AND DEQUEUE_SLEEP X = 0
           then upd_se e (\<lambda>se. se\<lparr>vruntime := vruntime se - min_vruntime cq\<rparr>) s else Some s);
     s \<leftarrow> upd_cfs q (\<lambda>cq. cq\<lparr>cfs_bw := return_cfs_rq_runtime X (cfs_bw cq)\<rparr>) s;
     update_min_vruntime X q s } = Some s'
   \<and> timeline_ok X q s' \<and> curr_ok q s' \<and> timeline q s' = timeline q s
   \<and> se_at s' = (se_at s)(e \<mapsto> se\<lparr>on_rq := False, vruntime := departs_with X flags (min_vruntime cq) (vruntime se)\<rparr>)
   \<and> cfs_at s' q = Some cq' \<and> cfs_curr cq' = cfs_curr cq \<and> h_nr_running cq' = h_nr_running cq
   \<and> cfs_nr_running cq' = cfs_nr_running cq - 1
   \<and> cfs_next cq' = cfs_next cq \<and> cfs_last cq' = cfs_last cq \<and> cfs_skip cq' = cfs_skip cq
   \<and> 0 \<le> dist (min_vruntime cq) (min_vruntime cq') \<and> dist (min_vruntime cq) (min_vruntime cq') < 2 ^ 31"
proof -
  define se' where "se' = se\<lparr>on_rq := False, vruntime := departs_with X flags (min_vruntime cq) (vruntime se)\<rparr>"
  obtain w where w: "account_entity_dequeue X (se\<lparr>on_rq := False\<rparr>) cq
      = cq\<lparr>cfs_nr_running := cfs_nr_running cq - 1, cfs_load := w\<rparr>"
    using ok(3) unfolding acct_ok_def by blast
  define cq1 where "cq1 = cq\<lparr>cfs_nr_running := cfs_nr_running cq - 1, cfs_load := w,
    cfs_bw := return_cfs_rq_runtime X (cfs_bw cq)\<rparr>"
  define s1 where "s1 = s\<lparr>se_at := (se_at s)(e \<mapsto> se'), cfs_at := (cfs_at s)(q \<mapsto> cq1)\<rparr>"
  have at1: "cfs_at s1 q = Some cq1" "se_at s1 = (se_at s)(e \<mapsto> se')" by (simp_all add: s1_def)
  have tl1: "timeline_ok X q s1" "timeline q s1 = timeline q s"
    by (rule timeline_ok_off [OF ok(1) cq at1(1)], simp_all add: cq1_def, use se(2) in \<open>force simp: s1_def\<close>)+
  have cur1: "curr_ok q s1"
    using curr_okD [OF ok(2) cq] tl1(2) by (intro curr_okI [OF at1(1)]) (auto simp: cq1_def at1(2) se'_def)
  obtain m where m: "update_min_vruntime X q s1 = Some (set_min q m s1)" "timeline_ok X q (set_min q m s1)"
    "curr_ok q (set_min q m s1)" "0 \<le> dist (min_vruntime cq) m" "dist (min_vruntime cq) m < 2 ^ 31"
    using update_min_keeps [OF tl1(1) ok(4) cur1 at1(1)] by (auto simp: cq1_def)
  show ?thesis
    using cq se(1) w m tl1(2) set_min_at [OF at1(1), of m] at1(2)
    by (intro exI [of _ "set_min q m s1"] exI [of _ "cq1\<lparr>min_vruntime := m\<rparr>"])
      (auto simp: upd_se_def upd_cfs_def departs_with_def se'_def s1_def cq1_def)
qed

lemma dequeue_entity_spec:
  assumes wf: "cfs_wf X q s" "vr_ok X" "window X q s" "acct_ok X" "buddy_ok X"
    and cq: "cfs_at s q = Some cq" and e: "e \<in> runnable q s" and se: "se_at s e = Some se"
  shows "\<exists>s' cq' se' m. dequeue_entity X q e flags s = Some s' \<and> cfs_wf X q s'
    \<and> runnable q s' = runnable q s - {e}
    \<and> cfs_at s' q = Some cq' \<and> cfs_curr cq' = cfs_curr cq \<and> h_nr_running cq' = h_nr_running cq
    \<and> cfs_next cq' = forget e (cfs_next cq) \<and> cfs_last cq' = forget e (cfs_last cq)
    \<and> cfs_skip cq' = forget e (cfs_skip cq)
    \<and> se_at s' e = Some se' \<and> vruntime se' = departs_with X flags m
         (vruntime se + (if cfs_curr cq = Some e then charge X q s se else 0))
    \<and> 0 \<le> dist (min_vruntime cq) m \<and> 0 \<le> dist m (min_vruntime cq')
    \<and> (\<forall>d. d \<noteq> e \<longrightarrow> cfs_curr cq \<noteq> Some d \<longrightarrow> se_at s' d = se_at s d)"
proof -
  obtain s1 where s1: "update_curr X q s = Some s1" "timeline_ok X q s1" "curr_ok q s1"
    "timeline q s1 = timeline q s" "charged X q s s1"
    using update_curr_spec [OF cfs_wfD(1) [OF wf(1)] wf(2) cfs_wfD(2) [OF wf(1)] wf(3)] by blast
  obtain cq1 se1 where cq1: "cfs_at s1 q = Some cq1" "same_queue cq cq1" "0 \<le> dist (min_vruntime cq) (min_vruntime cq1)"
    and se1: "se_at s1 e = Some se1" "vruntime se1 = vruntime se + (if cfs_curr cq = Some e then charge X q s se else 0)"
    and other: "\<And>d. cfs_curr cq \<noteq> Some d \<Longrightarrow> se_at s1 d = se_at s d"
    using s1(5) cq se unfolding charged_def by (cases "cfs_curr cq = Some e") fastforce+
  note sq = same_queueD [OF cq1(2)]
  define cq2 where "cq2 = clear_buddies X e cq1"
  define s2 where "s2 = s1\<lparr>cfs_at := (cfs_at s1)(q \<mapsto> cq2)\<rparr>"
  have b: "cq2 = cq1\<lparr>cfs_next := forget e (cfs_next cq1), cfs_last := forget e (cfs_last cq1),
      cfs_skip := forget e (cfs_skip cq1)\<rparr>" using wf(5) by (simp add: cq2_def buddy_ok_def)
  have at2: "cfs_at s2 q = Some cq2" "se_at s2 = se_at s1" by (simp_all add: s2_def)
  have st2: "upd_cfs q (clear_buddies X e) s1 = Some s2" using cq1(1) by (simp add: upd_cfs_def cq2_def s2_def)
  have tl2: "timeline_ok X q s2" "timeline q s2 = timeline q s"
    using timeline_ok_same [OF s1(2) cq1(1) at2(1)] s1(4) by (simp_all add: b at2(2))
  have "cfs_curr cq2 \<noteq> Some e \<Longrightarrow> e \<in> set (timeline q s2)"
    using e tl2(2) cq by (auto simp: runnable_at b sq)
  then obtain t where t: "(if cfs_curr cq2 \<noteq> Some e then raw_dequeue_entity X q e s2 else Some s2)
        = Some (s2\<lparr>cfs_at := (cfs_at s2)(q \<mapsto> retree cq2 t)\<rparr>)"
      "timeline_ok X q (s2\<lparr>cfs_at := (cfs_at s2)(q \<mapsto> retree cq2 t)\<rparr>)"
      "set_tree t = set (timeline q s) - (if cfs_curr cq = Some e then {} else {e})"
    using dequeue_unless_curr [OF tl2(1) _ at2(1)] tl2(2) by (simp add: b sq) metis
  define s3 where "s3 = s2\<lparr>cfs_at := (cfs_at s2)(q \<mapsto> retree cq2 t)\<rparr>"
  have at3: "cfs_at s3 q = Some (retree cq2 t)" "se_at s3 = se_at s1" by (simp_all add: s3_def at2)
  have set3: "set (timeline q s3) = set (timeline q s) - {e}"
    using timeline_at [OF at3(1)] t(3) curr_okD(1) [OF cfs_wfD(2) [OF wf(1)] cq] by auto
  have cur3: "curr_ok q s3"
    using curr_okD [OF s1(3) cq1(1)] by (intro curr_okI [OF at3(1)]) (auto simp: set3 s1(4) at3(2) b)
  define se' where "se' = se1\<lparr>on_rq := False, vruntime := departs_with X flags (min_vruntime cq1) (vruntime se1)\<rparr>"
  have m3: "min_vruntime (retree cq2 t) = min_vruntime cq1" by (simp add: b)
  obtain s' cq' where run: "dequeue_entity X q e flags s = Some s'"
    and tl': "timeline_ok X q s'" "curr_ok q s'" "timeline q s' = timeline q s3" "se_at s' = (se_at s1)(e \<mapsto> se')"
    and cq': "cfs_at s' q = Some cq'" "cfs_curr cq' = cfs_curr cq2" "h_nr_running cq' = h_nr_running cq2"
      "cfs_nr_running cq' = cfs_nr_running cq2 - 1" "cfs_next cq' = cfs_next cq2" "cfs_last cq' = cfs_last cq2"
      "cfs_skip cq' = cfs_skip cq2" "0 \<le> dist (min_vruntime cq1) (min_vruntime cq')"
    unfolding dequeue_entity_def s1(1) bind.bind_lunit st2 at2(1) t(1) s3_def [symmetric]
    using dequeue_tail [OF t(2) [folded s3_def] cur3 wf(4,2) at3(1), of e se1 flags] se1(1) set3 at3(2) m3
    unfolding se'_def by force
  have on': "is_on_rq s' d \<longleftrightarrow> d \<noteq> e \<and> is_on_rq s d" for d
    using is_on_rq_cong [OF charged_on_rq [OF s1(5) cfs_wfD(2) [OF wf(1)]], of d]
    by (auto simp: tl'(4) is_on_rq_def se'_def)
  have run': "runnable q s' = runnable q s - {e}"
    by (auto simp: runnable_at [OF cq] runnable_at [OF cq'(1)] tl'(3) set3 on' cq'(2) b sq)
  have "d \<in> runnable q s' \<longleftrightarrow> cfs_rq_of X d = q \<and> is_on_rq s' d" for d
    by (auto simp: run' on' cfs_wfD(3) [OF wf(1)])
  moreover have "0 < card (runnable q s)" using e by (auto simp: card_gt_0_iff)
  then have "cfs_nr_running cq' = of_nat (card (runnable q s'))"
    using cfs_wfD(4) [OF wf(1)] cq e by (simp add: run' cq'(4) b sq of_nat_diff)
  ultimately have "cfs_wf X q s'" using tl'(1,2) cq'(1) by (blast intro: cfs_wfI)
  then show ?thesis
    using run run' cq' tl'(4) se1(2) cq1(3) other
    by (intro exI [of _ s'] exI [of _ cq'] exI [of _ se'] exI [of _ "min_vruntime cq1"])
      (simp add: b sq se'_def)
qed


section \<open>enqueue_task_fair and dequeue_task_fair\<close>

text \<open>The counters of the hierarchy: what follows the entity operation in a flat hierarchy.\<close>

definition recount :: "nat \<Rightarrow> u32 \<Rightarrow> sched \<Rightarrow> sched option" where
  "recount r d s = do {
     s \<leftarrow> upd_cfs (RootCfs r) (\<lambda>cq. cq\<lparr>h_nr_running := h_nr_running cq + d\<rparr>) s;
     upd_rq r (\<lambda>q. q\<lparr>rq_nr_running := rq_nr_running q + d\<rparr>) s }"

lemma enqueue_task_fair_flat:
  assumes "flat X" "acct_ok X" "cfs_rq_of X (TaskSe p) = RootCfs r" "se_at s (TaskSe p) = Some se" "\<not> on_rq se"
    and "enqueue_entity X (RootCfs r) (TaskSe p) flags s = Some s'" "cfs_at s' (RootCfs r) = Some cq'"
  shows "enqueue_task_fair X r p flags s = recount r 1 s'"
  using assms unfolding enqueue_task_fair_def recount_def flat_def acct_ok_def
  by (simp add: enqueue_up.simps [of X flags "Some (TaskSe p)"] enqueue_up.simps [of X _ None]
      count_up.simps upd_cfs_def upd_rq_def cong: if_cong)

lemma dequeue_task_fair_flat:
  assumes "flat X" "acct_ok X" "cfs_rq_of X (TaskSe p) = RootCfs r"
    and "dequeue_entity X (RootCfs r) (TaskSe p) flags s = Some s'" "cfs_at s' (RootCfs r) = Some cq'"
  shows "dequeue_task_fair X r p flags s = recount r (- 1) s'"
  using assms unfolding dequeue_task_fair_def recount_def flat_def acct_ok_def
  by (simp add: dequeue_up.simps [of X _ flags "Some (TaskSe p)"] dequeue_up.simps [of X _ _ None]
      count_up.simps upd_cfs_def upd_rq_def cong: if_cong)

lemma recount_spec:
  assumes "cfs_wf X (RootCfs r) s" "cfs_at s (RootCfs r) = Some cq" "runqueues s r = Some q"
  shows "\<exists>s'. recount r d s = Some s' \<and> cfs_wf X (RootCfs r) s' \<and> runnable (RootCfs r) s' = runnable (RootCfs r) s
    \<and> cfs_at s' (RootCfs r) = Some (cq\<lparr>h_nr_running := h_nr_running cq + d\<rparr>)
    \<and> runqueues s' r = Some (q\<lparr>rq_nr_running := rq_nr_running q + d\<rparr>)
    \<and> se_at s' = se_at s \<and> tasks s' = tasks s"
proof -
  let ?q = "RootCfs r"
  define cq' where "cq' = cq\<lparr>h_nr_running := h_nr_running cq + d\<rparr>"
  define s' where "s' = s\<lparr>cfs_at := (cfs_at s)(?q \<mapsto> cq'),
    runqueues := (runqueues s)(r \<mapsto> q\<lparr>rq_nr_running := rq_nr_running q + d\<rparr>)\<rparr>"
  have at': "cfs_at s' ?q = Some cq'" "se_at s' = se_at s" by (simp_all add: s'_def)
  have tl': "timeline_ok X ?q s'" "timeline ?q s' = timeline ?q s"
    using timeline_ok_same [OF cfs_wfD(1) [OF assms(1)] assms(2) at'(1)] by (simp_all add: cq'_def at'(2))
  have on': "is_on_rq s' e = is_on_rq s e" for e by (simp add: is_on_rq_def at'(2))
  have run': "runnable ?q s' = runnable ?q s"
    by (simp add: runnable_at [OF assms(2)] runnable_at [OF at'(1)] tl'(2) on' cq'_def)
  have "curr_ok ?q s'"
    using curr_okD [OF cfs_wfD(2) [OF assms(1)] assms(2)] tl'(2)
    by (intro curr_okI [OF at'(1)]) (auto simp: cq'_def at'(2))
  moreover have "e \<in> runnable ?q s' \<longleftrightarrow> cfs_rq_of X e = ?q \<and> is_on_rq s' e" for e
    by (simp add: run' on' cfs_wfD(3) [OF assms(1)])
  moreover have "cfs_nr_running cq' = of_nat (card (runnable ?q s'))"
    using cfs_wfD(4) [OF assms(1)] assms(2) by (simp add: run' cq'_def)
  ultimately have "cfs_wf X ?q s'" using tl'(1) at'(1) by (blast intro: cfs_wfI)
  moreover have "recount r d s = Some s'"
    using assms(2,3) by (simp add: recount_def upd_cfs_def upd_rq_def s'_def cq'_def)
  ultimately show ?thesis using run' at' by (intro exI [of _ s']) (simp add: s'_def cq'_def)
qed

lemma rq_wfD:
  assumes "rq_wf X r s"
  shows "cfs_wf X (RootCfs r) s"
    "\<exists>q cq. runqueues s r = Some q \<and> cfs_at s (RootCfs r) = Some cq
       \<and> h_nr_running cq = of_nat (card (runnable (RootCfs r) s))
       \<and> rq_nr_running q = of_nat (card (runnable (RootCfs r) s))"
  using assms by (auto simp: rq_wf_def)

lemma enqueue_task_fair_spec:
  assumes laws: "vr_ok X" "acct_ok X" "latency_ok X" "flat X" and wf: "rq_wf X r s" "window X (RootCfs r) s"
    and cq: "cfs_at s (RootCfs r) = Some cq"
    and se: "se_at s (TaskSe p) = Some se" "\<not> on_rq se" "cfs_rq_of X (TaskSe p) = RootCfs r"
    and arr: "arrival_ok X flags (min_vruntime cq) (arrives_with X (RootCfs r) (TaskSe p) flags s cq se)"
  shows "\<exists>s' cq' se'. enqueue_task_fair X r p flags s = Some s' \<and> rq_wf X r s'
    \<and> runnable (RootCfs r) s' = insert (TaskSe p) (runnable (RootCfs r) s)
    \<and> cfs_at s' (RootCfs r) = Some cq' \<and> cfs_curr cq' = cfs_curr cq \<and> no_buddies cq' = no_buddies cq
    \<and> se_at s' (TaskSe p) = Some se'
    \<and> vruntime se' = placed X flags (min_vruntime cq') (arrives_with X (RootCfs r) (TaskSe p) flags s cq se)
    \<and> 0 \<le> dist (min_vruntime cq) (min_vruntime cq') \<and> dist (min_vruntime cq) (min_vruntime cq') < 2 ^ 31
    \<and> tasks s' = tasks s
    \<and> (\<forall>d. d \<noteq> TaskSe p \<longrightarrow> cfs_curr cq \<noteq> Some d \<longrightarrow> se_at s' d = se_at s d)
    \<and> curr_charged X (RootCfs r) (TaskSe p) s s'"
proof -
  let ?q = "RootCfs r"
  obtain q where q: "runqueues s r = Some q" "rq_nr_running q = of_nat (card (runnable ?q s))"
    and h: "h_nr_running cq = of_nat (card (runnable ?q s))"
    using rq_wfD(2) [OF wf(1)] cq by auto
  obtain s1 cq1 se1 where s1: "enqueue_entity X ?q (TaskSe p) flags s = Some s1" "cfs_wf X ?q s1"
      "runnable ?q s1 = insert (TaskSe p) (runnable ?q s)"
    and cq1: "cfs_at s1 ?q = Some cq1" "cfs_curr cq1 = cfs_curr cq" "h_nr_running cq1 = h_nr_running cq"
      "no_buddies cq1 = no_buddies cq"
    and se1: "se_at s1 (TaskSe p) = Some se1"
      "vruntime se1 = placed X flags (min_vruntime cq1) (arrives_with X ?q (TaskSe p) flags s cq se)"
    and d: "0 \<le> dist (min_vruntime cq) (min_vruntime cq1)" "dist (min_vruntime cq) (min_vruntime cq1) < 2 ^ 31"
    and other: "\<forall>d. d \<noteq> TaskSe p \<longrightarrow> cfs_curr cq \<noteq> Some d \<longrightarrow> se_at s1 d = se_at s d"
    and paid: "curr_charged X ?q (TaskSe p) s s1"
    using enqueue_entity_spec [OF rq_wfD(1) [OF wf(1)] laws(1) wf(2) laws(2,3) cq se arr] by blast
  note out = outsideD [OF out.enqueue_entity_obs [OF s1(1)]]
  have "runqueues s1 r = Some q" using out(2) q(1) by simp
  then obtain s' where s': "recount r 1 s1 = Some s'" "cfs_wf X ?q s'" "runnable ?q s' = runnable ?q s1"
    "cfs_at s' ?q = Some (cq1\<lparr>h_nr_running := h_nr_running cq1 + 1\<rparr>)"
    "runqueues s' r = Some (q\<lparr>rq_nr_running := rq_nr_running q + 1\<rparr>)" "se_at s' = se_at s1" "tasks s' = tasks s1"
    using recount_spec [OF s1(2) cq1(1)] by blast
  have "rq_wf X r s'"
    using off_queue(2) [OF rq_wfD(1) [OF wf(1)] se(1,2)] s'(2,4,5) q(2) h cq1(3)
    by (simp add: rq_wf_def s'(3) s1(3))
  moreover have "curr_charged X ?q (TaskSe p) s s'" using paid by (simp add: curr_charged_def s'(6))
  ultimately show ?thesis
    using s' s1(3) cq1 se1 d other out(1) enqueue_task_fair_flat [OF laws(4,2) se(3,1,2) s1(1) cq1(1)]
    by (intro exI [of _ s'] exI [of _ "cq1\<lparr>h_nr_running := h_nr_running cq1 + 1\<rparr>"] exI [of _ se1]) (simp add: no_buddies_def)
qed

lemma dequeue_task_fair_spec:
  assumes laws: "vr_ok X" "acct_ok X" "buddy_ok X" "flat X" and wf: "rq_wf X r s" "window X (RootCfs r) s"
    and cq: "cfs_at s (RootCfs r) = Some cq"
    and e: "TaskSe p \<in> runnable (RootCfs r) s" and se: "se_at s (TaskSe p) = Some se"
  shows "\<exists>s' cq' se' m. dequeue_task_fair X r p flags s = Some s' \<and> rq_wf X r s'
    \<and> runnable (RootCfs r) s' = runnable (RootCfs r) s - {TaskSe p}
    \<and> cfs_at s' (RootCfs r) = Some cq' \<and> cfs_curr cq' = cfs_curr cq
    \<and> cfs_next cq' = forget (TaskSe p) (cfs_next cq) \<and> cfs_last cq' = forget (TaskSe p) (cfs_last cq)
    \<and> cfs_skip cq' = forget (TaskSe p) (cfs_skip cq)
    \<and> se_at s' (TaskSe p) = Some se' \<and> vruntime se' = departs_with X flags m
         (vruntime se + (if cfs_curr cq = Some (TaskSe p) then charge X (RootCfs r) s se else 0))
    \<and> 0 \<le> dist (min_vruntime cq) m \<and> 0 \<le> dist m (min_vruntime cq')
    \<and> tasks s' = tasks s
    \<and> (\<forall>d. d \<noteq> TaskSe p \<longrightarrow> cfs_curr cq \<noteq> Some d \<longrightarrow> se_at s' d = se_at s d)"
proof -
  let ?q = "RootCfs r" and ?e = "TaskSe p"
  obtain q where q: "runqueues s r = Some q" "rq_nr_running q = of_nat (card (runnable ?q s))"
    and h: "h_nr_running cq = of_nat (card (runnable ?q s))"
    using rq_wfD(2) [OF wf(1)] cq by auto
  obtain s1 cq1 se1 m where s1: "dequeue_entity X ?q ?e flags s = Some s1" "cfs_wf X ?q s1"
      "runnable ?q s1 = runnable ?q s - {?e}"
    and cq1: "cfs_at s1 ?q = Some cq1" "cfs_curr cq1 = cfs_curr cq" "h_nr_running cq1 = h_nr_running cq"
      "cfs_next cq1 = forget ?e (cfs_next cq)" "cfs_last cq1 = forget ?e (cfs_last cq)"
      "cfs_skip cq1 = forget ?e (cfs_skip cq)"
    and se1: "se_at s1 ?e = Some se1" "vruntime se1 = departs_with X flags m
         (vruntime se + (if cfs_curr cq = Some ?e then charge X ?q s se else 0))"
    and d: "0 \<le> dist (min_vruntime cq) m" "0 \<le> dist m (min_vruntime cq1)"
    and other: "\<forall>d. d \<noteq> ?e \<longrightarrow> cfs_curr cq \<noteq> Some d \<longrightarrow> se_at s1 d = se_at s d"
    using dequeue_entity_spec [OF rq_wfD(1) [OF wf(1)] laws(1) wf(2) laws(2,3) cq e se] by blast
  note out = outsideD [OF out.dequeue_entity_obs [OF s1(1)]]
  have "runqueues s1 r = Some q" using out(2) q(1) by simp
  then obtain s' where s': "recount r (- 1) s1 = Some s'" "cfs_wf X ?q s'" "runnable ?q s' = runnable ?q s1"
    "cfs_at s' ?q = Some (cq1\<lparr>h_nr_running := h_nr_running cq1 + - 1\<rparr>)"
    "runqueues s' r = Some (q\<lparr>rq_nr_running := rq_nr_running q + - 1\<rparr>)" "se_at s' = se_at s1" "tasks s' = tasks s1"
    using recount_spec [OF s1(2) cq1(1)] by blast
  have rq: "cfs_rq_of X ?e = ?q" using e by (simp add: cfs_wfD(3) [OF rq_wfD(1) [OF wf(1)]])
  have "0 < card (runnable ?q s)" using e by (auto simp: card_gt_0_iff)
  then have "rq_wf X r s'"
    using s'(2,4,5) q(2) h cq1(3) e by (simp add: rq_wf_def s'(3) s1(3) of_nat_diff)
  then show ?thesis
    using s' s1(3) cq1 se1 d other out(1) dequeue_task_fair_flat [OF laws(4,2) rq s1(1) cq1(1)]
    by (intro exI [of _ s'] exI [of _ "cq1\<lparr>h_nr_running := h_nr_running cq1 + - 1\<rparr>"] exI [of _ se1] exI [of _ m]) simp
qed


section \<open>Properties\<close>

text \<open>C20: A task that becomes runnable.  \<^verbatim>\<open>enqueue_task_fair\<close> on a well-formed run queue never faults;
  afterwards the run queue is well formed and its runnable entities are the earlier ones and the
  task, so that all three counters grow by one; the running task is charged for its run first, the
  minimum does not move back, and no other entity changes.  The task starts at the virtual run time
  that \<open>placed\<close> names, inside the window of the comparison; a task that wakes up is at most
  the sleeper bonus behind the minimum, however long it slept.\<close>

theorem enqueue_task_fair_correct:
  assumes laws: "vr_ok X" "acct_ok X" "latency_ok X" "flat X" and wf: "rq_wf X r s" "window X (RootCfs r) s"
    and cq: "cfs_at s (RootCfs r) = Some cq"
    and se: "se_at s (TaskSe p) = Some se" "\<not> on_rq se" "cfs_rq_of X (TaskSe p) = RootCfs r"
    and arr: "arrival_ok X flags (min_vruntime cq) (arrives_with X (RootCfs r) (TaskSe p) flags s cq se)"
  shows "\<exists>s' cq' se'. enqueue_task_fair X r p flags s = Some s' \<and> rq_wf X r s'
    \<and> runnable (RootCfs r) s' = insert (TaskSe p) (runnable (RootCfs r) s)
    \<and> cfs_at s' (RootCfs r) = Some cq' \<and> 0 \<le> dist (min_vruntime cq) (min_vruntime cq')
    \<and> se_at s' (TaskSe p) = Some se'
    \<and> vruntime se' = placed X flags (min_vruntime cq') (arrives_with X (RootCfs r) (TaskSe p) flags s cq se)
    \<and> near (min_vruntime cq') (vruntime se')
    \<and> (flags AND ENQUEUE_WAKEUP X \<noteq> 0 \<longrightarrow> - uint (sleeper_bonus X) \<le> dist (min_vruntime cq') (vruntime se'))
    \<and> (\<forall>d. d \<noteq> TaskSe p \<longrightarrow> cfs_curr cq \<noteq> Some d \<longrightarrow> se_at s' d = se_at s d)
    \<and> curr_charged X (RootCfs r) (TaskSe p) s s'"
proof -
  obtain s' cq' se' where s': "enqueue_task_fair X r p flags s = Some s'" "rq_wf X r s'"
    "runnable (RootCfs r) s' = insert (TaskSe p) (runnable (RootCfs r) s)" "cfs_at s' (RootCfs r) = Some cq'"
    "se_at s' (TaskSe p) = Some se'"
    "vruntime se' = placed X flags (min_vruntime cq') (arrives_with X (RootCfs r) (TaskSe p) flags s cq se)"
    "\<forall>d. d \<noteq> TaskSe p \<longrightarrow> cfs_curr cq \<noteq> Some d \<longrightarrow> se_at s' d = se_at s d"
    "curr_charged X (RootCfs r) (TaskSe p) s s'"
    and d: "0 \<le> dist (min_vruntime cq) (min_vruntime cq')" "dist (min_vruntime cq) (min_vruntime cq') < 2 ^ 31"
    using enqueue_task_fair_spec [OF assms] by blast
  show ?thesis using s' d(1) placed_near [OF laws(1,3) arr d] by (metis s'(6))
qed

text \<open>The demonstration state with a third task, which sleeps.\<close>

definition demo_sleep :: sched where
  "demo_sleep = demo_sched\<lparr>tasks := (tasks demo_sched)(3 \<mapsto> demo_task 3),
     se_at := (se_at demo_sched)(TaskSe 3 \<mapsto> (demo_entity 500)\<lparr>on_rq := False\<rparr>)\<rparr>"

lemma demo_sleep_at:
  "cfs_at demo_sleep (RootCfs 0) = Some demo_cfs" "runqueues demo_sleep 0 = Some demo_rq"
  "se_at demo_sleep (TaskSe 3) = Some ((demo_entity 500)\<lparr>on_rq := False\<rparr>)"
  "se_at demo_sleep (TaskSe (Suc 0)) = Some (demo_entity 2000)"
  by (simp_all add: demo_sleep_def demo_sched_def)

lemma demo_queue_laws:
  "acct_ok demo_sched_ext" "latency_ok demo_sched_ext" "flat demo_sched_ext" "buddy_ok demo_sched_ext"
  "cfs_rq_of demo_sched_ext (TaskSe p) = RootCfs 0"
  by (auto simp: acct_ok_def latency_ok_def flat_def buddy_ok_def demo_sched_ext_def split: se_ptr.splits)

lemma demo_sleep_timeline:
  "timeline (RootCfs 0) demo_sleep = [TaskSe 2]" "timeline_ok demo_sched_ext (RootCfs 0) demo_sleep"
  by (rule timeline_ok_off(2) [OF demo_timeline(3) demo_at(1) demo_sleep_at(1), unfolded demo_timeline(1)]
        timeline_ok_off(1) [OF demo_timeline(3) demo_at(1) demo_sleep_at(1), unfolded demo_timeline(1)];
      simp add: demo_sleep_def)+

lemma demo_sleep_runnable: "runnable (RootCfs 0) demo_sleep = {TaskSe 1, TaskSe 2}"
  by (auto simp: runnable_at [OF demo_sleep_at(1)] demo_sleep_timeline is_on_rq_def demo_sleep_at)

lemma demo_sleep_wf: "rq_wf demo_sched_ext 0 demo_sleep"
proof -
  have "curr_ok (RootCfs 0) demo_sleep"
    by (rule curr_okI [OF demo_sleep_at(1)]) (auto simp: demo_sleep_timeline demo_sleep_at near_def dist_def)
  moreover have on: "is_on_rq demo_sleep e \<longleftrightarrow> e \<in> {TaskSe 1, TaskSe 2}" for e
    by (auto simp: is_on_rq_def demo_sleep_def demo_sched_def split: if_splits)
  have "e \<in> runnable (RootCfs 0) demo_sleep \<longleftrightarrow>
      cfs_rq_of demo_sched_ext e = RootCfs 0 \<and> is_on_rq demo_sleep e" for e
    by (cases e) (auto simp: demo_sleep_runnable demo_queue_laws on)
  moreover have "cfs_nr_running demo_cfs = of_nat (card (runnable (RootCfs 0) demo_sleep))"
    by (simp add: demo_sleep_runnable)
  ultimately have "cfs_wf demo_sched_ext (RootCfs 0) demo_sleep"
    using cfs_wfI [OF demo_sleep_timeline(2) _ demo_sleep_at(1)] by blast
  then show ?thesis by (simp add: rq_wf_def demo_sleep_at demo_sleep_runnable demo_cfs_def demo_rq_def)
qed

lemma demo_sleep_window: "window demo_sched_ext (RootCfs 0) demo_sleep"
proof -
  have "charge demo_sched_ext (RootCfs 0) demo_sleep (demo_entity 2000) = 5000"
    by (simp add: demo_charge calc_delta_fair_def NICE_0_LOAD_def demo_sleep_def)
  then show ?thesis
    by (auto simp: window_def curr_se_def running_def near_def dist_def demo_sleep_at)
qed

theorem enqueue_task_fair_correct_witness:
  "\<exists>s'. enqueue_task_fair demo_sched_ext 0 3 1 demo_sleep = Some s' \<and> rq_wf demo_sched_ext 0 s'
     \<and> runnable (RootCfs 0) s' = {TaskSe 3, TaskSe 1, TaskSe 2}
     \<and> curr_charged demo_sched_ext (RootCfs 0) (TaskSe 3) demo_sleep s'"
proof -
  have arr: "arrival_ok demo_sched_ext 1 (min_vruntime demo_cfs)
      (arrives_with demo_sched_ext (RootCfs 0) (TaskSe 3) 1 demo_sleep demo_cfs ((demo_entity 500)\<lparr>on_rq := False\<rparr>))"
    by (simp add: arrival_ok_def arrives_with_def demo_sched_ext_def dist_def)
  show ?thesis
    using enqueue_task_fair_correct [OF demo_vr_ok demo_queue_laws(1-3) demo_sleep_wf demo_sleep_window
        demo_sleep_at(1,3) _ demo_queue_laws(5) arr] demo_sleep_runnable by auto
qed

text \<open>C21: A task that stops being runnable.  \<^verbatim>\<open>dequeue_task_fair\<close> on a well-formed run queue never
  faults, whether the task waits or runs; afterwards the run queue is well formed and the task is
  no longer among its runnable entities, so that all three counters shrink by one; no buddy
  pointer names it; it is charged if it was running, and unless it sleeps its virtual run time
  becomes relative to the minimum; no other waiting entity changes.\<close>

theorem dequeue_task_fair_correct:
  assumes laws: "vr_ok X" "acct_ok X" "buddy_ok X" "flat X" and wf: "rq_wf X r s" "window X (RootCfs r) s"
    and cq: "cfs_at s (RootCfs r) = Some cq"
    and e: "TaskSe p \<in> runnable (RootCfs r) s" and se: "se_at s (TaskSe p) = Some se"
  shows "\<exists>s' cq' se' m. dequeue_task_fair X r p flags s = Some s' \<and> rq_wf X r s'
    \<and> runnable (RootCfs r) s' = runnable (RootCfs r) s - {TaskSe p}
    \<and> cfs_at s' (RootCfs r) = Some cq' \<and> cfs_curr cq' = cfs_curr cq
    \<and> cfs_next cq' = forget (TaskSe p) (cfs_next cq) \<and> cfs_last cq' = forget (TaskSe p) (cfs_last cq)
    \<and> cfs_skip cq' = forget (TaskSe p) (cfs_skip cq)
    \<and> se_at s' (TaskSe p) = Some se' \<and> vruntime se' = departs_with X flags m
         (vruntime se + (if cfs_curr cq = Some (TaskSe p) then charge X (RootCfs r) s se else 0))
    \<and> 0 \<le> dist (min_vruntime cq) m \<and> 0 \<le> dist m (min_vruntime cq')
    \<and> (\<forall>d. d \<noteq> TaskSe p \<longrightarrow> cfs_curr cq \<noteq> Some d \<longrightarrow> se_at s' d = se_at s d)"
  using dequeue_task_fair_spec [OF assms, of flags] by blast

theorem dequeue_task_fair_correct_witness:
  "\<exists>s'. dequeue_task_fair demo_sched_ext 0 1 0 demo_sleep = Some s' \<and> rq_wf demo_sched_ext 0 s'
     \<and> runnable (RootCfs 0) s' = {TaskSe 2}"
proof -
  have "TaskSe 1 \<in> runnable (RootCfs 0) demo_sleep" "se_at demo_sleep (TaskSe 1) = Some (demo_entity 2000)"
    by (simp_all add: demo_sleep_runnable demo_sleep_at)
  from dequeue_task_fair_correct [OF demo_vr_ok demo_queue_laws(1,4,3) demo_sleep_wf demo_sleep_window
      demo_sleep_at(1) this, of 0] demo_sleep_runnable
  show ?thesis by auto
qed

end
