(* ===== verification/Sched_C.thy ===== *)
theory Sched_C
  imports Sched_Demo Mm_H
begin

text \<open>
  The scheduler core of \<^verbatim>\<open>kernel/core/sched/sched.c\<close>: task allocation, fork, the run queue
  operations, \<^verbatim>\<open>schedule\<close> and the context switch with the routine \<^verbatim>\<open>switch_to\<close> of
  \<^verbatim>\<open>arch/x86_64/cpu/switch.S\<close>, together with the stubs of \<^verbatim>\<open>main.c\<close> that it calls.

  \<^verbatim>\<open>sched_fork\<close>, \<^verbatim>\<open>wake_up_new_task\<close> and \<^verbatim>\<open>schedule\<close> never assign their local \<^verbatim>\<open>flags\<close>: they pass its value
  where \<^verbatim>\<open>spin_lock_irqsave\<close> takes an address, or drop the result of \<^verbatim>\<open>local_irq_save\<close>.  What the local
  happens to hold is the parameter \<open>uninit_sched_flags\<close>; it is what they restore at the end.  (The saved
  flags are stored at that address, which is not part of the state.)  A call through a null \<^verbatim>\<open>sched_class\<close> is a fault.  The functions of the architecture, the tracers
  and the notifiers act on \<open>arch_state\<close> only; those that keep statistics on the \<^verbatim>\<open>sched_info\<close> of
  the tasks and the run queue.  Barriers have no effect on values and are left out.
\<close>

section \<open>Parameters\<close>

record core_ext =
  base :: sched_ext
  uninit_sched_flags :: ulong
  sizeof_task_struct :: u64
  SIGCHLD :: int
  DEFAULT_TIMESLICE :: u32
  TASK_NORMAL :: u64
  TASK_DEAD :: u64
  task_contributes_to_load :: "task_struct \<Rightarrow> bool"
  class_order :: "sched_class list"
  other_enqueue :: "sched_class \<Rightarrow> nat \<Rightarrow> nat \<Rightarrow> s32 \<Rightarrow> sched \<Rightarrow> sched option"
  other_dequeue :: "sched_class \<Rightarrow> nat \<Rightarrow> nat \<Rightarrow> s32 \<Rightarrow> sched \<Rightarrow> sched option"
  other_yield :: "sched_class \<Rightarrow> nat \<Rightarrow> sched \<Rightarrow> sched option"
  other_pick_next :: "sched_class \<Rightarrow> nat \<Rightarrow> nat option \<Rightarrow> sched \<Rightarrow> (nat option \<times> sched) option"
  check_preempt_curr :: "nat \<Rightarrow> nat \<Rightarrow> s32 \<Rightarrow> sched \<Rightarrow> sched option"
  prepare_lock_switch :: "nat \<Rightarrow> nat \<Rightarrow> u64 \<Rightarrow> u64"
  prepare_arch_switch :: "nat \<Rightarrow> u64 \<Rightarrow> u64"
  arch_start_context_switch :: "nat \<Rightarrow> u64 \<Rightarrow> u64"
  finish_arch_switch :: "nat \<Rightarrow> u64 \<Rightarrow> u64"
  enter_lazy_tlb :: "nat \<Rightarrow> nat \<Rightarrow> u64 \<Rightarrow> u64"
  switch_mm :: "nat option \<Rightarrow> nat \<Rightarrow> nat \<Rightarrow> u64 \<Rightarrow> u64"
  after_switch_to :: u64
  finish_lock_switch :: "nat \<Rightarrow> sched \<Rightarrow> sched option"
  mmdrop :: "nat \<Rightarrow> sched \<Rightarrow> sched option"
  this_rq :: nat
  this_rq_lock :: "sched \<Rightarrow> (nat \<times> sched) option"
  preempt_disable :: "task_struct \<Rightarrow> task_struct"
  preempt_enable :: "task_struct \<Rightarrow> task_struct"
  set_state :: "u64 \<Rightarrow> task_struct \<Rightarrow> task_struct"
  raw_spin_lock_irqsave :: "spinlock_t \<Rightarrow> u64 \<Rightarrow> (spinlock_t \<times> ulong \<times> u64) option"
  raw_spin_unlock_irqrestore :: "spinlock_t \<Rightarrow> ulong \<Rightarrow> u64 \<Rightarrow> (spinlock_t \<times> u64) option"
  ttwu_remote :: "nat \<Rightarrow> sched \<Rightarrow> bool \<times> sched"
  ttwu_queue :: "nat \<Rightarrow> u32 \<Rightarrow> sched \<Rightarrow> sched option"
  RB_CLEAR_NODE :: "u64 \<Rightarrow> u64"
  sigemptyset :: "sigset_t \<Rightarrow> sigset_t"
  init_waitqueue_head :: "nat \<Rightarrow> wait_queue_head \<Rightarrow> wait_queue_head"
  sched_info_queued :: "rq \<Rightarrow> task_struct \<Rightarrow> sched_info \<times> sched_info"
  sched_info_dequeued :: "rq \<Rightarrow> task_struct \<Rightarrow> sched_info \<times> sched_info"
  sched_info_switch :: "rq \<Rightarrow> task_struct \<Rightarrow> task_struct \<Rightarrow> sched_info \<times> sched_info \<times> sched_info"
  schedstat_inc_yld_count :: "rq \<Rightarrow> rq"
  perf_event_task_sched_out :: "nat \<Rightarrow> nat \<Rightarrow> u64 \<Rightarrow> u64"
  fire_sched_out_preempt_notifiers :: "nat \<Rightarrow> nat \<Rightarrow> u64 \<Rightarrow> u64"
  perf_event_task_sched_in :: "nat \<Rightarrow> nat option \<Rightarrow> u64 \<Rightarrow> u64"
  fire_sched_in_preempt_notifiers :: "nat option \<Rightarrow> u64 \<Rightarrow> u64"

text \<open>The statistics functions return the new \<^verbatim>\<open>rq->rq_sched_info\<close> first, then that of the tasks.\<close>

section \<open>Stubs of main.c\<close>

definition kmalloc :: "u64 \<Rightarrow> gfp_t \<Rightarrow> sched \<Rightarrow> nat option \<times> sched" where "kmalloc n flags s = (None, s)"

definition kfree :: "nat option \<Rightarrow> sched \<Rightarrow> sched" where "kfree ptr s = s"

definition get_jiffies_64 :: "sched \<Rightarrow> u64 \<times> sched" where
  "get_jiffies_64 s = (jiffies_get s, s\<lparr>jiffies_get := jiffies_get s + 1\<rparr>)"

definition update_jiffies :: "sched \<Rightarrow> sched" where
  "update_jiffies s = s\<lparr>jiffies_update := jiffies_update s + 1\<rparr>"

section \<open>Initialisation\<close>

definition zero_info :: sched_info where
  "zero_info = \<lparr>si_pcount = 0, si_run_delay = 0, si_last_arrival = 0, si_last_queued = 0, si_pcnt = 0\<rparr>"

definition init_rq :: "nat \<Rightarrow> sched \<Rightarrow> sched option" where
  "init_rq cpu s = do {
     s \<leftarrow> upd_rq cpu (\<lambda>q. q\<lparr>rq_lock := spin_lock_init (rq_lock q), rq_nr_running := 0,
            rq_load := \<lparr>weight = 0, inv_weight = 0\<rparr>, rq_curr := None, rq_idle := None,
            rq_stop := None, rq_cpu := int cpu, rq_online := 1\<rparr>) s;
     s \<leftarrow> upd_cfs (RootCfs cpu) (\<lambda>cq. cq\<lparr>tasks_timeline := Leaf, min_vruntime := 0,
            cfs_nr_running := 0, cfs_load := \<lparr>weight = 0, inv_weight = 0\<rparr>\<rparr>) s;
     s \<leftarrow> upd_snodes (INIT_LIST_HEAD (At (Cfs_tasks cpu))) s;
     s \<leftarrow> upd_rq cpu (\<lambda>q. q\<lparr>rq_rt := \<lparr>rt_nr_running = 0, highest_prio_curr = MAX_RT_PRIO,
              highest_prio_next = MAX_RT_PRIO\<rparr>,
            rq_dl := \<lparr>dl_nr_running = 0, dl_time = 0, dl_bw = 0\<rparr>, clock := 0, clock_task := 0,
            next_balance := 0, balance_callback := None, idle_balance := 0, active_balance := 0,
            push_cpu := -1\<rparr>) s;
     s \<leftarrow> upd_rq cpu (\<lambda>q. q\<lparr>nr_switches := 0, nr_load_updates := 0, avg_idle := 0, idle_stamp := 0,
            age_stamp := 0, rt_avg := 0, prev_irq_time := 0, prev_steal_time := 0,
            prev_steal_time_rq := 0, nohz_tick_stopped := 0, nohz_flags := 0, nohz_stamp := 0\<rparr>) s;
     upd_rq cpu (\<lambda>q. q\<lparr>last_load_update_tick := 0, last_blocked_load_update_tick := 0,
            has_blocked_load := 0, max_idle_balance_cost := 0, wake_stamp := 0, wake_avg_idle := 0,
            balance_cpu := -1, ttwu_count := 0, ttwu_local := 0, rq_sched_info := zero_info\<rparr>) s }"

definition sched_init :: "sched \<Rightarrow> sched option" where
  "sched_init s = do {
     s \<leftarrow> upd_snodes (INIT_LIST_HEAD (At Task_list)) s;
     let s = s\<lparr>task_list_lock := spin_lock_init (task_list_lock s)\<rparr>;
     for_each init_rq [0..<NR_CPUS] s }"

section \<open>Tasks\<close>

definition get_current :: "sched \<Rightarrow> nat option" where "get_current s = current_task s"

definition set_current :: "nat option \<Rightarrow> sched \<Rightarrow> sched" where
  "set_current p s = s\<lparr>current_task := p\<rparr>"

definition alloc_pid :: "sched \<Rightarrow> pid_t \<times> sched" where
  "alloc_pid s =
     (let pid = next_pid s; s = s\<lparr>next_pid := next_pid s + 1\<rparr>
      in (pid, if sint PID_MAX \<le> sint (next_pid s) then s\<lparr>next_pid := 1\<rparr> else s))"

text \<open>The memory that \<^verbatim>\<open>memset\<close> clears: the task, its entity and its list nodes.\<close>

definition zero_lock :: spinlock_t where
  "zero_lock = \<lparr>sl_lock = 0, owner_cpu = 0, sl_owner = None, sl_name = [], sl_magic = 0\<rparr>"

definition zero_entity :: sched_entity where
  "zero_entity = \<lparr>se_load = \<lparr>weight = 0, inv_weight = 0\<rparr>, exec_start = 0, sum_exec_runtime = 0,
     vruntime = 0, prev_sum_exec_runtime = 0, nr_migrations = 0, on_rq = False\<rparr>"

definition zero_rest :: task_rest where
  "zero_rest = \<lparr>t_run_node = 0, t_fs = None, t_files = None, t_signal = None, t_sighand = None,
     t_blocked = \<lparr>sig_words = [0, 0]\<rparr>, t_real_blocked = \<lparr>sig_words = [0, 0]\<rparr>, t_saved_sigmask = \<lparr>sig_words = [0, 0]\<rparr>,
     t_regs = None, t_thread_fn = None, t_thread_data = None, t_nsproxy = None, t_audit_context = 0,
     t_perf_event_ctxp = None, t_sched_task_group = None, t_cgroups = None, t_personality = 0,
     t_did_exec = 0, t_in_execve = 0, t_in_iowait = 0, t_no_new_privs = 0, t_sched_reset_on_fork = 0,
     t_sched_contributes_to_load = 0, t_sched_migrated = 0, t_security = None, t_trace = 0,
     t_trace_recursion = 0, t_delays = None, t_make_it_fail = 0, t_scm_work_list = None,
     t_wait_chldexit = \<lparr>wq_lock = zero_lock, wq_task_list = \<lparr>lnext = Null, lprev = Null\<rparr>\<rparr>,
     t_task_exit_notifier = None, t_stats = None, t_mempolicy = None, t_il_next = 0, t_pref_node_fork = 0,
     t_bio_list = None, t_plug = None, t_blocked_on = None, t_tracer = None, t_socket = None, t_net_ns = None,
     t_migrate_disable = 0, t_rcu_read_lock_nesting = 0, t_rcu_read_unlock_special = 0,
     t_rcu_blocked_node = None, t_rcu_tasks_holdout = 0\<rparr>"

definition zero_task :: task_struct where
  "zero_task = \<lparr>t_state = 0, t_exit_state = 0, t_exit_code = 0, t_exit_signal = 0, t_flags = 0,
     t_ptrace = 0, t_pid = 0, t_tgid = 0, t_ppid = 0, t_pgrp = 0, t_session = 0, t_uid = 0, t_gid = 0,
     t_euid = 0, t_egid = 0, t_suid = 0, t_sgid = 0, t_fsuid = 0, t_fsgid = 0, t_prio = 0,
     t_static_prio = 0, t_normal_prio = 0,
     t_rt = \<lparr>rt_timeout = 0, rt_watchdog_stamp = 0, rt_time_slice = 0, rt_back = None,
       rt_parent = None, rt_rq = None, rt_my_q = None\<rparr>,
     t_policy = 0, t_cpus_allowed = 0,
     t_nr_cpus_allowed = 0, t_real_parent = None, t_parent = None, t_group_leader = None,
     t_mm = None, t_active_mm = None, t_stack = None, t_stack_size = 0,
     t_utime = 0, t_stime = 0, t_gtime = 0, t_start_time = 0, t_real_start_time = 0, t_min_flt = 0,
     t_maj_flt = 0, t_nvcsw = 0, t_nivcsw = 0, t_comm = [], t_alloc_lock = zero_lock,
     t_pi_lock = zero_lock, t_preempt_count = 0, t_usage = 0, t_sched_info = zero_info,
     t_last_cpu = 0, t_wake_cpu = 0, t_rcu_tasks_idle_cpu = 0, t_sched_class = None,
     t_thread_flags = 0, t_rest = zero_rest\<rparr>"

definition memset_task :: "nat \<Rightarrow> sched \<Rightarrow> sched" where
  "memset_task p s = s\<lparr>tasks := (tasks s)(p \<mapsto> zero_task), se_at := (se_at s)(TaskSe p \<mapsto> zero_entity),
     sched_nodes := (\<lambda>n. case n of
        TaskNode f r \<Rightarrow> if r = p then Some \<lparr>lnext = Null, lprev = Null\<rparr> else sched_nodes s n
      | _ \<Rightarrow> sched_nodes s n)\<rparr>"

text \<open>\<^verbatim>\<open>prio_to_weight[prio - MAX_RT_PRIO]\<close>; outside the table it is a wild read.\<close>

definition prio_weight :: "int \<Rightarrow> u64 option" where
  "prio_weight prio = (let i = prio - MAX_RT_PRIO in
     if 0 \<le> i \<and> i < int (length prio_to_weight) then Some (word_of_int (prio_to_weight ! nat i)) else None)"

definition init_task_rest :: "core_ext \<Rightarrow> nat \<Rightarrow> task_rest \<Rightarrow> task_rest" where
  "init_task_rest C p r = r\<lparr>t_run_node := RB_CLEAR_NODE C (t_run_node r),
     t_fs := None, t_files := None, t_signal := None, t_sighand := None,
     t_blocked := sigemptyset C (t_blocked r), t_real_blocked := sigemptyset C (t_real_blocked r),
     t_saved_sigmask := sigemptyset C (t_saved_sigmask r), t_regs := None,
     t_thread_fn := None, t_thread_data := None, t_nsproxy := None, t_audit_context := 0,
     t_perf_event_ctxp := None, t_sched_task_group := None, t_cgroups := None,
     t_personality := 0, t_did_exec := 0, t_in_execve := 0, t_in_iowait := 0, t_no_new_privs := 0,
     t_sched_reset_on_fork := 0, t_sched_contributes_to_load := 0, t_sched_migrated := 0,
     t_security := None, t_trace := 0, t_trace_recursion := 0, t_delays := None, t_make_it_fail := 0,
     t_scm_work_list := None, t_wait_chldexit := init_waitqueue_head C p (t_wait_chldexit r),
     t_task_exit_notifier := None, t_stats := None, t_mempolicy := None, t_il_next := 0,
     t_pref_node_fork := 0, t_bio_list := None, t_plug := None, t_blocked_on := None, t_tracer := None,
     t_socket := None, t_net_ns := None, t_migrate_disable := 0, t_rcu_read_lock_nesting := 0,
     t_rcu_read_unlock_special := 0, t_rcu_blocked_node := None, t_rcu_tasks_holdout := 0\<rparr>"

definition init_task_fields :: "core_ext \<Rightarrow> nat \<Rightarrow> pid_t \<Rightarrow> task_struct \<Rightarrow> task_struct" where
  "init_task_fields C p pid t = t\<lparr>t_stack_size := THREAD_SIZE, t_state := TASK_RUNNING,
     t_exit_state := 0, t_exit_code := 0, t_exit_signal := SIGCHLD C, t_flags := 0, t_ptrace := 0,
     t_pid := pid, t_tgid := pid, t_ppid := 0, t_pgrp := 0, t_session := 0,
     t_uid := 0, t_gid := 0, t_euid := 0, t_egid := 0, t_suid := 0, t_sgid := 0, t_fsuid := 0, t_fsgid := 0,
     t_prio := DEFAULT_PRIO, t_static_prio := DEFAULT_PRIO, t_normal_prio := DEFAULT_PRIO,
     t_policy := SCHED_NORMAL (base C),
     t_rt := \<lparr>rt_timeout = 0, rt_watchdog_stamp = 0, rt_time_slice = DEFAULT_TIMESLICE C,
       rt_back = None, rt_parent = None, rt_rq = None, rt_my_q = None\<rparr>,
     t_cpus_allowed := push_bit NR_CPUS 1 - 1, t_nr_cpus_allowed := of_nat NR_CPUS,
     t_real_parent := None, t_parent := None, t_group_leader := Some p,
     t_mm := None, t_active_mm := None,
     t_utime := 0, t_stime := 0, t_gtime := 0, t_start_time := 0, t_real_start_time := 0,
     t_min_flt := 0, t_maj_flt := 0, t_nvcsw := 0, t_nivcsw := 0, t_comm := ''suibian'',
     t_preempt_count := 0, t_usage := 1, t_sched_info := zero_info,
     t_last_cpu := -1, t_wake_cpu := -1, t_rcu_tasks_idle_cpu := -1,
     t_rest := init_task_rest C p (t_rest t)\<rparr>"

definition alloc_task_struct :: "core_ext \<Rightarrow> sched \<Rightarrow> (nat option \<times> sched) option" where
  "alloc_task_struct C s = (
     let (a, s) = kmalloc (sizeof_task_struct C) GFP_KERNEL s in
     case a of
       None \<Rightarrow> Some (None, s)
     | Some p \<Rightarrow> do {
         let s = memset_task p s;
         let (st, s) = kmalloc THREAD_SIZE GFP_KERNEL s;
         s \<leftarrow> upd_task p (\<lambda>t. t\<lparr>t_stack := map_option of_nat st\<rparr>) s;
         if st = None then Some (None, kfree (Some p) s)
         else do {
           let (pid, s) = alloc_pid s;
           s \<leftarrow> upd_task p (init_task_fields C p pid) s;
           w \<leftarrow> prio_weight DEFAULT_PRIO;
           s \<leftarrow> upd_se (TaskSe p) (\<lambda>se. se\<lparr>se_load := \<lparr>weight = w, inv_weight = 0\<rparr>, exec_start := 0,
                  sum_exec_runtime := 0, vruntime := 0, prev_sum_exec_runtime := 0, nr_migrations := 0\<rparr>) s;
           s \<leftarrow> for_each (\<lambda>f. upd_snodes (INIT_LIST_HEAD (At (TaskNode f p))))
                  [Run_list, Children, Sibling, Tasks, Ptraced, Ptrace_entry, Rcu_tasks_holdout_list] s;
           Some (Some p, s) } })"

definition free_task_struct :: "nat option \<Rightarrow> sched \<Rightarrow> sched option" where
  "free_task_struct tsk s = (case tsk of None \<Rightarrow> Some s
     | Some p \<Rightarrow> do {
         t \<leftarrow> tasks s p;
         let s = (if t_stack t \<noteq> None then kfree (map_option unat (t_stack t)) s else s);
         Some (kfree (Some p) s) })"

definition get_task_struct :: "nat \<Rightarrow> sched \<Rightarrow> sched option" where
  "get_task_struct p = upd_task p (\<lambda>t. t\<lparr>t_usage := t_usage t + 1\<rparr>)"

definition put_task_struct :: "nat \<Rightarrow> sched \<Rightarrow> sched option" where
  "put_task_struct p s = do {
     s \<leftarrow> upd_task p (\<lambda>t. t\<lparr>t_usage := t_usage t - 1\<rparr>) s;
     t \<leftarrow> tasks s p;
     if t_usage t = 0 then free_task_struct (Some p) s else Some s }"

text \<open>\<^verbatim>\<open>*tsk = *orig\<close> copies the embedded entity and list nodes too.\<close>

definition copy_task :: "nat \<Rightarrow> nat \<Rightarrow> sched \<Rightarrow> sched option" where
  "copy_task p orig s = do {
     t \<leftarrow> tasks s orig;
     se \<leftarrow> se_at s (TaskSe orig);
     Some (s\<lparr>tasks := (tasks s)(p \<mapsto> t), se_at := (se_at s)(TaskSe p \<mapsto> se),
       sched_nodes := (\<lambda>n. case n of
          TaskNode f r \<Rightarrow> if r = p then sched_nodes s (TaskNode f orig) else sched_nodes s n
        | _ \<Rightarrow> sched_nodes s n)\<rparr>) }"

definition dup_task_struct :: "core_ext \<Rightarrow> nat \<Rightarrow> sched \<Rightarrow> (nat option \<times> sched) option" where
  "dup_task_struct C orig s = do {
     (tsk, s) \<leftarrow> alloc_task_struct C s;
     case tsk of
       None \<Rightarrow> Some (None, s)
     | Some p \<Rightarrow> do {
         s \<leftarrow> copy_task p orig s;
         let (pid, s) = alloc_pid s;
         s \<leftarrow> upd_task p (\<lambda>t. t\<lparr>t_pid := pid, t_state := TASK_RUNNING, t_exit_state := 0,
                t_exit_code := 0\<rparr>) s;
         s \<leftarrow> for_each (\<lambda>f. upd_snodes (INIT_LIST_HEAD (At (TaskNode f p)))) [Tasks, Children, Sibling] s;
         s \<leftarrow> upd_task p (\<lambda>t. t\<lparr>t_alloc_lock := spin_lock_init (t_alloc_lock t),
                t_rest := (t_rest t)\<lparr>t_run_node := RB_CLEAR_NODE C (t_run_node (t_rest t)),
                  t_wait_chldexit := init_waitqueue_head C p (t_wait_chldexit (t_rest t))\<rparr>,
                t_utime := 0, t_stime := 0, t_gtime := 0\<rparr>) s;
         let (now, s) = get_jiffies_64 s;
         s \<leftarrow> upd_task p (\<lambda>t. t\<lparr>t_start_time := now, t_real_start_time := now,
                t_min_flt := 0, t_maj_flt := 0, t_nvcsw := 0, t_nivcsw := 0\<rparr>) s;
         s \<leftarrow> upd_se (TaskSe p) (\<lambda>se. se\<lparr>exec_start := 0, sum_exec_runtime := 0,
                prev_sum_exec_runtime := 0, nr_migrations := 0\<rparr>) s;
         s \<leftarrow> upd_task p (\<lambda>t. t\<lparr>t_usage := 1\<rparr>) s;
         Some (Some p, s) } }"

section \<open>Locks\<close>

definition no_panic :: "lock_panic + 'a \<Rightarrow> 'a option" where
  "no_panic r = (case r of Inl _ \<Rightarrow> None | Inr x \<Rightarrow> Some x)"

definition task_list_lock_irqsave :: "sched \<Rightarrow> sched option" where
  "task_list_lock_irqsave s = do {
     r \<leftarrow> spin_lock_irqsave smp_processor_id (caller_addr s) (task_list_lock s) (eflags s);
     (l, _, rf) \<leftarrow> no_panic r;
     Some (s\<lparr>task_list_lock := l, eflags := rf\<rparr>) }"

definition task_list_unlock_irqrestore :: "ulong \<Rightarrow> sched \<Rightarrow> sched option" where
  "task_list_unlock_irqrestore flags s = do {
     (l, rf) \<leftarrow> no_panic (spin_unlock_irqrestore smp_processor_id (task_list_lock s) flags (eflags s));
     Some (s\<lparr>task_list_lock := l, eflags := rf\<rparr>) }"

definition rq_lock_irqsave :: "nat \<Rightarrow> sched \<Rightarrow> sched option" where
  "rq_lock_irqsave r s = do {
     q \<leftarrow> runqueues s r;
     x \<leftarrow> spin_lock_irqsave smp_processor_id (caller_addr s) (rq_lock q) (eflags s);
     (l, _, rf) \<leftarrow> no_panic x;
     s \<leftarrow> upd_rq r (\<lambda>q. q\<lparr>rq_lock := l\<rparr>) s;
     Some (s\<lparr>eflags := rf\<rparr>) }"

definition rq_unlock_irqrestore :: "nat \<Rightarrow> ulong \<Rightarrow> sched \<Rightarrow> sched option" where
  "rq_unlock_irqrestore r flags s = do {
     q \<leftarrow> runqueues s r;
     (l, rf) \<leftarrow> no_panic (spin_unlock_irqrestore smp_processor_id (rq_lock q) flags (eflags s));
     s \<leftarrow> upd_rq r (\<lambda>q. q\<lparr>rq_lock := l\<rparr>) s;
     Some (s\<lparr>eflags := rf\<rparr>) }"

definition rq_spin_lock :: "nat \<Rightarrow> sched \<Rightarrow> sched option" where
  "rq_spin_lock r s = do {
     q \<leftarrow> runqueues s r;
     x \<leftarrow> spin_lock smp_processor_id (caller_addr s) (rq_lock q);
     l \<leftarrow> no_panic x;
     upd_rq r (\<lambda>q. q\<lparr>rq_lock := l\<rparr>) s }"

definition rq_spin_unlock :: "nat \<Rightarrow> sched \<Rightarrow> sched option" where
  "rq_spin_unlock r s = do {
     q \<leftarrow> runqueues s r;
     l \<leftarrow> no_panic (spin_unlock smp_processor_id (rq_lock q));
     upd_rq r (\<lambda>q. q\<lparr>rq_lock := l\<rparr>) s }"

section \<open>Fork and wake up\<close>

text \<open>\<^verbatim>\<open>&runqueues[cpu]\<close>; a negative index is a wild pointer.\<close>

definition cpu_rq :: "int \<Rightarrow> nat option" where
  "cpu_rq cpu = (if 0 \<le> cpu then Some (nat cpu) else None)"

definition task_cpu :: "task_struct \<Rightarrow> int" where "task_cpu t = t_last_cpu t"

definition task_rq :: "nat \<Rightarrow> sched \<Rightarrow> nat option" where
  "task_rq p s = do { t \<leftarrow> tasks s p; cpu_rq (task_cpu t) }"

definition sched_fork :: "core_ext \<Rightarrow> nat \<Rightarrow> sched \<Rightarrow> sched option" where
  "sched_fork C p s = do {
     let cpu = smp_processor_id;
     s \<leftarrow> upd_task p (\<lambda>t. t\<lparr>t_state := TASK_RUNNING\<rparr>) s;
     s \<leftarrow> upd_se (TaskSe p) (\<lambda>se. se\<lparr>exec_start := 0, sum_exec_runtime := 0,
            prev_sum_exec_runtime := 0, vruntime := 0, nr_migrations := 0\<rparr>) s;
     c \<leftarrow> get_current s;
     ct \<leftarrow> tasks s c;
     s \<leftarrow> upd_task p (\<lambda>t. t\<lparr>t_policy := SCHED_NORMAL (base C), t_prio := t_normal_prio ct,
            t_static_prio := t_static_prio ct, t_normal_prio := t_normal_prio ct\<rparr>) s;
     pt \<leftarrow> tasks s p;
     w \<leftarrow> prio_weight (t_static_prio pt);
     s \<leftarrow> upd_se (TaskSe p) (\<lambda>se. se\<lparr>se_load := \<lparr>weight = w, inv_weight = 0\<rparr>\<rparr>) s;
     ct \<leftarrow> tasks s c;
     s \<leftarrow> upd_task p (\<lambda>t. t\<lparr>t_cpus_allowed := t_cpus_allowed ct,
            t_nr_cpus_allowed := t_nr_cpus_allowed ct\<rparr>) s;
     pt \<leftarrow> tasks s p;
     s \<leftarrow> (if t_flags pt AND PF_KTHREAD \<noteq> 0 then do {
              s \<leftarrow> upd_task p (\<lambda>t. t\<lparr>t_mm := None\<rparr>) s;
              ct \<leftarrow> tasks s c;
              s \<leftarrow> upd_task p (\<lambda>t. t\<lparr>t_active_mm := t_active_mm ct\<rparr>) s;
              case t_active_mm ct of
                None \<Rightarrow> Some s
              | Some m \<Rightarrow> do { mm \<leftarrow> mm_at s m;
                  Some (s\<lparr>mm_at := (mm_at s)(m \<mapsto> mm\<lparr>mm_count := mm_count mm + 1\<rparr>)\<rparr>) } }
           else Some s);
     s \<leftarrow> upd_task p (\<lambda>t. t\<lparr>t_sched_info := zero_info, t_last_cpu := uint cpu, t_wake_cpu := uint cpu,
            t_preempt_count := FORK_PREEMPT_COUNT\<rparr>) s;
     s \<leftarrow> task_list_lock_irqsave s;
     s \<leftarrow> upd_snodes (list_add_tail (At (TaskNode Tasks p)) (At Task_list)) s;
     task_list_unlock_irqrestore (uninit_sched_flags C) s }"

definition class_enqueue :: "core_ext \<Rightarrow> sched_class \<Rightarrow> nat \<Rightarrow> nat \<Rightarrow> s32 \<Rightarrow> sched \<Rightarrow> sched option" where
  "class_enqueue C k = (if k = Fair_class then op_enqueue_task (fair_sched_class (base C)) else other_enqueue C k)"

definition class_dequeue :: "core_ext \<Rightarrow> sched_class \<Rightarrow> nat \<Rightarrow> nat \<Rightarrow> s32 \<Rightarrow> sched \<Rightarrow> sched option" where
  "class_dequeue C k = (if k = Fair_class then op_dequeue_task (fair_sched_class (base C)) else other_dequeue C k)"

definition class_yield :: "core_ext \<Rightarrow> sched_class \<Rightarrow> nat \<Rightarrow> sched \<Rightarrow> sched option" where
  "class_yield C k = (if k = Fair_class then op_yield_task (fair_sched_class (base C)) else other_yield C k)"

definition class_pick_next ::
    "core_ext \<Rightarrow> sched_class \<Rightarrow> nat \<Rightarrow> nat option \<Rightarrow> sched \<Rightarrow> (nat option \<times> sched) option" where
  "class_pick_next C k = (if k = Fair_class then op_pick_next_task (fair_sched_class (base C)) else other_pick_next C k)"

definition account_info ::
    "nat \<Rightarrow> nat \<Rightarrow> (rq \<Rightarrow> task_struct \<Rightarrow> sched_info \<times> sched_info) \<Rightarrow> sched \<Rightarrow> sched option" where
  "account_info r p f s = do {
     q \<leftarrow> runqueues s r;
     t \<leftarrow> tasks s p;
     let (qi, ti) = f q t;
     s \<leftarrow> upd_rq r (\<lambda>q. q\<lparr>rq_sched_info := qi\<rparr>) s;
     upd_task p (\<lambda>t. t\<lparr>t_sched_info := ti\<rparr>) s }"

definition enqueue_task :: "core_ext \<Rightarrow> nat \<Rightarrow> nat \<Rightarrow> s32 \<Rightarrow> sched \<Rightarrow> sched option" where
  "enqueue_task C r p flags s = do {
     s \<leftarrow> update_rq_clock (base C) r s;
     s \<leftarrow> (if flags AND ENQUEUE_RESTORE (base C) = 0 then account_info r p (sched_info_queued C) s else Some s);
     t \<leftarrow> tasks s p;
     k \<leftarrow> t_sched_class t;
     class_enqueue C k r p flags s }"

definition dequeue_task :: "core_ext \<Rightarrow> nat \<Rightarrow> nat \<Rightarrow> s32 \<Rightarrow> sched \<Rightarrow> sched option" where
  "dequeue_task C r p flags s = do {
     s \<leftarrow> update_rq_clock (base C) r s;
     s \<leftarrow> (if flags AND DEQUEUE_SAVE (base C) = 0 then account_info r p (sched_info_dequeued C) s else Some s);
     t \<leftarrow> tasks s p;
     k \<leftarrow> t_sched_class t;
     class_dequeue C k r p flags s }"

definition activate_task :: "core_ext \<Rightarrow> nat \<Rightarrow> nat \<Rightarrow> s32 \<Rightarrow> sched \<Rightarrow> sched option" where
  "activate_task C r p flags s = do {
     t \<leftarrow> tasks s p;
     s \<leftarrow> (if task_contributes_to_load C t
           then upd_rq r (\<lambda>q. q\<lparr>rq_nr_uninterruptible := rq_nr_uninterruptible q - 1\<rparr>) s else Some s);
     enqueue_task C r p flags s }"

definition deactivate_task :: "core_ext \<Rightarrow> nat \<Rightarrow> nat \<Rightarrow> s32 \<Rightarrow> sched \<Rightarrow> sched option" where
  "deactivate_task C r p flags s = do {
     t \<leftarrow> tasks s p;
     s \<leftarrow> (if task_contributes_to_load C t
           then upd_rq r (\<lambda>q. q\<lparr>rq_nr_uninterruptible := rq_nr_uninterruptible q + 1\<rparr>) s else Some s);
     dequeue_task C r p flags s }"

text \<open>\<^verbatim>\<open>task_rq_lock\<close> never stores through its argument \<^verbatim>\<open>flags\<close>, so the callers' local keeps its value.\<close>

partial_function (option) task_rq_lock :: "nat \<Rightarrow> ulong \<Rightarrow> sched \<Rightarrow> (nat \<times> sched) option" where
  "task_rq_lock p flags s = do {
     r \<leftarrow> task_rq p s;
     s \<leftarrow> rq_lock_irqsave r s;
     r' \<leftarrow> task_rq p s;
     if r = r' then Some (r, s)
     else do { s \<leftarrow> rq_unlock_irqrestore r flags s; task_rq_lock p flags s } }"

definition task_rq_unlock :: "nat \<Rightarrow> ulong \<Rightarrow> sched \<Rightarrow> sched option" where
  "task_rq_unlock r flags s = rq_unlock_irqrestore r flags s"

definition wake_up_new_task :: "core_ext \<Rightarrow> nat \<Rightarrow> sched \<Rightarrow> sched option" where
  "wake_up_new_task C p s = do {
     s \<leftarrow> upd_task p (\<lambda>t. t\<lparr>t_state := TASK_RUNNING\<rparr>) s;
     let flags = uninit_sched_flags C;
     (r, s) \<leftarrow> task_rq_lock p flags s;
     s \<leftarrow> activate_task C r p 0 s;
     s \<leftarrow> check_preempt_curr C r p (WF_FORK (base C)) s;
     task_rq_unlock r flags s }"

definition wake_up_process :: "core_ext \<Rightarrow> nat \<Rightarrow> sched \<Rightarrow> sched option" where
  "wake_up_process C p s = do {
     t \<leftarrow> tasks s p;
     (l, flags, rf) \<leftarrow> raw_spin_lock_irqsave C (t_pi_lock t) (eflags s);
     s \<leftarrow> upd_task p (\<lambda>t. t\<lparr>t_pi_lock := l\<rparr>) (s\<lparr>eflags := rf\<rparr>);
     t \<leftarrow> tasks s p;
     s \<leftarrow> (if t_state t AND TASK_NORMAL C = 0 then Some s
           else let (done, s) = ttwu_remote C p s
                in if \<not> done then ttwu_queue C p smp_processor_id s else Some s);
     t \<leftarrow> tasks s p;
     (l, rf) \<leftarrow> raw_spin_unlock_irqrestore C (t_pi_lock t) flags (eflags s);
     upd_task p (\<lambda>t. t\<lparr>t_pi_lock := l\<rparr>) (s\<lparr>eflags := rf\<rparr>) }"

section \<open>Scheduling\<close>

fun pick_from_classes ::
    "core_ext \<Rightarrow> nat \<Rightarrow> nat option \<Rightarrow> sched_class list \<Rightarrow> sched \<Rightarrow> (nat option \<times> sched) option" where
  "pick_from_classes C r prev [] s = Some (None, s)"
| "pick_from_classes C r prev (k # ks) s = do {
     (p, s) \<leftarrow> class_pick_next C k r prev s;
     if p \<noteq> None then Some (p, s) else pick_from_classes C r prev ks s }"

definition pick_next_task ::
    "core_ext \<Rightarrow> nat \<Rightarrow> nat option \<Rightarrow> sched \<Rightarrow> (nat option \<times> sched) option" where
  "pick_next_task C r prev s = do {
     q \<leftarrow> runqueues s r;
     cq \<leftarrow> cfs_at s (RootCfs r);
     (p, s) \<leftarrow> (if rq_nr_running q = h_nr_running cq
                then pick_next_task_fair (base C) r prev s else Some (None, s));
     if p \<noteq> None then Some (p, s)
     else do {
       (p, s) \<leftarrow> pick_from_classes C r prev (class_order C) s;
       if p \<noteq> None then Some (p, s)
       else do { q \<leftarrow> runqueues s r; Some (rq_idle q, s) } } }"

definition prepare_task_switch :: "core_ext \<Rightarrow> nat \<Rightarrow> nat \<Rightarrow> nat \<Rightarrow> sched \<Rightarrow> sched option" where
  "prepare_task_switch C r prev nxt s = do {
     q \<leftarrow> runqueues s r;
     pt \<leftarrow> tasks s prev;
     nt \<leftarrow> tasks s nxt;
     let (qi, pi, ni) = sched_info_switch C q pt nt;
     s \<leftarrow> upd_rq r (\<lambda>q. q\<lparr>rq_sched_info := qi\<rparr>) s;
     s \<leftarrow> upd_task prev (\<lambda>t. t\<lparr>t_sched_info := pi\<rparr>) s;
     s \<leftarrow> upd_task nxt (\<lambda>t. t\<lparr>t_sched_info := ni\<rparr>) s;
     let s = s\<lparr>arch_state := perf_event_task_sched_out C prev nxt (arch_state s)\<rparr>;
     let s = s\<lparr>arch_state := fire_sched_out_preempt_notifiers C prev nxt (arch_state s)\<rparr>;
     let s = s\<lparr>arch_state := prepare_lock_switch C r nxt (arch_state s)\<rparr>;
     Some (s\<lparr>arch_state := prepare_arch_switch C nxt (arch_state s)\<rparr>) }"

definition finish_task_switch :: "core_ext \<Rightarrow> nat \<Rightarrow> sched \<Rightarrow> sched option" where
  "finish_task_switch C prev s = do {
     let r = this_rq C;
     q \<leftarrow> runqueues s r;
     let mm = prev_mm q;
     s \<leftarrow> upd_rq r (\<lambda>q. q\<lparr>prev_mm := None\<rparr>) s;
     pt \<leftarrow> tasks s prev;
     let prev_state = t_state pt;
     let s = s\<lparr>arch_state := perf_event_task_sched_in C prev (get_current s) (arch_state s)\<rparr>;
     let s = s\<lparr>arch_state := finish_arch_switch C prev (arch_state s)\<rparr>;
     s \<leftarrow> finish_lock_switch C r s;
     let s = s\<lparr>arch_state := fire_sched_in_preempt_notifiers C (get_current s) (arch_state s)\<rparr>;
     s \<leftarrow> (case mm of None \<Rightarrow> Some s | Some m \<Rightarrow> mmdrop C m s);
     if prev_state = TASK_DEAD C then put_task_struct prev s else Some s }"

text \<open>The routine \<^verbatim>\<open>switch_to\<close> of \<^verbatim>\<open>switch.S\<close>.  At its entry \<^verbatim>\<open>rsp\<close> points at the return address that the
  call has pushed; the result is the address that its \<^verbatim>\<open>ret\<close> pops from the stack of the next task.\<close>

definition pushq :: "u64 \<Rightarrow> sched \<Rightarrow> sched" where
  "pushq v s = (let sp = rsp (regs s) - 8
     in s\<lparr>regs := (regs s)\<lparr>rsp := sp\<rparr>, stack_mem := (stack_mem s)(sp := v)\<rparr>)"

definition popq :: "sched \<Rightarrow> u64 \<times> sched" where
  "popq s = (stack_mem s (rsp (regs s)), s\<lparr>regs := (regs s)\<lparr>rsp := rsp (regs s) + 8\<rparr>\<rparr>)"

definition switch_to :: "nat \<Rightarrow> nat \<Rightarrow> sched \<Rightarrow> u64 \<times> sched" where
  "switch_to prev nxt s = (
     let s = pushq (rbp (regs s)) s;
         s = pushq (rbx (regs s)) s;
         s = pushq (r12 (regs s)) s;
         s = pushq (r13 (regs s)) s;
         s = pushq (r14 (regs s)) s;
         s = pushq (r15 (regs s)) s;
         s = pushq (eflags s) s;
         s = s\<lparr>thread_sp := (thread_sp s)(prev := rsp (regs s))\<rparr>;
         s = s\<lparr>regs := (regs s)\<lparr>rsp := thread_sp s nxt\<rparr>\<rparr>;
         (v, s) = popq s; s = s\<lparr>eflags := v\<rparr>;
         (v, s) = popq s; s = s\<lparr>regs := (regs s)\<lparr>r15 := v\<rparr>\<rparr>;
         (v, s) = popq s; s = s\<lparr>regs := (regs s)\<lparr>r14 := v\<rparr>\<rparr>;
         (v, s) = popq s; s = s\<lparr>regs := (regs s)\<lparr>r13 := v\<rparr>\<rparr>;
         (v, s) = popq s; s = s\<lparr>regs := (regs s)\<lparr>r12 := v\<rparr>\<rparr>;
         (v, s) = popq s; s = s\<lparr>regs := (regs s)\<lparr>rbx := v\<rparr>\<rparr>;
         (v, s) = popq s; s = s\<lparr>regs := (regs s)\<lparr>rbp := v\<rparr>\<rparr>
     in popq s)"

text \<open>After \<^verbatim>\<open>switch_to\<close> the code runs on the stack of the next task, in the frame that this task left
  when it was itself switched out by this function; there the local \<^verbatim>\<open>prev\<close> is that task.  The third
  argument of the call has no parameter in the routine, so \<^verbatim>\<open>prev\<close> is not assigned.\<close>

definition context_switch :: "core_ext \<Rightarrow> nat \<Rightarrow> nat \<Rightarrow> nat \<Rightarrow> sched \<Rightarrow> sched option" where
  "context_switch C r prev nxt s = do {
     s \<leftarrow> prepare_task_switch C r prev nxt s;
     nt \<leftarrow> tasks s nxt;
     pt \<leftarrow> tasks s prev;
     let oldmm = t_active_mm pt;
     let s = s\<lparr>arch_state := arch_start_context_switch C prev (arch_state s)\<rparr>;
     s \<leftarrow> (case t_mm nt of
         None \<Rightarrow> do {
           s \<leftarrow> upd_task nxt (\<lambda>t. t\<lparr>t_active_mm := oldmm\<rparr>) s;
           m \<leftarrow> oldmm;
           mm \<leftarrow> mm_at s m;
           let s = s\<lparr>mm_at := (mm_at s)(m \<mapsto> mm\<lparr>mm_count := mm_count mm + 1\<rparr>)\<rparr>;
           Some (s\<lparr>arch_state := enter_lazy_tlb C m nxt (arch_state s)\<rparr>) }
       | Some m \<Rightarrow> Some (s\<lparr>arch_state := switch_mm C oldmm m nxt (arch_state s)\<rparr>));
     pt \<leftarrow> tasks s prev;
     s \<leftarrow> (if t_mm pt = None then do {
              s \<leftarrow> upd_task prev (\<lambda>t. t\<lparr>t_active_mm := None\<rparr>) s;
              upd_rq r (\<lambda>q. q\<lparr>prev_mm := oldmm\<rparr>) s }
           else Some s);
     let (_, s) = switch_to prev nxt (pushq (after_switch_to C) s);
     finish_task_switch C nxt s }"

definition schedule :: "core_ext \<Rightarrow> sched \<Rightarrow> sched option" where
  "schedule C s = do {
     r \<leftarrow> cpu_rq (uint smp_processor_id);
     q \<leftarrow> runqueues s r;
     let prev = rq_curr q;
     let flags = uninit_sched_flags C;
     let (_, rf) = local_irq_save (eflags s);
     let s = s\<lparr>eflags := rf\<rparr>;
     s \<leftarrow> rq_spin_lock r s;
     s \<leftarrow> update_rq_clock (base C) r s;
     (nxt, s) \<leftarrow> pick_next_task C r prev s;
     p \<leftarrow> prev;
     s \<leftarrow> upd_task p (clear_tsk_need_resched (base C)) s;
     s \<leftarrow> (if prev \<noteq> nxt then do {
              s \<leftarrow> upd_rq r (\<lambda>q. q\<lparr>nr_switches := nr_switches q + 1, rq_curr := nxt\<rparr>) s;
              n \<leftarrow> nxt;
              context_switch C r p n s }
           else rq_spin_unlock r s);
     Some (s\<lparr>eflags := local_irq_restore (ucast flags) (eflags s)\<rparr>) }"

definition sys_sched_yield :: "core_ext \<Rightarrow> sched \<Rightarrow> (int \<times> sched) option" where
  "sys_sched_yield C s = do {
     (r, s) \<leftarrow> this_rq_lock C s;
     s \<leftarrow> upd_rq r (schedstat_inc_yld_count C) s;
     c \<leftarrow> get_current s;
     t \<leftarrow> tasks s c;
     k \<leftarrow> t_sched_class t;
     s \<leftarrow> class_yield C k r s;
     s \<leftarrow> upd_task c (preempt_disable C) s;
     s \<leftarrow> rq_spin_unlock r s;
     s \<leftarrow> schedule C s;
     c \<leftarrow> get_current s;
     s \<leftarrow> upd_task c (preempt_enable C) s;
     Some (0, s) }"

definition yield :: "core_ext \<Rightarrow> sched \<Rightarrow> sched option" where
  "yield C s = do {
     c \<leftarrow> get_current s;
     s \<leftarrow> upd_task c (set_state C TASK_RUNNING) s;
     (_, s) \<leftarrow> sys_sched_yield C s;
     Some s }"

end
