(* ===== verification/Sched_Props.thy ===== *)
theory Sched_Props
  imports Sched_C Fair_Pick
begin

text \<open>
  Properties of the scheduler core: the cycle of process numbers, and the routine \<^verbatim>\<open>switch_to\<close>, which
  changes stacks.
\<close>

section \<open>Process numbers\<close>

fun alloc_pids :: "nat \<Rightarrow> sched \<Rightarrow> pid_t list \<times> sched" where
  "alloc_pids 0 s = ([], s)"
| "alloc_pids (Suc n) s = (let (pid, s) = alloc_pid s; (pids, s) = alloc_pids n s in (pid # pids, s))"

definition pid_ok :: "sched \<Rightarrow> bool" where
  "pid_ok s \<longleftrightarrow> 1 \<le> sint (next_pid s) \<and> sint (next_pid s) < sint PID_MAX"

lemma pid_max: "sint PID_MAX = 32768"
  by (simp add: PID_MAX_def)

lemma alloc_pid_step:
  assumes "pid_ok s"
  shows "fst (alloc_pid s) = next_pid s" "pid_ok (snd (alloc_pid s))"
    "sint (next_pid (snd (alloc_pid s))) = sint (next_pid s) mod 32767 + 1"
proof -
  let ?n = "sint (next_pid s)"
  have n: "1 \<le> ?n" "?n < 32768" using assms by (simp_all add: pid_ok_def pid_max)
  have "sint (next_pid s + 1) = signed_take_bit 31 (?n + 1)" by (simp add: sint_word_ariths)
  then have succ: "sint (next_pid s + 1) = ?n + 1" using n by (simp add: signed_take_bit_int_eq_self_iff)
  show "fst (alloc_pid s) = next_pid s" by (simp add: alloc_pid_def Let_def)
  show m: "sint (next_pid (snd (alloc_pid s))) = ?n mod 32767 + 1"
  proof (cases "?n = 32767")
    case True
    then show ?thesis using succ by (simp add: alloc_pid_def Let_def pid_max)
  next
    case False
    then show ?thesis using succ n by (simp add: alloc_pid_def Let_def pid_max)
  qed
  have "0 \<le> ?n mod 32767" "?n mod 32767 < 32767" by simp_all
  then show "pid_ok (snd (alloc_pid s))" unfolding pid_ok_def m pid_max by linarith
qed

lemma alloc_pids_values:
  "pid_ok s \<Longrightarrow> map sint (fst (alloc_pids n s)) = map (\<lambda>i. (sint (next_pid s) - 1 + int i) mod 32767 + 1) [0..<n]
     \<and> pid_ok (snd (alloc_pids n s))
     \<and> sint (next_pid (snd (alloc_pids n s))) = (sint (next_pid s) - 1 + int n) mod 32767 + 1"
proof (induction n arbitrary: s)
  case (Suc n)
  note step = alloc_pid_step [OF Suc.prems]
  have n: "1 \<le> sint (next_pid s)" "sint (next_pid s) < 32768"
    using Suc.prems by (simp_all add: pid_ok_def pid_max)
  have "map sint (fst (alloc_pids (Suc n) s)) = sint (next_pid s) # map sint (fst (alloc_pids n (snd (alloc_pid s))))"
    using step(1) by (simp add: case_prod_beta Let_def)
  also have "map sint (fst (alloc_pids n (snd (alloc_pid s))))
      = map (\<lambda>i. (sint (next_pid s) mod 32767 + int i) mod 32767 + 1) [0..<n]"
    using Suc.IH [OF step(2)] by (simp add: step(3))
  also have "\<dots> = map (\<lambda>i. (sint (next_pid s) - 1 + int (Suc i)) mod 32767 + 1) [0..<n]"
    by (simp add: mod_simps algebra_simps)
  finally have "map sint (fst (alloc_pids (Suc n) s))
      = ((sint (next_pid s) - 1 + int 0) mod 32767 + 1)
        # map (\<lambda>i. (sint (next_pid s) - 1 + int i) mod 32767 + 1) (map Suc [0..<n])"
    using n by (simp add: comp_def)
  moreover have "sint (next_pid (snd (alloc_pids (Suc n) s)))
      = (sint (next_pid s) mod 32767 + int n) mod 32767 + 1"
    using Suc.IH [OF step(2)] by (simp add: step(3) case_prod_beta Let_def)
  moreover have "(sint (next_pid s) mod 32767 + int n) mod 32767 = (sint (next_pid s) - 1 + int (Suc n)) mod 32767"
    by (simp add: mod_simps)
  moreover have "pid_ok (snd (alloc_pids (Suc n) s))"
    using Suc.IH [OF step(2)] by (simp add: case_prod_beta Let_def)
  ultimately show ?case
    by (simp only: map_Suc_upt) (simp add: upt_conv_Cons del: upt_Suc alloc_pids.simps)
next
  case 0
  then show ?case by (simp add: pid_ok_def pid_max)
qed

lemma shifted_mod_inj:
  fixes a :: int
  assumes "i < 32767" "j < 32767" "(a + int i) mod 32767 = (a + int j) mod 32767"
  shows "i = j"
proof -
  have "(a + int i - (a + int j)) mod 32767 = 0" using assms(3) by (simp add: mod_eq_dvd_iff dvd_imp_mod_0)
  then have "(int i - int j) mod 32767 = 0" by simp
  then have "32767 dvd int i - int j" by (simp add: dvd_eq_mod_eq_0)
  then show ?thesis using assms(1,2) zdvd_imp_le [of 32767 "int i - int j"] zdvd_imp_le [of 32767 "int j - int i"]
    by (cases i j rule: linorder_cases) (auto simp: dvd_diff_commute)
qed

text \<open>C38: \<^verbatim>\<open>alloc_pid\<close> hands out the numbers from 1 to \<^verbatim>\<open>PID_MAX - 1\<close> in a cycle: any \<open>32767\<close> numbers
  in a row are distinct and within that range, the counter stays within it, and the next
  number after a whole cycle is the first one again, whether or not it is in use.\<close>

theorem alloc_pid_cycles:
  assumes "pid_ok s" "n \<le> 32767"
  shows "distinct (fst (alloc_pids n s)) \<and> pid_ok (snd (alloc_pids n s))
    \<and> set (map sint (fst (alloc_pids n s))) \<subseteq> {1..<sint PID_MAX}
    \<and> next_pid (snd (alloc_pids 32767 s)) = next_pid s"
proof -
  let ?v = "\<lambda>i. (sint (next_pid s) - 1 + int i) mod 32767 + 1"
  have vals: "map sint (fst (alloc_pids k s)) = map ?v [0..<k]" "pid_ok (snd (alloc_pids k s))"
    "sint (next_pid (snd (alloc_pids k s))) = ?v k" for k
    using alloc_pids_values [OF assms(1)] by blast+
  have "inj_on ?v (set [0..<n])"
    using assms(2) by (intro inj_onI) (auto intro!: shifted_mod_inj [of _ _ "sint (next_pid s) - 1"])
  then have "distinct (map sint (fst (alloc_pids n s)))" by (simp add: vals(1) distinct_map)
  then have "distinct (fst (alloc_pids n s))" by (simp add: distinct_map)
  moreover have "set (map sint (fst (alloc_pids n s))) \<subseteq> {1..<sint PID_MAX}"
    unfolding vals(1) pid_max by (auto simp: add1_zle_eq)
  moreover have "next_pid (snd (alloc_pids 32767 s)) = next_pid s"
  proof -
    have "(sint (next_pid s) - 1 + int 32767) mod 32767 = (sint (next_pid s) - 1) mod 32767"
      by (simp only: of_nat_numeral mod_add_self2)
    then have "sint (next_pid (snd (alloc_pids 32767 s))) = (sint (next_pid s) - 1) mod 32767 + 1"
      by (simp only: vals(3))
    then have "sint (next_pid (snd (alloc_pids 32767 s))) = sint (next_pid s)"
      using assms(1) by (simp add: pid_ok_def pid_max)
    then show ?thesis by (simp only: sint_eq_iff)
  qed
  ultimately show ?thesis using vals(2) by blast
qed

theorem alloc_pid_cycles_witness:
  "distinct (fst (alloc_pids 32767 demo_sched)) \<and> next_pid (snd (alloc_pids 32767 demo_sched)) = 3"
proof -
  have "next_pid demo_sched = 3" by (simp add: demo_sched_def)
  then have "pid_ok demo_sched" by (simp add: pid_ok_def pid_max)
  then show ?thesis using alloc_pid_cycles [of demo_sched 32767] \<open>next_pid demo_sched = 3\<close> by simp
qed

section \<open>Switching stacks\<close>

text \<open>The eight words of a task that is switched out, from its saved stack pointer up: the flags, the
  six registers and the return address; and the seven words that \<^verbatim>\<open>switch_to\<close> pushes.\<close>

definition frame_words :: "u64 \<Rightarrow> u64 set" where
  "frame_words sp = set (map (\<lambda>i. sp + 8 * of_nat i) [0..<8])"

definition pushed_words :: "u64 \<Rightarrow> u64 set" where
  "pushed_words sp = set (map (\<lambda>i. sp - 8 * of_nat i) [1..<8])"

lemma upto_8: "[0..<8] = [0, 1, 2, 3, 4, 5, 6, 7 :: nat]" "[1..<8] = [1, 2, 3, 4, 5, 6, 7 :: nat]"
  by (simp_all add: upt_rec)

text \<open>The words pushed, and what the registers become, written out.\<close>

definition saved_words :: "sched \<Rightarrow> u64 \<Rightarrow> u64" where
  "saved_words s = (let sp = rsp (regs s) in (stack_mem s)(sp - 8 := rbp (regs s), sp - 16 := rbx (regs s),
     sp - 24 := r12 (regs s), sp - 32 := r13 (regs s), sp - 40 := r14 (regs s), sp - 48 := r15 (regs s),
     sp - 56 := eflags s))"

definition loaded_regs :: "(u64 \<Rightarrow> u64) \<Rightarrow> u64 \<Rightarrow> cpu_regs" where
  "loaded_regs m sp = \<lparr>rsp = sp + 64, rbp = m (sp + 48), rbx = m (sp + 40), r12 = m (sp + 32),
     r13 = m (sp + 24), r14 = m (sp + 16), r15 = m (sp + 8)\<rparr>"

lemma switch_to_eq:
  "switch_to p n s = (let m = saved_words s; ts = (thread_sp s)(p := rsp (regs s) - 56); sp = ts n
     in (m (sp + 56), s\<lparr>stack_mem := m, thread_sp := ts, eflags := m sp, regs := loaded_regs m sp\<rparr>))"
  by (cases "regs s")
    (simp add: switch_to_def pushq_def popq_def Let_def saved_words_def loaded_regs_def add.commute
      del: fun_upd_apply)

lemma switch_to_frame:
  "\<exists>a rg m ts f. switch_to p n s
     = (a, s\<lparr>stack_mem := m, thread_sp := ts, eflags := f, regs := rg\<rparr>)"
  unfolding switch_to_eq Let_def by blast

lemma saved_words_frame:
  defines "sp \<equiv> \<lambda>s. rsp (regs s) - 56"
  shows "saved_words s (sp s) = eflags s" "saved_words s (sp s + 8) = r15 (regs s)"
    "saved_words s (sp s + 16) = r14 (regs s)" "saved_words s (sp s + 24) = r13 (regs s)"
    "saved_words s (sp s + 32) = r12 (regs s)" "saved_words s (sp s + 40) = rbx (regs s)"
    "saved_words s (sp s + 48) = rbp (regs s)" "saved_words s (sp s + 56) = stack_mem s (rsp (regs s))"
  by (simp_all add: saved_words_def sp_def Let_def)

lemma saved_words_other: "a \<notin> pushed_words (rsp (regs s)) \<Longrightarrow> saved_words s a = stack_mem s a"
  unfolding pushed_words_def upto_8 by (simp add: saved_words_def Let_def)

text \<open>
  C37: A task that \<^verbatim>\<open>switch_to\<close> takes the CPU from gets its whole context back.  Task \<open>p\<close> calls it, with the
  return address \<open>ra\<close> on its stack, and the CPU goes to some task \<open>n\<close>; later any other task \<open>m\<close> gives
  the CPU to \<open>p\<close>.  If until then nobody has overwritten the stack pointer saved for \<open>p\<close> or the eight
  words of its frame, and the frame of \<open>m\<close> does not overlap it, then \<open>p\<close> continues at \<open>ra\<close> with the
  stack pointer, the six registers and the flags that it had; of the rest of the
  state the switch changes only the stack and the saved stack pointer of \<open>m\<close>.
\<close>

theorem switch_to_resumes:
  assumes out: "switch_to p n (pushq ra s) = (a, s1)" and "m \<noteq> p"
    and kept: "thread_sp t p = thread_sp s1 p"
      "\<forall>w \<in> frame_words (thread_sp s1 p). stack_mem t w = stack_mem s1 w"
    and own: "pushed_words (rsp (regs t)) \<inter> frame_words (thread_sp s1 p) = {}"
  shows "\<exists>t'. switch_to m p t = (ra, t') \<and> regs t' = regs s \<and> eflags t' = eflags s
    \<and> (\<forall>w. w \<notin> pushed_words (rsp (regs t)) \<longrightarrow> stack_mem t' w = stack_mem t w)
    \<and> thread_sp t' = (thread_sp t)(m := rsp (regs t) - 56)
    \<and> t' = t\<lparr>stack_mem := stack_mem t', thread_sp := thread_sp t', eflags := eflags t', regs := regs t'\<rparr>"
proof -
  define s0 where "s0 = pushq ra s"
  have s1: "thread_sp s1 p = rsp (regs s0) - 56" "stack_mem s1 = saved_words s0"
    using out by (auto simp: switch_to_eq Let_def s0_def)
  let ?sp = "rsp (regs s0) - 56" and ?m = "saved_words t"
  have word: "?m w = saved_words s0 w" if "w \<in> frame_words ?sp" for w
    using that kept(2) own saved_words_other [of w t] by (auto simp: s1)
  have w: "?sp \<in> frame_words ?sp" "?sp + 8 \<in> frame_words ?sp" "?sp + 16 \<in> frame_words ?sp"
    "?sp + 24 \<in> frame_words ?sp" "?sp + 32 \<in> frame_words ?sp" "?sp + 40 \<in> frame_words ?sp"
    "?sp + 48 \<in> frame_words ?sp" "?sp + 56 \<in> frame_words ?sp"
    unfolding frame_words_def upto_8 by simp_all
  note frame = w [THEN word, unfolded saved_words_frame]
  have s0: "rsp (regs s0) = rsp (regs s) - 8" "regs s0 = (regs s)\<lparr>rsp := rsp (regs s) - 8\<rparr>"
    "eflags s0 = eflags s" "stack_mem s0 (rsp (regs s0)) = ra"
    by (simp_all add: s0_def pushq_def Let_def)
  have "loaded_regs ?m ?sp = regs s"
    unfolding loaded_regs_def frame by (simp add: s0(2))
  moreover have "?m ?sp = eflags s" "?m (?sp + 56) = ra" using frame(1,8) s0(3,4) by simp_all
  ultimately show ?thesis
    using \<open>m \<noteq> p\<close> kept(1) s1(1) saved_words_other [of _ t] by (simp add: switch_to_eq Let_def)
qed

text \<open>A concrete choice for the functions the core calls and does not define.\<close>

definition demo_core :: core_ext where
  "demo_core = \<lparr>base = demo_sched_ext, uninit_sched_flags = 0x246, sizeof_task_struct = 4096, SIGCHLD = 17, DEFAULT_TIMESLICE = 100,
     TASK_NORMAL = 3, TASK_DEAD = 64, task_contributes_to_load = (\<lambda>t. t_state t = 2),
     class_order = [Stop_class, Dl_class, Rt_class, Fair_class, Idle_class],
     other_enqueue = (\<lambda>_ _ _ _ s. Some s), other_dequeue = (\<lambda>_ _ _ _ s. Some s),
     other_yield = (\<lambda>_ _ s. Some s), other_pick_next = (\<lambda>_ _ _ s. Some (None, s)),
     check_preempt_curr = (\<lambda>_ _ _ s. Some s), prepare_lock_switch = (\<lambda>_ _ a. a),
     prepare_arch_switch = (\<lambda>_ a. a), arch_start_context_switch = (\<lambda>_ a. a),
     finish_arch_switch = (\<lambda>_ a. a), enter_lazy_tlb = (\<lambda>_ _ a. a),
     switch_mm = (\<lambda>_ m _ _. of_nat m), after_switch_to = 0xFFFF8000,
     finish_lock_switch = (\<lambda>r s. map_option (\<lambda>s. s\<lparr>eflags := local_irq_enable (eflags s)\<rparr>) (rq_spin_unlock r s)),
     mmdrop = (\<lambda>_ s. Some s), this_rq = 0, this_rq_lock = (\<lambda>s. map_option (Pair 0) (rq_spin_lock 0 s)),
     preempt_disable = (\<lambda>t. t\<lparr>t_preempt_count := t_preempt_count t + 1\<rparr>),
     preempt_enable = (\<lambda>t. t\<lparr>t_preempt_count := t_preempt_count t - 1\<rparr>),
     set_state = (\<lambda>v t. t\<lparr>t_state := v\<rparr>),
     raw_spin_lock_irqsave = (\<lambda>l rf. Some (l, ucast rf, rf)),
     raw_spin_unlock_irqrestore = (\<lambda>l f rf. Some (l, ucast f)),
     ttwu_remote = (\<lambda>_ s. (False, s)), ttwu_queue = (\<lambda>_ _ s. Some s),
     RB_CLEAR_NODE = (\<lambda>n. n), sigemptyset = (\<lambda>_. \<lparr>sig_words = [0, 0]\<rparr>), init_waitqueue_head = (\<lambda>_ w. w),
     sched_info_queued = (\<lambda>q t. (rq_sched_info q, (t_sched_info t)\<lparr>si_last_queued := clock q\<rparr>)),
     sched_info_dequeued = (\<lambda>q t. (rq_sched_info q, (t_sched_info t)\<lparr>si_last_queued := 0\<rparr>)),
     sched_info_switch = (\<lambda>q pt nt. (rq_sched_info q, t_sched_info pt, (t_sched_info nt)\<lparr>si_last_arrival := clock q\<rparr>)),
     schedstat_inc_yld_count = (\<lambda>q. q), perf_event_task_sched_out = (\<lambda>_ _ a. a),
     fire_sched_out_preempt_notifiers = (\<lambda>_ _ a. a), perf_event_task_sched_in = (\<lambda>_ _ a. a),
     fire_sched_in_preempt_notifiers = (\<lambda>_ a. a)\<rparr>"

theorem switch_to_resumes_witness:
  "\<exists>t'. switch_to 2 1 (snd (switch_to 1 2 (pushq 77 demo_sched))) = (77, t') \<and> regs t' = regs demo_sched
     \<and> eflags t' = eflags demo_sched"
proof -
  obtain a s1 where s1: "switch_to 1 2 (pushq 77 demo_sched) = (a, s1)" by fastforce
  have "thread_sp s1 1 = 0x13EC0" "rsp (regs s1) = 0x23F40"
    using s1 by (auto simp: switch_to_eq Let_def pushq_def demo_sched_def loaded_regs_def)
  then have "pushed_words (rsp (regs s1)) \<inter> frame_words (thread_sp s1 1) = {}"
    unfolding pushed_words_def frame_words_def upto_8 by simp
  with switch_to_resumes [OF s1, of 2 s1] show ?thesis unfolding s1 by auto
qed

end
