(* ===== verification/Sched_Run.thy ===== *)
theory Sched_Run
  imports Fair_Frame Sched_Props
begin

text \<open>
  \<^verbatim>\<open>schedule\<close> as a whole, for a run queue with fair tasks only: the lock is taken and
  released on both paths, the running task is charged and the earliest task becomes the current
  one of the run queue.
\<close>

section \<open>The clock and the lock\<close>

lemma update_rq_clock_task_frame:
  assumes "runqueues s r = Some q"
  shows "\<exists>a b c. update_rq_clock_task X r d s = Some (s\<lparr>runqueues := (runqueues s)(r \<mapsto>
    q\<lparr>prev_irq_time := a, prev_steal_time_rq := b, clock_task := c\<rparr>)\<rparr>)"
  using assms by (simp add: update_rq_clock_task_def upd_rq_def Let_def split del: if_split) blast

lemma update_rq_clock_frame:
  assumes "runqueues s r = Some q"
  shows "\<exists>h q'. update_rq_clock X r s = Some (s\<lparr>hw_clock := h, runqueues := (runqueues s)(r \<mapsto> q')\<rparr>)
    \<and> rq_lock q' = rq_lock q \<and> rq_curr q' = rq_curr q \<and> rq_nr_running q' = rq_nr_running q
    \<and> prev_mm q' = prev_mm q \<and> nr_switches q' = nr_switches q"
proof -
  obtain now h where clk: "sched_clock_cpu X (cpu_of X r) (hw_clock s) = (now, h)" by fastforce
  have idle: "s\<lparr>hw_clock := h, runqueues := (runqueues s)(r \<mapsto> q)\<rparr> = s\<lparr>hw_clock := h\<rparr>"
    using assms by (simp add: fun_upd_idem)
  show ?thesis
  proof (cases "sint (ucast (now - clock q) :: s64) < 0")
    case True
    then have "update_rq_clock X r s = Some (s\<lparr>hw_clock := h\<rparr>)"
      using assms by (simp add: update_rq_clock_def sched_clock_def clk)
    then show ?thesis using idle by (intro exI [of _ h] exI [of _ q]) simp
  next
    case False
    let ?q = "q\<lparr>clock := clock q + scast (ucast (now - clock q) :: s64)\<rparr>"
    let ?s = "s\<lparr>hw_clock := h, runqueues := (runqueues s)(r \<mapsto> ?q)\<rparr>"
    have "update_rq_clock X r s = update_rq_clock_task X r (ucast (now - clock q)) ?s"
      using assms False by (simp add: update_rq_clock_def sched_clock_def clk upd_rq_def Let_def)
    moreover obtain a b c where "update_rq_clock_task X r (ucast (now - clock q)) ?s
        = Some (?s\<lparr>runqueues := (runqueues ?s)(r \<mapsto>
            ?q\<lparr>prev_irq_time := a, prev_steal_time_rq := b, clock_task := c\<rparr>)\<rparr>)"
      using update_rq_clock_task_frame [of ?s r ?q X "ucast (now - clock q)"] by auto
    ultimately show ?thesis
      by (intro exI [of _ h] exI [of _ "?q\<lparr>prev_irq_time := a, prev_steal_time_rq := b, clock_task := c\<rparr>"]) simp
  qed
qed

definition lock_free :: "spinlock_t \<Rightarrow> bool" where
  "lock_free l \<longleftrightarrow> sl_magic l = SPINLOCK_MAGIC \<and> sl_lock l = SPINLOCK_UNLOCKED \<and> owner_cpu l = NO_CPU"

definition held_by :: "u32 \<Rightarrow> u64 \<Rightarrow> spinlock_t \<Rightarrow> spinlock_t" where
  "held_by cpu ra l = l\<lparr>sl_lock := SPINLOCK_LOCKED, owner_cpu := cpu, sl_owner := Some ra\<rparr>"

lemma rq_spin_lock_free:
  assumes "runqueues s r = Some q" "lock_free (rq_lock q)"
  shows "rq_spin_lock r s = Some (s\<lparr>runqueues := (runqueues s)(r \<mapsto>
           q\<lparr>rq_lock := held_by smp_processor_id (caller_addr s) (rq_lock q)\<rparr>)\<rparr>)"
  using assms
  by (auto simp: rq_spin_lock_def spin_lock_def lock_free_def spin_acquire.simps no_panic_def upd_rq_def
      held_by_def)

lemma rq_spin_unlock_held:
  assumes "runqueues s r = Some q" "rq_lock q = held_by smp_processor_id a l" "lock_free l"
  shows "\<exists>l'. rq_spin_unlock r s = Some (s\<lparr>runqueues := (runqueues s)(r \<mapsto> q\<lparr>rq_lock := l'\<rparr>)\<rparr>)
    \<and> lock_free l'"
  using assms
  by (auto simp: rq_spin_unlock_def spin_unlock_def lock_free_def no_panic_def upd_rq_def held_by_def)

section \<open>Entry, choice and switch\<close>

text \<open>The first part of \<^verbatim>\<open>schedule\<close>: interrupts off, the lock taken, the clock read.\<close>

definition sched_enter :: "core_ext \<Rightarrow> sched \<Rightarrow> sched option" where
  "sched_enter C s = do {
     s \<leftarrow> rq_spin_lock 0 (s\<lparr>eflags := local_irq_disable (eflags s)\<rparr>);
     update_rq_clock (base C) 0 s }"

lemma sched_enter_spec:
  assumes "runqueues s 0 = Some q" "lock_free (rq_lock q)"
  shows "\<exists>h q1. sched_enter C s = Some (s\<lparr>eflags := local_irq_disable (eflags s), hw_clock := h,
        runqueues := (runqueues s)(0 \<mapsto> q1)\<rparr>)
    \<and> rq_lock q1 = held_by smp_processor_id (caller_addr s) (rq_lock q) \<and> rq_curr q1 = rq_curr q
    \<and> rq_nr_running q1 = rq_nr_running q \<and> prev_mm q1 = prev_mm q \<and> nr_switches q1 = nr_switches q"
proof -
  let ?s = "s\<lparr>eflags := local_irq_disable (eflags s)\<rparr>"
  let ?q = "q\<lparr>rq_lock := held_by smp_processor_id (caller_addr s) (rq_lock q)\<rparr>"
  let ?t = "?s\<lparr>runqueues := (runqueues s)(0 \<mapsto> ?q)\<rparr>"
  have "rq_spin_lock 0 ?s = Some ?t" using rq_spin_lock_free [of ?s 0 q] assms by simp
  moreover obtain h q1 where "update_rq_clock (base C) 0 ?t
      = Some (?t\<lparr>hw_clock := h, runqueues := (runqueues ?t)(0 \<mapsto> q1)\<rparr>)"
    "rq_lock q1 = rq_lock ?q" "rq_curr q1 = rq_curr ?q" "rq_nr_running q1 = rq_nr_running ?q"
    "prev_mm q1 = prev_mm ?q" "nr_switches q1 = nr_switches ?q"
    using update_rq_clock_frame [of ?t 0 ?q "base C"] by auto
  ultimately show ?thesis
    by (intro exI [of _ h] exI [of _ q1]) (simp add: sched_enter_def)
qed

text \<open>A run queue with fair tasks only, one of them running.\<close>

definition fair_ready :: "sched_ext \<Rightarrow> nat \<Rightarrow> nat \<Rightarrow> sched \<Rightarrow> bool" where
  "fair_ready X r p s \<longleftrightarrow> timeline_ok X (RootCfs r) s \<and> curr_ok (RootCfs r) s
     \<and> (\<exists>cq t pse. cfs_at s (RootCfs r) = Some cq \<and> cfs_nr_running cq \<noteq> 0 \<and> no_buddies cq
          \<and> cfs_curr cq = Some (TaskSe p) \<and> tasks s p = Some t \<and> t_sched_class t = Some Fair_class
          \<and> se_at s (TaskSe p) = Some pse \<and> on_rq pse)
     \<and> (\<forall>e \<in> set (timeline (RootCfs r) s). \<exists>n se. e = TaskSe n \<and> se_at s e = Some se \<and> on_rq se)"

text \<open>The charge that the next reading of the clock makes keeps the running task within the
  window of the signed comparison, and so does a second reading.\<close>

definition charge_ok :: "sched_ext \<Rightarrow> nat \<Rightarrow> sched \<Rightarrow> bool" where
  "charge_ok X r s \<longleftrightarrow> window X (RootCfs r) s
     \<and> (\<forall>s1. update_curr X (RootCfs r) s = Some s1 \<longrightarrow> window X (RootCfs r) s1)"

lemma fair_ready_cong:
  assumes "cfs_at s' = cfs_at s" "se_at s' = se_at s" "tasks s' = tasks s"
  shows "fair_ready X r p s' = fair_ready X r p s"
  using assms by (simp add: fair_ready_def timeline_cong [OF assms(1,2)])

definition waiting_or_running :: "nat \<Rightarrow> nat \<Rightarrow> sched \<Rightarrow> se_ptr set" where
  "waiting_or_running r p s = insert (TaskSe p) (set (timeline (RootCfs r) s))"

text \<open>The outcome of a choice: the new task, and the state of the timeline with it removed.\<close>

definition chosen :: "sched_ext \<Rightarrow> nat \<Rightarrow> nat \<Rightarrow> sched \<Rightarrow> nat \<Rightarrow> sched \<Rightarrow> bool" where
  "chosen X r p s n s' \<longleftrightarrow> TaskSe n \<in> waiting_or_running r p s
     \<and> (\<forall>e \<in> waiting_or_running r p s. lag (RootCfs r) s' (TaskSe n) \<le> lag (RootCfs r) s' e)
     \<and> timeline_ok X (RootCfs r) s'
     \<and> set (timeline (RootCfs r) s') = waiting_or_running r p s - {TaskSe n}
     \<and> (\<exists>cq. cfs_at s' (RootCfs r) = Some cq \<and> cfs_curr cq = Some (TaskSe n))"

lemma chosen_same:
  assumes "cfs_at s2 = cfs_at s1" "se_at s2 = se_at s1"
  shows "chosen X r p s n s2 = chosen X r p s n s1"
  using assms by (simp add: chosen_def timeline_cong [OF assms])

lemma pick_next_task_fair_only:
  assumes "vr_ok X" "ent_ok X" "buddy_ok X" "base C = X" "fair_ready X r p s" "charge_ok X r s"
    and "runqueues s r = Some q" "cfs_at s (RootCfs r) = Some cq" "rq_nr_running q = h_nr_running cq"
  shows "\<exists>n s'. pick_next_task C r (Some p) s = Some (Some n, s') \<and> chosen X r p s n s'
    \<and> run_charged X r p s n s' \<and> outside s' = outside s"
proof -
  obtain cq t pse where "timeline_ok X (RootCfs r) s" and c: "curr_ok (RootCfs r) s"
    and "cfs_at s (RootCfs r) = Some cq" "cfs_nr_running cq \<noteq> 0" "no_buddies cq" "cfs_curr cq = Some (TaskSe p)"
    and t: "tasks s p = Some t" "t_sched_class t = Some Fair_class" "se_at s (TaskSe p) = Some pse" "on_rq pse"
    and w: "\<forall>e \<in> set (timeline (RootCfs r) s). \<exists>n se. e = TaskSe n \<and> se_at s e = Some se \<and> on_rq se"
    using assms(5) unfolding fair_ready_def by blast
  moreover have "window X (RootCfs r) s"
    "\<forall>s1. update_curr X (RootCfs r) s = Some s1 \<longrightarrow> window X (RootCfs r) s1"
    using assms(6) by (simp_all add: charge_ok_def)
  ultimately obtain n s' where "pick_next_task_fair X r (Some p) s = Some (Some n, s')" "chosen X r p s n s'"
      "run_charged X r p s n s'"
    using pick_next_task_fair_spec [OF _ assms(1-3) _ _ _ _ c t w]
    unfolding chosen_def waiting_or_running_def by blast
  then show ?thesis
    using assms(4,7-9) out.pick_next_task_fair_obs by (auto simp: pick_next_task_def)
qed

lemma prepare_task_switch_frame:
  assumes "runqueues s r = Some q" "tasks s p = Some pt" "tasks s n = Some nt" "p \<noteq> n"
  shows "\<exists>qi pi ni b. prepare_task_switch C r p n s = Some (s\<lparr>
    runqueues := (runqueues s)(r \<mapsto> q\<lparr>rq_sched_info := qi\<rparr>),
    tasks := (tasks s)(p \<mapsto> pt\<lparr>t_sched_info := pi\<rparr>, n \<mapsto> nt\<lparr>t_sched_info := ni\<rparr>), arch_state := b\<rparr>)"
proof -
  obtain qi pi ni where "sched_info_switch C q pt nt = (qi, pi, ni)" using prod_cases3 by blast
  then show ?thesis using assms
    by (intro exI [of _ qi] exI [of _ pi] exI [of _ ni]
          exI [of _ "prepare_arch_switch C n (prepare_lock_switch C r n (fire_sched_out_preempt_notifiers C p n
            (perf_event_task_sched_out C p n (arch_state s))))"])
       (simp add: prepare_task_switch_def upd_rq_def upd_task_def)
qed

text \<open>The end of a switch, in the frame of a task that is alive, with no address space to drop.\<close>

lemma finish_task_switch_alive:
  assumes fin: "\<And>r s. finish_lock_switch C r s
      = map_option (\<lambda>s. s\<lparr>eflags := local_irq_enable (eflags s)\<rparr>) (rq_spin_unlock r s)"
    and "this_rq C = r" "runqueues s r = Some q" "prev_mm q = None"
    and "rq_lock q = held_by smp_processor_id a l" "lock_free l" "tasks s p = Some pt" "t_state pt \<noteq> TASK_DEAD C"
  shows "\<exists>l' b. finish_task_switch C p s = Some (s\<lparr>arch_state := b, eflags := local_irq_enable (eflags s),
      runqueues := (runqueues s)(r \<mapsto> q\<lparr>rq_lock := l'\<rparr>)\<rparr>) \<and> lock_free l'"
proof -
  define s1 where "s1 = s\<lparr>arch_state := finish_arch_switch C p
    (perf_event_task_sched_in C p (current_task s) (arch_state s))\<rparr>"
  have idle: "upd_rq r (\<lambda>q. q\<lparr>prev_mm := None\<rparr>) s = Some s"
    using assms(3,4) by (simp add: upd_rq_def fun_upd_idem)
  obtain l' where l': "rq_spin_unlock r s1 = Some (s1\<lparr>runqueues := (runqueues s1)(r \<mapsto> q\<lparr>rq_lock := l'\<rparr>)\<rparr>)"
    "lock_free l'"
    using rq_spin_unlock_held [of s1 r q a l] assms(3,5,6) by (auto simp: s1_def)
  have "finish_task_switch C p s = Some (s1\<lparr>runqueues := (runqueues s1)(r \<mapsto> q\<lparr>rq_lock := l'\<rparr>),
      eflags := local_irq_enable (eflags s1),
      arch_state := fire_sched_in_preempt_notifiers C (current_task s) (arch_state s1)\<rparr>)"
    using assms(2-4,7,8) idle l'(1) fin
    by (simp add: finish_task_switch_def s1_def Let_def get_current_def)
  then show ?thesis using l'(2)
    by (intro exI [of _ l'] exI [of _ "fire_sched_in_preempt_notifiers C (current_task s) (arch_state s1)"])
      (simp add: s1_def)
qed

lemma switch_to_keeps:
  assumes "switch_to p n (pushq v s) = (x, s')"
  shows "tasks s' = tasks s" "runqueues s' = runqueues s" "mm_at s' = mm_at s" "cfs_at s' = cfs_at s"
    "se_at s' = se_at s" "current_task s' = current_task s" "arch_state s' = arch_state s"
  using switch_to_frame [of p n "pushq v s"] assms by (auto simp: pushq_def Let_def)

lemma context_switch_user:
  assumes fin: "\<And>r s. finish_lock_switch C r s
      = map_option (\<lambda>s. s\<lparr>eflags := local_irq_enable (eflags s)\<rparr>) (rq_spin_unlock r s)"
    and "this_rq C = r" "runqueues s r = Some q" "prev_mm q = None"
    and "rq_lock q = held_by smp_processor_id a l" "lock_free l"
    and "tasks s p = Some pt" "t_mm pt \<noteq> None"
    and "tasks s n = Some nt" "t_mm nt \<noteq> None" "t_state nt \<noteq> TASK_DEAD C" "p \<noteq> n"
  shows "\<exists>s' q'. context_switch C r p n s = Some s' \<and> runqueues s' r = Some q' \<and> lock_free (rq_lock q')
    \<and> rq_curr q' = rq_curr q \<and> nr_switches q' = nr_switches q
    \<and> cfs_at s' = cfs_at s \<and> se_at s' = se_at s \<and> current_task s' = current_task s"
proof -
  obtain m where m: "t_mm nt = Some m" using assms(10) by blast
  obtain qi pi ni b where prep: "prepare_task_switch C r p n s = Some (s\<lparr>
      runqueues := (runqueues s)(r \<mapsto> q\<lparr>rq_sched_info := qi\<rparr>),
      tasks := (tasks s)(p \<mapsto> pt\<lparr>t_sched_info := pi\<rparr>, n \<mapsto> nt\<lparr>t_sched_info := ni\<rparr>), arch_state := b\<rparr>)"
    using prepare_task_switch_frame [OF assms(3,7,9,12)] by blast
  define s0 where "s0 = s\<lparr>runqueues := (runqueues s)(r \<mapsto> q\<lparr>rq_sched_info := qi\<rparr>),
      tasks := (tasks s)(p \<mapsto> pt\<lparr>t_sched_info := pi\<rparr>, n \<mapsto> nt\<lparr>t_sched_info := ni\<rparr>),
      arch_state := switch_mm C (t_active_mm pt) m n (arch_start_context_switch C p b)\<rparr>"
  obtain x s1 where sw: "switch_to p n (pushq (after_switch_to C) s0) = (x, s1)" by fastforce
  have s1: "runqueues s1 = runqueues s0" "tasks s1 = tasks s0" "cfs_at s1 = cfs_at s" "se_at s1 = se_at s"
    "current_task s1 = current_task s"
    using switch_to_keeps [OF sw] by (simp_all add: s0_def)
  have "context_switch C r p n s = finish_task_switch C n s1"
    using assms(8,12) m sw by (auto simp: context_switch_def prep s0_def Let_def)
  moreover obtain l' b' where "finish_task_switch C n s1 = Some (s1\<lparr>arch_state := b', eflags := local_irq_enable (eflags s1),
      runqueues := (runqueues s1)(r \<mapsto> q\<lparr>rq_sched_info := qi, rq_lock := l'\<rparr>)\<rparr>)" "lock_free l'"
    using finish_task_switch_alive [OF fin assms(2), of s1 "q\<lparr>rq_sched_info := qi\<rparr>" a l n "nt\<lparr>t_sched_info := ni\<rparr>"]
      assms(4-6,11) by (auto simp: s1 s0_def)
  ultimately show ?thesis by (simp add: s1)
qed

section \<open>schedule\<close>

text \<open>What the core relies on: the switch releases the lock and enables interrupts, and clearing
  the reschedule flag changes nothing else.\<close>

definition core_ok :: "core_ext \<Rightarrow> bool" where
  "core_ok C \<longleftrightarrow> vr_ok (base C) \<and> ent_ok (base C) \<and> buddy_ok (base C) \<and> this_rq C = 0
     \<and> (\<forall>r s. finish_lock_switch C r s
          = map_option (\<lambda>s. s\<lparr>eflags := local_irq_enable (eflags s)\<rparr>) (rq_spin_unlock r s))
     \<and> (\<forall>t. \<exists>f. clear_tsk_need_resched (base C) t = t\<lparr>t_thread_flags := f\<rparr>)"

text \<open>Every task of the run queue is an ordinary user task.\<close>

definition user_tasks :: "core_ext \<Rightarrow> nat \<Rightarrow> nat \<Rightarrow> sched \<Rightarrow> bool" where
  "user_tasks C r p s \<longleftrightarrow> (\<forall>n. TaskSe n \<in> waiting_or_running r p s \<longrightarrow>
     (\<exists>t. tasks s n = Some t \<and> t_mm t \<noteq> None \<and> t_state t \<noteq> TASK_DEAD C))"

lemma schedule_finish:
  assumes C: "core_ok C" and rq: "runqueues s 0 = Some q" "prev_mm q = None" "rq_curr q = Some p"
      "rq_lock q = held_by smp_processor_id a l" "lock_free l"
    and t: "user_tasks C 0 p s0" "TaskSe n \<in> waiting_or_running 0 p s0" "tasks s = tasks s0"
  shows "\<exists>s' q'. (do {
       s \<leftarrow> upd_task p (clear_tsk_need_resched (base C)) s;
       if p \<noteq> n then do {
         s \<leftarrow> upd_rq 0 (\<lambda>q. q\<lparr>nr_switches := nr_switches q + 1, rq_curr := Some n\<rparr>) s;
         context_switch C 0 p n s }
       else rq_spin_unlock 0 s }) = Some s'
    \<and> runqueues s' 0 = Some q' \<and> lock_free (rq_lock q') \<and> rq_curr q' = Some n
    \<and> nr_switches q' = nr_switches q + of_bool (n \<noteq> p)
    \<and> cfs_at s' = cfs_at s \<and> se_at s' = se_at s
    \<and> current_task s' = current_task s"
proof -
  obtain pt where pt: "tasks s p = Some pt" "t_mm pt \<noteq> None"
    using t by (auto simp: user_tasks_def waiting_or_running_def)
  obtain nt where nt: "tasks s n = Some nt" "t_mm nt \<noteq> None" "t_state nt \<noteq> TASK_DEAD C"
    using t by (auto simp: user_tasks_def)
  obtain f where f: "clear_tsk_need_resched (base C) pt = pt\<lparr>t_thread_flags := f\<rparr>"
    using C unfolding core_ok_def by blast
  define s1 where "s1 = s\<lparr>tasks := (tasks s)(p \<mapsto> pt\<lparr>t_thread_flags := f\<rparr>)\<rparr>"
  have up: "upd_task p (clear_tsk_need_resched (base C)) s = Some s1"
    using pt(1) f by (simp add: upd_task_def s1_def)
  show ?thesis
  proof (cases "p = n")
    case True
    then show ?thesis
      using up rq rq_spin_unlock_held [of s1 0 q a l] by (auto simp: s1_def)
  next
    case False
    let ?q = "q\<lparr>nr_switches := nr_switches q + 1, rq_curr := Some n\<rparr>"
    define s2 where "s2 = s1\<lparr>runqueues := (runqueues s)(0 \<mapsto> ?q)\<rparr>"
    have "upd_rq 0 (\<lambda>q. q\<lparr>nr_switches := nr_switches q + 1, rq_curr := Some n\<rparr>) s1 = Some s2"
      using rq(1) by (simp add: upd_rq_def s2_def s1_def)
    moreover have "\<exists>s' q'. context_switch C 0 p n s2 = Some s' \<and> runqueues s' 0 = Some q' \<and> lock_free (rq_lock q')
        \<and> rq_curr q' = rq_curr ?q \<and> nr_switches q' = nr_switches ?q
        \<and> cfs_at s' = cfs_at s2 \<and> se_at s' = se_at s2 \<and> current_task s' = current_task s2"
      using C rq(2,4,5) pt(2) nt False
      by (intro context_switch_user [where a = a and l = l and pt = "pt\<lparr>t_thread_flags := f\<rparr>" and nt = nt])
        (simp_all add: core_ok_def s2_def s1_def)
    ultimately show ?thesis
      using False up by (auto simp: s2_def s1_def)
  qed
qed

lemma schedule_eq:
  assumes "runqueues s 0 = Some q" "rq_curr q = Some p"
  shows "schedule C s = do {
     s1 \<leftarrow> sched_enter C s;
     (nxt, s2) \<leftarrow> pick_next_task C 0 (Some p) s1;
     s3 \<leftarrow> upd_task p (clear_tsk_need_resched (base C)) s2;
     s4 \<leftarrow> (if Some p \<noteq> nxt then do {
              s \<leftarrow> upd_rq 0 (\<lambda>q. q\<lparr>nr_switches := nr_switches q + 1, rq_curr := nxt\<rparr>) s3;
              n \<leftarrow> nxt;
              context_switch C 0 p n s }
           else rq_spin_unlock 0 s3);
     Some (s4\<lparr>eflags := ucast (uninit_sched_flags C)\<rparr>) }"
  using assms by (simp add: schedule_def sched_enter_def cpu_rq_def smp_processor_id_def local_irq_save_def
      local_irq_restore_def Let_def)

text \<open>C18: \<^verbatim>\<open>schedule\<close> on a run queue with fair tasks only, all of them user tasks and no buddy set.  It
  returns: it takes the free lock, brings the clock up to date, charges the running task for its
  run, makes the runnable task with the smallest virtual run time the current task of the run
  queue, counts a switch exactly when that is another task, and releases the lock; the switch itself
  changes no entity.  The flag register ends up with what the uninitialised local \<^verbatim>\<open>flags\<close>
  contained, whatever it was before, and the global \<^verbatim>\<open>current_task\<close> is not changed.\<close>

theorem schedule_switches:
  assumes C: "core_ok C" and rq: "runqueues s 0 = Some q" "lock_free (rq_lock q)" "rq_curr q = Some p"
      "prev_mm q = None"
    and fair: "fair_ready (base C) 0 p s" "cfs_at s (RootCfs 0) = Some cq" "rq_nr_running q = h_nr_running cq"
    and charge: "\<forall>s1. sched_enter C s = Some s1 \<longrightarrow> charge_ok (base C) 0 s1"
    and tasks: "user_tasks C 0 p s"
  shows "\<exists>n s' q'. schedule C s = Some s' \<and> chosen (base C) 0 p s n s'
    \<and> (\<exists>s1 s2. sched_enter C s = Some s1 \<and> run_charged (base C) 0 p s1 n s2 \<and> se_at s1 = se_at s \<and> se_at s' = se_at s2)
    \<and> runqueues s' 0 = Some q' \<and> rq_curr q' = Some n \<and> lock_free (rq_lock q')
    \<and> nr_switches q' = nr_switches q + of_bool (n \<noteq> p)
    \<and> eflags s' = ucast (uninit_sched_flags C) \<and> current_task s' = current_task s"
proof -
  obtain h q1 where enter: "sched_enter C s = Some (s\<lparr>eflags := local_irq_disable (eflags s), hw_clock := h,
        runqueues := (runqueues s)(0 \<mapsto> q1)\<rparr>)"
    and q1: "rq_lock q1 = held_by smp_processor_id (caller_addr s) (rq_lock q)" "rq_curr q1 = Some p"
      "rq_nr_running q1 = h_nr_running cq" "prev_mm q1 = None" "nr_switches q1 = nr_switches q"
    using sched_enter_spec [OF rq(1,2), of C] rq(3,4) fair(3) by auto
  define s1 where "s1 = s\<lparr>eflags := local_irq_disable (eflags s), hw_clock := h,
        runqueues := (runqueues s)(0 \<mapsto> q1)\<rparr>"
  have same: "cfs_at s1 = cfs_at s" "se_at s1 = se_at s" "tasks s1 = tasks s" by (simp_all add: s1_def)
  note cong = timeline_cong [OF same(1,2)] fair_ready_cong [OF same]
  have "fair_ready (base C) 0 p s1" "charge_ok (base C) 0 s1"
    using fair(1) cong(6) charge enter by (simp_all add: s1_def)
  then obtain n s2 where pick: "pick_next_task C 0 (Some p) s1 = Some (Some n, s2)"
      "chosen (base C) 0 p s1 n s2" "outside s2 = outside s1" "run_charged (base C) 0 p s1 n s2"
    using pick_next_task_fair_only [of "base C" C 0 p s1 q1 cq] C q1(3) fair(2)
    by (auto simp: core_ok_def same) (auto simp: s1_def)
  note out = outsideD [OF pick(3)]
  have wr: "waiting_or_running 0 p s1 = waiting_or_running 0 p s"
    by (simp add: waiting_or_running_def cong(1))
  then have pick2: "chosen (base C) 0 p s n s2" using pick(2) by (simp add: chosen_def)
  have rq2: "runqueues s2 0 = Some q1" "rq_lock q1 = held_by smp_processor_id (caller_addr s) (rq_lock q)"
    "tasks s2 = tasks s" using out q1(1) by (simp_all add: s1_def)
  have mem: "TaskSe n \<in> waiting_or_running 0 p s" using pick2 by (simp add: chosen_def)
  obtain s3 q3 where s3: "(do {
       s \<leftarrow> upd_task p (clear_tsk_need_resched (base C)) s2;
       if p \<noteq> n then do {
         s \<leftarrow> upd_rq 0 (\<lambda>q. q\<lparr>nr_switches := nr_switches q + 1, rq_curr := Some n\<rparr>) s;
         context_switch C 0 p n s }
       else rq_spin_unlock 0 s }) = Some s3"
    and q3: "runqueues s3 0 = Some q3" "lock_free (rq_lock q3)" "rq_curr q3 = Some n"
      "nr_switches q3 = nr_switches q1 + of_bool (n \<noteq> p)"
    and keep: "cfs_at s3 = cfs_at s2" "se_at s3 = se_at s2" "current_task s3 = current_task s2"
    using schedule_finish [OF C rq2(1) q1(4,2) rq2(2) rq(2) tasks mem rq2(3)] by blast
  have "chosen (base C) 0 p s n (s3\<lparr>eflags := f\<rparr>)" for f
    using chosen_same [of "s3\<lparr>eflags := f\<rparr>" s2] pick2 keep by simp
  moreover have "schedule C s = Some (s3\<lparr>eflags := ucast (uninit_sched_flags C)\<rparr>)"
    unfolding schedule_eq [OF rq(1,3)] enter s1_def [symmetric] using pick(1) s3
    by (auto simp: bind_eq_Some_conv split: if_splits)
  ultimately show ?thesis
    using q3 q1(5) keep(2,3) out(4) same(2) pick(4) enter [folded s1_def]
    by (intro exI [of _ n] exI [of _ "s3\<lparr>eflags := ucast (uninit_sched_flags C)\<rparr>"] exI [of _ q3] conjI
        exI [of _ s1] exI [of _ s2]) (simp_all add: s1_def)
qed

text \<open>The two tasks of the example.\<close>

lemma demo_core_ok: "core_ok demo_core"
  unfolding core_ok_def demo_core_def
  by (simp add: demo_vr_ok) (auto simp: ent_ok_def buddy_ok_def demo_sched_ext_def)

lemma demo_fair_ready: "fair_ready demo_sched_ext 0 1 demo_sched"
  using demo_timeline demo_curr_ok by (simp add: fair_ready_def no_buddies_def)

lemma demo_user_tasks: "user_tasks demo_core 0 1 demo_sched"
proof -
  have "tasks demo_sched 2 = Some (demo_task 2)" "t_mm (demo_task k) = Some 0" "t_state (demo_task k) = 0"
    "TASK_DEAD demo_core = 64" for k
    by (simp_all add: demo_sched_def demo_task_def demo_core_def)
  then show ?thesis by (auto simp: user_tasks_def waiting_or_running_def demo_timeline)
qed

lemma demo_clock_still:
  "update_rq_clock demo_sched_ext r s = Some s' \<Longrightarrow> hw_clock s' = hw_clock s"
  by (auto simp: update_rq_clock_def update_rq_clock_task_def upd_rq_def sched_clock_def demo_sched_ext_def
      Let_def bind_eq_Some_conv split: if_splits)

lemma demo_charge_ok:
  assumes "sched_enter demo_core demo_sched = Some s1"
  shows "charge_ok demo_sched_ext 0 s1"
proof -
  have base: "base demo_core = demo_sched_ext" by (simp add: demo_core_def)
  have "runqueues demo_sched 0 = Some demo_rq" "lock_free (rq_lock demo_rq)"
    by (simp_all add: demo_sched_def demo_rq_def lock_free_def SPINLOCK_INIT_def NO_CPU_def)
  from sched_enter_spec [OF this, of demo_core] assms
  have same: "cfs_at s1 = cfs_at demo_sched" "se_at s1 = se_at demo_sched" by auto
  have "hw_clock s1 = hw_clock demo_sched"
    using assms unfolding sched_enter_def base
    by (auto simp: rq_spin_lock_def upd_rq_def bind_eq_Some_conv dest!: demo_clock_still)
  then show ?thesis
    using demo_window demo_second_window [OF same] by (simp add: charge_ok_def timeline_cong [OF same])
qed

theorem schedule_switches_witness:
  "\<exists>n s' q'. schedule demo_core demo_sched = Some s' \<and> runqueues s' 0 = Some q' \<and> rq_curr q' = Some n
     \<and> lock_free (rq_lock q') \<and> eflags s' = 0x246 \<and> current_task s' = Some 1"
proof -
  have "runqueues demo_sched 0 = Some demo_rq" "base demo_core = demo_sched_ext"
    "lock_free (rq_lock demo_rq)" "rq_curr demo_rq = Some 1" "prev_mm demo_rq = None"
    "rq_nr_running demo_rq = h_nr_running demo_cfs" "current_task demo_sched = Some 1"
    "uninit_sched_flags demo_core = 0x246"
    by (simp_all add: demo_sched_def demo_rq_def demo_cfs_def demo_core_def lock_free_def SPINLOCK_INIT_def NO_CPU_def)
  then show ?thesis
    using schedule_switches [of demo_core demo_sched demo_rq 1 demo_cfs]
      demo_core_ok demo_fair_ready demo_user_tasks demo_charge_ok by auto
qed

end
