(* ===== verification/Fair_Trace.thy ===== *)
theory Fair_Trace
  imports Fair_Queue Sched_Run
begin

text \<open>
  The fair class under any sequence of events: tasks wake up, block, the running task is charged,
  the next task is chosen, and the clock moves.  In every reachable state the run queue is
  well formed, so that no task is lost and none is counted twice.
\<close>

section \<open>Marks and counters across a choice\<close>

definition marks :: "sched \<Rightarrow> (se_ptr \<Rightarrow> bool option) \<times> (cfs_ptr \<Rightarrow> (u32 \<times> u32) option)" where
  "marks s = (\<lambda>e. map_option on_rq (se_at s e),
     \<lambda>q. map_option (\<lambda>cq. (cfs_nr_running cq, h_nr_running cq)) (cfs_at s q))"

lemma marks_quiet: "buddy_ok X \<Longrightarrow> fair_quiet X marks"
  by unfold_locales (auto simp: marks_def fun_eq_iff buddy_ok_def)

lemmas pick_marks = fair_quiet.pick_next_task_fair_obs [OF marks_quiet]

lemma marksD:
  assumes "marks s' = marks s"
  shows "is_on_rq s' e = is_on_rq s e"
    "map_option cfs_nr_running (cfs_at s' q) = map_option cfs_nr_running (cfs_at s q)"
    "map_option h_nr_running (cfs_at s' q) = map_option h_nr_running (cfs_at s q)"
proof -
  have "map_option on_rq (se_at s' e) = map_option on_rq (se_at s e)"
    and q: "map_option (\<lambda>cq. (cfs_nr_running cq, h_nr_running cq)) (cfs_at s' q)
      = map_option (\<lambda>cq. (cfs_nr_running cq, h_nr_running cq)) (cfs_at s q)"
    using assms by (auto simp: marks_def dest: fun_cong)
  then show "is_on_rq s' e = is_on_rq s e" using is_on_rq_cong by blast
  show "map_option cfs_nr_running (cfs_at s' q) = map_option cfs_nr_running (cfs_at s q)"
    "map_option h_nr_running (cfs_at s' q) = map_option h_nr_running (cfs_at s q)"
    using q by (auto simp: map_option_case split: option.splits)
qed

lemma rq_wf_marks:
  assumes wf: "rq_wf X r s" and m: "marks s' = marks s" "runqueues s' = runqueues s"
    and "timeline_ok X (RootCfs r) s'" "curr_ok (RootCfs r) s'" "runnable (RootCfs r) s' = runnable (RootCfs r) s"
  shows "rq_wf X r s'"
  using assms(1,4,5) unfolding rq_wf_def cfs_wf_def marksD [OF m(1)] assms(6) m(2) by blast

section \<open>Every choice\<close>

definition fair_task :: "sched \<Rightarrow> nat \<Rightarrow> bool" where
  "fair_task s n \<longleftrightarrow> (\<exists>t. tasks s n = Some t \<and> t_sched_class t = Some Fair_class)"

text \<open>A well-formed run queue of existing fair tasks, no buddy set.\<close>

definition fair_inv :: "sched_ext \<Rightarrow> nat \<Rightarrow> sched \<Rightarrow> bool" where
  "fair_inv X r s \<longleftrightarrow> rq_wf X r s \<and> (\<exists>cq. cfs_at s (RootCfs r) = Some cq \<and> no_buddies cq
     \<and> (\<forall>e. e \<in> runnable (RootCfs r) s \<or> cfs_curr cq = Some e \<longrightarrow> (\<exists>n. e = TaskSe n \<and> fair_task s n)))"

definition next_task :: "sched \<Rightarrow> nat \<Rightarrow> nat option \<Rightarrow> sched \<Rightarrow> bool" where
  "next_task s r n s' \<longleftrightarrow> (case n of None \<Rightarrow> s' = s | Some n \<Rightarrow> TaskSe n \<in> runnable (RootCfs r) s
     \<and> (\<exists>cq. cfs_at s' (RootCfs r) = Some cq \<and> cfs_curr cq = Some (TaskSe n))
     \<and> (\<forall>e \<in> runnable (RootCfs r) s. lag (RootCfs r) s' (TaskSe n) \<le> lag (RootCfs r) s' e))"

lemma rest_of_pick:
  assumes laws: "ent_ok X" "buddy_ok X" and ok: "timeline_ok X (RootCfs r) s"
    and cq: "cfs_at s (RootCfs r) = Some cq" "no_buddies cq"
    and w: "timeline (RootCfs r) s \<noteq> []" "\<And>e. e \<in> set (timeline (RootCfs r) s) \<Longrightarrow> (\<exists>n. e = TaskSe n) \<and> is_on_rq s e"
  shows "\<exists>n s' cq'. do { (se, s) \<leftarrow> pick_next_entity X (RootCfs r) None s;
         case se of None \<Rightarrow> Some (None, s)
         | Some e \<Rightarrow> do { s \<leftarrow> set_next_entity X (RootCfs r) e s; Some (Some (task_of X e), s) } } = Some (Some n, s')
     \<and> TaskSe n \<in> set (timeline (RootCfs r) s) \<and> timeline_ok X (RootCfs r) s' \<and> curr_ok (RootCfs r) s'
     \<and> set (timeline (RootCfs r) s') = set (timeline (RootCfs r) s) - {TaskSe n}
     \<and> (\<forall>d \<in> set (timeline (RootCfs r) s). lag (RootCfs r) s' (TaskSe n) \<le> lag (RootCfs r) s' d)
     \<and> cfs_at s' (RootCfs r) = Some cq' \<and> cfs_curr cq' = Some (TaskSe n) \<and> no_buddies cq'"
proof -
  let ?q = "RootCfs r"
  obtain e s' cq' where e: "pick_next_entity X ?q None s = Some (Some e, s)" "set_next_entity X ?q e s = Some s'"
    "e \<in> set (timeline ?q s)" "timeline_ok X ?q s'" "set (timeline ?q s') = set (timeline ?q s) - {e}"
    "\<forall>d \<in> set (timeline ?q s). lag ?q s' e \<le> lag ?q s' d" "cfs_at s' ?q = Some cq'" "cfs_curr cq' = Some e"
    "curr_ok ?q s'" "no_buddies cq'"
    using pick_and_set [OF ok laws(2) cq w(1)] w(2) unfolding is_on_rq_def by blast
  obtain n where n: "e = TaskSe n" using w(2) e(3) by blast
  show ?thesis using e [unfolded n] laws(1)
    by (intro exI [of _ n] exI [of _ s'] exI [of _ cq']) (simp add: ent_ok_def)
qed

text \<open>The choice with nobody running, and after the running task has blocked.\<close>

lemma pick_idle:
  assumes laws: "ent_ok X" "buddy_ok X" and inv: "fair_inv X r s"
    and cq: "cfs_at s (RootCfs r) = Some cq" "cfs_nr_running cq \<noteq> 0" "cfs_curr cq = None"
  shows "\<exists>n s' cq'. pick_next_task_fair X r None s = Some (Some n, s')
     \<and> TaskSe n \<in> set (timeline (RootCfs r) s) \<and> timeline_ok X (RootCfs r) s' \<and> curr_ok (RootCfs r) s'
     \<and> set (timeline (RootCfs r) s') = set (timeline (RootCfs r) s) - {TaskSe n}
     \<and> (\<forall>d \<in> set (timeline (RootCfs r) s). lag (RootCfs r) s' (TaskSe n) \<le> lag (RootCfs r) s' d)
     \<and> cfs_at s' (RootCfs r) = Some cq' \<and> cfs_curr cq' = Some (TaskSe n) \<and> no_buddies cq'"
proof -
  let ?q = "RootCfs r"
  have wf: "cfs_wf X ?q s" and nb: "no_buddies cq"
    using inv cq(1) by (auto simp: fair_inv_def rq_wf_def)
  have run: "runnable ?q s = set (timeline ?q s)" using cq by (simp add: runnable_at)
  have "timeline ?q s \<noteq> []" using cfs_wfD(4) [OF wf] cq(1,2) run by auto
  moreover have "(\<exists>n. e = TaskSe n) \<and> is_on_rq s e" if "e \<in> set (timeline ?q s)" for e
    using that inv cfs_wfD(3) [OF wf] unfolding run fair_inv_def by auto
  ultimately show ?thesis
    using rest_of_pick [OF laws cfs_wfD(1) [OF wf] cq(1) nb] cq(1,2) by (simp add: pick_next_task_fair_def Let_def)
qed

lemma pick_blocked:
  assumes laws: "vr_ok X" "ent_ok X" "buddy_ok X" and inv: "fair_inv X r s" "window X (RootCfs r) s"
    and cq: "cfs_at s (RootCfs r) = Some cq" "cfs_nr_running cq \<noteq> 0" "cfs_curr cq = Some (TaskSe p)"
    and p: "se_at s (TaskSe p) = Some pse" "\<not> on_rq pse"
  shows "\<exists>n s' cq'. pick_next_task_fair X r (Some p) s = Some (Some n, s')
     \<and> TaskSe n \<in> set (timeline (RootCfs r) s) \<and> timeline_ok X (RootCfs r) s' \<and> curr_ok (RootCfs r) s'
     \<and> set (timeline (RootCfs r) s') = set (timeline (RootCfs r) s) - {TaskSe n}
     \<and> (\<forall>d \<in> set (timeline (RootCfs r) s). lag (RootCfs r) s' (TaskSe n) \<le> lag (RootCfs r) s' d)
     \<and> cfs_at s' (RootCfs r) = Some cq' \<and> cfs_curr cq' = Some (TaskSe n) \<and> no_buddies cq'"
proof -
  let ?q = "RootCfs r"
  have wf: "cfs_wf X ?q s" and nb: "no_buddies cq" and t: "fair_task s p"
    using inv(1) cq(1,3) by (auto simp: fair_inv_def rq_wf_def)
  have run: "runnable ?q s = set (timeline ?q s)" using cq p by (auto simp: runnable_at is_on_rq_def)
  obtain s1 where s1: "update_curr X ?q s = Some s1" "timeline_ok X ?q s1" "curr_ok ?q s1"
    "timeline ?q s1 = timeline ?q s" "charged X ?q s s1"
    using update_curr_spec [OF cfs_wfD(1) [OF wf] laws(1) cfs_wfD(2) [OF wf] inv(2)] by blast
  obtain cq1 pse1 where cq1: "cfs_at s1 ?q = Some cq1" "same_queue cq cq1"
    and pse1: "se_at s1 (TaskSe p) = Some pse1" "\<not> on_rq pse1"
    using s1(5) cq(1,3) p unfolding charged_def by fastforce
  note sq = same_queueD [OF cq1(2)]
  define cq2 where "cq2 = cq1\<lparr>cfs_bw := check_cfs_rq_runtime X (cfs_bw cq1), cfs_curr := None\<rparr>"
  define s2 where "s2 = s1\<lparr>cfs_at := (cfs_at s1)(?q \<mapsto> cq2)\<rparr>"
  have put: "put_prev_entity X ?q (TaskSe p) s1 = Some s2"
    using pse1 cq1(1) by (simp add: put_prev_entity_def upd_cfs_def s2_def cq2_def)
  have at2: "cfs_at s2 ?q = Some cq2" "se_at s2 = se_at s1" by (simp_all add: s2_def)
  have tl2: "timeline_ok X ?q s2" "timeline ?q s2 = timeline ?q s"
    using timeline_ok_same [OF s1(2) cq1(1) at2(1)] s1(4) by (simp_all add: cq2_def at2(2))
  have "no_buddies cq2" using nb sq by (simp add: no_buddies_def cq2_def)
  moreover have "timeline ?q s2 \<noteq> []" using cfs_wfD(4) [OF wf] cq(1,2) run tl2(2) by auto
  moreover have "(\<exists>n. e = TaskSe n) \<and> is_on_rq s2 e" if "e \<in> set (timeline ?q s2)" for e
    using that inv(1) cfs_wfD(3) [OF wf] is_on_rq_cong [OF charged_on_rq [OF s1(5) cfs_wfD(2) [OF wf]]] tl2(2) at2(2)
    unfolding run fair_inv_def by (auto simp: is_on_rq_def)
  ultimately show ?thesis
    using rest_of_pick [OF laws(2,3) tl2(1) at2(1)] tl2(2) cq t s1(1) cq1(1) pse1 put
    by (auto simp: pick_next_task_fair_def fair_task_def)
qed


text \<open>The three cases: nobody runs, the running task goes on, the running task has blocked.\<close>

lemma pick_any:
  assumes laws: "vr_ok X" "ent_ok X" "buddy_ok X" and inv: "fair_inv X r s" "charge_ok X r s"
    and cq: "cfs_at s (RootCfs r) = Some cq" "cfs_curr cq = map_option TaskSe prev" "cfs_nr_running cq \<noteq> 0"
  shows "\<exists>n s' cq'. pick_next_task_fair X r prev s = Some (Some n, s') \<and> TaskSe n \<in> runnable (RootCfs r) s
     \<and> timeline_ok X (RootCfs r) s' \<and> curr_ok (RootCfs r) s' \<and> set (timeline (RootCfs r) s') = runnable (RootCfs r) s - {TaskSe n}
     \<and> (\<forall>d \<in> runnable (RootCfs r) s. lag (RootCfs r) s' (TaskSe n) \<le> lag (RootCfs r) s' d)
     \<and> cfs_at s' (RootCfs r) = Some cq' \<and> cfs_curr cq' = Some (TaskSe n) \<and> no_buddies cq'"
proof -
  let ?q = "RootCfs r"
  have wf: "cfs_wf X ?q s" and nb: "no_buddies cq"
    and known: "\<And>e. e \<in> runnable ?q s \<or> cfs_curr cq = Some e \<Longrightarrow> \<exists>n. e = TaskSe n \<and> fair_task s n"
    using inv(1) cq(1) by (auto simp: fair_inv_def rq_wf_def)
  have win: "window X ?q s" "\<forall>s1. update_curr X ?q s = Some s1 \<longrightarrow> window X ?q s1"
    using inv(2) by (simp_all add: charge_ok_def)
  show ?thesis
  proof (cases prev)
    case None
    moreover have "runnable ?q s = set (timeline ?q s)" using cq None by (simp add: runnable_at)
    ultimately show ?thesis using pick_idle [OF laws(2,3) inv(1) cq(1,3)] cq(2) by simp
  next
    case (Some p)
    then have c: "cfs_curr cq = Some (TaskSe p)" using cq(2) by simp
    then obtain pse t where p: "se_at s (TaskSe p) = Some pse" "tasks s p = Some t" "t_sched_class t = Some Fair_class"
      using curr_okD(2) [OF cfs_wfD(2) [OF wf] cq(1)] known by (fastforce simp: fair_task_def)
    show ?thesis
    proof (cases "on_rq pse")
      case True
      have run: "runnable ?q s = insert (TaskSe p) (set (timeline ?q s))"
        using cq(1) c p(1) True by (auto simp: runnable_at is_on_rq_def)
      have "\<forall>e \<in> set (timeline ?q s). \<exists>n se. e = TaskSe n \<and> se_at s e = Some se \<and> on_rq se"
      proof
        fix e assume "e \<in> set (timeline ?q s)"
        then have "e \<in> runnable ?q s" by (simp add: run)
        moreover from this have "is_on_rq s e" by (simp add: cfs_wfD(3) [OF wf])
        ultimately show "\<exists>n se. e = TaskSe n \<and> se_at s e = Some se \<and> on_rq se"
          using known unfolding is_on_rq_def by blast
      qed
      then show ?thesis
        using pick_next_task_fair_spec [OF cfs_wfD(1) [OF wf] laws cq(1,3) nb c cfs_wfD(2) [OF wf] p(2,3,1) True _ win]
        unfolding run Some by blast
    next
      case False
      then have "runnable ?q s = set (timeline ?q s)" using cq(1) c p(1) by (auto simp: runnable_at is_on_rq_def)
      then show ?thesis
        using pick_blocked [OF laws inv(1) win(1) cq(1) cq(3) c p(1) False] Some by simp
    qed
  qed
qed

lemma pick_keeps:
  assumes laws: "vr_ok X" "ent_ok X" "buddy_ok X" and inv: "fair_inv X r s" "charge_ok X r s"
    and cq: "cfs_at s (RootCfs r) = Some cq" "cfs_curr cq = map_option TaskSe prev"
  shows "\<exists>n s'. pick_next_task_fair X r prev s = Some (n, s') \<and> fair_inv X r s'
    \<and> runnable (RootCfs r) s' = runnable (RootCfs r) s \<and> next_task s r n s'
    \<and> (n = None \<longleftrightarrow> cfs_nr_running cq = 0)"
proof (cases "cfs_nr_running cq = 0")
  case True
  then show ?thesis
    using inv(1) cq(1) by (intro exI [of _ None] exI [of _ s]) (simp add: pick_next_task_fair_def next_task_def)
next
  case False
  let ?q = "RootCfs r"
  have wf: "rq_wf X r s" "cfs_wf X ?q s" and nb: "no_buddies cq"
    and known: "\<And>e. e \<in> runnable ?q s \<or> cfs_curr cq = Some e \<Longrightarrow> \<exists>n. e = TaskSe n \<and> fair_task s n"
    using inv(1) cq(1) by (auto simp: fair_inv_def rq_wf_def)
  obtain n s' cq' where n: "pick_next_task_fair X r prev s = Some (Some n, s')" "TaskSe n \<in> runnable ?q s"
      "timeline_ok X ?q s'" "curr_ok ?q s'" "set (timeline ?q s') = runnable ?q s - {TaskSe n}"
      "\<forall>d \<in> runnable ?q s. lag ?q s' (TaskSe n) \<le> lag ?q s' d"
      "cfs_at s' ?q = Some cq'" "cfs_curr cq' = Some (TaskSe n)" "no_buddies cq'"
    using pick_any [OF laws inv cq False] by blast
  note m = pick_marks [OF laws(3) n(1)]
  note ou = outsideD [OF out.pick_next_task_fair_obs [OF n(1)]]
  have "is_on_rq s (TaskSe n)" using n(2) cfs_wfD(3) [OF wf(2)] by auto
  then have run: "runnable ?q s' = runnable ?q s"
    using n(2,5,8) by (auto simp: runnable_at [OF n(7)] marksD(1) [OF m])
  have "rq_wf X r s'" by (rule rq_wf_marks [OF wf(1) m ou(2) n(3,4) run])
  then have "fair_inv X r s'"
    using n(2,7-9) known run unfolding fair_inv_def by (auto simp: fair_task_def ou(1))
  then show ?thesis
    using n run False by (intro exI [of _ "Some n"] exI [of _ s']) (simp add: next_task_def)
qed


section \<open>The other events\<close>

lemma wake_keeps:
  assumes laws: "vr_ok X" "acct_ok X" "latency_ok X" "flat X" and inv: "fair_inv X r s" "window X (RootCfs r) s"
    and cq: "cfs_at s (RootCfs r) = Some cq" and p: "fair_task s p"
    and se: "se_at s (TaskSe p) = Some se" "\<not> on_rq se" "cfs_rq_of X (TaskSe p) = RootCfs r"
    and arr: "arrival_ok X flags (min_vruntime cq) (arrives_with X (RootCfs r) (TaskSe p) flags s cq se)"
  shows "\<exists>s'. enqueue_task_fair X r p flags s = Some s' \<and> fair_inv X r s'
    \<and> runnable (RootCfs r) s' = insert (TaskSe p) (runnable (RootCfs r) s)"
proof -
  have wf: "rq_wf X r s" using inv(1) by (simp add: fair_inv_def)
  obtain s' cq' where s': "enqueue_task_fair X r p flags s = Some s'" "rq_wf X r s'"
    "runnable (RootCfs r) s' = insert (TaskSe p) (runnable (RootCfs r) s)" "cfs_at s' (RootCfs r) = Some cq'"
    "cfs_curr cq' = cfs_curr cq" "no_buddies cq' = no_buddies cq" "tasks s' = tasks s"
    using enqueue_task_fair_spec [OF laws wf inv(2) cq se arr] by blast
  then have "fair_inv X r s'"
    using inv(1) cq p unfolding fair_inv_def by (auto simp: fair_task_def)
  then show ?thesis using s' by blast
qed

lemma block_keeps:
  assumes laws: "vr_ok X" "acct_ok X" "buddy_ok X" "flat X" and inv: "fair_inv X r s" "window X (RootCfs r) s"
    and p: "TaskSe p \<in> runnable (RootCfs r) s"
  shows "\<exists>s'. dequeue_task_fair X r p flags s = Some s' \<and> fair_inv X r s'
    \<and> runnable (RootCfs r) s' = runnable (RootCfs r) s - {TaskSe p}"
proof -
  obtain cq where wf: "rq_wf X r s" and cq: "cfs_at s (RootCfs r) = Some cq" "no_buddies cq"
    using inv(1) by (auto simp: fair_inv_def)
  obtain se where se: "se_at s (TaskSe p) = Some se"
    using p unfolding cfs_wfD(3) [OF rq_wfD(1) [OF wf]] is_on_rq_def by blast
  obtain s' cq' where s': "dequeue_task_fair X r p flags s = Some s'" "rq_wf X r s'"
    "runnable (RootCfs r) s' = runnable (RootCfs r) s - {TaskSe p}" "cfs_at s' (RootCfs r) = Some cq'"
    "cfs_curr cq' = cfs_curr cq" "cfs_next cq' = forget (TaskSe p) (cfs_next cq)"
    "cfs_last cq' = forget (TaskSe p) (cfs_last cq)" "cfs_skip cq' = forget (TaskSe p) (cfs_skip cq)" "tasks s' = tasks s"
    using dequeue_task_fair_spec [OF laws wf inv(2) cq(1) p se, of flags] by blast
  have "no_buddies cq'" using s'(6-8) cq(2) by (simp add: no_buddies_def forget_def)
  then have "fair_inv X r s'"
    using inv(1) cq(1) s' unfolding fair_inv_def by (auto simp: fair_task_def)
  then show ?thesis using s' by blast
qed

lemma charge_wf:
  assumes laws: "vr_ok X" "buddy_ok X" and wf: "rq_wf X r s" "window X (RootCfs r) s"
  shows "\<exists>s'. update_curr X (RootCfs r) s = Some s' \<and> rq_wf X r s' \<and> charged X (RootCfs r) s s'
    \<and> timeline (RootCfs r) s' = timeline (RootCfs r) s \<and> runnable (RootCfs r) s' = runnable (RootCfs r) s"
proof -
  let ?q = "RootCfs r"
  note cwf = rq_wfD(1) [OF wf(1)]
  obtain cq where cq: "cfs_at s ?q = Some cq" using rq_wfD(2) [OF wf(1)] by blast
  obtain s' where s': "update_curr X ?q s = Some s'" "timeline_ok X ?q s'" "curr_ok ?q s'"
    "timeline ?q s' = timeline ?q s" "charged X ?q s s'"
    using update_curr_spec [OF cfs_wfD(1) [OF cwf] laws(1) cfs_wfD(2) [OF cwf] wf(2)] by blast
  obtain cq' where cq': "cfs_at s' ?q = Some cq'" "same_queue cq cq'" using s'(5) cq unfolding charged_def by blast
  note m = fair_quiet.update_curr_obs [OF marks_quiet [OF laws(2)] s'(1)]
  have run: "runnable ?q s' = runnable ?q s"
    by (simp add: runnable_at [OF cq] runnable_at [OF cq'(1)] s'(4) same_queueD [OF cq'(2)] marksD(1) [OF m])
  have "rq_wf X r s'"
    using rq_wf_marks [OF wf(1) m _ s'(2,3) run] s'(5) by (simp add: charged_def)
  then show ?thesis using s' run by blast
qed

lemma charge_keeps:
  assumes laws: "vr_ok X" "buddy_ok X" and inv: "fair_inv X r s" "window X (RootCfs r) s"
  shows "\<exists>s'. update_curr X (RootCfs r) s = Some s' \<and> fair_inv X r s'
    \<and> runnable (RootCfs r) s' = runnable (RootCfs r) s"
proof -
  let ?q = "RootCfs r"
  obtain cq where wf: "rq_wf X r s" and cq: "cfs_at s ?q = Some cq" "no_buddies cq"
    using inv(1) by (auto simp: fair_inv_def)
  obtain s' where s': "update_curr X ?q s = Some s'" "rq_wf X r s'" "charged X ?q s s'" "runnable ?q s' = runnable ?q s"
    using charge_wf [OF laws wf inv(2)] by blast
  obtain cq' where cq': "cfs_at s' ?q = Some cq'" "same_queue cq cq'" using s'(3) cq(1) unfolding charged_def by blast
  have "no_buddies cq'" using cq(2) by (simp add: no_buddies_def same_queueD [OF cq'(2)])
  moreover have "tasks s' = tasks s" using s'(3) by (simp add: charged_def)
  ultimately have "fair_inv X r s'"
    using inv(1) s'(2) cq(1) cq'(1) unfolding fair_inv_def by (auto simp: fair_task_def s'(4) same_queueD [OF cq'(2)])
  then show ?thesis using s'(1,4) by blast
qed
lemma clock_keeps: "fair_inv X r s \<Longrightarrow> fair_inv X r (s\<lparr>hw_clock := h\<rparr>)"
proof -
  assume inv: "fair_inv X r s"
  let ?s = "s\<lparr>hw_clock := h\<rparr>"
  have same: "cfs_at ?s = cfs_at s" "se_at ?s = se_at s" and rq: "runqueues ?s = runqueues s"
    and ft: "fair_task ?s = fair_task s" by (simp_all add: fair_task_def fun_eq_iff)
  have run: "runnable q ?s = runnable q s" and on: "is_on_rq ?s = is_on_rq s" for q
    using timeline_cong(1) [OF same] by (auto simp: runnable_def is_on_rq_def fun_eq_iff)
  show ?thesis
    using inv unfolding fair_inv_def rq_wf_def cfs_wf_def run on timeline_cong(3,4) [OF same] same rq ft .
qed

section \<open>Sequences of events\<close>

inductive fair_step :: "sched_ext \<Rightarrow> nat \<Rightarrow> sched \<Rightarrow> sched \<Rightarrow> bool" for X :: sched_ext and r :: nat where
  wake: "fair_task s p \<Longrightarrow> cfs_rq_of X (TaskSe p) = RootCfs r \<Longrightarrow> window X (RootCfs r) s \<Longrightarrow>
    cfs_at s (RootCfs r) = Some cq \<Longrightarrow> se_at s (TaskSe p) = Some se \<Longrightarrow> \<not> on_rq se \<Longrightarrow>
    arrival_ok X flags (min_vruntime cq) (arrives_with X (RootCfs r) (TaskSe p) flags s cq se) \<Longrightarrow>
    enqueue_task_fair X r p flags s = Some s' \<Longrightarrow> fair_step X r s s'"
| block: "TaskSe p \<in> runnable (RootCfs r) s \<Longrightarrow> window X (RootCfs r) s \<Longrightarrow>
    dequeue_task_fair X r p flags s = Some s' \<Longrightarrow> fair_step X r s s'"
| charge: "window X (RootCfs r) s \<Longrightarrow> update_curr X (RootCfs r) s = Some s' \<Longrightarrow> fair_step X r s s'"
| choose: "charge_ok X r s \<Longrightarrow> cfs_at s (RootCfs r) = Some cq \<Longrightarrow> cfs_curr cq = map_option TaskSe prev \<Longrightarrow>
    pick_next_task_fair X r prev s = Some (n, s') \<Longrightarrow> fair_step X r s s'"
| tick: "fair_step X r s (s\<lparr>hw_clock := h\<rparr>)"

inductive fair_reach :: "sched_ext \<Rightarrow> nat \<Rightarrow> sched \<Rightarrow> sched \<Rightarrow> bool" for X :: sched_ext and r :: nat and s0 :: sched where
  start: "fair_reach X r s0 s0"
| step: "fair_reach X r s0 s \<Longrightarrow> fair_step X r s s' \<Longrightarrow> fair_reach X r s0 s'"

definition fair_laws :: "sched_ext \<Rightarrow> bool" where
  "fair_laws X \<longleftrightarrow> vr_ok X \<and> acct_ok X \<and> latency_ok X \<and> flat X \<and> ent_ok X \<and> buddy_ok X"

lemma fair_step_keeps:
  assumes "fair_laws X" "fair_step X r s s'" "fair_inv X r s"
  shows "fair_inv X r s'"
  using assms(2,3)
proof cases
  case (wake p cq se flags)
  then show ?thesis using wake_keeps [of X r s cq p se flags] assms(1,3) by (auto simp: fair_laws_def)
next
  case (block p flags)
  then show ?thesis using block_keeps [of X r s p flags] assms(1,3) by (auto simp: fair_laws_def)
next
  case charge
  then show ?thesis using charge_keeps [of X r s] assms(1,3) by (auto simp: fair_laws_def)
next
  case (choose cq prev n)
  then show ?thesis using pick_keeps [of X r s cq prev] assms(1,3) by (auto simp: fair_laws_def)
qed (simp add: clock_keeps)

lemma fair_reach_keeps: "fair_reach X r s0 s \<Longrightarrow> fair_laws X \<Longrightarrow> fair_inv X r s0 \<Longrightarrow> fair_inv X r s"
  by (induction rule: fair_reach.induct) (auto intro: fair_step_keeps)


text \<open>C19: The run queue stays well formed.  Whatever sequence of events follows an initial well-formed
  state (tasks waking up, blocking, being charged and chosen, time passing, with virtual run
  times in the window of the comparison), the timeline is ordered with its first entity cached,
  the entities marked \<^verbatim>\<open>on_rq\<close> are exactly the waiting ones and the running one, and the three
  counters are their number.  No task can be lost: blocking a runnable task never faults, and a
  choice never faults and returns, unless nobody is runnable, a runnable task that nobody
  is behind.\<close>

theorem run_queue_stays_well_formed:
  assumes "fair_laws X" "fair_inv X r s0" "fair_reach X r s0 s"
  shows "\<exists>cq q. cfs_at s (RootCfs r) = Some cq \<and> runqueues s r = Some q
    \<and> timeline_ok X (RootCfs r) s \<and> curr_ok (RootCfs r) s
    \<and> runnable (RootCfs r) s = {e. cfs_rq_of X e = RootCfs r \<and> is_on_rq s e}
    \<and> cfs_nr_running cq = of_nat (card (runnable (RootCfs r) s))
    \<and> h_nr_running cq = of_nat (card (runnable (RootCfs r) s))
    \<and> rq_nr_running q = of_nat (card (runnable (RootCfs r) s))
    \<and> (\<forall>p flags. TaskSe p \<in> runnable (RootCfs r) s \<longrightarrow> window X (RootCfs r) s \<longrightarrow>
         (\<exists>s'. dequeue_task_fair X r p flags s = Some s'))
    \<and> (\<forall>prev. cfs_curr cq = map_option TaskSe prev \<longrightarrow> charge_ok X r s \<longrightarrow> card (runnable (RootCfs r) s) < 2 ^ 32 \<longrightarrow>
         (\<exists>n s'. pick_next_task_fair X r prev s = Some (n, s') \<and> next_task s r n s'
            \<and> (n = None \<longleftrightarrow> runnable (RootCfs r) s = {})))"
proof -
  have inv: "fair_inv X r s" by (rule fair_reach_keeps [OF assms(3,1,2)])
  then have wf: "rq_wf X r s" by (simp add: fair_inv_def)
  note cwf = rq_wfD(1) [OF wf]
  obtain cq q where cq: "cfs_at s (RootCfs r) = Some cq" "runqueues s r = Some q"
    "cfs_nr_running cq = of_nat (card (runnable (RootCfs r) s))"
    "h_nr_running cq = of_nat (card (runnable (RootCfs r) s))"
    "rq_nr_running q = of_nat (card (runnable (RootCfs r) s))"
    using rq_wfD(2) [OF wf] cfs_wfD(4) [OF cwf] by auto
  have laws: "vr_ok X" "acct_ok X" "latency_ok X" "flat X" "ent_ok X" "buddy_ok X"
    using assms(1) by (simp_all add: fair_laws_def)
  have "\<exists>s'. dequeue_task_fair X r p flags s = Some s'"
    if "TaskSe p \<in> runnable (RootCfs r) s" "window X (RootCfs r) s" for p flags
    using block_keeps [OF laws(1,2,6,4) inv that(2,1)] by blast
  moreover have "\<exists>n s'. pick_next_task_fair X r prev s = Some (n, s') \<and> next_task s r n s'
      \<and> (n = None \<longleftrightarrow> runnable (RootCfs r) s = {})"
    if "cfs_curr cq = map_option TaskSe prev" "charge_ok X r s" "card (runnable (RootCfs r) s) < 2 ^ 32" for prev
  proof -
    have "cfs_nr_running cq = 0 \<longleftrightarrow> card (runnable (RootCfs r) s) = 0"
      using that(3) nat_dvd_not_less [of "card (runnable (RootCfs r) s)" "2 ^ 32"]
      unfolding cq(3) by (auto simp: word_of_nat_eq_0_iff simp del: card_eq_0_iff)
    then show ?thesis using pick_keeps [OF laws(1,5,6) inv that(2) cq(1) that(1)] by auto
  qed
  ultimately show ?thesis using cq cfs_wfD(1-3) [OF cwf] by (intro exI [of _ cq] exI [of _ q]) blast
qed

lemma demo_fair_laws: "fair_laws demo_sched_ext"
  using demo_vr_ok demo_queue_laws by (simp add: fair_laws_def ent_ok_def) (simp add: demo_sched_ext_def)

lemma demo_sleep_inv: "fair_inv demo_sched_ext 0 demo_sleep"
proof -
  have "fair_task demo_sleep (Suc 0)" "fair_task demo_sleep 2"
    by (simp_all add: fair_task_def demo_sleep_def demo_sched_def)
  moreover have "no_buddies demo_cfs" by (simp add: no_buddies_def)
  ultimately show ?thesis
    using demo_sleep_wf by (auto simp: fair_inv_def demo_sleep_at demo_sleep_runnable)
qed

theorem run_queue_stays_well_formed_witness:
  "\<exists>s q. fair_reach demo_sched_ext 0 demo_sleep s \<and> runqueues s 0 = Some q \<and> rq_nr_running q = 1
     \<and> runnable (RootCfs 0) s = {TaskSe 2}"
proof -
  obtain s where s: "dequeue_task_fair demo_sched_ext 0 1 0 demo_sleep = Some s"
    "runnable (RootCfs 0) s = runnable (RootCfs 0) demo_sleep - {TaskSe 1}"
    using block_keeps [OF demo_vr_ok demo_queue_laws(1,4,3) demo_sleep_inv demo_sleep_window, of 1 0] demo_sleep_runnable
    by auto
  then have run: "runnable (RootCfs 0) s = {TaskSe 2}" by (auto simp: demo_sleep_runnable)
  have "fair_step demo_sched_ext 0 demo_sleep s"
    using fair_step.block [OF _ demo_sleep_window s(1)] demo_sleep_runnable by simp
  then have "fair_reach demo_sched_ext 0 demo_sleep s" using fair_reach.intros by blast
  from run_queue_stays_well_formed [OF demo_fair_laws demo_sleep_inv this] this
  show ?thesis by (auto simp: run)
qed

end
