(* ===== verification/Fair_Yield.thy ===== *)
theory Fair_Yield
  imports Fair_Trace
begin

text \<open>
  Yielding: what \<^verbatim>\<open>yield_task_fair\<close> does to a well-formed run queue, and what the following choice
  makes of it.
\<close>

section \<open>Laws of the external functions\<close>

text \<open>\<^verbatim>\<open>set_skip_buddy\<close> sets the pointer of the run queue, and \<^verbatim>\<open>rq_clock_skip_update\<close> only a flag of its
  own.\<close>

definition skip_ok :: "sched_ext \<Rightarrow> bool" where
  "skip_ok X \<longleftrightarrow> (\<forall>e cq. set_skip_buddy X e cq = cq\<lparr>cfs_skip := Some e\<rparr>)
     \<and> (\<forall>b q. \<exists>v. rq_clock_skip_update X b q = q\<lparr>clock_skip_update := v\<rparr>)"

section \<open>Changes that a well-formed run queue does not see\<close>

lemma rq_wf_cong:
  assumes same: "cfs_at s' = cfs_at s" "se_at s' = se_at s"
    and rq: "map_option rq_nr_running (runqueues s' r) = map_option rq_nr_running (runqueues s r)"
  shows "rq_wf X r s' = rq_wf X r s" "runnable q s' = runnable q s"
proof -
  have run: "runnable q s' = runnable q s" and on: "is_on_rq s' = is_on_rq s" for q
    using timeline_cong(1) [OF same] same by (auto simp: runnable_def is_on_rq_def fun_eq_iff)
  show "runnable q s' = runnable q s" by (rule run)
  show "rq_wf X r s' = rq_wf X r s"
    unfolding rq_wf_def cfs_wf_def run on timeline_cong(3,4) [OF same] same(1) rq ..
qed

lemma rq_wf_frame:
  assumes same: "cfs_at s' = cfs_at s" "se_at s' = se_at s" "tasks s' = tasks s"
    and rq: "map_option rq_nr_running (runqueues s' r) = map_option rq_nr_running (runqueues s r)"
  shows "fair_inv X r s' = fair_inv X r s" "runnable q s' = runnable q s"
proof -
  have ft: "fair_task s' = fair_task s" using same(3) by (simp add: fair_task_def fun_eq_iff)
  show "runnable q s' = runnable q s" by (rule rq_wf_cong(2) [OF same(1,2) rq])
  show "fair_inv X r s' = fair_inv X r s"
    unfolding fair_inv_def rq_wf_cong [OF same(1,2) rq] same(1) ft ..
qed

text \<open>The buddy pointers may change.\<close>

lemma rq_wf_buddies:
  assumes wf: "rq_wf X r s" and cq: "cfs_at s (RootCfs r) = Some cq"
    and b: "cq' = cq\<lparr>cfs_next := n, cfs_last := l, cfs_skip := k\<rparr>"
    and s'_def: "s' = s\<lparr>cfs_at := (cfs_at s)(RootCfs r \<mapsto> cq')\<rparr>"
  shows "rq_wf X r s'" "runnable (RootCfs r) s' = runnable (RootCfs r) s"
    "timeline (RootCfs r) s' = timeline (RootCfs r) s"
proof -
  let ?q = "RootCfs r"
  note cwf = rq_wfD(1) [OF wf]
  have at: "cfs_at s' ?q = Some cq'" "se_at s' = se_at s" "runqueues s' = runqueues s" by (simp_all add: s'_def)
  have tl: "timeline_ok X ?q s'" "timeline ?q s' = timeline ?q s"
    using timeline_ok_off [OF cfs_wfD(1) [OF cwf] cq at(1)] at(2) by (simp_all add: b)
  have co: "curr_ok ?q s'"
    using cfs_wfD(2) [OF cwf] cq at tl(2) by (auto simp: curr_ok_def b split: option.splits)
  have run: "runnable ?q s' = runnable ?q s"
    using at(2) by (simp add: runnable_at [OF cq] runnable_at [OF at(1)] tl(2) is_on_rq_def b)
  have "marks s' = marks s" using cq by (auto simp: marks_def s'_def b fun_eq_iff)
  then show "rq_wf X r s'" using rq_wf_marks [OF wf _ at(3) tl(1) co run] by blast
  show "runnable ?q s' = runnable ?q s" "timeline ?q s' = timeline ?q s" by fact+
qed

section \<open>Yielding\<close>

text \<open>The reading of the clock keeps the running task within the window, and so does the next one.\<close>

definition yield_in_window :: "sched_ext \<Rightarrow> nat \<Rightarrow> sched \<Rightarrow> bool" where
  "yield_in_window X r s \<longleftrightarrow>
     (\<forall>s1. update_rq_clock X r s = Some s1 \<longrightarrow> window X (RootCfs r) s1)
   \<and> (\<forall>s1. yield_task_fair X r s = Some s1 \<longrightarrow> window X (RootCfs r) s1)"

lemma charge_step:
  assumes laws: "vr_ok X" "buddy_ok X" and inv: "fair_inv X r s" "window X (RootCfs r) s"
    and cq: "cfs_at s (RootCfs r) = Some cq" "cfs_curr cq = Some c"
  shows "\<exists>s' cq'. update_curr X (RootCfs r) s = Some s' \<and> fair_inv X r s' \<and> runnable (RootCfs r) s' = runnable (RootCfs r) s
    \<and> timeline (RootCfs r) s' = timeline (RootCfs r) s \<and> runqueues s' = runqueues s \<and> tasks s' = tasks s
    \<and> cfs_at s' (RootCfs r) = Some cq' \<and> cfs_curr cq' = Some c \<and> no_buddies cq'
    \<and> (\<forall>d. d \<noteq> c \<longrightarrow> se_at s' d = se_at s d)
    \<and> (\<forall>se. se_at s c = Some se \<longrightarrow> (\<exists>se'. se_at s' c = Some se' \<and> vruntime se' = vruntime se + charge X (RootCfs r) s se))"
proof -
  let ?q = "RootCfs r"
  have wf: "rq_wf X r s" using inv(1) by (simp add: fair_inv_def)
  note cwf = rq_wfD(1) [OF wf]
  obtain s' where s': "update_curr X ?q s = Some s'" "timeline ?q s' = timeline ?q s" "charged X ?q s s'"
    using update_curr_spec [OF cfs_wfD(1) [OF cwf] laws(1) cfs_wfD(2) [OF cwf] inv(2)] by blast
  have k: "fair_inv X r s'" "runnable ?q s' = runnable ?q s" using charge_keeps [OF laws inv] s'(1) by auto
  obtain cq' where cq': "cfs_at s' ?q = Some cq'" "same_queue cq cq'"
    using s'(3) cq(1) unfolding charged_def by blast
  moreover have "no_buddies cq'" using k(1) cq'(1) by (auto simp: fair_inv_def)
  ultimately show ?thesis
    using s' k cq same_queueD(3) [OF cq'(2)] unfolding charged_def by auto
qed

text \<open>The middle of the function: the charge of a task that is not a batch task.\<close>

definition yield_charge :: "sched_ext \<Rightarrow> nat \<Rightarrow> bool \<Rightarrow> sched \<Rightarrow> sched option" where
  "yield_charge X r batch s = (if \<not> batch then do {
     s \<leftarrow> update_rq_clock X r s;
     s \<leftarrow> update_curr X (RootCfs r) s;
     upd_rq r (rq_clock_skip_update X True) s } else Some s)"

definition yielding :: "sched_ext \<Rightarrow> nat \<Rightarrow> nat \<Rightarrow> sched \<Rightarrow> sched \<Rightarrow> bool" where
  "yielding X r p s s' \<longleftrightarrow> rq_wf X r s' \<and> runnable (RootCfs r) s' = runnable (RootCfs r) s
    \<and> timeline (RootCfs r) s' = timeline (RootCfs r) s \<and> tasks s' = tasks s
    \<and> map_option rq_nr_running (runqueues s' r) = map_option rq_nr_running (runqueues s r)
    \<and> (\<exists>cq. cfs_at s' (RootCfs r) = Some cq \<and> cfs_curr cq = Some (TaskSe p))
    \<and> (\<forall>d. d \<noteq> TaskSe p \<longrightarrow> se_at s' d = se_at s d)"

text \<open>What the call charges: a batch task nothing, any other task the weighted time that has passed
  since it was last charged, on the clock that \<^verbatim>\<open>update_rq_clock\<close> leaves behind.\<close>

definition yield_paid :: "sched_ext \<Rightarrow> nat \<Rightarrow> nat \<Rightarrow> bool \<Rightarrow> sched \<Rightarrow> sched \<Rightarrow> bool" where
  "yield_paid X r p batch s s' \<longleftrightarrow> (if batch then se_at s' = se_at s
     else \<exists>sc se se'. update_rq_clock X r s = Some sc \<and> se_at s (TaskSe p) = Some se \<and> se_at s' (TaskSe p) = Some se'
       \<and> vruntime se' = vruntime se + charge X (RootCfs r) sc se)"

lemma yield_charge_spec:
  assumes laws: "vr_ok X" "buddy_ok X" "skip_ok X" and inv: "fair_inv X r s" "yield_in_window X r s"
    and q: "runqueues s r = Some q" and cq: "cfs_at s (RootCfs r) = Some cq" "cfs_curr cq = Some (TaskSe p)"
    and p: "is_on_rq s (TaskSe p)"
  shows "\<exists>s'. yield_charge X r batch s = Some s' \<and> yielding X r p s s' \<and> yield_paid X r p batch s s'"
proof (cases batch)
  case True
  then show ?thesis using inv(1) cq by (simp add: yield_charge_def yielding_def fair_inv_def yield_paid_def)
next
  case False
  let ?q = "RootCfs r"
  obtain se where se: "se_at s (TaskSe p) = Some se" using p by (auto simp: is_on_rq_def split: option.splits)
  obtain h q1 where s1: "update_rq_clock X r s = Some (s\<lparr>hw_clock := h, runqueues := (runqueues s)(r \<mapsto> q1)\<rparr>)"
    "rq_nr_running q1 = rq_nr_running q" using update_rq_clock_frame [OF q] by blast
  let ?s = "s\<lparr>hw_clock := h, runqueues := (runqueues s)(r \<mapsto> q1)\<rparr>"
  note f1 = rq_wf_frame [of ?s s r]
  have "fair_inv X r ?s" "window X ?q ?s" "cfs_at ?s ?q = Some cq"
    using f1(1) inv q s1 cq(1) by (simp_all add: yield_in_window_def)
  from charge_step [OF laws(1,2) this cq(2)]
  obtain s2 cq2 where s2: "update_curr X ?q ?s = Some s2" "fair_inv X r s2" "runnable ?q s2 = runnable ?q ?s"
    "timeline ?q s2 = timeline ?q ?s" "runqueues s2 = (runqueues s)(r \<mapsto> q1)" "tasks s2 = tasks s"
    "cfs_at s2 ?q = Some cq2" "cfs_curr cq2 = Some (TaskSe p)" "\<forall>d. d \<noteq> TaskSe p \<longrightarrow> se_at s2 d = se_at s d"
    "\<exists>se'. se_at s2 (TaskSe p) = Some se' \<and> vruntime se' = vruntime se + charge X ?q ?s se"
    using se by auto
  obtain v where v: "rq_clock_skip_update X True q1 = q1\<lparr>clock_skip_update := v\<rparr>"
    using laws(3) unfolding skip_ok_def by blast
  let ?s3 = "s2\<lparr>runqueues := (runqueues s2)(r \<mapsto> q1\<lparr>clock_skip_update := v\<rparr>)\<rparr>"
  note f3 = rq_wf_frame [of ?s3 s2 r]
  have "yield_charge X r batch s = Some ?s3"
    using False s1(1) s2(1,5) v by (simp add: yield_charge_def upd_rq_def)
  moreover have "fair_inv X r ?s3" "runnable ?q ?s3 = runnable ?q s" "timeline ?q ?s3 = timeline ?q s"
    using f3 f1(2) s2 q s1(2) by (simp_all add: timeline_def)
  moreover have "yield_paid X r p batch s ?s3"
    unfolding yield_paid_def if_not_P [OF False] using s1(1) se s2(10) by auto
  ultimately show ?thesis using s2(1-9) q s1(2) by (auto simp: yielding_def fair_inv_def)
qed

text \<open>With other tasks on the run queue the call charges the running task and marks it as the one
  to skip; a task that is alone is left alone.\<close>

lemma yield_task_fair_spec:
  assumes laws: "vr_ok X" "buddy_ok X" "skip_ok X" and inv: "fair_inv X r s" "yield_in_window X r s"
    and q: "runqueues s r = Some q" "rq_curr q = Some p" "rq_nr_running q \<noteq> 1"
    and cq: "cfs_at s (RootCfs r) = Some cq" "cfs_curr cq = Some (TaskSe p)" "is_on_rq s (TaskSe p)"
  shows "\<exists>t s' cq'. yield_task_fair X r s = Some s' \<and> yielding X r p s s'
    \<and> tasks s p = Some t \<and> yield_paid X r p (t_policy t = SCHED_BATCH X) s s'
    \<and> cfs_at s' (RootCfs r) = Some cq' \<and> cfs_skip cq' = Some (TaskSe p)"
proof -
  let ?q = "RootCfs r" and ?e = "TaskSe p"
  have wf: "rq_wf X r s" and nb: "no_buddies cq" and "fair_task s p"
    using inv(1) cq(1,2) by (auto simp: fair_inv_def)
  then obtain t where t: "tasks s p = Some t" by (auto simp: fair_task_def)
  have own: "cfs_rq_of X ?e = ?q"
    using cq cfs_wfD(3) [OF rq_wfD(1) [OF wf]] by (auto simp: runnable_at [OF cq(1)])
  have clear: "upd_cfs ?q (clear_buddies X ?e) s = Some s"
    using cq(1) clear_no_buddies [OF laws(2) nb] by (simp add: upd_cfs_def fun_upd_idem)
  obtain s2 where s2: "yield_charge X r (t_policy t = SCHED_BATCH X) s = Some s2" "yielding X r p s s2"
    "yield_paid X r p (t_policy t = SCHED_BATCH X) s s2"
    using yield_charge_spec [OF laws inv q(1) cq] by blast
  then obtain cq2 where cq2: "cfs_at s2 ?q = Some cq2" "cfs_curr cq2 = Some ?e" by (auto simp: yielding_def)
  define s' where "s' = s2\<lparr>cfs_at := (cfs_at s2)(?q \<mapsto> cq2\<lparr>cfs_skip := Some ?e\<rparr>)\<rparr>"
  have "upd_cfs ?q (set_skip_buddy X ?e) s2 = Some s'"
    using cq2(1) laws(3) by (simp add: upd_cfs_def skip_ok_def s'_def)
  moreover have "yield_task_fair X r s = do { s \<leftarrow> yield_charge X r (t_policy t = SCHED_BATCH X) s;
      upd_cfs ?q (set_skip_buddy X ?e) s }"
    using q t clear own by (simp add: yield_task_fair_def yield_charge_def)
  ultimately have "yield_task_fair X r s = Some s'" using s2(1) by simp
  moreover have "yielding X r p s s'"
    using rq_wf_buddies [OF _ cq2(1) _ s'_def, where X = X and n = "cfs_next cq2" and l = "cfs_last cq2" and k = "Some ?e"] s2(2) cq2(2)
    by (auto simp: yielding_def s'_def)
  moreover have "yield_paid X r p (t_policy t = SCHED_BATCH X) s s'"
  proof -
    have "se_at s' = se_at s2" by (simp add: s'_def)
    with s2(3) show ?thesis by (simp only: yield_paid_def)
  qed
  ultimately show ?thesis using t by (auto simp: s'_def)
qed

section \<open>The choice after a yield\<close>

text \<open>\<^verbatim>\<open>pick_next_task_fair\<close> keeps the running task when it is not behind the first waiting one,
  whatever the buddy pointers say.\<close>

lemma pick_keeps_prev:
  assumes laws: "vr_ok X" "ent_ok X" and wf: "rq_wf X r s" "window X (RootCfs r) s"
    and p: "fair_task s p" "cfs_at s (RootCfs r) = Some cq" "cfs_curr cq = Some (TaskSe p)" "is_on_rq s (TaskSe p)"
    and w: "timeline (RootCfs r) s \<noteq> []" "card (runnable (RootCfs r) s) < 2 ^ 32"
  shows "\<exists>s'. update_curr X (RootCfs r) s = Some s' \<and> timeline (RootCfs r) s' = timeline (RootCfs r) s
    \<and> ((\<forall>e \<in> set (timeline (RootCfs r) s). lag (RootCfs r) s' (TaskSe p) \<le> lag (RootCfs r) s' e) \<longrightarrow>
         pick_next_task_fair X r (Some p) s = Some (Some p, s'))"
proof -
  let ?q = "RootCfs r" and ?e = "TaskSe p"
  note cwf = rq_wfD(1) [OF wf(1)]
  obtain t where t: "tasks s p = Some t" "t_sched_class t = Some Fair_class" using p(1) by (auto simp: fair_task_def)
  obtain s1 where s1: "update_curr X ?q s = Some s1" "timeline_ok X ?q s1" "curr_ok ?q s1"
    "timeline ?q s1 = timeline ?q s" "charged X ?q s s1"
    using update_curr_spec [OF cfs_wfD(1) [OF cwf] laws(1) cfs_wfD(2) [OF cwf] wf(2)] by blast
  obtain pse where pse: "se_at s ?e = Some pse" "on_rq pse" using p(4) by (auto simp: is_on_rq_def split: option.splits)
  obtain cq1 se1 where cq1: "cfs_at s1 ?q = Some cq1" "same_queue cq cq1" and se1: "se_at s1 ?e = Some se1" "on_rq se1"
    using s1(5) p(2,3) pse unfolding charged_def by fastforce
  have near: "near_entity ?q s1 ?e"
    using curr_okD [OF s1(3) cq1(1)] same_queueD(3) [OF cq1(2)] p(3) se1 cq1(1) by (auto simp: near_entity_def)
  obtain e es where e: "timeline ?q s = e # es" using w(1) by (cases "timeline ?q s") auto
  have "finite (runnable ?q s)" "runnable ?q s \<noteq> {}" using p(2,3,4) by (auto simp: runnable_at [OF p(2)])
  then have "cfs_nr_running cq \<noteq> 0"
    using cfs_wfD(4) [OF cwf] p(2) w(2) by (auto simp: word_unat_eq_iff unat_of_nat)
  moreover have "pick_next_task_fair X r (Some p) s = Some (Some p, s1)"
    if "cfs_nr_running cq \<noteq> 0" "lag ?q s1 ?e \<le> lag ?q s1 e"
    using keep_test [OF s1(2) cq1(1) near se1(1)] that p(2) t laws(2) s1(1,4) cq1(1) se1 e
    by (simp add: pick_next_task_fair_def ent_ok_def)
  ultimately show ?thesis using s1(1,4) e by auto
qed

text \<open>C26: Yielding does not give up the CPU to a task that has run more.  On a well-formed run queue
  with other runnable tasks \<^verbatim>\<open>yield_task_fair\<close> charges the running task for its run, unless it is a batch
  task, marks it to be skipped, and changes neither the set of runnable tasks, nor their order, nor
  any other entity; but \<^verbatim>\<open>pick_next_task_fair\<close> returns the previous task before it looks at the mark,
  so as long as the task is not behind a waiting one, \<^verbatim>\<open>sched_yield\<close> returns to it
  at once, and the others keep waiting.\<close>

theorem yield_ignored_while_earliest:
  assumes laws: "vr_ok X" "buddy_ok X" "skip_ok X" "ent_ok X" and inv: "fair_inv X r s" "yield_in_window X r s"
    and q: "runqueues s r = Some q" "rq_curr q = Some p" "card (runnable (RootCfs r) s) \<in> {2..<2 ^ 32}"
    and cq: "cfs_at s (RootCfs r) = Some cq" "cfs_curr cq = Some (TaskSe p)" "is_on_rq s (TaskSe p)"
  shows "\<exists>t s1 s2 cq1. yield_task_fair X r s = Some s1 \<and> yielding X r p s s1
    \<and> tasks s p = Some t \<and> yield_paid X r p (t_policy t = SCHED_BATCH X) s s1
    \<and> cfs_at s1 (RootCfs r) = Some cq1 \<and> cfs_skip cq1 = Some (TaskSe p)
    \<and> update_curr X (RootCfs r) s1 = Some s2 \<and> timeline (RootCfs r) s2 = timeline (RootCfs r) s
    \<and> timeline (RootCfs r) s \<noteq> []
    \<and> ((\<forall>e \<in> set (timeline (RootCfs r) s). lag (RootCfs r) s2 (TaskSe p) \<le> lag (RootCfs r) s2 e) \<longrightarrow>
         pick_next_task_fair X r (Some p) s1 = Some (Some p, s2))"
proof -
  let ?q = "RootCfs r" and ?e = "TaskSe p"
  have wf: "rq_wf X r s" using inv(1) by (simp add: fair_inv_def)
  have "rq_nr_running q = of_nat (card (runnable ?q s))" using wf q(1) by (simp add: rq_wf_def)
  then have n: "rq_nr_running q \<noteq> 1" using q(3) by (auto simp: word_unat_eq_iff unat_of_nat)
  obtain t s1 cq1 where s1: "yield_task_fair X r s = Some s1" "yielding X r p s s1" "cfs_at s1 ?q = Some cq1"
    "cfs_skip cq1 = Some ?e"
    and t: "tasks s p = Some t" "yield_paid X r p (t_policy t = SCHED_BATCH X) s s1"
    using yield_task_fair_spec [OF laws(1-3) inv q(1,2) n cq] by blast
  have y: "rq_wf X r s1" "runnable ?q s1 = runnable ?q s" "timeline ?q s1 = timeline ?q s" "cfs_curr cq1 = Some ?e"
    "fair_task s1 p" using s1(2,3) inv(1) cq(1,2) by (auto simp: yielding_def fair_inv_def fair_task_def)
  have on: "is_on_rq s1 ?e"
    using y(2) cq cfs_wfD(3) [OF rq_wfD(1) [OF y(1)]] by (auto simp: runnable_at [OF cq(1)])
  have "timeline ?q s \<noteq> []"
  proof
    assume "timeline ?q s = []"
    then have "runnable ?q s \<subseteq> {?e}" using cq(2) by (auto simp: runnable_at [OF cq(1)])
    then show False using card_mono [of "{?e}" "runnable ?q s"] q(3) by simp
  qed
  moreover have "window X ?q s1" using inv(2) s1(1) by (simp add: yield_in_window_def)
  ultimately show ?thesis
    using pick_keeps_prev [OF laws(1,4) y(1) _ y(5) s1(3) y(4) on] s1 t y(2,3) q(3) by auto
qed

section \<open>A task that yields too early\<close>

text \<open>The demonstration state a little earlier: task 1 has run for 500 ns and is not yet behind task 2.\<close>

definition demo_quick :: sched where "demo_quick = demo_sleep\<lparr>hw_clock := 500\<rparr>"

definition quick_se :: sched_entity where
  "quick_se = (demo_entity 2500)\<lparr>exec_start := 500, sum_exec_runtime := 500\<rparr>"

lemma demo_quick_charge:
  assumes "se_at s (TaskSe 1) = Some (demo_entity 2000)" "cfs_at s (RootCfs 0) = Some demo_cfs" "hw_clock s = 500"
    "se_at s (TaskSe 2) = Some (demo_entity 3000)"
  shows "update_curr demo_sched_ext (RootCfs 0) s = Some (s\<lparr>hw_clock := 500,
     se_at := (se_at s)(TaskSe 1 \<mapsto> quick_se),
     cfs_at := (cfs_at s)(RootCfs 0 \<mapsto> demo_cfs\<lparr>min_vruntime := 2500\<rparr>)\<rparr>)"
  using assms
  by (simp add: update_curr_def sched_clock_def upd_se_def upd_cfs_def update_min_vruntime_def demo_sched_ext_def
      calc_delta_fair_def NICE_0_LOAD_def quick_se_def) (simp add: demo_entity_def)

lemma demo_quick_at:
  "cfs_at demo_quick (RootCfs 0) = Some demo_cfs" "runqueues demo_quick 0 = Some demo_rq"
  "se_at demo_quick (TaskSe 1) = Some (demo_entity 2000)" "se_at demo_quick (TaskSe 2) = Some (demo_entity 3000)"
  "tasks demo_quick 1 = Some (demo_task 1)" "hw_clock demo_quick = 500" "rq_curr demo_rq = Some 1"
  by (simp_all add: demo_quick_def demo_sleep_def demo_sched_def demo_rq_def)

text \<open>What is left of the state after the yield.\<close>

lemma demo_quick_yield:
  assumes "yield_task_fair demo_sched_ext 0 demo_quick = Some s1"
  shows "se_at s1 (TaskSe 1) = Some quick_se" "se_at s1 (TaskSe 2) = Some (demo_entity 3000)" "hw_clock s1 = 500"
    "cfs_at s1 (RootCfs 0) = Some (demo_cfs\<lparr>min_vruntime := 2500, cfs_skip := Some (TaskSe 1)\<rparr>)"
proof -
  obtain h q1 where c: "update_rq_clock demo_sched_ext 0 demo_quick
      = Some (demo_quick\<lparr>hw_clock := h, runqueues := (runqueues demo_quick)(0 \<mapsto> q1)\<rparr>)"
    using update_rq_clock_frame [OF demo_quick_at(2)] by blast
  have h: "h = 500" using demo_clock_still [OF c] demo_quick_at(6) by simp
  let ?s = "demo_quick\<lparr>hw_clock := h, runqueues := (runqueues demo_quick)(0 \<mapsto> q1)\<rparr>"
  have u: "update_curr demo_sched_ext (RootCfs 0) ?s = Some (?s\<lparr>hw_clock := 500,
     se_at := (se_at demo_quick)(TaskSe 1 \<mapsto> quick_se),
     cfs_at := (cfs_at demo_quick)(RootCfs 0 \<mapsto> demo_cfs\<lparr>min_vruntime := 2500\<rparr>)\<rparr>)"
    using demo_quick_charge [of ?s] demo_quick_at by (simp add: h)
  have X: "cfs_rq_of demo_sched_ext (TaskSe p) = RootCfs 0" "t_policy (demo_task 1) \<noteq> SCHED_BATCH demo_sched_ext"
    "set_skip_buddy demo_sched_ext e cq = cq\<lparr>cfs_skip := Some e\<rparr>" "rq_nr_running demo_rq \<noteq> 1" for p e cq
    by (simp_all add: demo_sched_ext_def demo_task_def demo_rq_def)
  have clear: "upd_cfs (RootCfs 0) (clear_buddies demo_sched_ext (TaskSe 1)) demo_quick = Some demo_quick"
    using clear_no_buddies [OF demo_queue_laws(4), of demo_cfs "TaskSe 1"] demo_quick_at(1)
    by (simp add: upd_cfs_def no_buddies_def fun_upd_idem)
  have "yield_task_fair demo_sched_ext 0 demo_quick = do {
      s \<leftarrow> upd_rq 0 (rq_clock_skip_update demo_sched_ext True) (?s\<lparr>hw_clock := 500,
        se_at := (se_at demo_quick)(TaskSe 1 \<mapsto> quick_se),
        cfs_at := (cfs_at demo_quick)(RootCfs 0 \<mapsto> demo_cfs\<lparr>min_vruntime := 2500\<rparr>)\<rparr>);
      upd_cfs (RootCfs 0) (set_skip_buddy demo_sched_ext (TaskSe 1)) s }"
    using demo_quick_at X(1,2,4) clear c u by (simp add: yield_task_fair_def Let_def)
  then show "se_at s1 (TaskSe 1) = Some quick_se" "se_at s1 (TaskSe 2) = Some (demo_entity 3000)" "hw_clock s1 = 500"
    "cfs_at s1 (RootCfs 0) = Some (demo_cfs\<lparr>min_vruntime := 2500, cfs_skip := Some (TaskSe 1)\<rparr>)"
    using assms demo_quick_at(4) by (auto simp: upd_rq_def upd_cfs_def X(3))
qed

lemma demo_quick_window: "yield_in_window demo_sched_ext 0 demo_quick"
proof -
  have "window demo_sched_ext (RootCfs 0) s1" if u: "update_rq_clock demo_sched_ext 0 demo_quick = Some s1" for s1
  proof -
    obtain h q where "s1 = demo_quick\<lparr>hw_clock := h, runqueues := (runqueues demo_quick)(0 \<mapsto> q)\<rparr>"
      using update_rq_clock_frame [OF demo_quick_at(2), of demo_sched_ext] u by auto
    then have s1: "cfs_at s1 (RootCfs 0) = Some demo_cfs" "se_at s1 (TaskSe 1) = Some (demo_entity 2000)"
      using demo_quick_at by simp_all
    have "charge demo_sched_ext (RootCfs 0) s1 (demo_entity 2000) = 500"
      using demo_clock_still [OF u] demo_quick_at(6) by (simp add: demo_charge calc_delta_fair_def NICE_0_LOAD_def)
    then show ?thesis using s1 by (auto simp: window_def curr_se_def running_def near_def dist_def)
  qed
  moreover have "window demo_sched_ext (RootCfs 0) s1" if "yield_task_fair demo_sched_ext 0 demo_quick = Some s1" for s1
  proof -
    note y = demo_quick_yield [OF that]
    have "charge demo_sched_ext (RootCfs 0) s1 quick_se = 0" using y(3) by (simp add: demo_charge quick_se_def)
    then show ?thesis using y(1,4) by (auto simp: window_def curr_se_def running_def near_def dist_def quick_se_def)
  qed
  ultimately show ?thesis by (simp add: yield_in_window_def)
qed

theorem yield_ignored_while_earliest_witness:
  "\<exists>s1 s2. yield_task_fair demo_sched_ext 0 demo_quick = Some s1
     \<and> yield_paid demo_sched_ext 0 1 False demo_quick s1
     \<and> pick_next_task_fair demo_sched_ext 0 (Some 1) s1 = Some (Some 1, s2) \<and> timeline (RootCfs 0) s2 = [TaskSe 2]"
proof -
  have laws: "skip_ok demo_sched_ext" "ent_ok demo_sched_ext"
    by (auto simp: skip_ok_def ent_ok_def demo_sched_ext_def)
  have run: "runnable (RootCfs 0) demo_quick = {TaskSe 1, TaskSe 2}" "timeline (RootCfs 0) demo_quick = [TaskSe 2]"
    using rq_wf_frame(2) [of demo_quick demo_sleep 0] timeline_cong(1) [of demo_quick demo_sleep]
      demo_sleep_runnable demo_sleep_timeline(1) by (simp_all add: demo_quick_def)
  have inv: "fair_inv demo_sched_ext 0 demo_quick" unfolding demo_quick_def by (rule clock_keeps [OF demo_sleep_inv])
  have on: "is_on_rq demo_quick (TaskSe 1)" "cfs_curr demo_cfs = Some (TaskSe 1)"
    using demo_quick_at(3) by (simp_all add: is_on_rq_def)
  have "card (runnable (RootCfs 0) demo_quick) \<in> {2..<2 ^ 32}" by (simp add: run)
  from yield_ignored_while_earliest [OF demo_vr_ok demo_queue_laws(4) laws inv demo_quick_window demo_quick_at(2,7) this
      demo_quick_at(1) on(2,1)] run(2)
  obtain s1 s2 where s: "yield_task_fair demo_sched_ext 0 demo_quick = Some s1" "update_curr demo_sched_ext (RootCfs 0) s1 = Some s2"
    "timeline (RootCfs 0) s2 = [TaskSe 2]"
    "lag (RootCfs 0) s2 (TaskSe 1) \<le> lag (RootCfs 0) s2 (TaskSe 2) \<longrightarrow>
      pick_next_task_fair demo_sched_ext 0 (Some 1) s1 = Some (Some 1, s2)"
    "yield_paid demo_sched_ext 0 1 False demo_quick s1"
    using demo_quick_at(5) by (auto simp: demo_task_def demo_sched_ext_def)
  note y = demo_quick_yield [OF s(1)]
  have "s2 = s1\<lparr>hw_clock := 500\<rparr>"
    using s(2) y by (simp add: update_curr_def sched_clock_def demo_sched_ext_def quick_se_def)
  then have "lag (RootCfs 0) s2 (TaskSe 1) \<le> lag (RootCfs 0) s2 (TaskSe 2)"
    using y by (simp add: lag_def quick_se_def dist_def)
  then show ?thesis using s by blast
qed

end
