(* ===== verification/Fair_Preempt.thy ===== *)
theory Fair_Preempt
  imports Fair_Yield
begin

text \<open>
  Wake-up preemption: what \<^verbatim>\<open>check_preempt_wakeup\<close> does to a well-formed run queue when a task has
  been woken up.
\<close>

section \<open>Laws of the external functions\<close>

text \<open>The buddy functions set the pointers of the run queue, in a flat hierarchy two tasks already match,
  and \<^verbatim>\<open>resched_curr\<close> marks the running task and changes nothing else.\<close>

definition wake_ok :: "sched_ext \<Rightarrow> bool" where
  "wake_ok X \<longleftrightarrow> (\<forall>e cq. set_next_buddy X e cq = cq\<lparr>cfs_next := Some e\<rparr>)
     \<and> (\<forall>e cq. set_last_buddy X e cq = cq\<lparr>cfs_last := Some e\<rparr>)
     \<and> (\<forall>a b. find_matching_se X a b = (a, Some b))
     \<and> (\<forall>r s q c t. runqueues s r = Some q \<longrightarrow> rq_curr q = Some c \<longrightarrow> tasks s c = Some t \<longrightarrow>
          (\<exists>f. resched_curr X r s = Some (s\<lparr>tasks := (tasks s)(c \<mapsto> t\<lparr>t_thread_flags := f\<rparr>)\<rparr>)
             \<and> test_tsk_need_resched X (t\<lparr>t_thread_flags := f\<rparr>)))"

definition need_resched :: "sched_ext \<Rightarrow> sched \<Rightarrow> nat \<Rightarrow> bool" where
  "need_resched X s p \<longleftrightarrow> (\<exists>t. tasks s p = Some t \<and> test_tsk_need_resched X t)"

definition next_buddy :: "nat \<Rightarrow> sched \<Rightarrow> se_ptr option" where
  "next_buddy r s = do { cq \<leftarrow> cfs_at s (RootCfs r); cfs_next cq }"

section \<open>The steps\<close>

text \<open>The run queue stays well formed with the same tasks waiting, running and counted.\<close>

definition kept :: "sched_ext \<Rightarrow> nat \<Rightarrow> sched \<Rightarrow> sched \<Rightarrow> bool" where
  "kept X r s s' \<longleftrightarrow> rq_wf X r s' \<and> runnable (RootCfs r) s' = runnable (RootCfs r) s
     \<and> timeline (RootCfs r) s' = timeline (RootCfs r) s \<and> runqueues s' = runqueues s"

lemma kept_trans: "kept X r s s1 \<Longrightarrow> kept X r s1 s2 \<Longrightarrow> kept X r s s2"
  by (simp add: kept_def)

lemma kept_buddies:
  assumes "rq_wf X r s" "cfs_at s (RootCfs r) = Some cq"
  shows "kept X r s (s\<lparr>cfs_at := (cfs_at s)(RootCfs r \<mapsto> cq\<lparr>cfs_next := n\<rparr>)\<rparr>)"
    "kept X r s (s\<lparr>cfs_at := (cfs_at s)(RootCfs r \<mapsto> cq\<lparr>cfs_last := l\<rparr>)\<rparr>)"
  using rq_wf_buddies [OF assms refl refl, where n = n and l = "cfs_last cq" and k = "cfs_skip cq"]
    rq_wf_buddies [OF assms refl refl, where n = "cfs_next cq" and l = l and k = "cfs_skip cq"]
  by (simp_all add: kept_def)

text \<open>Marking the woken task, or not.\<close>

definition mark_buddy :: "sched_ext \<Rightarrow> bool \<Rightarrow> nat \<Rightarrow> sched \<Rightarrow> sched option" where
  "mark_buddy X b p s = (if b then upd_cfs (cfs_rq_of X (TaskSe p)) (set_next_buddy X (TaskSe p)) s else Some s)"

lemma mark_next:
  assumes wf: "rq_wf X r s" and cq: "cfs_at s (RootCfs r) = Some cq" and own: "cfs_rq_of X (TaskSe p) = RootCfs r"
    and X: "wake_ok X"
  shows "\<exists>s' n. mark_buddy X b p s = Some s' \<and> kept X r s s'
    \<and> s' = s\<lparr>cfs_at := (cfs_at s)(RootCfs r \<mapsto> cq\<lparr>cfs_next := n\<rparr>)\<rparr> \<and> n = (if b then Some (TaskSe p) else cfs_next cq)"
proof -
  let ?n = "if b then Some (TaskSe p) else cfs_next cq"
  let ?s = "s\<lparr>cfs_at := (cfs_at s)(RootCfs r \<mapsto> cq\<lparr>cfs_next := ?n\<rparr>)\<rparr>"
  have "kept X r s ?s" by (rule kept_buddies(1) [OF wf cq])
  moreover have "mark_buddy X b p s = Some ?s"
    using cq own X by (simp add: mark_buddy_def upd_cfs_def wake_ok_def fun_upd_idem)
  ultimately show ?thesis by blast
qed

lemma preempt_curr_spec:
  assumes wf: "rq_wf X r s" and X: "wake_ok X" and own: "cfs_rq_of X (TaskSe c) = RootCfs r"
    and q: "runqueues s r = Some q" "rq_curr q = Some c" and t: "tasks s c = Some t"
    and cq: "cfs_at s (RootCfs r) = Some cq" and se: "se_at s (TaskSe c) \<noteq> None"
  shows "\<exists>s'. preempt_curr X r c (TaskSe c) scale s = Some s' \<and> kept X r s s' \<and> se_at s' = se_at s
    \<and> need_resched X s' c \<and> next_buddy r s' = next_buddy r s"
proof -
  obtain f where f: "resched_curr X r s = Some (s\<lparr>tasks := (tasks s)(c \<mapsto> t\<lparr>t_thread_flags := f\<rparr>)\<rparr>)"
    "test_tsk_need_resched X (t\<lparr>t_thread_flags := f\<rparr>)" using X q t unfolding wake_ok_def by blast
  let ?s = "s\<lparr>tasks := (tasks s)(c \<mapsto> t\<lparr>t_thread_flags := f\<rparr>)\<rparr>"
  have s: "kept X r s ?s" using rq_wf_cong [of ?s s r] wf by (simp add: kept_def timeline_def)
  let ?u = "?s\<lparr>cfs_at := (cfs_at s)(RootCfs r \<mapsto> cq\<lparr>cfs_last := Some (TaskSe c)\<rparr>)\<rparr>"
  have "kept X r ?s ?u" using kept_buddies(2) [of X r ?s cq] s cq by (simp add: kept_def)
  then have u: "kept X r s ?u" by (rule kept_trans [OF s])
  have "preempt_curr X r c (TaskSe c) scale s \<in> {Some ?s, Some ?u}"
    using f(1) X q(1) cq own se by (auto simp: preempt_curr_def upd_cfs_def wake_ok_def)
  then show ?thesis using s u f(2) cq by (auto simp: need_resched_def next_buddy_def)
qed

text \<open>The window does not depend on the buddies.\<close>

lemma window_buddies:
  assumes "cfs_at s q = Some cq" "s' = s\<lparr>cfs_at := (cfs_at s)(q \<mapsto> cq\<lparr>cfs_next := n\<rparr>)\<rparr>"
  shows "window X q s' = window X q s" "charge X q s' = charge X q s"
proof -
  show c: "charge X q s' = charge X q s"
    using assms(2) by (simp add: charge_def clock_now_def sched_clock_def fun_eq_iff case_prod_beta)
  show "window X q s' = window X q s"
    unfolding window_def c using assms by (simp add: curr_se_def)
qed

section \<open>Preemption\<close>

text \<open>The running task is alone in not waiting; the woken task waits behind it.\<close>

definition woken :: "sched_ext \<Rightarrow> nat \<Rightarrow> nat \<Rightarrow> nat \<Rightarrow> sched \<Rightarrow> bool" where
  "woken X r c p s \<longleftrightarrow> (\<exists>q cq ct pt. runqueues s r = Some q \<and> rq_curr q = Some c
     \<and> cfs_at s (RootCfs r) = Some cq \<and> cfs_curr cq = Some (TaskSe c) \<and> is_on_rq s (TaskSe c)
     \<and> TaskSe p \<in> set (timeline (RootCfs r) s) \<and> \<not> throttled_hierarchy X (cfs_bw cq)
     \<and> tasks s c = Some ct \<and> \<not> test_tsk_need_resched X ct \<and> t_policy ct \<noteq> SCHED_IDLE X
     \<and> tasks s p = Some pt \<and> t_policy pt = SCHED_NORMAL X)"

text \<open>After the tests at its beginning the function marks the woken task, charges the running one and
  compares the two.\<close>

lemma check_preempt_wakeup_eq:
  assumes X: "wake_ok X" "sched_feat X WAKEUP_PREEMPTION"
    and q: "runqueues s r = Some q" "rq_curr q = Some c" "c \<noteq> p"
    and own: "cfs_rq_of X (TaskSe c) = RootCfs r" "cfs_rq_of X (TaskSe p) = RootCfs r"
    and cq: "cfs_at s (RootCfs r) = Some cq" "\<not> throttled_hierarchy X (cfs_bw cq)"
    and t: "tasks s c = Some ct" "\<not> test_tsk_need_resched X ct" "t_policy ct \<noteq> SCHED_IDLE X"
      "tasks s p = Some pt" "t_policy pt = SCHED_NORMAL X"
  shows "\<exists>mk scale. check_preempt_wakeup X r p flags s = do {
     s \<leftarrow> mark_buddy X mk p s;
     s \<leftarrow> update_curr X (RootCfs r) s;
     w \<leftarrow> preempt_at X s (TaskSe c) (Some (TaskSe p));
     if w = 1 then do {
       s \<leftarrow> mark_buddy X (\<not> mk) p s;
       preempt_curr X r c (TaskSe c) scale s }
     else Some s }"
proof -
  let ?scale = "sched_nr_latency X \<le> cfs_nr_running cq"
  let ?mk = "sched_feat X NEXT_BUDDY \<and> ?scale \<and> flags AND WF_FORK X = 0"
  have m: "find_matching_se X a b = (a, Some b)" for a b using X(1) by (simp add: wake_ok_def)
  show ?thesis unfolding mark_buddy_def
    by (rule exI [of _ ?mk], rule exI [of _ ?scale]) (simp add: check_preempt_wakeup_def upd_cfs_def Let_def m assms)
qed

text \<open>What marking and charging together do.\<close>

lemma mark_and_charge:
  assumes laws: "vr_ok X" "buddy_ok X" "wake_ok X" and wf: "rq_wf X r s" "window X (RootCfs r) s"
    and cq: "cfs_at s (RootCfs r) = Some cq" "cfs_curr cq = Some (TaskSe c)"
    and own: "cfs_rq_of X (TaskSe p) = RootCfs r" and se: "se_at s (TaskSe c) = Some cse"
  shows "\<exists>s1 s2 cq2 cse'. mark_buddy X mk p s = Some s1
    \<and> update_curr X (RootCfs r) s1 = Some s2 \<and> kept X r s s2 \<and> tasks s2 = tasks s
    \<and> cfs_at s2 (RootCfs r) = Some cq2 \<and> cfs_next cq2 = (if mk then Some (TaskSe p) else cfs_next cq)
    \<and> se_at s2 (TaskSe c) = Some cse' \<and> vruntime cse' = vruntime cse + charge X (RootCfs r) s cse
    \<and> (\<forall>e. e \<noteq> TaskSe c \<longrightarrow> se_at s2 e = se_at s e)"
proof -
  let ?q = "RootCfs r"
  obtain s1 n where s1: "mark_buddy X mk p s = Some s1"
    "kept X r s s1" "s1 = s\<lparr>cfs_at := (cfs_at s)(?q \<mapsto> cq\<lparr>cfs_next := n\<rparr>)\<rparr>"
    "n = (if mk then Some (TaskSe p) else cfs_next cq)"
    using mark_next [OF wf(1) cq(1) own laws(3)] by blast
  have at: "cfs_at s1 ?q = Some (cq\<lparr>cfs_next := n\<rparr>)" "se_at s1 = se_at s" "tasks s1 = tasks s" by (simp_all add: s1(3))
  have "rq_wf X r s1" "window X ?q s1" using s1(2) window_buddies(1) [OF cq(1) s1(3)] wf(2) by (simp_all add: kept_def)
  then obtain s2 where s2: "update_curr X ?q s1 = Some s2" "rq_wf X r s2" "charged X ?q s1 s2"
    "timeline ?q s2 = timeline ?q s1" "runnable ?q s2 = runnable ?q s1"
    using charge_wf [OF laws(1,2)] by blast
  have "kept X r s s2" using s1(2) s2 by (simp add: kept_def charged_def)
  moreover obtain cq2 where cq2: "cfs_at s2 ?q = Some cq2" "same_queue (cq\<lparr>cfs_next := n\<rparr>) cq2"
    using s2(3) at(1) unfolding charged_def by blast
  moreover obtain cse' where "se_at s2 (TaskSe c) = Some cse'" "vruntime cse' = vruntime cse + charge X ?q s cse"
    using s2(3) at cq(2) se unfolding charged_def window_buddies(2) [OF cq(1) s1(3)] by fastforce
  moreover have "\<forall>e. e \<noteq> TaskSe c \<longrightarrow> se_at s2 e = se_at s e" "tasks s2 = tasks s"
    using s2(3) at cq(2) unfolding charged_def by auto
  ultimately show ?thesis using s1(1,4) s2(1) same_queueD(5) [OF cq2(2)] by auto
qed

section \<open>Properties\<close>

text \<open>C27: Wake-up preemption.  When a normal task is woken up on a well-formed run queue, \<^verbatim>\<open>check_preempt_wakeup\<close>
  returns; it charges the running task and changes no other entity; the same tasks stay waiting, running
  and counted; the running task is marked to be rescheduled exactly when the comparison of its charged
  virtual run time with that of the woken task asks for it, and then the woken task is the next buddy.\<close>

theorem wakeup_preempts:
  assumes laws: "vr_ok X" "buddy_ok X" "wake_ok X" "sched_feat X WAKEUP_PREEMPTION"
    and wf: "rq_wf X r s" "window X (RootCfs r) s" and w: "woken X r c p s"
    and se: "se_at s (TaskSe c) = Some cse" "se_at s (TaskSe p) = Some pse"
  shows "\<exists>s' cse'. check_preempt_wakeup X r p flags s = Some s' \<and> kept X r s s'
    \<and> se_at s' (TaskSe c) = Some cse' \<and> vruntime cse' = vruntime cse + charge X (RootCfs r) s cse
    \<and> (\<forall>e. e \<noteq> TaskSe c \<longrightarrow> se_at s' e = se_at s e)
    \<and> need_resched X s' c = (wakeup_preempt_entity X cse' pse = 1)
    \<and> (wakeup_preempt_entity X cse' pse = 1 \<longrightarrow> next_buddy r s' = Some (TaskSe p))"
proof -
  let ?q = "RootCfs r"
  obtain q cq ct pt where q: "runqueues s r = Some q" "rq_curr q = Some c"
    and cq: "cfs_at s ?q = Some cq" "cfs_curr cq = Some (TaskSe c)" "is_on_rq s (TaskSe c)" "\<not> throttled_hierarchy X (cfs_bw cq)"
    and p: "TaskSe p \<in> set (timeline ?q s)"
    and t: "tasks s c = Some ct" "\<not> test_tsk_need_resched X ct" "t_policy ct \<noteq> SCHED_IDLE X"
      "tasks s p = Some pt" "t_policy pt = SCHED_NORMAL X"
    using w unfolding woken_def by blast
  note cwf = rq_wfD(1) [OF wf(1)]
  have "c \<noteq> p" using cfs_wfD(2) [OF cwf] cq(1,2) p by (auto simp: curr_ok_def split: option.splits)
  have own: "cfs_rq_of X (TaskSe c) = ?q" "cfs_rq_of X (TaskSe p) = ?q"
    using cfs_wfD(3) [OF cwf] cq p by (auto simp: runnable_at [OF cq(1)])
  obtain mk scale where eq: "check_preempt_wakeup X r p flags s = do {
     s \<leftarrow> mark_buddy X mk p s;
     s \<leftarrow> update_curr X ?q s;
     w \<leftarrow> preempt_at X s (TaskSe c) (Some (TaskSe p));
     if w = 1 then do {
       s \<leftarrow> mark_buddy X (\<not> mk) p s;
       preempt_curr X r c (TaskSe c) scale s }
     else Some s }"
    using check_preempt_wakeup_eq [OF laws(3,4) q \<open>c \<noteq> p\<close> own cq(1,4) t, of flags] by blast
  obtain s1 s2 cq2 cse' where s1: "mark_buddy X mk p s = Some s1"
    and s2: "update_curr X ?q s1 = Some s2" "kept X r s s2" "tasks s2 = tasks s" "cfs_at s2 ?q = Some cq2"
      "cfs_next cq2 = (if mk then Some (TaskSe p) else cfs_next cq)"
    and cse': "se_at s2 (TaskSe c) = Some cse'" "vruntime cse' = vruntime cse + charge X ?q s cse"
      "\<forall>e. e \<noteq> TaskSe c \<longrightarrow> se_at s2 e = se_at s e"
    using mark_and_charge [OF laws(1-3) wf cq(1,2) own(2) se(1)] by blast
  have pre: "preempt_at X s2 (TaskSe c) (Some (TaskSe p)) = Some (wakeup_preempt_entity X cse' pse)"
    using cse'(1,3) se(2) \<open>c \<noteq> p\<close> by (simp add: preempt_at_def)
  show ?thesis
  proof (cases "wakeup_preempt_entity X cse' pse = 1")
    case False
    then show ?thesis using eq s1 s2 cse' pre t(1,2) by (auto simp: need_resched_def)
  next
    case True
    have wf2: "rq_wf X r s2" "runqueues s2 r = Some q" using s2(2) q(1) by (simp_all add: kept_def)
    obtain s3 where s3: "mark_buddy X (\<not> mk) p s2 = Some s3"
      "kept X r s2 s3" "s3 = s2\<lparr>cfs_at := (cfs_at s2)(?q \<mapsto> cq2\<lparr>cfs_next := Some (TaskSe p)\<rparr>)\<rparr>"
      using mark_next [OF wf2(1) s2(4) own(2) laws(3), of "\<not> mk"] s2(5) by (cases mk) auto
    have wf3: "rq_wf X r s3" "runqueues s3 r = Some q" "tasks s3 c = Some ct" "se_at s3 (TaskSe c) \<noteq> None"
      "cfs_at s3 ?q = Some (cq2\<lparr>cfs_next := Some (TaskSe p)\<rparr>)"
      using s3(2) wf2(2) s2(3) t(1) cse'(1) by (simp_all add: kept_def s3(3))
    obtain s' where "preempt_curr X r c (TaskSe c) scale s3 = Some s'" "kept X r s3 s'" "se_at s' = se_at s3"
      "need_resched X s' c" "next_buddy r s' = next_buddy r s3"
      using preempt_curr_spec [OF wf3(1) laws(3) own(1) wf3(2) q(2) wf3(3,5,4)] by blast
    moreover have "se_at s3 = se_at s2" "next_buddy r s3 = Some (TaskSe p)" by (simp_all add: s3(3) next_buddy_def)
    ultimately show ?thesis
      using eq s1 s2(1) pre s3(1) True cse' kept_trans [OF kept_trans [OF s2(2) s3(2)]] by auto
  qed
qed

section \<open>A task that is preempted\<close>

text \<open>Task 1 has run for 5000 ns and is behind task 2, which has just been woken up.\<close>

lemma demo_woken: "wake_ok demo_sched_ext" "sched_feat demo_sched_ext WAKEUP_PREEMPTION"
  "woken demo_sched_ext 0 1 2 demo_sleep"
proof -
  have "tasks demo_sleep 1 = Some (demo_task 1)" "tasks demo_sleep 2 = Some (demo_task 2)" "rq_curr demo_rq = Some 1"
    "is_on_rq demo_sleep (TaskSe 1)" "\<not> throttled_hierarchy demo_sched_ext (cfs_bw demo_cfs)"
    "\<not> test_tsk_need_resched demo_sched_ext (demo_task p)" "t_policy (demo_task p) \<noteq> SCHED_IDLE demo_sched_ext"
    "t_policy (demo_task p) = SCHED_NORMAL demo_sched_ext" for p
    by (simp_all add: demo_sleep_def demo_sched_def demo_rq_def demo_cfs_def demo_task_def demo_sched_ext_def is_on_rq_def)
  then show "woken demo_sched_ext 0 1 2 demo_sleep"
    using demo_sleep_at demo_sleep_timeline(1) by (simp add: woken_def)
  show "wake_ok demo_sched_ext"
    by (auto simp: wake_ok_def demo_sched_ext_def upd_task_def bit_set_bit_iff)
  show "sched_feat demo_sched_ext WAKEUP_PREEMPTION" by (simp add: demo_sched_ext_def)
qed

theorem wakeup_preempts_witness:
  "\<exists>s'. check_preempt_wakeup demo_sched_ext 0 2 0 demo_sleep = Some s' \<and> need_resched demo_sched_ext s' 1
     \<and> next_buddy 0 s' = Some (TaskSe 2) \<and> timeline (RootCfs 0) s' = [TaskSe 2]"
proof -
  have c: "charge demo_sched_ext (RootCfs 0) demo_sleep (demo_entity 2000) = 5000"
    by (simp add: demo_charge calc_delta_fair_def NICE_0_LOAD_def demo_sleep_def)
  have se: "se_at demo_sleep (TaskSe 1) = Some (demo_entity 2000)" "se_at demo_sleep (TaskSe 2) = Some (demo_entity 3000)"
    by (simp_all add: demo_sleep_def demo_sched_def)
  have "wakeup_preempt_entity demo_sched_ext cse (demo_entity 3000) = 1" if "vruntime cse = 7000" for cse
    using that by (simp add: demo_sched_ext_def)
  then show ?thesis
    using wakeup_preempts [OF demo_vr_ok demo_queue_laws(4) demo_woken(1,2) demo_sleep_wf demo_sleep_window demo_woken(3) se, of 0]
      demo_sleep_timeline(1) by (auto simp: c kept_def)
qed

end
