(* ===== verification/Sched_Mm.thy ===== *)
theory Sched_Mm
  imports Fair_Queue Sched_Run
begin

text \<open>
  The reference counts of address spaces.  A kernel thread has none of its own and borrows the one
  of the task it takes the CPU from; \<^verbatim>\<open>context_switch\<close> counts the loan in \<^verbatim>\<open>mm_count\<close>, and when the
  thread leaves the CPU the loan passes to \<^verbatim>\<open>rq->prev_mm\<close>, which \<^verbatim>\<open>finish_task_switch\<close> gives up with
  \<^verbatim>\<open>mmdrop\<close>.
\<close>

section \<open>The invariant\<close>

definition borrowers :: "sched \<Rightarrow> nat \<Rightarrow> nat set" where
  "borrowers s m = {p. \<exists>t. tasks s p = Some t \<and> t_mm t = None \<and> t_active_mm t = Some m}"

text \<open>The count of an address space is one while processes use it, plus one for each kernel
  thread that borrows it, plus one while the reference waits to be dropped, plus the number
  of references that were lost; a freed one has none of these.\<close>

definition accounted :: "nat option \<Rightarrow> (nat \<Rightarrow> nat) \<Rightarrow> nat set \<Rightarrow> nat \<Rightarrow> mm_struct option \<Rightarrow> bool" where
  "accounted pending lost B m mm \<longleftrightarrow> (case mm of
      None \<Rightarrow> B = {} \<and> pending \<noteq> Some m \<and> lost m = 0
    | Some mm \<Rightarrow> unat (mm_count mm) = of_bool (mm_users mm \<noteq> 0) + card B + of_bool (pending = Some m) + lost m)"

definition mm_inv :: "nat option \<Rightarrow> (nat \<Rightarrow> nat) \<Rightarrow> sched \<Rightarrow> bool" where
  "mm_inv pending lost s \<longleftrightarrow> finite (dom (tasks s)) \<and> (\<forall>m. accounted pending lost (borrowers s m) m (mm_at s m))"

definition mmdrop_ok :: "core_ext \<Rightarrow> bool" where
  "mmdrop_ok C \<longleftrightarrow> (\<forall>m s mm. mm_at s m = Some mm \<longrightarrow> mmdrop C m s = Some (s\<lparr>mm_at := (mm_at s)(m :=
     if mm_count mm = 1 then None else Some (mm\<lparr>mm_count := mm_count mm - 1\<rparr>))\<rparr>))"

lemma finite_borrowers: "finite (dom (tasks s)) \<Longrightarrow> finite (borrowers s m)"
  by (erule finite_subset [rotated]) (auto simp: borrowers_def)

lemma borrowers_upd:
  "borrowers (s\<lparr>tasks := (tasks s)(p \<mapsto> t)\<rparr>) m
    = (if t_mm t = None \<and> t_active_mm t = Some m then insert p (borrowers s m) else borrowers s m - {p})"
  by (auto simp: borrowers_def)

lemma borrowers_cong: "tasks s' = tasks s \<Longrightarrow> borrowers s' m = borrowers s m"
  by (simp add: borrowers_def)

lemma mm_inv_cong:
  assumes "tasks s' = tasks s" "mm_at s' = mm_at s"
  shows "mm_inv pd d s' = mm_inv pd d s"
  unfolding mm_inv_def borrowers_cong [OF assms(1)] assms by (rule refl)

lemma mm_invD:
  assumes "mm_inv pd d s"
  shows "accounted pd d (borrowers s m) m (mm_at s m)" "finite (borrowers s m)"
  using assms finite_borrowers by (simp_all add: mm_inv_def)

lemma mm_inv_task:
  assumes "mm_inv pd d s" "tasks s p = Some t" "t_mm t' = t_mm t" "t_active_mm t' = t_active_mm t"
  shows "mm_inv pd d (s\<lparr>tasks := (tasks s)(p \<mapsto> t')\<rparr>)"
proof -
  have "borrowers (s\<lparr>tasks := (tasks s)(p \<mapsto> t')\<rparr>) m = borrowers s m" for m
    using assms(2-4) by (auto simp: borrowers_upd) (auto simp: borrowers_def)
  then show ?thesis using assms(1) by (simp add: mm_inv_def)
qed

section \<open>The steps of a switch\<close>

definition lose :: "(nat \<Rightarrow> nat) \<Rightarrow> nat option \<Rightarrow> nat \<Rightarrow> nat" where
  "lose d a = (case a of None \<Rightarrow> d | Some k \<Rightarrow> d(k := d k + 1))"

text \<open>A task that starts to borrow \<open>m\<close> forgets what it borrowed before.\<close>

lemma borrow:
  assumes inv: "mm_inv pd d s" and n: "tasks s n = Some nt" "t_mm nt' = None" "t_active_mm nt' = Some m"
    and m: "mm_at s m = Some mm" "mm_count mm \<noteq> - 1"
  shows "mm_inv pd (lose d (if t_mm nt = None then t_active_mm nt else None)) (s\<lparr>tasks := (tasks s)(n \<mapsto> nt'),
    mm_at := (mm_at s)(m \<mapsto> mm\<lparr>mm_count := mm_count mm + 1\<rparr>)\<rparr>)" (is "mm_inv pd ?d ?s")
proof -
  have old: "n \<in> borrowers s k \<longleftrightarrow> t_mm nt = None \<and> t_active_mm nt = Some k" for k using n by (simp add: borrowers_def)
  have b: "borrowers ?s k = (if k = m then insert n (borrowers s k) else borrowers s k - {n})" for k
    using n by (auto simp: borrowers_def)
  have d: "?d k = d k + of_bool (n \<in> borrowers s k)" for k
    unfolding old by (auto simp: lose_def split: option.splits)
  have "1 + mm_count mm \<noteq> 0" using m(2) by (simp add: eq_neg_iff_add_eq_0 add.commute)
  from unatSuc [OF this] have "unat (mm_count mm + 1) = unat (mm_count mm) + 1" by (simp add: add.commute)
  then have "accounted pd ?d (borrowers ?s k) k (mm_at ?s k)" for k
    using mm_invD [OF inv, of k] m(1) card_Suc_Diff1 [of "borrowers s k" n] unfolding b accounted_def d
    by (cases "k = m"; cases "n \<in> borrowers s k") (auto simp: insert_absorb split: option.splits)
  then show ?thesis using inv by (simp add: mm_inv_def)
qed

lemma leave:
  assumes inv: "mm_inv None d s" and p: "tasks s p = Some pt" "t_mm pt = None" "t_active_mm pt = Some m"
  shows "mm_inv (Some m) d (s\<lparr>tasks := (tasks s)(p \<mapsto> pt\<lparr>t_active_mm := None\<rparr>)\<rparr>)" (is "mm_inv _ _ ?s")
proof -
  have p': "p \<in> borrowers s m" "k \<noteq> m \<Longrightarrow> p \<notin> borrowers s k" for k using p by (auto simp: borrowers_def)
  then have b: "borrowers ?s k = (if k = m then borrowers s m - {p} else borrowers s k)" for k
    by (auto simp: borrowers_def)
  have "0 < card (borrowers s m)" using mm_invD(2) [OF inv] p'(1) by (auto simp: card_gt_0_iff)
  then have "accounted (Some m) d (borrowers ?s k) k (mm_at ?s k)" for k
    using mm_invD [OF inv, of k] p'(1) unfolding b
    by (cases "k = m") (auto simp: accounted_def split: option.splits)
  then show ?thesis using inv by (simp add: mm_inv_def)
qed

lemma drop:
  assumes "mmdrop_ok C" "mm_inv (Some m) d s"
  shows "\<exists>s'. mmdrop C m s = Some s' \<and> mm_inv None d s' \<and> tasks s' = tasks s \<and> runqueues s' = runqueues s"
proof -
  obtain mm where mm: "mm_at s m = Some mm"
    using mm_invD(1) [OF assms(2), of m] by (auto simp: accounted_def split: option.splits)
  define s' where "s' = s\<lparr>mm_at := (mm_at s)(m := if mm_count mm = 1 then None else Some (mm\<lparr>mm_count := mm_count mm - 1\<rparr>))\<rparr>"
  have b: "borrowers s' k = borrowers s k" for k by (rule borrowers_cong) (simp add: s'_def)
  have c: "unat (mm_count mm) = of_bool (mm_users mm \<noteq> 0) + card (borrowers s m) + 1 + d m"
    using mm_invD(1) [OF assms(2), of m] mm by (simp add: accounted_def)
  have "mm_count mm \<noteq> 0" using c by auto
  then have one: "unat (mm_count mm - 1) = unat (mm_count mm) - 1" "mm_count mm = 1 \<longleftrightarrow> unat (mm_count mm) = 1"
    by (rule unat_minus_one) (simp add: word_unat_eq_iff)
  have "accounted None d (borrowers s' k) k (mm_at s' k)" for k
    using mm_invD [OF assms(2), of k] c one unfolding b
    by (cases "k = m") (auto simp: accounted_def s'_def split: option.splits)
  then have "mm_inv None d s'" using assms(2) by (simp add: mm_inv_def s'_def)
  then show ?thesis using assms(1) mm by (intro exI [of _ s']) (simp add: mmdrop_ok_def s'_def)
qed


text \<open>What of the tasks the counts depend on.\<close>

definition spaces :: "sched \<Rightarrow> nat \<Rightarrow> (nat option \<times> nat option) option" where
  "spaces s p = map_option (\<lambda>t. (t_mm t, t_active_mm t)) (tasks s p)"

lemma put_task_struct_mm:
  assumes "mm_inv None d s" "tasks s p = Some t"
  shows "\<exists>s'. put_task_struct p s = Some s' \<and> mm_inv None d s' \<and> spaces s' = spaces s \<and> runqueues s' = runqueues s"
proof -
  let ?s = "s\<lparr>tasks := (tasks s)(p \<mapsto> t\<lparr>t_usage := t_usage t - 1\<rparr>)\<rparr>"
  have "put_task_struct p s = Some ?s"
    using assms(2) by (simp add: put_task_struct_def upd_task_def free_task_struct_def kfree_def Let_def)
  moreover have "mm_inv None d ?s" by (rule mm_inv_task [OF assms]) simp_all
  moreover have "spaces ?s = spaces s" using assms(2) by (auto simp: spaces_def fun_eq_iff)
  ultimately show ?thesis by (intro exI [of _ ?s]) simp
qed

definition unlocks :: "core_ext \<Rightarrow> bool" where
  "unlocks C \<longleftrightarrow> (\<forall>r s. finish_lock_switch C r s
     = map_option (\<lambda>s. s\<lparr>eflags := local_irq_enable (eflags s)\<rparr>) (rq_spin_unlock r s))"

lemma finish_mm:
  assumes laws: "unlocks C" "mmdrop_ok C" "this_rq C = r"
    and q: "runqueues s r = Some q" "rq_lock q = held_by smp_processor_id a l" "lock_free l"
    and inv: "mm_inv (prev_mm q) d s" and p: "tasks s p = Some pt"
  shows "\<exists>s' q'. finish_task_switch C p s = Some s' \<and> mm_inv None d s' \<and> spaces s' = spaces s
    \<and> runqueues s' r = Some q' \<and> prev_mm q' = None \<and> lock_free (rq_lock q')"
proof -
  define s1 where "s1 = s\<lparr>runqueues := (runqueues s)(r \<mapsto> q\<lparr>prev_mm := None\<rparr>),
    arch_state := finish_arch_switch C p (perf_event_task_sched_in C p (current_task s) (arch_state s))\<rparr>"
  obtain l' where l': "rq_spin_unlock r s1 = Some (s1\<lparr>runqueues := (runqueues s1)(r \<mapsto> q\<lparr>prev_mm := None, rq_lock := l'\<rparr>)\<rparr>)"
    "lock_free l'"
    using rq_spin_unlock_held [of s1 r "q\<lparr>prev_mm := None\<rparr>" a l] q by (auto simp: s1_def)
  define q' where "q' = q\<lparr>prev_mm := None, rq_lock := l'\<rparr>"
  define s1' where "s1' = s1\<lparr>runqueues := (runqueues s1)(r \<mapsto> q'), eflags := local_irq_enable (eflags s1)\<rparr>"
  define s2 where "s2 = s1'\<lparr>arch_state := fire_sched_in_preempt_notifiers C (current_task s1') (arch_state s1')\<rparr>"
  have fin: "finish_lock_switch C r s1 = Some s1'" using laws(1) l'(1) by (simp add: unlocks_def s1'_def q'_def)
  have s2: "tasks s2 = tasks s" "mm_at s2 = mm_at s" "runqueues s2 r = Some q'"
    by (simp_all add: s2_def s1'_def s1_def)
  have "mm_inv (prev_mm q) d s2" using inv mm_inv_cong [OF s2(1,2)] by simp
  then obtain s3 where s3: "(case prev_mm q of None \<Rightarrow> Some s2 | Some m \<Rightarrow> mmdrop C m s2) = Some s3"
    "mm_inv None d s3" "tasks s3 = tasks s" "runqueues s3 r = Some q'"
    using drop [OF laws(2)] s2 by (cases "prev_mm q") fastforce+
  have "finish_task_switch C p s = (if t_state pt = TASK_DEAD C then put_task_struct p s3 else Some s3)"
    using q(1) p laws(3) fin s3(1) [unfolded s2_def]
    by (simp add: finish_task_switch_def upd_rq_def get_current_def Let_def s1_def)
  moreover have "\<exists>s'. (if t_state pt = TASK_DEAD C then put_task_struct p s3 else Some s3) = Some s'
      \<and> mm_inv None d s' \<and> spaces s' = spaces s3 \<and> runqueues s' = runqueues s3"
    using put_task_struct_mm [OF s3(2), of p pt] s3 p by simp
  moreover have "spaces s3 = spaces s" by (simp add: spaces_def s3(3) fun_eq_iff)
  ultimately show ?thesis using s3(4) l'(2) by (fastforce simp: q'_def)
qed

lemma take_mm:
  assumes inv: "mm_inv None d s" and n: "tasks s n = Some nt" and om: "mm_at s om = Some mm" "mm_count mm \<noteq> - 1"
  shows "\<exists>s'. (case t_mm nt of
         None \<Rightarrow> do {
           s \<leftarrow> upd_task n (\<lambda>t. t\<lparr>t_active_mm := Some om\<rparr>) s;
           m \<leftarrow> Some om;
           mm \<leftarrow> mm_at s m;
           let s = s\<lparr>mm_at := (mm_at s)(m \<mapsto> mm\<lparr>mm_count := mm_count mm + 1\<rparr>)\<rparr>;
           Some (s\<lparr>arch_state := enter_lazy_tlb C m n (arch_state s)\<rparr>) }
       | Some m \<Rightarrow> Some (s\<lparr>arch_state := switch_mm C (Some om) m n (arch_state s)\<rparr>)) = Some s'
    \<and> mm_inv None (lose d (if t_mm nt = None then t_active_mm nt else None)) s'
    \<and> tasks s' = (if t_mm nt = None then (tasks s)(n \<mapsto> nt\<lparr>t_active_mm := Some om\<rparr>) else tasks s)
    \<and> runqueues s' = runqueues s"
proof (cases "t_mm nt")
  case None
  let ?s = "s\<lparr>tasks := (tasks s)(n \<mapsto> nt\<lparr>t_active_mm := Some om\<rparr>),
    mm_at := (mm_at s)(om \<mapsto> mm\<lparr>mm_count := mm_count mm + 1\<rparr>)\<rparr>"
  have "mm_inv None (lose d (t_active_mm nt)) ?s"
    using borrow [OF inv n, of "nt\<lparr>t_active_mm := Some om\<rparr>" om mm] None om by simp
  then have "mm_inv None (lose d (t_active_mm nt)) (?s\<lparr>arch_state := b\<rparr>)" for b
    using mm_inv_cong [of "?s\<lparr>arch_state := b\<rparr>" ?s] by simp
  then show ?thesis using None n(1) om(1) by (simp add: upd_task_def)
next
  case (Some m)
  then show ?thesis using inv mm_inv_cong [of "s\<lparr>arch_state := _\<rparr>" s] by (simp add: lose_def)
qed

lemma leave_mm:
  assumes inv: "mm_inv None d s" and p: "tasks s p = Some pt" "t_mm pt = None \<Longrightarrow> t_active_mm pt = Some om"
    and q: "runqueues s r = Some q" "prev_mm q = None"
  shows "\<exists>s'. (if t_mm pt = None then do {
              s \<leftarrow> upd_task p (\<lambda>t. t\<lparr>t_active_mm := None\<rparr>) s;
              upd_rq r (\<lambda>q. q\<lparr>prev_mm := Some om\<rparr>) s }
           else Some s) = Some s'
    \<and> mm_inv (if t_mm pt = None then Some om else None) d s'
    \<and> tasks s' = (if t_mm pt = None then (tasks s)(p \<mapsto> pt\<lparr>t_active_mm := None\<rparr>) else tasks s)
    \<and> runqueues s' r = Some (q\<lparr>prev_mm := if t_mm pt = None then Some om else None\<rparr>)"
proof (cases "t_mm pt = None")
  case True
  let ?s = "s\<lparr>tasks := (tasks s)(p \<mapsto> pt\<lparr>t_active_mm := None\<rparr>)\<rparr>"
  have "mm_inv (Some om) d ?s" by (rule leave [OF inv p(1) True p(2) [OF True]])
  then have "mm_inv (Some om) d (?s\<lparr>runqueues := b\<rparr>)" for b using mm_inv_cong [of "?s\<lparr>runqueues := b\<rparr>" ?s] by simp
  then show ?thesis using True p(1) q(1) by (simp add: upd_task_def upd_rq_def)
next
  case False
  then show ?thesis using inv q unfolding if_not_P [OF False] by simp
qed


section \<open>The switch as a whole\<close>

lemma prepare_mm:
  assumes inv: "mm_inv None d s" and q: "runqueues s r = Some q"
    and t: "tasks s p = Some pt" "tasks s n = Some nt" "p \<noteq> n"
  shows "\<exists>s' qi pt' nt'. prepare_task_switch C r p n s = Some s' \<and> mm_inv None d s' \<and> spaces s' = spaces s
    \<and> tasks s' p = Some pt' \<and> tasks s' n = Some nt'
    \<and> t_mm pt' = t_mm pt \<and> t_active_mm pt' = t_active_mm pt \<and> t_mm nt' = t_mm nt \<and> t_active_mm nt' = t_active_mm nt
    \<and> mm_at s' = mm_at s \<and> runqueues s' r = Some (q\<lparr>rq_sched_info := qi\<rparr>)"
proof -
  obtain qi pi ni b where prep: "prepare_task_switch C r p n s = Some (s\<lparr>
      runqueues := (runqueues s)(r \<mapsto> q\<lparr>rq_sched_info := qi\<rparr>),
      tasks := (tasks s)(p \<mapsto> pt\<lparr>t_sched_info := pi\<rparr>, n \<mapsto> nt\<lparr>t_sched_info := ni\<rparr>), arch_state := b\<rparr>)" (is "_ = Some ?s")
    using prepare_task_switch_frame [OF q t] by blast
  have "mm_inv None d (s\<lparr>tasks := (tasks s)(p \<mapsto> pt\<lparr>t_sched_info := pi\<rparr>)\<rparr>)"
    by (rule mm_inv_task [OF inv t(1)]) simp_all
  from mm_inv_task [OF this, of n nt "nt\<lparr>t_sched_info := ni\<rparr>"] t
  have "mm_inv None d (s\<lparr>tasks := (tasks s)(p \<mapsto> pt\<lparr>t_sched_info := pi\<rparr>, n \<mapsto> nt\<lparr>t_sched_info := ni\<rparr>)\<rparr>)" by simp
  then have "mm_inv None d ?s" using mm_inv_cong [of ?s "s\<lparr>tasks := tasks ?s\<rparr>"] by simp
  moreover have "spaces ?s = spaces s" using t by (auto simp: spaces_def fun_eq_iff)
  ultimately show ?thesis using prep t(3)
    by (intro exI [of _ ?s] exI [of _ qi] exI [of _ "pt\<lparr>t_sched_info := pi\<rparr>"] exI [of _ "nt\<lparr>t_sched_info := ni\<rparr>"]) simp
qed

lemma switch_mm_counts:
  assumes prep: "prepare_task_switch C r p n s0 = Some s"
    and laws: "unlocks C" "mmdrop_ok C" "this_rq C = r"
    and q: "runqueues s r = Some q" "prev_mm q = None" "rq_lock q = held_by smp_processor_id a l" "lock_free l"
    and inv: "mm_inv None d s" and "p \<noteq> n"
    and p: "tasks s p = Some pt" "t_active_mm pt = Some om" "mm_at s om = Some mm" "mm_count mm \<noteq> - 1"
    and n: "tasks s n = Some nt"
  shows "\<exists>s' q'. context_switch C r p n s0 = Some s'
    \<and> mm_inv None (lose d (if t_mm nt = None then t_active_mm nt else None)) s'
    \<and> runqueues s' r = Some q' \<and> prev_mm q' = None \<and> lock_free (rq_lock q')
    \<and> spaces s' = (spaces s)(n \<mapsto> (t_mm nt, if t_mm nt = None then Some om else t_active_mm nt),
        p \<mapsto> (t_mm pt, if t_mm pt = None then None else Some om))"
proof -
  let ?d = "lose d (if t_mm nt = None then t_active_mm nt else None)"
  define s1 where "s1 = s\<lparr>arch_state := arch_start_context_switch C p (arch_state s)\<rparr>"
  have s1: "tasks s1 = tasks s" "mm_at s1 = mm_at s" "runqueues s1 = runqueues s"
    by (simp_all add: s1_def)
  have inv1: "mm_inv None d s1" using inv mm_inv_cong [OF s1(1,2)] by simp
  obtain s2 where s2: "(case t_mm nt of
         None \<Rightarrow> do {
           s \<leftarrow> upd_task n (\<lambda>t. t\<lparr>t_active_mm := Some om\<rparr>) s1;
           m \<leftarrow> Some om;
           mm \<leftarrow> mm_at s m;
           let s = s\<lparr>mm_at := (mm_at s)(m \<mapsto> mm\<lparr>mm_count := mm_count mm + 1\<rparr>)\<rparr>;
           Some (s\<lparr>arch_state := enter_lazy_tlb C m n (arch_state s)\<rparr>) }
       | Some m \<Rightarrow> Some (s1\<lparr>arch_state := switch_mm C (Some om) m n (arch_state s1)\<rparr>)) = Some s2"
    "mm_inv None ?d s2" "tasks s2 = (if t_mm nt = None then (tasks s)(n \<mapsto> nt\<lparr>t_active_mm := Some om\<rparr>) else tasks s)"
    "runqueues s2 = runqueues s"
    using take_mm [OF inv1, of n nt om mm C] n p(3,4) s1 by auto
  have p2: "tasks s2 p = Some pt" using s2(3) p(1) \<open>p \<noteq> n\<close> by simp
  obtain s3 where s3: "(if t_mm pt = None then do {
              s \<leftarrow> upd_task p (\<lambda>t. t\<lparr>t_active_mm := None\<rparr>) s2;
              upd_rq r (\<lambda>q. q\<lparr>prev_mm := Some om\<rparr>) s }
           else Some s2) = Some s3" "mm_inv (if t_mm pt = None then Some om else None) ?d s3"
    "tasks s3 = (if t_mm pt = None then (tasks s2)(p \<mapsto> pt\<lparr>t_active_mm := None\<rparr>) else tasks s2)"
    "runqueues s3 r = Some (q\<lparr>prev_mm := if t_mm pt = None then Some om else None\<rparr>)"
    using leave_mm [OF s2(2) p2, of om r q] p(2) q(1,2) s2(4) by auto
  obtain x s4 where sw: "switch_to p n (pushq (after_switch_to C) s3) = (x, s4)" by fastforce
  have run: "context_switch C r p n s0 = finish_task_switch C n s4"
    unfolding context_switch_def Let_def prep n p(1,2) bind.bind_lunit s1_def [symmetric]
      s2(1) [unfolded Let_def bind.bind_lunit] p2 s3(1) sw by simp
  have s4: "tasks s4 = tasks s3" "mm_at s4 = mm_at s3"
    "runqueues s4 r = Some (q\<lparr>prev_mm := if t_mm pt = None then Some om else None\<rparr>)"
    using switch_to_keeps [OF sw] s3(4) by simp_all
  have "mm_inv (prev_mm (q\<lparr>prev_mm := if t_mm pt = None then Some om else None\<rparr>)) ?d s4"
    using s3(2) mm_inv_cong [OF s4(1,2)] by simp
  moreover obtain nt4 where "tasks s4 n = Some nt4"
    using s4(1) s3(3) s2(3) n \<open>p \<noteq> n\<close> by (cases "t_mm pt = None"; cases "t_mm nt = None") auto
  ultimately obtain s' q' where s': "finish_task_switch C n s4 = Some s'" "mm_inv None ?d s'" "spaces s' = spaces s4"
    "runqueues s' r = Some q'" "prev_mm q' = None" "lock_free (rq_lock q')"
    using finish_mm [OF laws s4(3), of a l ?d n] q(3,4) by auto
  have "spaces s4 = (spaces s)(n \<mapsto> (t_mm nt, if t_mm nt = None then Some om else t_active_mm nt),
        p \<mapsto> (t_mm pt, if t_mm pt = None then None else Some om))"
    using p(1,2) n \<open>p \<noteq> n\<close> s2(3) s3(3) s4(1) by (auto simp: spaces_def fun_eq_iff)
  then show ?thesis using run s' by auto
qed

lemma context_switch_mm:
  assumes laws: "unlocks C" "mmdrop_ok C" "this_rq C = r"
    and q: "runqueues s r = Some q" "prev_mm q = None" "rq_lock q = held_by smp_processor_id a l" "lock_free l"
    and inv: "mm_inv None d s" and "p \<noteq> n"
    and p: "tasks s p = Some pt" "t_active_mm pt = Some om" "mm_at s om = Some mm" "mm_count mm \<noteq> - 1"
    and n: "tasks s n = Some nt"
  shows "\<exists>s' q'. context_switch C r p n s = Some s'
    \<and> mm_inv None (lose d (if t_mm nt = None then t_active_mm nt else None)) s'
    \<and> runqueues s' r = Some q' \<and> prev_mm q' = None \<and> lock_free (rq_lock q')
    \<and> spaces s' = (spaces s)(n \<mapsto> (t_mm nt, if t_mm nt = None then Some om else t_active_mm nt),
        p \<mapsto> (t_mm pt, if t_mm pt = None then None else Some om))"
proof -
  obtain s0 qi pt' nt' where s0: "prepare_task_switch C r p n s = Some s0" "mm_inv None d s0" "spaces s0 = spaces s"
    and t0: "tasks s0 p = Some pt'" "tasks s0 n = Some nt'"
    and same: "t_mm pt' = t_mm pt" "t_active_mm pt' = Some om" "t_mm nt' = t_mm nt" "t_active_mm nt' = t_active_mm nt"
    and keep: "mm_at s0 om = Some mm" "runqueues s0 r = Some (q\<lparr>rq_sched_info := qi\<rparr>)"
    using prepare_mm [OF inv q(1) p(1) n \<open>p \<noteq> n\<close>, of C] p(2,3) by metis
  show ?thesis
    using switch_mm_counts [OF s0(1) laws keep(2) _ _ q(4) s0(2) \<open>p \<noteq> n\<close> t0(1) same(2) keep(1) p(4) t0(2), of a]
      q(2,3) unfolding s0(3) same by simp
qed

section \<open>sched_fork\<close>

definition kthread :: "task_struct \<Rightarrow> bool" where
  "kthread t \<longleftrightarrow> t_flags t AND PF_KTHREAD \<noteq> 0"

definition forked :: "core_ext \<Rightarrow> task_struct \<Rightarrow> task_struct \<Rightarrow> task_struct" where
  "forked C ct t =
     (let t = t\<lparr>t_state := TASK_RUNNING, t_policy := SCHED_NORMAL (base C), t_prio := t_normal_prio ct,
            t_static_prio := t_static_prio ct, t_normal_prio := t_normal_prio ct,
            t_cpus_allowed := t_cpus_allowed ct, t_nr_cpus_allowed := t_nr_cpus_allowed ct\<rparr>;
          t = (if kthread t then t\<lparr>t_mm := None, t_active_mm := t_active_mm ct\<rparr> else t)
      in t\<lparr>t_sched_info := zero_info, t_last_cpu := 0, t_wake_cpu := 0, t_preempt_count := FORK_PREEMPT_COUNT\<rparr>)"

definition lent :: "sched \<Rightarrow> task_struct \<Rightarrow> task_struct \<Rightarrow> nat \<rightharpoonup> mm_struct" where
  "lent s ct t = (case t_active_mm ct of
      Some m \<Rightarrow> if kthread t then (mm_at s)(m := map_option (\<lambda>mm. mm\<lparr>mm_count := mm_count mm + 1\<rparr>) (mm_at s m)) else mm_at s
    | None \<Rightarrow> mm_at s)"

lemma sched_fork_eq:
  assumes "current_task s = Some c" "c \<noteq> p" "tasks s c = Some ct" "tasks s p = Some t" "se_at s (TaskSe p) = Some se"
    and "prio_weight (t_static_prio ct) = Some w"
    and "\<And>m. kthread t \<Longrightarrow> t_active_mm ct = Some m \<Longrightarrow> mm_at s m \<noteq> None"
    and "s1 = s\<lparr>se_at := (se_at s)(TaskSe p \<mapsto> se\<lparr>exec_start := 0, sum_exec_runtime := 0, prev_sum_exec_runtime := 0,
          vruntime := 0, nr_migrations := 0, se_load := \<lparr>weight = w, inv_weight = 0\<rparr>\<rparr>),
        mm_at := lent s ct t, tasks := (tasks s)(p \<mapsto> forked C ct t)\<rparr>"
  shows "sched_fork C p s = do {
     s \<leftarrow> task_list_lock_irqsave s1;
     s \<leftarrow> upd_snodes (list_add_tail (At (TaskNode Tasks p)) (At Task_list)) s;
     task_list_unlock_irqrestore (uninit_sched_flags C) s }"
  using assms
  by (auto simp: sched_fork_def upd_task_def upd_se_def get_current_def Let_def smp_processor_id_def
      kthread_def forked_def lent_def split: option.splits)

lemma task_list_locked:
  assumes "lock_free (task_list_lock s)"
    and "list_add_tail (At n) (At Task_list) (sched_nodes s) = Some h"
  shows "\<exists>l. do {
     s \<leftarrow> task_list_lock_irqsave s;
     s \<leftarrow> upd_snodes (list_add_tail (At n) (At Task_list)) s;
     task_list_unlock_irqrestore flags s } = Some (s\<lparr>sched_nodes := h, task_list_lock := l, eflags := ucast flags\<rparr>)
   \<and> lock_free l"
  using assms
  by (auto simp: task_list_lock_irqsave_def task_list_unlock_irqrestore_def spin_lock_irqsave_def
      spin_unlock_irqrestore_def local_irq_save_def local_irq_restore_def spin_lock_def spin_unlock_def
      spin_acquire.simps lock_free_def no_panic_def upd_snodes_def)

lemma task_list_taken:
  assumes "sl_lock (task_list_lock s) \<noteq> SPINLOCK_UNLOCKED"
  shows "task_list_lock_irqsave s = None"
  using spin_lock_taken(2) [OF assms, of smp_processor_id "caller_addr s" "eflags s"]
  by (auto simp: task_list_lock_irqsave_def no_panic_def split: sum.splits Option.bind_splits)

definition fork_ready ::
    "sched \<Rightarrow> (sched_node \<rightharpoonup> sched_node list) \<Rightarrow> nat \<Rightarrow> task_struct \<Rightarrow> nat \<Rightarrow> task_struct \<Rightarrow> bool" where
  "fork_ready s F c ct p t \<longleftrightarrow> current_task s = Some c \<and> c \<noteq> p \<and> tasks s c = Some ct \<and> tasks s p = Some t
     \<and> se_at s (TaskSe p) \<noteq> None \<and> MAX_RT_PRIO \<le> t_static_prio ct \<and> t_static_prio ct < MAX_PRIO
     \<and> lists (sched_nodes s) F \<and> F Task_list \<noteq> None \<and> TaskNode Tasks p \<notin> members F \<and> TaskNode Tasks p \<in> dom (sched_nodes s)
     \<and> lock_free (task_list_lock s)"

lemma prio_weight_table:
  assumes "MAX_RT_PRIO \<le> prio" "prio < MAX_PRIO"
  shows "prio_weight prio = Some (of_int (prio_to_weight ! nat (prio - MAX_RT_PRIO)))"
  using assms by (simp add: prio_weight_def MAX_RT_PRIO_def MAX_PRIO_def Let_def prio_to_weight_def)

lemma forked_spaces [simp]:
  "kthread t \<Longrightarrow> t_mm (forked C ct t) = None" "kthread t \<Longrightarrow> t_active_mm (forked C ct t) = t_active_mm ct"
  "\<not> kthread t \<Longrightarrow> t_mm (forked C ct t) = t_mm t" "\<not> kthread t \<Longrightarrow> t_active_mm (forked C ct t) = t_active_mm t"
  by (simp_all add: forked_def kthread_def Let_def)

lemma fork_mm:
  assumes "mm_inv None d s" "tasks s p = Some t" "t_mm t \<noteq> None \<or> t_active_mm t = None"
    and "t_active_mm ct = Some om" "mm_at s om = Some mm" "mm_count mm \<noteq> - 1"
    and "tasks s' = (tasks s)(p \<mapsto> forked C ct t)" "mm_at s' = lent s ct t"
  shows "mm_inv None d s'"
proof (cases "kthread t")
  case True
  let ?s = "s\<lparr>tasks := (tasks s)(p \<mapsto> forked C ct t), mm_at := (mm_at s)(om \<mapsto> mm\<lparr>mm_count := mm_count mm + 1\<rparr>)\<rparr>"
  have "lose d (if t_mm t = None then t_active_mm t else None) = d" using assms(3) by (auto simp: lose_def)
  then have "mm_inv None d ?s"
    using borrow [OF assms(1,2), of "forked C ct t" om mm] True assms(4-6) by simp
  then show ?thesis using mm_inv_cong [of s' ?s] assms(4,5,7,8) True by (simp add: lent_def)
next
  case False
  then have "mm_inv None d (s\<lparr>tasks := (tasks s)(p \<mapsto> forked C ct t)\<rparr>)" by (intro mm_inv_task [OF assms(1,2)]) simp_all
  then show ?thesis
    using mm_inv_cong [of s' "s\<lparr>tasks := (tasks s)(p \<mapsto> forked C ct t)\<rparr>"] assms(4,7,8) False by (simp add: lent_def)
qed

lemma sched_fork_spec:
  assumes r: "fork_ready s F c ct p t" and F: "F Task_list = Some xs"
    and om: "t_active_mm ct = Some om" "mm_at s om = Some mm" "mm_count mm \<noteq> - 1"
    and inv: "mm_inv None d s" "t_mm t \<noteq> None \<or> t_active_mm t = None"
  shows "\<exists>s' se'. sched_fork C p s = Some s' \<and> lists (sched_nodes s') (F(Task_list \<mapsto> xs @ [TaskNode Tasks p]))
    \<and> tasks s' = (tasks s)(p \<mapsto> forked C ct t) \<and> mm_at s' = lent s ct t
    \<and> se_at s' = (se_at s)(TaskSe p \<mapsto> se')
    \<and> weight (se_load se') = of_int (prio_to_weight ! nat (t_static_prio ct - MAX_RT_PRIO)) \<and> vruntime se' = 0
    \<and> lock_free (task_list_lock s') \<and> eflags s' = ucast (uninit_sched_flags C) \<and> runqueues s' = runqueues s
    \<and> mm_inv None d s' \<and> cfs_at s' = cfs_at s \<and> map_option on_rq (se_at s (TaskSe p)) = Some (on_rq se')"
proof -
  note f = r [unfolded fork_ready_def]
  obtain se where se: "se_at s (TaskSe p) = Some se" using f by blast
  define w :: u64 where "w = of_int (prio_to_weight ! nat (t_static_prio ct - MAX_RT_PRIO))"
  define se' where "se' = se\<lparr>exec_start := 0, sum_exec_runtime := 0, prev_sum_exec_runtime := 0,
          vruntime := 0, nr_migrations := 0, se_load := \<lparr>weight = w, inv_weight = 0\<rparr>\<rparr>"
  define s1 where "s1 = s\<lparr>se_at := (se_at s)(TaskSe p \<mapsto> se'), mm_at := lent s ct t,
    tasks := (tasks s)(p \<mapsto> forked C ct t)\<rparr>"
  have w: "prio_weight (t_static_prio ct) = Some w" unfolding w_def using f by (intro prio_weight_table) auto
  have eq: "sched_fork C p s = do {
     s \<leftarrow> task_list_lock_irqsave s1;
     s \<leftarrow> upd_snodes (list_add_tail (At (TaskNode Tasks p)) (At Task_list)) s;
     task_list_unlock_irqrestore (uninit_sched_flags C) s }"
    by (rule sched_fork_eq [OF _ _ _ _ se w]) (use f om in \<open>auto simp: s1_def se'_def\<close>)
  have ls: "lists (sched_nodes s) F" "TaskNode Tasks p \<notin> members F" "TaskNode Tasks p \<in> dom (sched_nodes s)"
    using f by auto
  obtain h where h: "list_add_tail (At (TaskNode Tasks p)) (At Task_list) (sched_nodes s) = Some h"
    "lists h (F(Task_list \<mapsto> xs @ [TaskNode Tasks p]))"
    using lh.add_tail_ok [OF ls(1) F ls(2,3)] by blast
  obtain l where l: "sched_fork C p s = Some (s1\<lparr>sched_nodes := h, task_list_lock := l, eflags := ucast (uninit_sched_flags C)\<rparr>)" "lock_free l"
    unfolding eq using task_list_locked [of s1 "TaskNode Tasks p" h "uninit_sched_flags C"] f h(1) by (auto simp: s1_def)
  let ?s = "s1\<lparr>sched_nodes := h, task_list_lock := l, eflags := ucast (uninit_sched_flags C)\<rparr>"
  have "mm_inv None d ?s"
    by (rule fork_mm [OF inv(1) _ inv(2) om, of p ?s C]) (use f in \<open>simp_all add: s1_def\<close>)
  then show ?thesis using l h(2) se by (intro exI [of _ ?s] exI [of _ se']) (simp add: s1_def se'_def w_def)
qed

section \<open>Properties\<close>

text \<open>C22: \<^verbatim>\<open>context_switch\<close> keeps the reference counts of address spaces exact, between user tasks
  and kernel threads in any combination: afterwards the count of every address space is again
  one while processes use it plus one for each kernel thread that borrows it, and an address
  space is freed exactly when the last of these is gone.  A kernel thread that takes the CPU
  borrows the address space of its predecessor, one that leaves it borrows none, and
  nothing is left to drop.\<close>

theorem context_switch_counts_mm:
  assumes laws: "unlocks C" "mmdrop_ok C" "this_rq C = r"
    and q: "runqueues s r = Some q" "prev_mm q = None" "rq_lock q = held_by smp_processor_id a l" "lock_free l"
    and inv: "mm_inv None (\<lambda>_. 0) s" and "p \<noteq> n"
    and p: "tasks s p = Some pt" "t_active_mm pt = Some om" "mm_at s om = Some mm" "mm_count mm \<noteq> - 1"
    and n: "tasks s n = Some nt" "t_mm nt = None \<Longrightarrow> t_active_mm nt = None"
  shows "\<exists>s' q'. context_switch C r p n s = Some s' \<and> mm_inv None (\<lambda>_. 0) s'
    \<and> runqueues s' r = Some q' \<and> prev_mm q' = None \<and> lock_free (rq_lock q')
    \<and> spaces s' = (spaces s)(n \<mapsto> (t_mm nt, if t_mm nt = None then Some om else t_active_mm nt),
        p \<mapsto> (t_mm pt, if t_mm pt = None then None else Some om))"
proof -
  have "lose (\<lambda>_. 0) (if t_mm nt = None then t_active_mm nt else None) = (\<lambda>_. 0)" using n(2) by (auto simp: lose_def)
  then show ?thesis using context_switch_mm [OF laws q inv \<open>p \<noteq> n\<close> p n(1)] by simp
qed

lemma sched_fork_blocks:
  assumes f: "fork_ready s F c ct p t" and om: "t_active_mm ct = Some om" "mm_at s om \<noteq> None"
    and taken: "sl_lock l \<noteq> SPINLOCK_UNLOCKED"
  shows "sched_fork C p (s\<lparr>task_list_lock := l\<rparr>) = None"
proof -
  let ?s = "s\<lparr>task_list_lock := l\<rparr>"
  note f = f [unfolded fork_ready_def]
  obtain se where se: "se_at ?s (TaskSe p) = Some se" using f by auto
  obtain w where w: "prio_weight (t_static_prio ct) = Some w" using f prio_weight_table by blast
  show ?thesis
    by (subst sched_fork_eq [OF _ _ _ _ se w _ refl, of c t C])
      (use f om taken in \<open>auto simp: task_list_taken\<close>)
qed

text \<open>C23: \<^verbatim>\<open>sched_fork\<close> registers a new task: with the lock of the task list free it never faults, appends
  the task to the list of all tasks and leaves every other list alone, gives it the priority, the
  CPUs and the weight of the running task and a virtual run time of zero; a kernel thread gets the
  address space of the running task, counted once.  The lock of the list is free again, but the
  flag register is left with what the uninitialised local \<^verbatim>\<open>flags\<close> contained.  While the lock
  is taken the call does not return.\<close>

theorem sched_fork_registers:
  assumes r: "fork_ready s F c ct p t" and F: "F Task_list = Some xs"
    and om: "t_active_mm ct = Some om" "mm_at s om = Some mm" "mm_count mm \<noteq> - 1"
    and inv: "mm_inv None d s" "t_mm t \<noteq> None \<or> t_active_mm t = None"
  shows "\<exists>s' t' se'. sched_fork C p s = Some s'
    \<and> lists (sched_nodes s') (F(Task_list \<mapsto> xs @ [TaskNode Tasks p]))
    \<and> tasks s' = (tasks s)(p \<mapsto> t') \<and> t_state t' = TASK_RUNNING \<and> t_prio t' = t_normal_prio ct
    \<and> t_static_prio t' = t_static_prio ct \<and> t_cpus_allowed t' = t_cpus_allowed ct \<and> t_pid t' = t_pid t
    \<and> (kthread t \<longrightarrow> t_mm t' = None \<and> t_active_mm t' = Some om)
    \<and> se_at s' = (se_at s)(TaskSe p \<mapsto> se')
    \<and> weight (se_load se') = of_int (prio_to_weight ! nat (t_static_prio ct - MAX_RT_PRIO)) \<and> vruntime se' = 0
    \<and> mm_inv None d s' \<and> lock_free (task_list_lock s') \<and> eflags s' = ucast (uninit_sched_flags C)
    \<and> (\<forall>l. sl_lock l \<noteq> SPINLOCK_UNLOCKED \<longrightarrow> sched_fork C p (s\<lparr>task_list_lock := l\<rparr>) = None)"
proof -
  obtain s' se' where "sched_fork C p s = Some s'" "lists (sched_nodes s') (F(Task_list \<mapsto> xs @ [TaskNode Tasks p]))"
    "tasks s' = (tasks s)(p \<mapsto> forked C ct t)" "se_at s' = (se_at s)(TaskSe p \<mapsto> se')"
    "weight (se_load se') = of_int (prio_to_weight ! nat (t_static_prio ct - MAX_RT_PRIO))" "vruntime se' = 0"
    "mm_inv None d s'" "lock_free (task_list_lock s')" "eflags s' = ucast (uninit_sched_flags C)"
    using sched_fork_spec [OF assms] by blast
  moreover have "t_state (forked C ct t) = TASK_RUNNING" "t_prio (forked C ct t) = t_normal_prio ct"
    "t_static_prio (forked C ct t) = t_static_prio ct" "t_cpus_allowed (forked C ct t) = t_cpus_allowed ct"
    "t_pid (forked C ct t) = t_pid t"
    by (simp_all add: forked_def Let_def)
  ultimately show ?thesis
    using om(1,2) sched_fork_blocks [OF r om(1)]
    by (intro exI [of _ s'] exI [of _ "forked C ct t"] exI [of _ se']) simp
qed

text \<open>C24: The first run of a forked kernel thread loses a reference.  \<^verbatim>\<open>sched_fork\<close> already counts the
  address space it gives to the thread; \<^verbatim>\<open>context_switch\<close> overwrites that pointer and counts again
  without dropping the first reference, so the count stays one too high for ever and the address
  space can never be freed.\<close>

theorem forked_kthread_leaks_mm:
  assumes laws: "unlocks C" "mmdrop_ok C" "this_rq C = r"
    and ready: "fork_ready s F c ct p t" "F Task_list = Some xs" "kthread t"
    and om: "t_active_mm ct = Some om" "mm_at s om = Some mm" "mm_count mm \<notin> {- 1, - 2}"
    and inv: "mm_inv None (\<lambda>_. 0) s" "t_mm t \<noteq> None \<or> t_active_mm t = None"
    and q: "runqueues s r = Some q" "prev_mm q = None" "rq_lock q = held_by smp_processor_id a l" "lock_free l"
  shows "\<exists>s1 s2. sched_fork C p s = Some s1 \<and> context_switch C r c p s1 = Some s2
    \<and> mm_inv None (\<lambda>m. of_bool (m = om)) s2 \<and> \<not> mm_inv None (\<lambda>_. 0) s2"
proof -
  have m1: "mm_count mm \<noteq> - 1" "mm_count mm + 1 \<noteq> - 1"
  proof -
    show "mm_count mm \<noteq> - 1" using om(3) by auto
    have "mm_count mm \<noteq> - 1 - 1" using om(3) by auto
    then show "mm_count mm + 1 \<noteq> - 1" by (simp only: eq_diff_eq)  simp
  qed
  obtain s1 where s1: "sched_fork C p s = Some s1" "tasks s1 = (tasks s)(p \<mapsto> forked C ct t)" "mm_at s1 = lent s ct t"
    "runqueues s1 = runqueues s" "mm_inv None (\<lambda>_. 0) s1"
    using sched_fork_spec [OF ready(1,2) om(1,2) m1(1) inv] by blast
  have c: "tasks s1 c = Some ct" "c \<noteq> p" using ready(1) by (auto simp: fork_ready_def s1(2))
  have mm1: "mm_at s1 om = Some (mm\<lparr>mm_count := mm_count mm + 1\<rparr>)"
    using s1(3) om(1,2) ready(3) by (simp add: lent_def)
  have p1: "tasks s1 p = Some (forked C ct t)" by (simp add: s1(2))
  obtain s2 where s2: "context_switch C r c p s1 = Some s2" "mm_inv None (lose (\<lambda>_. 0) (Some om)) s2"
    using context_switch_mm [OF laws _ q(2) _ q(4) s1(5) c(2,1) om(1) mm1 _ p1, of a] q(1,3) s1(4) m1(2) ready(3) om(1)
    by auto
  have d: "lose (\<lambda>_. 0) (Some om) = (\<lambda>m. of_bool (m = om))" by (auto simp: lose_def fun_eq_iff)
  have "\<not> mm_inv None (\<lambda>_. 0) s2"
    using mm_invD(1) [OF s2(2), of om] mm_invD(1) [of None "\<lambda>_. 0" s2 om]
    by (auto simp: accounted_def lose_def split: option.splits)
  then show ?thesis using s1(1) s2 unfolding d by blast
qed

text \<open>C25: \<^verbatim>\<open>sched_fork\<close> does not touch the \<^verbatim>\<open>on_rq\<close> mark of the new task: the mark is afterwards what
  it was before the call.  A task that comes with the mark set, as a copy of a running task does, is
  therefore not queued: \<^verbatim>\<open>enqueue_task_fair\<close> takes it for one that is queued already, so the timeline,
  the entities and \<^verbatim>\<open>nr_running\<close> of the fair run queue stay as they are, and only the other two counters
  grow.\<close>

theorem fork_keeps_queue_mark:
  assumes laws: "flat (base C)" "acct_ok (base C)" "cfs_rq_of (base C) (TaskSe p) = RootCfs r"
    and ready: "fork_ready s F c ct p t"
    and om: "t_active_mm ct = Some om" "mm_at s om = Some mm" "mm_count mm \<noteq> - 1"
    and inv: "mm_inv None d s" "t_mm t \<noteq> None \<or> t_active_mm t = None"
    and q: "cfs_at s (RootCfs r) = Some cq" "runqueues s r = Some q"
  shows "\<exists>s1. sched_fork C p s = Some s1 \<and> is_on_rq s1 (TaskSe p) = is_on_rq s (TaskSe p)
    \<and> (is_on_rq s (TaskSe p) \<longrightarrow> (\<exists>s2. enqueue_task_fair (base C) r p flags s1 = Some s2
         \<and> timeline (RootCfs r) s2 = timeline (RootCfs r) s \<and> se_at s2 = se_at s1
         \<and> cfs_at s2 (RootCfs r) = Some (cq\<lparr>h_nr_running := h_nr_running cq + 1\<rparr>)
         \<and> runqueues s2 r = Some (q\<lparr>rq_nr_running := rq_nr_running q + 1\<rparr>)))"
proof -
  obtain xs where "F Task_list = Some xs" using ready by (auto simp: fork_ready_def)
  from sched_fork_spec [OF ready this om inv, of C] obtain s1 se1 where
    s1: "sched_fork C p s = Some s1" "cfs_at s1 = cfs_at s" "runqueues s1 = runqueues s"
      "se_at s1 (TaskSe p) = Some se1" "is_on_rq s (TaskSe p) = on_rq se1"
    by (auto simp: is_on_rq_def)
  have "enqueue_task_fair (base C) r p flags s1 = recount r 1 s1" if "on_rq se1"
    using laws s1(2,4) that q(1) unfolding enqueue_task_fair_def recount_def flat_def acct_ok_def
    by (simp add: enqueue_up.simps [of _ flags "Some (TaskSe p)"] count_up.simps upd_cfs_def upd_rq_def cong: if_cong)
  then show ?thesis
    using s1 q by (auto simp: recount_def upd_cfs_def upd_rq_def timeline_def is_on_rq_def)
qed

section \<open>A concrete switch\<close>

text \<open>Task 1 runs in address space 0; task 2 is a kernel thread that is not running; task 3 is
  about to be forked as a kernel thread.\<close>

definition lazy_core :: core_ext where
  "lazy_core = demo_core\<lparr>mmdrop := (\<lambda>m s. map_option (\<lambda>mm. s\<lparr>mm_at := (mm_at s)(m :=
     if mm_count mm = 1 then None else Some (mm\<lparr>mm_count := mm_count mm - 1\<rparr>))\<rparr>) (mm_at s m))\<rparr>"

definition lazy_sched :: sched where
  "lazy_sched = demo_sched\<lparr>
     tasks := [1 \<mapsto> demo_task 1, 2 \<mapsto> (demo_task 2)\<lparr>t_mm := None, t_active_mm := None\<rparr>,
       3 \<mapsto> (demo_task 3)\<lparr>t_flags := PF_KTHREAD\<rparr>],
     se_at := (se_at demo_sched)(TaskSe 3 \<mapsto> demo_entity 0),
     runqueues := [0 \<mapsto> demo_rq\<lparr>rq_lock := held_by 0 0 (SPINLOCK_INIT ''demo'')\<rparr>],
     sched_nodes := [Task_list \<mapsto> \<lparr>lnext = At Task_list, lprev = At Task_list\<rparr>,
       TaskNode Tasks 3 \<mapsto> \<lparr>lnext = Null, lprev = Null\<rparr>]\<rparr>"

lemma lazy_laws: "unlocks lazy_core" "mmdrop_ok lazy_core" "this_rq lazy_core = 0"
  by (simp_all add: unlocks_def mmdrop_ok_def lazy_core_def demo_core_def)

lemma lazy_rq:
  "runqueues lazy_sched 0 = Some (demo_rq\<lparr>rq_lock := held_by 0 0 (SPINLOCK_INIT ''demo'')\<rparr>)"
  "smp_processor_id = 0" "mm_at lazy_sched 0 = Some \<lparr>mm_users = 1, mm_count = 1\<rparr>"
  "lock_free (SPINLOCK_INIT ''demo'')" "prev_mm demo_rq = None"
  by (simp_all add: lazy_sched_def demo_sched_def lock_free_def SPINLOCK_INIT_def demo_rq_def smp_processor_id_def)

lemma lazy_tasks:
  "tasks lazy_sched (Suc 0) = Some (demo_task 1)" "t_active_mm (demo_task p) = Some 0" "t_mm (demo_task p) = Some 0"
  "tasks lazy_sched 2 = Some ((demo_task 2)\<lparr>t_mm := None, t_active_mm := None\<rparr>)"
  "tasks lazy_sched 3 = Some ((demo_task 3)\<lparr>t_flags := PF_KTHREAD\<rparr>)"
  by (simp_all add: lazy_sched_def demo_task_def)

lemma lazy_inv: "mm_inv None (\<lambda>_. 0) lazy_sched"
proof -
  have "borrowers lazy_sched m = {}" for m
    by (auto simp: borrowers_def lazy_sched_def lazy_tasks(2,3) split: if_splits)
  then show ?thesis
    by (auto simp: mm_inv_def accounted_def lazy_sched_def demo_sched_def)
qed

theorem context_switch_counts_mm_witness:
  "\<exists>s'. context_switch lazy_core 0 1 2 lazy_sched = Some s' \<and> mm_inv None (\<lambda>_. 0) s'
     \<and> spaces s' 2 = Some (None, Some 0)"
proof -
  have n: "t_mm ((demo_task 2)\<lparr>t_mm := None, t_active_mm := None\<rparr>) = None \<Longrightarrow>
      t_active_mm ((demo_task 2)\<lparr>t_mm := None, t_active_mm := None\<rparr>) = None" by simp
  show ?thesis
    using context_switch_counts_mm [OF lazy_laws lazy_rq(1) _ _ lazy_rq(4) lazy_inv _ _ lazy_tasks(2) lazy_rq(3) _
        lazy_tasks(4) n, of 0 1 1] lazy_rq lazy_tasks by auto
qed

lemma lazy_fork_ready:
  "fork_ready lazy_sched [Task_list \<mapsto> []] 1 (demo_task 1) 3 ((demo_task 3)\<lparr>t_flags := PF_KTHREAD\<rparr>)"
proof -
  have "lists (sched_nodes lazy_sched) [Task_list \<mapsto> []]"
    by (auto simp: lists_def dlist_def link_def lazy_sched_def load_next_def load_prev_def load_def)
  moreover have "TaskNode Tasks 3 \<notin> members [Task_list \<mapsto> []]" by (simp add: members_def)
  moreover have "current_task lazy_sched = Some 1" "lock_free (task_list_lock lazy_sched)"
    "se_at lazy_sched (TaskSe 3) \<noteq> None" "TaskNode Tasks 3 \<in> dom (sched_nodes lazy_sched)"
    using lazy_rq(4) by (simp_all add: lazy_sched_def demo_sched_def)
  moreover have "t_static_prio (demo_task 1) = 120" by (simp add: demo_task_def)
  ultimately show ?thesis
    using lazy_tasks by (simp add: fork_ready_def MAX_RT_PRIO_def MAX_PRIO_def)
qed

theorem sched_fork_registers_witness:
  "\<exists>s' F. sched_fork lazy_core 3 lazy_sched = Some s' \<and> lists (sched_nodes s') F \<and> F Task_list = Some [TaskNode Tasks 3]
     \<and> mm_inv None (\<lambda>_. 0) s'"
  using sched_fork_registers [OF lazy_fork_ready _ lazy_tasks(2) lazy_rq(3) _ lazy_inv, of "[]" lazy_core] lazy_tasks(3)
  by fastforce

theorem forked_kthread_leaks_mm_witness:
  "\<exists>s1 s2. sched_fork lazy_core 3 lazy_sched = Some s1 \<and> context_switch lazy_core 0 1 3 s1 = Some s2
     \<and> \<not> mm_inv None (\<lambda>_. 0) s2"
proof -
  have "kthread ((demo_task 3)\<lparr>t_flags := PF_KTHREAD\<rparr>)" by (simp add: kthread_def PF_KTHREAD_def)
  then show ?thesis
    using forked_kthread_leaks_mm [OF lazy_laws lazy_fork_ready _ _ lazy_tasks(2) lazy_rq(3) _ lazy_inv _ lazy_rq(1) _ _ lazy_rq(4),
        of "[]" 0] lazy_rq lazy_tasks(3) by auto
qed

theorem fork_keeps_queue_mark_witness:
  "\<exists>s1 s2. sched_fork lazy_core 3 lazy_sched = Some s1 \<and> is_on_rq s1 (TaskSe 3)
     \<and> enqueue_task_fair (base lazy_core) 0 3 0 s1 = Some s2
     \<and> timeline (RootCfs 0) s2 = timeline (RootCfs 0) lazy_sched"
proof -
  have b: "base lazy_core = demo_sched_ext" by (simp add: lazy_core_def demo_core_def)
  have "is_on_rq lazy_sched (TaskSe 3)" "cfs_at lazy_sched (RootCfs 0) = Some demo_cfs"
    by (simp_all add: is_on_rq_def lazy_sched_def)
  then show ?thesis
    using fork_keeps_queue_mark [OF _ _ _ lazy_fork_ready lazy_tasks(2) lazy_rq(3) _ lazy_inv, of lazy_core 0] lazy_rq(1)
      demo_queue_laws lazy_tasks(3) unfolding b by fastforce
qed

end
