(* ===== verification/Config_H.thy ===== *)
theory Config_H
  imports Sched_H Mm_H
begin

text \<open>
  The constants of the headers: the configuration and the address space of \<^verbatim>\<open>config.h\<close>, the flags of
  tasks, of \<^verbatim>\<open>clone\<close> and of memory areas (\<^verbatim>\<open>sched.h\<close>, \<^verbatim>\<open>mm.h\<close>), the file modes of \<^verbatim>\<open>types.h\<close>, the zone
  types of \<^verbatim>\<open>mm.h\<close> and the task state predicates of \<^verbatim>\<open>sched.h\<close>.

  A group of macros is a table of names and values in the order of the header; octal
  constants are written in hexadecimal.
\<close>

section \<open>Flags\<close>

definition task_flags :: "(string \<times> u32) list" where
  "task_flags = [
     (''PF_KTHREAD'', 0x00000001), (''PF_IDLE'', 0x00000002), (''PF_EXITING'', 0x00000004),
     (''PF_EXITPIDONE'', 0x00000008), (''PF_VCPU'', 0x00000010), (''PF_WQ_WORKER'', 0x00000020),
     (''PF_FORKNOEXEC'', 0x00000040), (''PF_MCE_PROCESS'', 0x00000080), (''PF_SUPERPRIV'', 0x00000100),
     (''PF_DUMPCORE'', 0x00000200), (''PF_SIGNALED'', 0x00000400), (''PF_MEMALLOC'', 0x00000800),
     (''PF_NPROC_EXCEEDED'', 0x00001000), (''PF_USED_MATH'', 0x00002000),
     (''PF_USED_ASYNC'', 0x00004000), (''PF_NOFREEZE'', 0x00008000), (''PF_FROZEN'', 0x00010000),
     (''PF_FREEZER_SKIP'', 0x00020000)]"

definition clone_flags :: "(string \<times> u32) list" where
  "clone_flags = [
     (''CLONE_VM'', 0x00000100), (''CLONE_FS'', 0x00000200), (''CLONE_FILES'', 0x00000400),
     (''CLONE_SIGHAND'', 0x00000800), (''CLONE_PTRACE'', 0x00002000), (''CLONE_VFORK'', 0x00004000),
     (''CLONE_PARENT'', 0x00008000), (''CLONE_THREAD'', 0x00010000), (''CLONE_NEWNS'', 0x00020000),
     (''CLONE_SYSVSEM'', 0x00040000), (''CLONE_SETTLS'', 0x00080000),
     (''CLONE_PARENT_SETTID'', 0x00100000), (''CLONE_CHILD_CLEARTID'', 0x00200000),
     (''CLONE_DETACHED'', 0x00400000), (''CLONE_UNTRACED'', 0x00800000),
     (''CLONE_CHILD_SETTID'', 0x01000000), (''CLONE_NEWCGROUP'', 0x02000000),
     (''CLONE_NEWUTS'', 0x04000000), (''CLONE_NEWIPC'', 0x08000000), (''CLONE_NEWUSER'', 0x10000000),
     (''CLONE_NEWPID'', 0x20000000), (''CLONE_NEWNET'', 0x40000000), (''CLONE_IO'', 0x80000000)]"

definition vm_flags :: "(string \<times> u32) list" where
  "vm_flags = [
     (''VM_READ'', 0x00000001), (''VM_WRITE'', 0x00000002), (''VM_EXEC'', 0x00000004),
     (''VM_SHARED'', 0x00000008), (''VM_MAYREAD'', 0x00000010), (''VM_MAYWRITE'', 0x00000020),
     (''VM_MAYEXEC'', 0x00000040), (''VM_MAYSHARE'', 0x00000080), (''VM_GROWSDOWN'', 0x00000100),
     (''VM_GROWSUP'', 0x00000200), (''VM_PFNMAP'', 0x00000400), (''VM_DENYWRITE'', 0x00000800),
     (''VM_LOCKED'', 0x00002000), (''VM_IO'', 0x00004000), (''VM_SEQ_READ'', 0x00008000),
     (''VM_RAND_READ'', 0x00010000), (''VM_DONTCOPY'', 0x00020000), (''VM_DONTEXPAND'', 0x00040000),
     (''VM_LOCKONFAULT'', 0x00080000), (''VM_ACCOUNT'', 0x00100000), (''VM_NORESERVE'', 0x00200000),
     (''VM_HUGETLB'', 0x00400000), (''VM_ARCH_1'', 0x01000000), (''VM_ARCH_2'', 0x02000000),
     (''VM_DONTDUMP'', 0x04000000), (''VM_SOFTDIRTY'', 0x08000000), (''VM_MIXEDMAP'', 0x10000000),
     (''VM_HUGEPAGE'', 0x20000000), (''VM_NOHUGEPAGE'', 0x40000000), (''VM_MERGEABLE'', 0x80000000)]"

text \<open>No two flags share a bit and none is empty.\<close>

definition independent :: "(string \<times> 'w::len word) list \<Rightarrow> bool" where
  "independent T \<longleftrightarrow> distinct (map fst T) \<and> list_all (\<lambda>(n, v). v \<noteq> 0) T
     \<and> sorted_wrt (\<lambda>x y. snd x AND snd y = 0) T"

lemma tables_independent: "independent task_flags" "independent clone_flags" "independent vm_flags"
  by code_simp+

lemma independent_disjoint:
  assumes "independent T" "map_of T a = Some v" "map_of T b = Some w" "a \<noteq> b"
  shows "v AND w = 0"
proof -
  have "(a, v) \<in> set T" "(b, w) \<in> set T" using assms(2,3) by (simp_all add: map_of_SomeD)
  then obtain i j where i: "i < length T" "T ! i = (a, v)" and j: "j < length T" "T ! j = (b, w)"
    by (metis in_set_conv_nth)
  moreover have "i \<noteq> j" using i j assms(4) by auto
  moreover have "snd (T ! k) AND snd (T ! l) = 0" if "k < l" "l < length T" for k l
    using assms(1) that by (simp add: independent_def sorted_wrt_iff_nth_less)
  ultimately show ?thesis by (metis and.commute linorder_neqE_nat snd_conv)
qed

lemma and_zero_bits: "v AND w = 0 \<Longrightarrow> \<not> (bit v n \<and> bit w n)" for v w :: "'w::len word"
  by (metis bit_0_eq bit_and_iff bot_apply bot_bool_def)

text \<open>Setting or clearing a flag is seen by its own test and by no other.\<close>

theorem flags_do_not_interfere:
  assumes "T \<in> {task_flags, clone_flags, vm_flags}" "map_of T a = Some v" "map_of T b = Some w" "a \<noteq> b"
  shows "(x OR v) AND w = x AND w \<and> (x AND NOT v) AND w = x AND w
    \<and> (x OR v) AND v \<noteq> 0 \<and> (x AND NOT v) AND v = 0"
proof -
  have T: "independent T" using assms(1) tables_independent by auto
  note z = and_zero_bits [OF independent_disjoint [OF T assms(2-4)]]
  have "v \<noteq> 0" using T map_of_SomeD [OF assms(2)] by (auto simp: independent_def list_all_iff)
  moreover have "(x OR v) AND v = v" "(x AND NOT v) AND v = 0"
    by (auto intro!: bit_word_eqI simp: bit_simps)
  moreover have "(x OR v) AND w = x AND w" "(x AND NOT v) AND w = x AND w"
    using z by (auto intro!: bit_word_eqI simp: bit_simps)
  ultimately show ?thesis by simp
qed

text \<open>The flags of \<^verbatim>\<open>clone\<close> leave the low byte free, in which \<^verbatim>\<open>sys_fork\<close> and \<^verbatim>\<open>sys_vfork\<close> pass a signal.\<close>

lemma clone_flags_high: "map_of clone_flags a = Some v \<Longrightarrow> v AND 0xFF = 0"
proof -
  have "list_all (\<lambda>(n, v). v AND 0xFF = 0) clone_flags" by code_simp
  then show "map_of clone_flags a = Some v \<Longrightarrow> v AND 0xFF = 0"
    by (auto simp: list_all_iff dest: map_of_SomeD)
qed

lemma vfork_keeps_signal: "sig < 256 \<Longrightarrow> (CLONE_VFORK OR CLONE_VM OR sig) AND 0xFF = sig"
proof -
  assume "sig < 256"
  then have "take_bit 8 sig = sig" by (intro take_bit_small) (simp add: word_less_nat_alt)
  then have "sig AND 0xFF = sig" by (simp add: take_bit_eq_mask mask_eq_exp_minus_1)
  then show ?thesis by (simp add: CLONE_VFORK_def CLONE_VM_def bit.conj_disj_distrib2)
qed

section \<open>File modes\<close>

type_synonym mode_t = u32

definition S_IFMT :: mode_t where "S_IFMT = 0xF000"

definition file_types :: "(string \<times> mode_t) list" where
  "file_types = [
     (''S_IFSOCK'', 0xC000), (''S_IFLINK'', 0xA000), (''S_IFREG'', 0x8000), (''S_IFBLK'', 0x6000),
     (''S_IFDIR'', 0x4000), (''S_IFCHR'', 0x2000), (''S_IFIFO'', 0x1000)]"

definition mode_bits :: "(string \<times> mode_t) list" where
  "mode_bits = [
     (''S_ISUID'', 0x800), (''S_ISGID'', 0x400), (''S_ISVTX'', 0x200), (''S_IRUSR'', 0x100),
     (''S_IWUSR'', 0x80), (''S_IXUSR'', 0x40), (''S_IRGRP'', 0x20), (''S_IWGRP'', 0x10),
     (''S_IXGRP'', 0x8), (''S_IROTH'', 0x4), (''S_IWOTH'', 0x2), (''S_IXOTH'', 0x1)]"

definition S_IRWXU :: mode_t where "S_IRWXU = 0x1C0"
definition S_IRWXG :: mode_t where "S_IRWXG = 0x38"
definition S_IRWXO :: mode_t where "S_IRWXO = 0x7"

text \<open>A mode is a file type and permission bits: the type is what \<^verbatim>\<open>S_IFMT\<close> selects, different types
  differ there, and each triple is the union of its three permissions.\<close>

lemma modes_wf:
  "list_all (\<lambda>(n, v). v AND S_IFMT = v) file_types" "distinct (map snd file_types)"
  "list_all (\<lambda>(n, v). v AND S_IFMT = 0) mode_bits" "independent mode_bits"
  "S_IRWXU = foldr (OR) (map (the \<circ> map_of mode_bits) [''S_IRUSR'', ''S_IWUSR'', ''S_IXUSR'']) 0"
  "S_IRWXG = foldr (OR) (map (the \<circ> map_of mode_bits) [''S_IRGRP'', ''S_IWGRP'', ''S_IXGRP'']) 0"
  "S_IRWXO = foldr (OR) (map (the \<circ> map_of mode_bits) [''S_IROTH'', ''S_IWOTH'', ''S_IXOTH'']) 0"
  by code_simp+

theorem file_type_recovered:
  assumes "map_of file_types n = Some t" "set ps \<subseteq> snd ` set mode_bits"
  shows "(t OR foldr (OR) ps 0) AND S_IFMT = t"
proof -
  have "foldr (OR) ps 0 AND S_IFMT = 0"
    using assms(2)
  proof (induction ps)
    case (Cons p ps)
    then have "p AND S_IFMT = 0" using modes_wf(3) by (auto simp: list_all_iff)
    then show ?case using Cons by (simp add: bit.conj_disj_distrib2)
  qed simp
  moreover have "t AND S_IFMT = t" using modes_wf(1) map_of_SomeD [OF assms(1)] by (auto simp: list_all_iff)
  ultimately show ?thesis by (simp add: bit.conj_disj_distrib2)
qed

section \<open>The address space\<close>

definition USER_VIRTUAL_BASE :: u64 where "USER_VIRTUAL_BASE = 0x0000000000000000"
definition VMALLOC_START :: u64 where "VMALLOC_START = 0xFFFF880000000000"
definition VMALLOC_END :: u64 where "VMALLOC_END = 0xFFFFC80000000000"
definition MODULES_VADDR :: u64 where "MODULES_VADDR = 0xFFFFFFFF80000000"
definition MODULES_END :: u64 where "MODULES_END = 0xFFFFFFFFC0000000"

lemmas layout_defs = USER_VIRTUAL_BASE_def USER_VIRTUAL_END_def KERNEL_VIRTUAL_BASE_def VMALLOC_START_def
  VMALLOC_END_def MODULES_VADDR_def MODULES_END_def

text \<open>User memory, the direct map of physical memory, the area of \<^verbatim>\<open>vmalloc\<close> and the modules, each from its
  first address to the one after its last.\<close>

definition regions :: "(u64 \<times> u64) list" where
  "regions = [(USER_VIRTUAL_BASE, USER_VIRTUAL_END), (KERNEL_VIRTUAL_BASE, VMALLOC_START),
     (VMALLOC_START, VMALLOC_END), (MODULES_VADDR, MODULES_END)]"

definition within :: "u64 \<Rightarrow> u64 \<times> u64 \<Rightarrow> bool" where
  "within a r \<longleftrightarrow> fst r \<le> a \<and> a < snd r"

text \<open>An address that the processor accepts: bits 47 to 63 are equal.\<close>

definition canonical :: "u64 \<Rightarrow> bool" where
  "canonical a \<longleftrightarrow> drop_bit 47 a \<in> {0, 0x1FFFF}"

lemma canonical_iff: "canonical a \<longleftrightarrow> a < USER_VIRTUAL_END \<or> KERNEL_VIRTUAL_BASE \<le> a"
proof -
  have lt: "unat a < 2 ^ 64" using unsigned_less [of a, where ?'a = nat] by simp
  moreover have "unat (drop_bit 47 a) = unat a div 2 ^ 47"
    using take_bit_nat_eq_self [OF lt] by (subst unsigned_drop_bit_eq) (simp add: drop_bit_eq_div)
  ultimately show ?thesis
    unfolding canonical_def insert_iff word_unat_eq_iff word_less_nat_alt word_le_nat_alt layout_defs
    by (auto simp: div_eq_0_iff)
qed

text \<open>The regions start and end on page boundaries, no address is in two of them, and every
  address in one is canonical; the direct map covers eight tebibytes of physical memory.\<close>

theorem address_space_layout:
  "(\<forall>r \<in> set regions. fst r < snd r \<and> IS_ALIGNED (fst r) PAGE_SIZE \<and> IS_ALIGNED (snd r) PAGE_SIZE)
   \<and> (\<forall>i j a. i < length regions \<longrightarrow> j < length regions \<longrightarrow>
        within a (regions ! i) \<longrightarrow> within a (regions ! j) \<longrightarrow> i = j)
   \<and> (\<forall>r a. r \<in> set regions \<longrightarrow> within a r \<longrightarrow> canonical a)
   \<and> (\<forall>a. within a (KERNEL_VIRTUAL_BASE, VMALLOC_START) \<longleftrightarrow> KERNEL_VIRTUAL_BASE \<le> a \<and> raw_pa a < 2 ^ 43)"
proof -
  have sep: "sorted_wrt (\<lambda>r q. snd r \<le> fst q) regions" "list_all (\<lambda>r. fst r < snd r) regions"
    "list_all (\<lambda>r. snd r \<le> USER_VIRTUAL_END \<or> KERNEL_VIRTUAL_BASE \<le> fst r) regions"
    by (simp_all add: regions_def layout_defs)
  have "snd (regions ! i) \<le> fst (regions ! j)" if "i < j" "j < length regions" for i j
    using sep(1) that by (simp add: sorted_wrt_iff_nth_less)
  then have "i = j" if "i < length regions" "j < length regions" "within a (regions ! i)" "within a (regions ! j)" for i j a
    using that by (meson within_def linorder_neqE_nat not_le order.trans)
  moreover have "canonical a" if "r \<in> set regions" "within a r" for r a
    using sep(3) that by (force simp: list_all_iff canonical_iff within_def)
  moreover have "within a (KERNEL_VIRTUAL_BASE, VMALLOC_START) \<longleftrightarrow> KERNEL_VIRTUAL_BASE \<le> a \<and> raw_pa a < 2 ^ 43" for a
    by (simp add: within_def raw_pa_def layout_defs word_less_nat_alt word_le_nat_alt unat_sub_if') auto
  moreover have "list_all (\<lambda>r. fst r < snd r \<and> IS_ALIGNED (fst r) PAGE_SIZE \<and> IS_ALIGNED (snd r) PAGE_SIZE) regions"
    by (simp add: regions_def layout_defs IS_ALIGNED_def PAGE_SIZE_def)
  ultimately show ?thesis unfolding list_all_iff by blast
qed

section \<open>Zones\<close>

datatype zone_type = ZONE_DMA | ZONE_DMA32 | ZONE_NORMAL | ZONE_HIGHMEM | ZONE_MOVABLE | ZONE_DEVICE

fun zone_idx :: "zone_type \<Rightarrow> nat" where
  "zone_idx ZONE_DMA = 0"
| "zone_idx ZONE_DMA32 = 1"
| "zone_idx ZONE_NORMAL = 2"
| "zone_idx ZONE_HIGHMEM = 3"
| "zone_idx ZONE_MOVABLE = 4"
| "zone_idx ZONE_DEVICE = 5"

lemma zone_idx_inject [simp]: "zone_idx x = zone_idx y \<longleftrightarrow> x = y"
  by (cases x; cases y) simp_all

text \<open>The constants of an enumeration compare as their numbers.\<close>

instantiation zone_type :: linorder
begin

definition less_eq_zone_type :: "zone_type \<Rightarrow> zone_type \<Rightarrow> bool" where
  "less_eq_zone_type x y \<longleftrightarrow> zone_idx x \<le> zone_idx y"

definition less_zone_type :: "zone_type \<Rightarrow> zone_type \<Rightarrow> bool" where
  "less_zone_type x y \<longleftrightarrow> zone_idx x < zone_idx y"

instance
  by standard (auto simp: less_eq_zone_type_def less_zone_type_def)

end

definition raw_MAX_NR_ZONES :: nat where "raw_MAX_NR_ZONES = 6"

definition MAX_NR_ZONES :: nat where "MAX_NR_ZONES = 4"

datatype zone_watermarks = WMARK_MIN | WMARK_LOW | WMARK_HIGH

definition NR_WMARK :: nat where "NR_WMARK = 3"

text \<open>The arrays of a node have \<^verbatim>\<open>MAX_NR_ZONES\<close> entries, but the last two zone types are beyond them.\<close>

theorem zone_array_too_short:
  "bij_betw zone_idx UNIV {..<raw_MAX_NR_ZONES}"
  "zone_idx t < MAX_NR_ZONES \<longleftrightarrow> t < ZONE_MOVABLE"
proof -
  have "inj zone_idx" by (rule injI) simp
  moreover have "n \<in> range zone_idx" if "n < 6" for n
  proof -
    have "n \<in> zone_idx ` {ZONE_DMA, ZONE_DMA32, ZONE_NORMAL, ZONE_HIGHMEM, ZONE_MOVABLE, ZONE_DEVICE}"
      using that by (simp, linarith)
    then show ?thesis by blast
  qed
  moreover have "zone_idx t < 6" for t by (cases t) simp_all
  ultimately show "bij_betw zone_idx UNIV {..<raw_MAX_NR_ZONES}"
    by (auto simp: bij_betw_def raw_MAX_NR_ZONES_def)
  show "zone_idx t < MAX_NR_ZONES \<longleftrightarrow> t < ZONE_MOVABLE"
    by (simp add: MAX_NR_ZONES_def less_zone_type_def)
qed

section \<open>Task states\<close>

definition task_is_running :: "task_struct \<Rightarrow> bool" where "task_is_running p \<longleftrightarrow> t_state p = TASK_RUNNING"
definition task_is_stopped :: "task_struct \<Rightarrow> bool" where "task_is_stopped p \<longleftrightarrow> t_state p = TASK_STOPPED"
definition task_is_zombie :: "task_struct \<Rightarrow> bool" where "task_is_zombie p \<longleftrightarrow> t_state p = TASK_ZOMBIE"
definition task_is_interruptible :: "task_struct \<Rightarrow> bool" where
  "task_is_interruptible p \<longleftrightarrow> t_state p = TASK_INTERRUPTIBLE"
definition task_is_uninterruptible :: "task_struct \<Rightarrow> bool" where
  "task_is_uninterruptible p \<longleftrightarrow> t_state p = TASK_UNINTERRUPRIBLE"
definition task_is_traced :: "task_struct \<Rightarrow> bool" where "task_is_traced p \<longleftrightarrow> t_state p AND TASK_TRACED \<noteq> 0"

lemmas state_defs = task_is_running_def task_is_stopped_def task_is_zombie_def task_is_interruptible_def
  task_is_uninterruptible_def task_is_traced_def TASK_RUNNING_def TASK_INTERRUPTIBLE_def
  TASK_UNINTERRUPRIBLE_def TASK_ZOMBIE_def TASK_STOPPED_def TASK_TRACED_def

text \<open>At most one predicate holds of a task.  Only the last one tests a bit: a task that is traced
  and stopped counts as traced and not as stopped.\<close>

theorem task_states_exclusive:
  "length (filter (\<lambda>f. f p) [task_is_running, task_is_stopped, task_is_zombie, task_is_interruptible,
     task_is_uninterruptible, task_is_traced]) \<le> 1"
  "t_state p = TASK_TRACED OR TASK_STOPPED \<Longrightarrow> task_is_traced p \<and> \<not> task_is_stopped p"
  by (auto simp: state_defs)

section \<open>Configuration switches\<close>

definition config_switches :: "(string \<times> int) list" where
  "config_switches = [
     (''CONFIG_x86_64'', 1), (''CONFIG_64BIT'', 1), (''CONFIG_SMP'', 0), (''CINFIG_PREEMPT'', 1),
     (''CONFIG_MMU'', 1), (''CONFIG_HIGHMEM'', 1), (''CONFIG_SWAP'', 0), (''CONFIG_SLAB'', 1),
     (''CONFIG_SLUB'', 0), (''CONFIG_SLOB'', 0), (''CONFIG_SCHED_DEBUG'', 1),
     (''CONFIG_FAIR_GROUP_SCHED'', 0), (''CONFIG_RT_GROUP_SCHED'', 0), (''CONFIG_CGROUP_SCHED'', 0),
     (''CONFIG_VFS'', 1), (''CONFIG_EXT2_FS'', 0), (''CONFIG_EXT3_FS'', 0), (''CONFIG_EXT4_FS'', 0),
     (''CONFIG_PROC_FS'', 1), (''CONFIG_SYSFS'', 1), (''CONFIG_TMPFS'', 1), (''CONFIG_DEVTMPFS'', 1),
     (''CONFIG_NET'', 1), (''CONFIG_INET'', 1), (''CONFIG_IPV6'', 0), (''CONFIG_UNIX'', 1),
     (''CONFIG_PACKET'', 1), (''CONFIG_NETLINK'', 1), (''CONFIG_BLOCK'', 1), (''CONFIG_CHAR_DEVICE'', 1),
     (''CONFIG_SERTAL_8250'', 1), (''CONFIG_KEYBOARD'', 1), (''CONFIG_MOUSE'', 1),
     (''CONFIG_VGA_CONSOLE'', 1), (''CONFIG_DEBUG_KERNAL'', 1), (''CONFIG_DEBUG_SLAB'', 1),
     (''CONFIG_DEBUG_SPINLOCK'', 1), (''CONFIG_DEBUG_MUTEXES'', 1), (''CONFIG_DEBUG_PAGEALLOC'', 1),
     (''CONFIG_DEBUG_INFO'', 1), (''CONFIG_FRAME_POINTER'', 1), (''CONFIG_STACK_TRACER'', 1),
     (''CONFIG_SECURITY'', 0), (''CONFIG_SECURITY_SELINUX'', 0), (''CONFIG_SECURITY_APPARMOR'', 0),
     (''CONFIG_SECURITY_SMACK'', 0), (''CONFIG_PM'', 0), (''CONFIG_ACPI'', 0), (''CONFIG_APM'', 0),
     (''CONFIG_VIRTUALIZATION'', 0), (''CONFIG_KVM'', 0), (''CONFIG_XEN'', 0),
     (''CONFIG_NAMESPACES'', 0), (''CONFIG_CGROUPS'', 0), (''CONFIG_CHECKPOINT_RESTORE'', 0),
     (''CONFIG_PROFILING'', 1), (''CONFIG_PERF_EVENTS'', 1), (''CONFIG_TRACING'', 1),
     (''CONFIG_FTRACE'', 1), (''CONFIG_CRYPTO'', 0), (''CONFIG_CRYPTO_AES'', 0),
     (''CONFIG_CRYPTO_SHA1'', 0), (''CONFIG_CRYPTO_SHA256'', 0), (''CONFIG_ZLIB_INFLATE'', 0),
     (''CONFIG_ZLIB_DEFLATE'', 0), (''CONFIG_LZO_COMPRESS'', 0), (''CONFIG_LZO_DECOMPRESS'', 0),
     (''CONFIG_BASE_FALL'', 1), (''CONFIG_EMBEDDED'', 0), (''CONFIG_EXPERIMENTAL'', 1),
     (''CONFIG_BROKEN'', 0), (''CONFIG_X86_MCE'', 0), (''CONFIG_X86_THERMAL'', 0),
     (''CONFIG_MICORCODE'', 1), (''CONFIG_X86_MSR'', 1), (''CONFIG_X86_CPUID'', 1),
     (''CONFIG_TICK_ONESHOT'', 1), (''CONFIG_NO_HZ'', 0), (''CONFIG_HIGH_RES_TIMERS'', 1),
     (''CONFIG_GENERIC_CLOCKEVENTS'', 1), (''CONFIG_GENERIC_HARDIRQS'', 1), (''CONFIG_SPACE_IRQ'', 0),
     (''CONFIG_NUMA_IRQ_DESC'', 0), (''CONFIG_NUMA'', 0), (''CONFIG_NODES_SHIFT'', 0),
     (''CONFIG_HOTPLUG_CPU'', 0), (''CONFIG_MEMORY_HOTPLUG'', 0), (''CONFIG_MEMORY_HOTREMOVE'', 0),
     (''CONFIG_MODULES'', 1), (''CONFIG_MODULE_UBLOAD'', 1), (''CONFIG_MODULE_FORCE_UNLOAD'', 0),
     (''CONFIG_MODVERSIONS'', 0), (''CONFIG_MODULE_SRCVERSION_ALL'', 0)]"

text \<open>The preprocessor: \<^verbatim>\<open>#ifdef\<close> asks whether a name is defined, \<^verbatim>\<open>#if\<close> for its value, which is zero for
  an unknown name.\<close>

definition cpp_ifdef :: "string \<Rightarrow> bool" where
  "cpp_ifdef name \<longleftrightarrow> map_of config_switches name \<noteq> None"

definition cpp_if :: "string \<Rightarrow> bool" where
  "cpp_if name \<longleftrightarrow> (case map_of config_switches name of Some v \<Rightarrow> v \<noteq> 0 | None \<Rightarrow> False)"

definition DEBUG :: int where "DEBUG = (if cpp_if ''CONFIG_DEBUG_KERNAL'' then 1 else 0)"

text \<open>Whether \<^verbatim>\<open>pr_debug\<close> prints, and whether the hooks of the lock checker and of the lock
  statistics are more than empty statements.\<close>

definition pr_debug_prints :: bool where "pr_debug_prints \<longleftrightarrow> cpp_if ''CONFIG_DEUG_KERNAL''"

definition lock_acquire_checks :: bool where "lock_acquire_checks \<longleftrightarrow> cpp_ifdef ''CONFIG_LOCKDEP''"

definition lock_contended_counts :: bool where "lock_contended_counts \<longleftrightarrow> cpp_ifdef ''CONFIG_LOCK_STAT''"

text \<open>Debugging is on, but \<^verbatim>\<open>pr_debug\<close> is empty because its condition misspells the switch; the hooks of
  the locks are empty, so the locks do nothing beyond what their functions say.\<close>

theorem conditionals:
  "DEBUG = 1" "\<not> pr_debug_prints" "\<not> lock_acquire_checks" "\<not> lock_contended_counts"
  by code_simp+

text \<open>The switches agree with each other and with the limits: one slab allocator, one processor without
  \<^verbatim>\<open>CONFIG_SMP\<close>, 64-bit longs, no group scheduling, hence one level of scheduling entities.\<close>

theorem switches_consistent:
  "length (filter cpp_if [''CONFIG_SLAB'', ''CONFIG_SLUB'', ''CONFIG_SLOB'']) = 1"
  "cpp_if ''CONFIG_SMP'' \<longleftrightarrow> NR_CPUS > 1"
  "cpp_if ''CONFIG_64BIT'' \<longleftrightarrow> BITS_PER_LONG = 64"
  "\<not> cpp_if ''CONFIG_FAIR_GROUP_SCHED''" "\<not> cpp_if ''CONFIG_NUMA''"
  by code_simp+

end
