(* ===== verification/Services_C.thy ===== *)
theory Services_C
  imports Kernel_Prelude
begin

text \<open>
  The user services \<^verbatim>\<open>init\<close>, \<^verbatim>\<open>devd\<close>, \<^verbatim>\<open>vfsd\<close> and \<^verbatim>\<open>netd\<close> of \<^verbatim>\<open>user/services\<close>.

  Each service initialises its tables and then loops for ever over a handler.  The handlers are
  empty functions in the sources, so their models are the identity on the state of the service.  A
  loop that does not end is \<open>None\<close>; what a service does while it runs is the sequence of its states
  after each turn of the loop.
\<close>

section \<open>The services\<close>

partial_function (option) while_1 :: "('s \<Rightarrow> 's option) \<Rightarrow> 's \<Rightarrow> 's option" where
  "while_1 body s = do { s \<leftarrow> body s; while_1 body s }"

definition init_service_start :: "unit \<Rightarrow> unit option" where
  "init_service_start u = while_1 Some u"

definition init_main :: "unit \<Rightarrow> int option" where
  "init_main u = do { u \<leftarrow> init_service_start u; Some 0 }"

record device =
  device_id :: u32
  device_name :: string

record devd =
  device_list :: "device list"
  num_devices :: int

definition device_manager_init :: "devd \<Rightarrow> devd" where "device_manager_init d = d"

definition device_discovery :: "devd \<Rightarrow> devd" where "device_discovery d = d"

definition devd_main :: "devd \<Rightarrow> int option" where
  "devd_main d = do { d \<leftarrow> while_1 (\<lambda>d. Some (device_discovery d)) (device_manager_init d); Some 0 }"

record vfs_node =
  vfs_path :: string
  vfs_type :: u32

definition vfsd_vfs_init :: "unit \<Rightarrow> unit" where "vfsd_vfs_init u = u"

definition handle_fs_request :: "unit \<Rightarrow> unit" where "handle_fs_request u = u"

definition vfsd_main :: "unit \<Rightarrow> int option" where
  "vfsd_main u = do { u \<leftarrow> while_1 (\<lambda>u. Some (handle_fs_request u)) (vfsd_vfs_init u); Some 0 }"

record net_connection =
  connection_id :: u32
  connection_state :: u32

definition MAX_CONNECTIONS :: nat where "MAX_CONNECTIONS = 256"

definition netd_net_init :: "net_connection list \<Rightarrow> net_connection list" where "netd_net_init cs = cs"

definition handle_network_events :: "net_connection list \<Rightarrow> net_connection list" where
  "handle_network_events cs = cs"

definition netd_main :: "net_connection list \<Rightarrow> int option" where
  "netd_main cs = do { cs \<leftarrow> while_1 (\<lambda>cs. Some (handle_network_events cs)) (netd_net_init cs); Some 0 }"

section \<open>Loops without end\<close>

text \<open>A loop whose body always succeeds has no result: the least fixed point is undefined there.\<close>

lemma while_1_ends: "while_1 body s = Some y \<Longrightarrow> \<exists>s. body s = None"
  by (rule while_1.raw_induct [of "\<lambda>body s y. \<exists>s. body s = None"]) (auto elim!: bind_SomeE)

lemma while_1_diverges: "(\<And>s. body s \<noteq> None) \<Longrightarrow> while_1 body s = None"
  using while_1_ends by (metis option.exhaust)

text \<open>No service returns, so none of them ever reaches its \<^verbatim>\<open>return 0\<close>, and none leaves its start: after
  any number of turns the tables of the services are what they were, and no device is known.\<close>

theorem services_run_for_ever:
  "init_main u = None" "devd_main d = None" "vfsd_main u = None" "netd_main cs = None"
  "(device_discovery ^^ n) (device_manager_init d) = d" "(handle_network_events ^^ n) (netd_net_init cs) = cs"
proof -
  show "init_main u = None" "devd_main d = None" "vfsd_main u = None" "netd_main cs = None"
    by (simp_all add: init_main_def init_service_start_def devd_main_def vfsd_main_def netd_main_def while_1_diverges)
  show "(device_discovery ^^ n) (device_manager_init d) = d"
    by (induction n) (simp_all add: device_discovery_def device_manager_init_def)
  show "(handle_network_events ^^ n) (netd_net_init cs) = cs"
    by (induction n) (simp_all add: handle_network_events_def netd_net_init_def)
qed

end
