(* ===== verification/Console_C.thy ===== *)
theory Console_C
  imports Spinlock_H
begin

text \<open>
  The console of \<^verbatim>\<open>src/kernel/main.c\<close>: the serial port, \<^verbatim>\<open>console_write\<close>, \<^verbatim>\<open>printk\<close> and \<^verbatim>\<open>panic\<close>.

  The serial port is a device with a state of any type; the two port instructions are
  parameters.  \<^verbatim>\<open>vsnprintf\<close> is the function of the C library: its formatted text is the argument
  \<open>out\<close>, and what it does with a buffer of limited size is written out, because the callers
  depend on it.  The contents of a local array before it is written are an argument too.  A read
  outside an array is the fault \<open>None\<close>.
\<close>

section \<open>The serial port\<close>

definition SERIAL_PORT :: u16 where "SERIAL_PORT = 0x3F8"

partial_function (option) serial_wait :: "(u16 \<Rightarrow> 'd \<Rightarrow> u8 \<times> 'd) \<Rightarrow> 'd \<Rightarrow> 'd option" where
  "serial_wait inb d = (let (v, d) = inb (SERIAL_PORT + 5) d in
     if v AND 0x20 = 0 then serial_wait inb d else Some d)"

definition serial_putc ::
    "(u16 \<Rightarrow> 'd \<Rightarrow> u8 \<times> 'd) \<Rightarrow> (u16 \<Rightarrow> u8 \<Rightarrow> 'd \<Rightarrow> 'd) \<Rightarrow> u8 \<Rightarrow> 'd \<Rightarrow> 'd option" where
  "serial_putc inb outb c d = do { d \<leftarrow> serial_wait inb d; Some (outb SERIAL_PORT c d) }"

definition char_at :: "u8 list \<Rightarrow> nat \<Rightarrow> u8 option" where
  "char_at buffer i = (if i < length buffer then Some (buffer ! i) else None)"

definition console_write ::
    "(u16 \<Rightarrow> 'd \<Rightarrow> u8 \<times> 'd) \<Rightarrow> (u16 \<Rightarrow> u8 \<Rightarrow> 'd \<Rightarrow> 'd) \<Rightarrow> u8 list \<Rightarrow> size_t \<Rightarrow> 'd \<Rightarrow> 'd option" where
  "console_write inb outb buffer len = for_each (\<lambda>i d. do {
     c \<leftarrow> char_at buffer i;
     serial_putc inb outb c d }) [0..<unat len]"

section \<open>Messages\<close>

text \<open>\<^verbatim>\<open>vsnprintf\<close> stores at most \<open>n - 1\<close> characters and a terminating zero, and returns the length
  that the whole text has.\<close>

definition vsnprintf :: "u8 list \<Rightarrow> nat \<Rightarrow> u8 list \<Rightarrow> u8 list \<times> s32" where
  "vsnprintf buffer n out =
     (if n = 0 then buffer
      else take (n - 1) out @ [0] @ drop (Suc (min (length out) (n - 1))) buffer, of_nat (length out))"

definition printk ::
    "(u16 \<Rightarrow> 'd \<Rightarrow> u8 \<times> 'd) \<Rightarrow> (u16 \<Rightarrow> u8 \<Rightarrow> 'd \<Rightarrow> 'd) \<Rightarrow> u8 list \<Rightarrow> u8 list \<Rightarrow> 'd \<Rightarrow> (s32 \<times> 'd) option" where
  "printk inb outb garbage out d = do {
     let (buffer, len) = vsnprintf garbage 1024 out;
     d \<leftarrow> console_write inb outb buffer (scast len) d;
     Some (len, d) }"

text \<open>The argument of \<^verbatim>\<open>%s\<close>: the characters before the terminating zero.\<close>

definition c_string :: "u8 list \<Rightarrow> u8 list option" where
  "c_string buffer = (if 0 \<in> set buffer then Some (takeWhile (\<lambda>c. c \<noteq> 0) buffer) else None)"

definition ascii :: "string \<Rightarrow> u8 list" where "ascii = map of_char"

text \<open>\<^verbatim>\<open>panic\<close> does not return: its value is the state in which it enters the loop of \<^verbatim>\<open>hlt\<close>.\<close>

definition panic ::
    "(u16 \<Rightarrow> 'd \<Rightarrow> u8 \<times> 'd) \<Rightarrow> (u16 \<Rightarrow> u8 \<Rightarrow> 'd \<Rightarrow> 'd) \<Rightarrow> u8 list \<Rightarrow> u8 list \<Rightarrow> u8 list
       \<Rightarrow> u64 \<Rightarrow> 'd \<Rightarrow> (u64 \<times> 'd) option" where
  "panic inb outb garbage garbage' out rflags d = do {
     let (buffer, _) = vsnprintf garbage 1024 out;
     msg \<leftarrow> c_string buffer;
     (_, d) \<leftarrow> printk inb outb garbage' (ascii ''KERNEL PANIC: '' @ msg @ [10]) d;
     Some (local_irq_disable rflags, d) }"

section \<open>Output\<close>

text \<open>The status of the port after \<open>n\<close> further polls.\<close>

definition poll_status :: "(u16 \<Rightarrow> 'd \<Rightarrow> u8 \<times> 'd) \<Rightarrow> nat \<Rightarrow> 'd \<Rightarrow> u8" where
  "poll_status inb n d = fst (inb (SERIAL_PORT + 5) (((\<lambda>d. snd (inb (SERIAL_PORT + 5) d)) ^^ n) d))"

text \<open>A working port: it becomes ready after some number of polls, polling sends nothing, and a
  byte that is written is sent.\<close>

definition port_ok :: "(u16 \<Rightarrow> 'd \<Rightarrow> u8 \<times> 'd) \<Rightarrow> (u16 \<Rightarrow> u8 \<Rightarrow> 'd \<Rightarrow> 'd) \<Rightarrow> ('d \<Rightarrow> u8 list) \<Rightarrow> bool" where
  "port_ok inb outb sent \<longleftrightarrow> (\<forall>d. \<exists>n. poll_status inb n d AND 0x20 \<noteq> 0)
     \<and> (\<forall>d. sent (snd (inb (SERIAL_PORT + 5) d)) = sent d)
     \<and> (\<forall>c d. sent (outb SERIAL_PORT c d) = sent d @ [c])"

lemma serial_wait_returns:
  assumes "poll_status inb n d AND 0x20 \<noteq> 0" "\<And>d. sent (snd (inb (SERIAL_PORT + 5) d)) = sent d"
  shows "\<exists>d'. serial_wait inb d = Some d' \<and> sent d' = sent d"
  using assms
proof (induction n arbitrary: d)
  case 0
  then show ?case by (subst serial_wait.simps) (auto simp: poll_status_def case_prod_beta)
next
  case (Suc n)
  let ?d = "snd (inb (SERIAL_PORT + 5) d)"
  have "poll_status inb n ?d AND 0x20 \<noteq> 0"
    using Suc.prems(1) by (simp add: poll_status_def funpow_Suc_right del: funpow.simps)
  then show ?case using Suc.IH [of ?d] Suc.prems(2)
    by (subst serial_wait.simps) (auto simp: case_prod_beta)
qed

lemma serial_putc_sends:
  assumes "port_ok inb outb sent"
  shows "\<exists>d'. serial_putc inb outb c d = Some d' \<and> sent d' = sent d @ [c]"
proof -
  obtain n where "poll_status inb n d AND 0x20 \<noteq> 0" using assms unfolding port_ok_def by blast
  then obtain d1 where "serial_wait inb d = Some d1" "sent d1 = sent d"
    using serial_wait_returns [of inb n d sent] assms unfolding port_ok_def by blast
  then show ?thesis using assms by (simp add: serial_putc_def port_ok_def)
qed

lemma writes_in_order:
  assumes "port_ok inb outb sent" "\<forall>i \<in> set is. i < length buffer"
  shows "\<exists>d'. for_each (\<lambda>i d. do { c \<leftarrow> char_at buffer i; serial_putc inb outb c d }) is d = Some d'
    \<and> sent d' = sent d @ map ((!) buffer) is"
  using assms(2)
proof (induction "is" arbitrary: d)
  case Nil
  then show ?case by simp
next
  case (Cons i "is")
  obtain d1 where "serial_putc inb outb (buffer ! i) d = Some d1" "sent d1 = sent d @ [buffer ! i]"
    using serial_putc_sends [OF assms(1)] by blast
  then show ?case using Cons.IH [of d1] Cons.prems by (simp add: char_at_def)
qed

lemma map_nth_prefix: "n \<le> length xs \<Longrightarrow> map ((!) xs) [0..<n] = take n xs"
  by (simp add: list_eq_iff_nth_eq)

lemma for_each_fails: "i \<in> set is \<Longrightarrow> (\<And>d. f i d = None) \<Longrightarrow> for_each f is d = None"
  by (induction "is" arbitrary: d) (auto simp: bind_eq_None_conv)

lemma console_write_spec:
  assumes "port_ok inb outb sent"
  shows "unat len \<le> length buffer \<Longrightarrow>
      \<exists>d'. console_write inb outb buffer len d = Some d' \<and> sent d' = sent d @ take (unat len) buffer"
    and "length buffer < unat len \<Longrightarrow> console_write inb outb buffer len d = None"
proof -
  assume "unat len \<le> length buffer"
  then show "\<exists>d'. console_write inb outb buffer len d = Some d' \<and> sent d' = sent d @ take (unat len) buffer"
    using writes_in_order [OF assms, of "[0..<unat len]" buffer d]
    by (simp add: console_write_def map_nth_prefix)
next
  assume "length buffer < unat len"
  then show "console_write inb outb buffer len d = None"
    unfolding console_write_def by (intro for_each_fails [of "length buffer"]) (simp_all add: char_at_def)
qed

text \<open>If the serial port always becomes ready after some number of polls, \<^verbatim>\<open>console_write\<close> returns
  and has sent exactly the requested number of bytes of its buffer, in order; a length beyond the
  end of the buffer is a wild read.\<close>

theorem console_write_sends:
  assumes "port_ok inb outb sent"
  shows "(unat len \<le> length buffer \<longrightarrow>
      (\<exists>d'. console_write inb outb buffer len d = Some d' \<and> sent d' = sent d @ take (unat len) buffer))
    \<and> (length buffer < unat len \<longrightarrow> console_write inb outb buffer len d = None)"
  using console_write_spec [OF assms] by blast

text \<open>A port that is busy for a while after every byte.\<close>

definition demo_inb :: "u16 \<Rightarrow> nat \<times> u8 list \<Rightarrow> u8 \<times> nat \<times> u8 list" where
  "demo_inb port d = (if fst d = 0 then 0x20 else 0, fst d - 1, snd d)"

definition demo_outb :: "u16 \<Rightarrow> u8 \<Rightarrow> nat \<times> u8 list \<Rightarrow> nat \<times> u8 list" where
  "demo_outb port c d = (3, snd d @ [c])"

lemma demo_port_ok: "port_ok demo_inb demo_outb snd"
proof -
  have "((\<lambda>d. snd (demo_inb p d)) ^^ n) d = (fst d - n, snd d)" for n p d
    by (induction n) (simp_all add: demo_inb_def)
  then have "poll_status demo_inb (fst d) d = 0x20" for d
    by (simp add: poll_status_def) (simp add: demo_inb_def)
  then have "\<exists>n. poll_status demo_inb n d AND 0x20 \<noteq> 0" for d by (intro exI [of _ "fst d"]) simp
  then show ?thesis by (simp add: port_ok_def demo_inb_def demo_outb_def)
qed

theorem console_write_sends_witness:
  "\<exists>d'. console_write demo_inb demo_outb [72, 105, 33] 2 (5, []) = Some d' \<and> snd d' = [72, 105]"
  using console_write_sends [OF demo_port_ok, of 2 "[72, 105, 33]" "(5, [])"] by simp

section \<open>Messages of any length\<close>

lemma vsnprintf_length: "length garbage = n \<Longrightarrow> 0 < n \<Longrightarrow> length (fst (vsnprintf garbage n out)) = n"
  by (simp add: vsnprintf_def)

lemma vsnprintf_fits: "length out < n \<Longrightarrow> take (length out) (fst (vsnprintf garbage n out)) = out"
  by (simp add: vsnprintf_def)

lemma vsnprintf_full: "length out = n \<Longrightarrow> 0 < n \<Longrightarrow> take n (fst (vsnprintf garbage n out)) = take (n - 1) out @ [0]"
  by (simp add: vsnprintf_def)

text \<open>An \<^verbatim>\<open>int\<close> that is not negative keeps its value as a \<^verbatim>\<open>size_t\<close>.\<close>

lemma length_as_size: "n < 2 ^ 31 \<Longrightarrow> unat (scast (of_nat n :: s32) :: size_t) = n"
proof -
  assume "n < 2 ^ 31"
  then have "sint (of_nat n :: s32) = int n"
    by (simp add: signed_of_nat signed_take_bit_int_eq_self)
  then have "scast (of_nat n :: s32) = (of_nat n :: size_t)" by (simp add: scast_eq)
  then show ?thesis using \<open>n < 2 ^ 31\<close> by (simp add: unat_of_nat)
qed

lemma printk_spec:
  assumes "port_ok inb outb sent" "length garbage = 1024" "length out < 2 ^ 31"
  shows "length out < 1024 \<Longrightarrow>
      \<exists>d'. printk inb outb garbage out d = Some (of_nat (length out), d') \<and> sent d' = sent d @ out"
    and "length out = 1024 \<Longrightarrow>
      \<exists>d'. printk inb outb garbage out d = Some (1024, d') \<and> sent d' = sent d @ take 1023 out @ [0]"
    and "1024 < length out \<Longrightarrow> printk inb outb garbage out d = None"
proof -
  define b where "b = fst (vsnprintf garbage 1024 out)"
  have len: "length b = 1024" using vsnprintf_length [OF assms(2), of out] by (simp add: b_def)
  have p: "printk inb outb garbage out d =
      map_option (Pair (of_nat (length out))) (console_write inb outb b (scast (of_nat (length out) :: s32)) d)"
    by (simp add: printk_def b_def vsnprintf_def Let_def bind_eq_Some_conv map_conv_bind_option comp_def)
  note w = console_write_spec [OF assms(1), where buffer = b and len = "scast (of_nat (length out) :: s32)" and d = d]
  note u = length_as_size [OF assms(3)]
  show "\<exists>d'. printk inb outb garbage out d = Some (of_nat (length out), d') \<and> sent d' = sent d @ out"
    if "length out < 1024"
    using w(1) that vsnprintf_fits [of out 1024 garbage, folded b_def] by (auto simp: p u len)
  show "\<exists>d'. printk inb outb garbage out d = Some (1024, d') \<and> sent d' = sent d @ take 1023 out @ [0]"
    if "length out = 1024"
    using w(1) that vsnprintf_full [of out 1024 garbage, folded b_def] by (auto simp: p u len)
  show "printk inb outb garbage out d = None" if "1024 < length out"
    using w(2) that by (simp add: p u len)
qed

text \<open>C39: \<^verbatim>\<open>printk\<close> sends a message of fewer than 1024 characters as it is and returns its length.  A
  message of exactly 1024 loses its last character to a zero byte, which is sent too.  A longer
  one is a read outside the buffer, because the length that \<^verbatim>\<open>vsnprintf\<close> returns is that of the
  whole text and not of what it stored.\<close>

theorem printk_prints:
  assumes "port_ok inb outb sent" "length garbage = 1024" "length out < 2 ^ 31"
  shows "(length out < 1024 \<longrightarrow>
      (\<exists>d'. printk inb outb garbage out d = Some (of_nat (length out), d') \<and> sent d' = sent d @ out))
    \<and> (length out = 1024 \<longrightarrow>
      (\<exists>d'. printk inb outb garbage out d = Some (1024, d') \<and> sent d' = sent d @ take 1023 out @ [0]))
    \<and> (1024 < length out \<longrightarrow> printk inb outb garbage out d = None)"
  using printk_spec [OF assms] by blast

theorem printk_prints_witness:
  "(\<exists>d'. printk demo_inb demo_outb (replicate 1024 0) (ascii ''ok'') (5, []) = Some (2, d') \<and> snd d' = [111, 107])
   \<and> printk demo_inb demo_outb (replicate 1024 0) (replicate 2000 65) (5, []) = None"
  using printk_prints [OF demo_port_ok, of "replicate 1024 0" "ascii ''ok''" "(5, [])"]
    printk_prints [OF demo_port_ok, of "replicate 1024 0" "replicate 2000 65" "(5, [])"]
  by (simp add: ascii_def of_char_def)

lemma panic_message:
  assumes "length garbage = 1024" "0 \<notin> set out"
  shows "c_string (fst (vsnprintf garbage 1024 out)) = Some (take 1023 out)"
proof -
  have "0 \<notin> set (take 1023 out)" using assms(2) by (meson in_set_takeD)
  then have "takeWhile (\<lambda>c. c \<noteq> 0) (take 1023 out @ [0] @ ys) = take 1023 out" for ys
    by (subst takeWhile_append2) auto
  then show ?thesis by (simp add: c_string_def vsnprintf_def)
qed

text \<open>\<^verbatim>\<open>panic\<close> with a short message prints it and halts with interrupts disabled; a long message makes
  \<^verbatim>\<open>panic\<close> itself read outside a buffer before it disables interrupts, since the prefix
  pushes the truncated message over the size of the buffer of \<^verbatim>\<open>printk\<close>.\<close>

theorem panic_halts:
  assumes "port_ok inb outb sent" "length garbage = 1024" "length garbage' = 1024" "0 \<notin> set out"
  shows "(length out \<le> 1008 \<longrightarrow> (\<exists>d'. panic inb outb garbage garbage' out rflags d = Some (local_irq_disable rflags, d')
        \<and> sent d' = sent d @ ascii ''KERNEL PANIC: '' @ out @ [10]))
    \<and> (1010 \<le> length out \<longrightarrow> panic inb outb garbage garbage' out rflags d = None)
    \<and> \<not> irqs_on (local_irq_disable rflags)"
proof -
  let ?t = "ascii ''KERNEL PANIC: '' @ take 1023 out @ [10]"
  have t: "length ?t = 15 + min (length out) 1023" by (simp add: ascii_def)
  then have "length ?t < 2 ^ 31" by simp
  note pk = printk_spec [OF assms(1,3) this, of d]
  have eq: "panic inb outb garbage garbage' out rflags d =
      do { (_, d) \<leftarrow> printk inb outb garbage' ?t d; Some (local_irq_disable rflags, d) }"
    using panic_message [OF assms(2,4)] by (simp add: panic_def Let_def case_prod_beta)
  have "\<exists>d'. panic inb outb garbage garbage' out rflags d = Some (local_irq_disable rflags, d')
        \<and> sent d' = sent d @ ascii ''KERNEL PANIC: '' @ out @ [10]" if "length out \<le> 1008"
    using pk(1) that unfolding eq t by auto
  moreover have "panic inb outb garbage garbage' out rflags d = None" if "1010 \<le> length out"
    using pk(3) that unfolding eq t by simp
  ultimately show ?thesis by (simp add: irqs_on_def local_irq_disable_def bit_simps)
qed

theorem panic_halts_witness:
  "(\<exists>d'. panic demo_inb demo_outb (replicate 1024 0) (replicate 1024 7) (ascii ''bad'') 0x202 (5, []) = Some (2, d')
      \<and> snd d' = ascii ''KERNEL PANIC: bad'' @ [10])
   \<and> panic demo_inb demo_outb (replicate 1024 0) (replicate 1024 7) (replicate 1010 65) 0x202 (5, []) = None"
proof -
  have "(0 :: u8) \<notin> set (ascii ''bad'')" by (simp add: ascii_def of_char_def)
  moreover have "local_irq_disable 0x202 = 2"
    by (simp add: local_irq_disable_def unset_bit_eq_and_not X86_EFLAGS_IF_def push_bit_eq_mult)
  ultimately show ?thesis
    using panic_halts [OF demo_port_ok, where garbage = "replicate 1024 0" and garbage' = "replicate 1024 7"
        and out = "ascii ''bad''" and rflags = "0x202" and d = "(5, [])"]
      panic_halts [OF demo_port_ok, where garbage = "replicate 1024 0" and garbage' = "replicate 1024 7"
        and out = "replicate 1010 65" and rflags = "0x202" and d = "(5, [])"]
    by (simp add: ascii_def)
qed

end
