(* ===== verification/Main_C.thy ===== *)
theory Main_C
  imports Sched_C Buddy_C Console_C
begin

text \<open>
  Kernel entry, system calls and interrupts of \<^verbatim>\<open>src/kernel/main.c\<close>.

  The state joins the scheduler and the page allocator.  A panic is the value \<open>Inl\<close> with
  its message: the code prints it, disables interrupts and halts for ever.  A \<^verbatim>\<open>long\<close> is a
  64-bit word; a system call wrapper whose parameters are narrower than the registers
  takes the low bits of its argument.  \<^verbatim>\<open>printk\<close> and \<^verbatim>\<open>panic\<close> themselves are in \<open>Console_C\<close>; the device
  they drive is \<open>k_dev\<close>, behind the port instructions \<open>inb\<close> and \<open>outb\<close>.  The only message left out is the
  greeting of \<^verbatim>\<open>kernel_init\<close>.
\<close>

section \<open>State and parameters\<close>

record 'd kernel =
  k_sched :: sched
  k_mm :: mm
  kernel_initialized :: bool
  init_task :: "nat option"
  k_dev :: 'd

record utsname =
  sysname :: string
  nodename :: string
  release :: string
  version :: string
  machine :: string
  domainname :: string

record 'd main_ext =
  core :: core_ext
  mem :: "mm mm_ext"
  mm_alloc :: "sched \<Rightarrow> nat option \<times> sched"
  mm_init :: "'d kernel \<Rightarrow> 'd kernel"
  ipc_init :: "'d kernel \<Rightarrow> 'd kernel"
  vfs_init :: "'d kernel \<Rightarrow> 'd kernel"
  net_init :: "'d kernel \<Rightarrow> 'd kernel"
  driver_init :: "'d kernel \<Rightarrow> 'd kernel"
  do_fork :: "u64 \<Rightarrow> u64 \<Rightarrow> u64 \<Rightarrow> u64 \<Rightarrow> u64 \<Rightarrow> 'd kernel \<Rightarrow> (u64 \<times> 'd kernel) option"
  do_exit :: "s32 \<Rightarrow> 'd kernel \<Rightarrow> 'd kernel option"
  do_wait :: "pid_t \<Rightarrow> u64 \<Rightarrow> s32 \<Rightarrow> u64 \<Rightarrow> 'd kernel \<Rightarrow> (u64 \<times> 'd kernel) option"
  do_kill :: "pid_t \<Rightarrow> s32 \<Rightarrow> 'd kernel \<Rightarrow> (u64 \<times> 'd kernel) option"
  do_brk :: "u64 \<Rightarrow> 'd kernel \<Rightarrow> (u64 \<times> 'd kernel) option"
  do_mmap :: "u64 \<Rightarrow> u64 \<Rightarrow> u64 \<Rightarrow> u64 \<Rightarrow> u64 \<Rightarrow> u64 \<Rightarrow> 'd kernel \<Rightarrow> (u64 \<times> 'd kernel) option"
  do_munmap :: "u64 \<Rightarrow> u64 \<Rightarrow> 'd kernel \<Rightarrow> (u64 \<times> 'd kernel) option"
  si_swapinfo :: "sysinfo \<Rightarrow> sysinfo"
  copy_sysinfo :: "u64 \<Rightarrow> sysinfo \<Rightarrow> 'd kernel \<Rightarrow> (u64 \<times> 'd kernel) option"
  copy_utsname :: "u64 \<Rightarrow> utsname \<Rightarrow> 'd kernel \<Rightarrow> (u64 \<times> 'd kernel) option"
  scheduler_tick :: "'d kernel \<Rightarrow> 'd kernel option"
  run_timer_softirq :: "'d kernel \<Rightarrow> 'd kernel option"
  inb :: "u16 \<Rightarrow> 'd \<Rightarrow> u8 \<times> 'd"
  outb :: "u16 \<Rightarrow> u8 \<Rightarrow> 'd \<Rightarrow> 'd"
  uninit_buffer :: "u8 list"
  handle_keyboard_input :: "u8 \<Rightarrow> 'd kernel \<Rightarrow> 'd kernel option"
  read_cr2 :: "'d kernel \<Rightarrow> u64"
  do_page_fault :: "u64 \<Rightarrow> u64 \<Rightarrow> 'd kernel \<Rightarrow> 'd kernel option"

definition on_sched :: "(sched \<Rightarrow> sched option) \<Rightarrow> 'd kernel \<Rightarrow> 'd kernel option" where
  "on_sched f k = do { s \<leftarrow> f (k_sched k); Some (k\<lparr>k_sched := s\<rparr>) }"

section \<open>Messages\<close>

text \<open>The conversions \<^verbatim>\<open>%lu\<close>, \<^verbatim>\<open>%d\<close> and \<^verbatim>\<open>%lx\<close> of the messages.\<close>

definition digit :: "nat \<Rightarrow> u8" where "digit n = of_nat (if n < 10 then 48 + n else 87 + n)"

fun digits :: "nat \<Rightarrow> nat \<Rightarrow> u8 list" where
  "digits b n = (if b < 2 \<or> n < b then [digit n] else digits b (n div b) @ [digit (n mod b)])"

declare digits.simps [simp del]

definition fmt_lu :: "u64 \<Rightarrow> u8 list" where "fmt_lu n = digits 10 (unat n)"

definition fmt_lx :: "u64 \<Rightarrow> u8 list" where "fmt_lx n = digits 16 (unat n)"

definition fmt_d :: "int \<Rightarrow> u8 list" where
  "fmt_d i = (if i < 0 then 45 # digits 10 (nat (- i)) else digits 10 (nat i))"

definition say :: "'d main_ext \<Rightarrow> u8 list \<Rightarrow> 'd kernel \<Rightarrow> 'd kernel option" where
  "say M out k = do {
     (_, d) \<leftarrow> printk (inb M) (outb M) (uninit_buffer M) out (k_dev k);
     Some (k\<lparr>k_dev := d\<rparr>) }"

section \<open>Start-up\<close>

definition init_process_fields :: "core_ext \<Rightarrow> nat \<Rightarrow> nat \<Rightarrow> task_struct \<Rightarrow> task_struct" where
  "init_process_fields C p mm t = t\<lparr>t_pid := 1, t_tgid := 1, t_ppid := 0, t_pgrp := 1, t_session := 1,
     t_uid := 0, t_gid := 0, t_euid := 0, t_egid := 0, t_suid := 0, t_sgid := 0, t_fsuid := 0, t_fsgid := 0,
     t_comm := ''init'', t_mm := Some mm, t_active_mm := Some mm, t_state := TASK_RUNNING,
     t_prio := DEFAULT_PRIO, t_static_prio := DEFAULT_PRIO, t_normal_prio := DEFAULT_PRIO,
     t_policy := SCHED_NORMAL (base C),
     t_cpus_allowed := push_bit NR_CPUS 1 - 1, t_nr_cpus_allowed := of_nat NR_CPUS,
     t_real_parent := Some p, t_parent := Some p, t_group_leader := Some p\<rparr>"

definition create_init_process :: "'d main_ext \<Rightarrow> sched \<Rightarrow> (string + nat \<times> sched) option" where
  "create_init_process M s = do {
     (task, s) \<leftarrow> alloc_task_struct (core M) s;
     case task of
       None \<Rightarrow> Some (Inl ''Cannot allocate init task'')
     | Some p \<Rightarrow> (
         let (mm, s) = mm_alloc M s in
         case mm of
           None \<Rightarrow> do { s \<leftarrow> free_task_struct (Some p) s; Some (Inl ''Cannot allocate init mm'') }
         | Some m \<Rightarrow> do {
             s \<leftarrow> upd_task p (init_process_fields (core M) p m) s;
             let (now, s) = get_jiffies_64 s;
             s \<leftarrow> upd_task p (\<lambda>t. t\<lparr>t_start_time := now, t_real_start_time := now\<rparr>) s;
             s \<leftarrow> sched_fork (core M) p s;
             Some (Inr (p, s)) }) }"

definition kernel_init :: "'d main_ext \<Rightarrow> 'd kernel \<Rightarrow> (string + 'd kernel) option" where
  "kernel_init M k = do {
     let k = mm_init M k;
     let k = k\<lparr>k_mm := buddy_init (mem M) (k_mm k)\<rparr>;
     k \<leftarrow> on_sched sched_init k;
     let k = driver_init M (net_init M (vfs_init M (ipc_init M k)));
     r \<leftarrow> create_init_process M (k_sched k);
     case r of
       Inl msg \<Rightarrow> Some (Inl msg)
     | Inr (p, s) \<Rightarrow> do {
         let s = set_current (Some p) s;
         s \<leftarrow> wake_up_new_task (core M) p s;
         Some (Inr (k\<lparr>k_sched := s, init_task := Some p, kernel_initialized := True\<rparr>)) } }"

definition kernel_main :: "'d main_ext \<Rightarrow> 'd kernel \<Rightarrow> (string + 'd kernel) option" where
  "kernel_main M k = do {
     r \<leftarrow> kernel_init M k;
     case r of
       Inl msg \<Rightarrow> Some (Inl msg)
     | Inr k \<Rightarrow> do {
         k \<leftarrow> on_sched (schedule (core M)) k;
         Some (Inl ''OOOOOOOO!!!!!! shit'') } }"

definition start_kernel :: "'d main_ext \<Rightarrow> 'd kernel \<Rightarrow> (string + 'd kernel) option" where
  "start_kernel M k = kernel_main M k"

section \<open>System calls\<close>

text \<open>\<^verbatim>\<open>return -ENOSYS\<close>: the minus sign negates an error code that is negative already.\<close>

definition minus_error :: "error_t \<Rightarrow> u64" where
  "minus_error e = word_of_int (- error_code e)"

definition sys_getpid :: "'d kernel \<Rightarrow> (u64 \<times> 'd kernel) option" where
  "sys_getpid k = do {
     c \<leftarrow> get_current (k_sched k);
     t \<leftarrow> tasks (k_sched k) c;
     Some (scast (t_pid t), k) }"

definition main_sys_sched_yield :: "'d main_ext \<Rightarrow> 'd kernel \<Rightarrow> (u64 \<times> 'd kernel) option" where
  "main_sys_sched_yield M k = do { k \<leftarrow> on_sched (yield (core M)) k; Some (0, k) }"

definition sys_exit :: "'d main_ext \<Rightarrow> s32 \<Rightarrow> 'd kernel \<Rightarrow> (u64 \<times> 'd kernel) option" where
  "sys_exit M ec k = do { k \<leftarrow> do_exit M ec k; Some (0, k) }"

definition sys_fork :: "'d main_ext \<Rightarrow> 'd kernel \<Rightarrow> (u64 \<times> 'd kernel) option" where
  "sys_fork M k = do_fork M (word_of_int (SIGCHLD (core M))) 0 0 0 0 k"

definition sys_vfork :: "'d main_ext \<Rightarrow> 'd kernel \<Rightarrow> (u64 \<times> 'd kernel) option" where
  "sys_vfork M k = do_fork M (CLONE_VFORK OR CLONE_VM OR word_of_int (SIGCHLD (core M))) 0 0 0 0 k"

definition sys_clone :: "'d main_ext \<Rightarrow> u64 \<Rightarrow> u64 \<Rightarrow> u64 \<Rightarrow> u64 \<Rightarrow> 'd kernel \<Rightarrow> (u64 \<times> 'd kernel) option" where
  "sys_clone M clone_flags newsp parent_tidptr child_tidptr k =
     do_fork M clone_flags newsp 0 parent_tidptr child_tidptr k"

definition sys_wait4 :: "'d main_ext \<Rightarrow> pid_t \<Rightarrow> u64 \<Rightarrow> s32 \<Rightarrow> u64 \<Rightarrow> 'd kernel \<Rightarrow> (u64 \<times> 'd kernel) option" where
  "sys_wait4 M upid stat_addr opts ru k = do_wait M upid stat_addr opts ru k"

definition sys_kill :: "'d main_ext \<Rightarrow> pid_t \<Rightarrow> s32 \<Rightarrow> 'd kernel \<Rightarrow> (u64 \<times> 'd kernel) option" where
  "sys_kill M pid sig k = do_kill M pid sig k"

definition sys_brk :: "'d main_ext \<Rightarrow> u64 \<Rightarrow> 'd kernel \<Rightarrow> (u64 \<times> 'd kernel) option" where
  "sys_brk M brk k = do_brk M brk k"

definition sys_mmap ::
    "'d main_ext \<Rightarrow> u64 \<Rightarrow> u64 \<Rightarrow> u64 \<Rightarrow> u64 \<Rightarrow> u64 \<Rightarrow> u64 \<Rightarrow> 'd kernel \<Rightarrow> (u64 \<times> 'd kernel) option" where
  "sys_mmap M addr len prot flags fd off k = do_mmap M addr len prot flags fd off k"

definition sys_munmap :: "'d main_ext \<Rightarrow> u64 \<Rightarrow> u64 \<Rightarrow> 'd kernel \<Rightarrow> (u64 \<times> 'd kernel) option" where
  "sys_munmap M addr len k = do_munmap M addr len k"

definition sys_sysinfo :: "'d main_ext \<Rightarrow> u64 \<Rightarrow> 'd kernel \<Rightarrow> (u64 \<times> 'd kernel) option" where
  "sys_sysinfo M info k = do {
     let val = si_swapinfo M (si_meminfo (k_mm k));
     (left_over, k) \<leftarrow> copy_sysinfo M info val k;
     Some (if left_over \<noteq> 0 then minus_error EFAULT else 0, k) }"

definition kernel_info :: utsname where
  "kernel_info = \<lparr>sysname = ''MicroKernel'', nodename = ''localhost'', release = ''0.1.0'',
     version = ''1'', machine = ''x86_64'', domainname = ''localdomain''\<rparr>"

definition sys_uname :: "'d main_ext \<Rightarrow> u64 \<Rightarrow> 'd kernel \<Rightarrow> (u64 \<times> 'd kernel) option" where
  "sys_uname M nm k = do {
     (left_over, k) \<leftarrow> copy_utsname M nm kernel_info k;
     Some (if left_over \<noteq> 0 then minus_error EFAULT else 0, k) }"

definition sys_read :: "u32 \<Rightarrow> u64 \<Rightarrow> u64 \<Rightarrow> 'd kernel \<Rightarrow> (u64 \<times> 'd kernel) option" where
  "sys_read fd buf count k = Some (minus_error ENOSYS, k)"

definition sys_write :: "u32 \<Rightarrow> u64 \<Rightarrow> u64 \<Rightarrow> 'd kernel \<Rightarrow> (u64 \<times> 'd kernel) option" where
  "sys_write fd buf count k = Some (minus_error ENOSYS, k)"

definition sys_open :: "u64 \<Rightarrow> s32 \<Rightarrow> u32 \<Rightarrow> 'd kernel \<Rightarrow> (u64 \<times> 'd kernel) option" where
  "sys_open filename flags mode k = Some (minus_error ENOSYS, k)"

definition sys_close :: "u32 \<Rightarrow> 'd kernel \<Rightarrow> (u64 \<times> 'd kernel) option" where
  "sys_close fd k = Some (minus_error ENOSYS, k)"

definition sys_execve :: "u64 \<Rightarrow> u64 \<Rightarrow> u64 \<Rightarrow> 'd kernel \<Rightarrow> (u64 \<times> 'd kernel) option" where
  "sys_execve filename argv envp k = Some (minus_error ENOSYS, k)"

datatype syscall_fn =
    Sys_read | Sys_write | Sys_open | Sys_close | Sys_getpid | Sys_clone | Sys_fork | Sys_vfork
  | Sys_execve | Sys_exit | Sys_wait4 | Sys_kill | Sys_sched_yield | Sys_brk | Sys_mmap | Sys_munmap
  | Sys_sysinfo | Sys_uname

definition NR_syscalls :: u64 where "NR_syscalls = 101"

text \<open>The numbers \<^verbatim>\<open>__NR_<name>\<close>, and the table at those numbers.\<close>

definition syscall_numbers :: "(string \<times> u64) list" where
  "syscall_numbers = [
     (''read'', 0), (''write'', 1), (''open'', 2), (''close'', 3), (''stat'', 4), (''fstat'', 5),
     (''lstat'', 6), (''poll'', 7), (''lseek'', 8), (''mmap'', 9), (''mprotect'', 10), (''munmap'', 11),
     (''brk'', 12), (''rt_sigaction'', 13), (''rt_sigprocmask'', 14), (''rt_sigreturn'', 15),
     (''ioctl'', 16), (''pread64'', 17), (''pwrite64'', 18), (''readv'', 19), (''writev'', 20),
     (''access'', 21), (''pipe'', 22), (''select'', 23), (''sched_yield'', 24), (''mremap'', 25),
     (''msync'', 26), (''mincore'', 27), (''madvise'', 28), (''shmget'', 29), (''shmat'', 30),
     (''shmctl'', 31), (''dup'', 32), (''dup2'', 33), (''pause'', 34), (''nanosleep'', 35),
     (''getitimer'', 36), (''alarm'', 37), (''setitimer'', 38), (''getpid'', 39), (''sendfile'', 40),
     (''socket'', 41), (''connect'', 42), (''accept'', 43), (''sendto'', 44), (''recvfrom'', 45),
     (''sendmsg'', 46), (''recvmsg'', 47), (''shutdown'', 48), (''bind'', 49), (''listen'', 50),
     (''getsockname'', 51), (''getpeername'', 52), (''socketpair'', 53), (''setsockopt'', 54),
     (''getsockopt'', 55), (''clone'', 56), (''fork'', 57), (''vfork'', 58), (''execve'', 59),
     (''exit'', 60), (''wait4'', 61), (''kill'', 62), (''uname'', 63), (''semget'', 64), (''semop'', 65),
     (''semctl'', 66), (''shmdt'', 67), (''msgget'', 68), (''msgsnd'', 69), (''msgrcv'', 70),
     (''msgctl'', 71), (''fcntl'', 72), (''flock'', 73), (''fsync'', 74), (''fdatasync'', 75),
     (''truncate'', 76), (''ftruncate'', 77), (''getdents'', 78), (''getcwd'', 79), (''chdir'', 80),
     (''fchdir'', 81), (''rename'', 82), (''mkdir'', 83), (''rmdir'', 84), (''creat'', 85), (''link'', 86),
     (''unlink'', 87), (''symlink'', 88), (''readlink'', 89), (''chmod'', 90), (''fchmod'', 91),
     (''chown'', 92), (''fchown'', 93), (''lchown'', 94), (''umask'', 95), (''gettimeofday'', 96),
     (''getrlimit'', 97), (''getrusage'', 98), (''sysinfo'', 99), (''times'', 100)]"

definition raw_NR :: "string \<Rightarrow> u64" where
  "raw_NR name = (case map_of syscall_numbers name of Some n \<Rightarrow> n | None \<Rightarrow> 0)"

text \<open>The designated initialisers of the array; the entries that are not named are null pointers.  A
  read outside the array is a fault.\<close>

definition sys_call_table :: "syscall_fn option list" where
  "sys_call_table = fold (\<lambda>(n, f) table. table[unat n := Some f]) [
     (raw_NR ''read'', Sys_read), (raw_NR ''write'', Sys_write), (raw_NR ''open'', Sys_open),
     (raw_NR ''close'', Sys_close), (raw_NR ''getpid'', Sys_getpid), (raw_NR ''clone'', Sys_clone),
     (raw_NR ''fork'', Sys_fork), (raw_NR ''vfork'', Sys_vfork), (raw_NR ''execve'', Sys_execve),
     (raw_NR ''exit'', Sys_exit), (raw_NR ''wait4'', Sys_wait4), (raw_NR ''kill'', Sys_kill),
     (raw_NR ''sched_yield'', Sys_sched_yield), (raw_NR ''brk'', Sys_brk), (raw_NR ''mmap'', Sys_mmap),
     (raw_NR ''munmap'', Sys_munmap), (raw_NR ''sysinfo'', Sys_sysinfo), (raw_NR ''uname'', Sys_uname)]
     (replicate (unat NR_syscalls) None)"

definition table_entry :: "'a list \<Rightarrow> u64 \<Rightarrow> 'a option" where
  "table_entry table i = (if unat i < length table then Some (table ! unat i) else None)"

text \<open>The call through the cast function pointer: each function reads the registers of its own
  parameters.\<close>

fun call_syscall ::
    "'d main_ext \<Rightarrow> syscall_fn \<Rightarrow> u64 \<Rightarrow> u64 \<Rightarrow> u64 \<Rightarrow> u64 \<Rightarrow> u64 \<Rightarrow> u64 \<Rightarrow> 'd kernel \<Rightarrow> (u64 \<times> 'd kernel) option" where
  "call_syscall M Sys_read a0 a1 a2 a3 a4 a5 k = sys_read (ucast a0) a1 a2 k"
| "call_syscall M Sys_write a0 a1 a2 a3 a4 a5 k = sys_write (ucast a0) a1 a2 k"
| "call_syscall M Sys_open a0 a1 a2 a3 a4 a5 k = sys_open a0 (ucast a1) (ucast a2) k"
| "call_syscall M Sys_close a0 a1 a2 a3 a4 a5 k = sys_close (ucast a0) k"
| "call_syscall M Sys_getpid a0 a1 a2 a3 a4 a5 k = sys_getpid k"
| "call_syscall M Sys_clone a0 a1 a2 a3 a4 a5 k = sys_clone M a0 a1 a2 a3 k"
| "call_syscall M Sys_fork a0 a1 a2 a3 a4 a5 k = sys_fork M k"
| "call_syscall M Sys_vfork a0 a1 a2 a3 a4 a5 k = sys_vfork M k"
| "call_syscall M Sys_execve a0 a1 a2 a3 a4 a5 k = sys_execve a0 a1 a2 k"
| "call_syscall M Sys_exit a0 a1 a2 a3 a4 a5 k = sys_exit M (ucast a0) k"
| "call_syscall M Sys_wait4 a0 a1 a2 a3 a4 a5 k = sys_wait4 M (ucast a0) a1 (ucast a2) a3 k"
| "call_syscall M Sys_kill a0 a1 a2 a3 a4 a5 k = sys_kill M (ucast a0) (ucast a1) k"
| "call_syscall M Sys_sched_yield a0 a1 a2 a3 a4 a5 k = main_sys_sched_yield M k"
| "call_syscall M Sys_brk a0 a1 a2 a3 a4 a5 k = sys_brk M a0 k"
| "call_syscall M Sys_mmap a0 a1 a2 a3 a4 a5 k = sys_mmap M a0 a1 a2 a3 a4 a5 k"
| "call_syscall M Sys_munmap a0 a1 a2 a3 a4 a5 k = sys_munmap M a0 a1 k"
| "call_syscall M Sys_sysinfo a0 a1 a2 a3 a4 a5 k = sys_sysinfo M a0 k"
| "call_syscall M Sys_uname a0 a1 a2 a3 a4 a5 k = sys_uname M a0 k"

definition do_syscall ::
    "'d main_ext \<Rightarrow> u64 \<Rightarrow> u64 \<Rightarrow> u64 \<Rightarrow> u64 \<Rightarrow> u64 \<Rightarrow> u64 \<Rightarrow> u64 \<Rightarrow> 'd kernel \<Rightarrow> (u64 \<times> 'd kernel) option" where
  "do_syscall M syscall_nr a0 a1 a2 a3 a4 a5 k =
     (if NR_syscalls \<le> syscall_nr then do {
        k \<leftarrow> say M (ascii ''Invalid syscall number: '' @ fmt_lu syscall_nr @ [10]) k;
        Some (minus_error ENOSYS, k) }
      else do {
        syscall_fn \<leftarrow> table_entry sys_call_table syscall_nr;
        case syscall_fn of
          None \<Rightarrow> do {
            k \<leftarrow> say M (ascii ''Unimplemented syscall: '' @ fmt_lu syscall_nr @ [10]) k;
            Some (minus_error ENOSYS, k) }
        | Some f \<Rightarrow> call_syscall M f a0 a1 a2 a3 a4 a5 k })"

text \<open>The array, entry by entry.\<close>

lemma sys_call_table_length: "length sys_call_table = 101"
  by (simp add: sys_call_table_def NR_syscalls_def)

lemma sys_call_table_entries:
  "list_all (\<lambda>i. sys_call_table ! i = map_of [(0, Sys_read), (1, Sys_write), (2, Sys_open), (3, Sys_close),
     (39, Sys_getpid), (56, Sys_clone), (57, Sys_fork), (58, Sys_vfork), (59, Sys_execve),
     (60, Sys_exit), (61, Sys_wait4), (62, Sys_kill), (24, Sys_sched_yield), (12, Sys_brk),
     (9, Sys_mmap), (11, Sys_munmap), (99, Sys_sysinfo), (63, Sys_uname)] i) [0..<101]"
  by code_simp

lemma sys_call_table_at:
  "table_entry sys_call_table nr = (if unat nr < 101 then Some (map_of [(0, Sys_read), (1, Sys_write),
     (2, Sys_open), (3, Sys_close), (39, Sys_getpid), (56, Sys_clone), (57, Sys_fork), (58, Sys_vfork),
     (59, Sys_execve), (60, Sys_exit), (61, Sys_wait4), (62, Sys_kill), (24, Sys_sched_yield), (12, Sys_brk),
     (9, Sys_mmap), (11, Sys_munmap), (99, Sys_sysinfo), (63, Sys_uname)] (unat nr)) else None)"
  using sys_call_table_entries
  by (simp add: table_entry_def sys_call_table_length list_all_iff del: map_of.simps)

text \<open>The numbers are the positions in the list, no two calls share one, and all are below the
  bound of the dispatcher.\<close>

lemma syscall_numbers_dense:
  "map snd syscall_numbers = map of_nat [0..<unat NR_syscalls]" "distinct (map fst syscall_numbers)"
  by code_simp+

section \<open>Interrupts and exceptions\<close>

definition timer_interrupt :: "'d main_ext \<Rightarrow> 'd kernel \<Rightarrow> 'd kernel option" where
  "timer_interrupt M k = do {
     let k = k\<lparr>k_sched := update_jiffies (k_sched k)\<rparr>;
     k \<leftarrow> scheduler_tick M k;
     run_timer_softirq M k }"

definition keyboard_interrupt :: "'d main_ext \<Rightarrow> 'd kernel \<Rightarrow> 'd kernel option" where
  "keyboard_interrupt M k = (let (scancode, d) = inb M 0x60 (k_dev k)
     in handle_keyboard_input M scancode (k\<lparr>k_dev := d\<rparr>))"

text \<open>The greeting of an interrupt is in Chinese; these are its bytes.\<close>

definition irq_greeting :: "u8 list" where
  "irq_greeting = [0x20, 0xe4, 0xb8, 0x80, 0xe5, 0xa4, 0xa7, 0xe6, 0xb3, 0xa2, 0xe4, 0xb8, 0xad,
     0xe6, 0x96, 0xad, 0xe6, 0x9d, 0xa5, 0xe8, 0xa2, 0xad, 0x20]"

definition handle_interrupt :: "'d main_ext \<Rightarrow> int \<Rightarrow> 'd kernel \<Rightarrow> 'd kernel option" where
  "handle_interrupt M irq k = do {
     k \<leftarrow> say M (irq_greeting @ fmt_d irq @ ascii '' received'' @ [10]) k;
     if irq = 0 then timer_interrupt M k
     else if irq = 1 then keyboard_interrupt M k
     else say M (ascii ''Unknown interrupt: '' @ fmt_d irq @ [10]) k }"

definition handle_page_fault :: "'d main_ext \<Rightarrow> u64 \<Rightarrow> 'd kernel \<Rightarrow> 'd kernel option" where
  "handle_page_fault M ec k = do {
     let address = read_cr2 M k;
     k \<leftarrow> say M (ascii ''Page fault at address 0x'' @ fmt_lx address @ ascii '', error code: 0x'' @ fmt_lx ec @ [10]) k;
     do_page_fault M address ec k }"

definition handle_exception :: "'d main_ext \<Rightarrow> int \<Rightarrow> u64 \<Rightarrow> 'd kernel \<Rightarrow> (string + 'd kernel) option" where
  "handle_exception M exc ec k = do {
     k \<leftarrow> say M (ascii ''Exception '' @ fmt_d exc @ ascii '' (error code: 0x'' @ fmt_lx ec @ ascii '')'' @ [10]) k;
     k \<leftarrow> (if exc = 0 then say M (ascii ''Division by zero'' @ [10]) k
           else if exc = 6 then say M (ascii ''Invalid instruction'' @ [10]) k
           else if exc = 13 then say M (ascii ''General protection fault'' @ [10]) k
           else if exc = 14 then handle_page_fault M ec k
           else say M (ascii ''Unknown exception: '' @ fmt_d exc @ [10]) k);
     Some (if exc \<noteq> 14 then Inl ''Unhandled exception in kernel'' else Inr k) }"

end
