(* ===== verification/Main_Props.thy ===== *)
theory Main_Props
  imports Main_C Fair_Trace Buddy_Demo
begin

text \<open>
  Start-up, the system call dispatcher and the tick counters of \<^verbatim>\<open>main.c\<close>.
\<close>

section \<open>Initialisation of the scheduler\<close>

text \<open>The static data exists, and the fields that \<^verbatim>\<open>sched_init\<close> does not write are zero.\<close>

definition static_data :: "sched \<Rightarrow> bool" where
  "static_data s \<longleftrightarrow> sched_nodes s Task_list \<noteq> None
     \<and> (\<forall>cpu < NR_CPUS. sched_nodes s (Cfs_tasks cpu) \<noteq> None \<and> runqueues s cpu \<noteq> None
          \<and> (\<exists>cq. cfs_at s (RootCfs cpu) = Some cq \<and> rb_leftmost cq = None \<and> cfs_curr cq = None
               \<and> h_nr_running cq = 0 \<and> no_buddies cq))
     \<and> (\<forall>e. \<not> is_on_rq s e)"

definition idle_rq :: "sched_ext \<Rightarrow> nat \<Rightarrow> sched \<Rightarrow> bool" where
  "idle_rq X cpu s \<longleftrightarrow> (\<exists>q. runqueues s cpu = Some q \<and> lock_free (rq_lock q) \<and> rq_nr_running q = 0
       \<and> rq_curr q = None \<and> rq_cpu q = int cpu \<and> nr_switches q = 0)
     \<and> fair_inv X cpu s \<and> timeline (RootCfs cpu) s = [] \<and> runnable (RootCfs cpu) s = {}
     \<and> dlist (sched_nodes s) (Cfs_tasks cpu) []"

lemma INIT_at:
  assumes "h n \<noteq> None"
  shows "INIT_LIST_HEAD (At n) h = Some (h(n \<mapsto> \<lparr>lnext = At n, lprev = At n\<rparr>))"
proof -
  obtain x where "h n = Some x" using assms by blast
  then show ?thesis by (cases x) (simp add: INIT_LIST_HEAD_def store_next_def store_prev_def)
qed

lemma dlist_self: "h n = Some \<lparr>lnext = At n, lprev = At n\<rparr> \<Longrightarrow> dlist h n []"
  by (auto simp: dlist_def link_def load_next_def load_prev_def load_def)

lemma empty_rq_inv:
  assumes "rb_ok X" "\<And>e. \<not> is_on_rq s e"
    and "cfs_at s (RootCfs r) = Some cq" "runqueues s r = Some q" "rq_nr_running q = 0"
    and "tasks_timeline cq = Leaf" "rb_leftmost cq = None" "cfs_curr cq = None" "cfs_nr_running cq = 0"
      "h_nr_running cq = 0" "no_buddies cq"
  shows "fair_inv X r s" "timeline (RootCfs r) s = []" "runnable (RootCfs r) s = {}"
proof -
  show tl: "timeline (RootCfs r) s = []" using assms(3,6) by (simp add: timeline_at)
  show run: "runnable (RootCfs r) s = {}" using assms(2) by (simp add: runnable_def tl)
  have "timeline_ok X (RootCfs r) s" "curr_ok (RootCfs r) s"
    using assms(1,3,7,8) by (simp_all add: timeline_ok_def tl first_entity_at curr_ok_def)
  then show "fair_inv X r s"
    using assms(2-5,8-11) by (simp add: fair_inv_def rq_wf_def cfs_wf_def run)
qed

lemma init_rq_spec:
  assumes "runqueues s cpu = Some q" "cfs_at s (RootCfs cpu) = Some cq" "rb_leftmost cq = None"
    "cfs_curr cq = None" "h_nr_running cq = 0" "no_buddies cq" "sched_nodes s (Cfs_tasks cpu) \<noteq> None" "rb_ok X"
    and off: "\<And>e. \<not> is_on_rq s e"
  shows "\<exists>s'. init_rq cpu s = Some s' \<and> idle_rq X cpu s' \<and> (\<forall>n. n \<noteq> Cfs_tasks cpu \<longrightarrow> sched_nodes s' n = sched_nodes s n)
    \<and> task_list_lock s' = task_list_lock s \<and> current_task s' = current_task s \<and> next_pid s' = next_pid s"
proof -
  obtain s' where s': "init_rq cpu s = Some s'"
    using assms(1,2,7) by (simp add: init_rq_def upd_rq_def upd_cfs_def upd_snodes_def INIT_at)
  have se: "se_at s' = se_at s" and frame: "\<forall>n. n \<noteq> Cfs_tasks cpu \<longrightarrow> sched_nodes s' n = sched_nodes s n"
    "task_list_lock s' = task_list_lock s" "current_task s' = current_task s" "next_pid s' = next_pid s"
    and list: "dlist (sched_nodes s') (Cfs_tasks cpu) []"
    and rq: "\<exists>q. runqueues s' cpu = Some q \<and> lock_free (rq_lock q) \<and> rq_nr_running q = 0
       \<and> rq_curr q = None \<and> rq_cpu q = int cpu \<and> nr_switches q = 0"
    and cfs: "cfs_at s' (RootCfs cpu) = Some (cq\<lparr>tasks_timeline := Leaf, min_vruntime := 0,
            cfs_nr_running := 0, cfs_load := \<lparr>weight = 0, inv_weight = 0\<rparr>\<rparr>)"
    using s' assms(1,2,7)
    by (auto simp: init_rq_def upd_rq_def upd_cfs_def upd_snodes_def INIT_at lock_free_def
        spin_lock_init_def intro: dlist_self)
  have off': "\<not> is_on_rq s' e" for e using off by (simp add: is_on_rq_def se)
  obtain q' where q': "runqueues s' cpu = Some q'" "rq_nr_running q' = 0" using rq by blast
  have "idle_rq X cpu s'"
    using empty_rq_inv [OF assms(8) off' cfs q'] assms(3-6) rq list by (simp add: idle_rq_def no_buddies_def)
  then show ?thesis using s' frame by blast
qed

lemma sched_init_spec:
  assumes "static_data s" "rb_ok X"
  shows "\<exists>s'. sched_init s = Some s' \<and> (\<forall>cpu < NR_CPUS. idle_rq X cpu s')
    \<and> dlist (sched_nodes s') Task_list [] \<and> lock_free (task_list_lock s')
    \<and> current_task s' = current_task s \<and> next_pid s' = next_pid s"
proof -
  let ?n = "(sched_nodes s)(Task_list \<mapsto> \<lparr>lnext = At Task_list, lprev = At Task_list\<rparr>)"
  define s1 where "s1 = s\<lparr>sched_nodes := ?n, task_list_lock := spin_lock_init (task_list_lock s)\<rparr>"
  obtain q cq where "runqueues s1 0 = Some q" "cfs_at s1 (RootCfs 0) = Some cq" "rb_leftmost cq = None"
    "cfs_curr cq = None" "h_nr_running cq = 0" "no_buddies cq" "sched_nodes s1 (Cfs_tasks 0) \<noteq> None"
    and "\<And>e. \<not> is_on_rq s1 e"
    using assms(1) by (auto simp: static_data_def NR_CPUS_def s1_def is_on_rq_def)
  then obtain s' where s': "init_rq 0 s1 = Some s'" "idle_rq X 0 s'" "sched_nodes s' Task_list = sched_nodes s1 Task_list"
    "task_list_lock s' = task_list_lock s1" "current_task s' = current_task s1" "next_pid s' = next_pid s1"
    using init_rq_spec [of s1 0 q cq X] assms(2) by auto
  have "sched_init s = Some s'"
    using assms(1) s'(1)
    by (simp add: sched_init_def upd_snodes_def INIT_at static_data_def NR_CPUS_def s1_def)
  moreover have "dlist (sched_nodes s') Task_list []" by (rule dlist_self) (simp add: s'(3) s1_def)
  moreover have "lock_free (task_list_lock s')" by (simp add: s'(4) s1_def lock_free_def spin_lock_init_def)
  ultimately show ?thesis using s' by (auto simp: NR_CPUS_def s1_def)
qed

text \<open>C34: From zeroed static data \<^verbatim>\<open>sched_init\<close> makes the task list empty and every lock free, and
  leaves each run queue idle: no task, an empty timeline, an empty list of its tasks, and the
  invariant from which every sequence of events of the fair class starts.\<close>

theorem sched_init_establishes:
  assumes "static_data s" "rb_ok X"
  shows "\<exists>s'. sched_init s = Some s' \<and> (\<forall>cpu < NR_CPUS. idle_rq X cpu s')
    \<and> dlist (sched_nodes s') Task_list [] \<and> lock_free (task_list_lock s')
    \<and> current_task s' = current_task s \<and> next_pid s' = next_pid s"
  by (rule sched_init_spec [OF assms])

definition zero_rq :: rq where
  "zero_rq = demo_rq\<lparr>rq_curr := None, rq_nr_running := 0\<rparr>"

definition boot_sched :: sched where
  "boot_sched = demo_sched\<lparr>current_task := None, tasks := Map.empty, se_at := Map.empty,
     cfs_at := [RootCfs 0 \<mapsto> demo_cfs\<lparr>tasks_timeline := Leaf, rb_leftmost := None, cfs_curr := None,
       h_nr_running := 0\<rparr>],
     runqueues := [0 \<mapsto> zero_rq],
     sched_nodes := (\<lambda>_. Some \<lparr>lnext = Null, lprev = Null\<rparr>)\<rparr>"

lemma boot_static: "static_data boot_sched"
  by (simp add: static_data_def boot_sched_def NR_CPUS_def no_buddies_def is_on_rq_def)

theorem sched_init_establishes_witness:
  "\<exists>s'. sched_init boot_sched = Some s' \<and> idle_rq demo_sched_ext 0 s' \<and> dlist (sched_nodes s') Task_list []"
  using sched_init_establishes [OF boot_static demo_rb_ok] by (auto simp: NR_CPUS_def)

section \<open>Start-up\<close>

text \<open>C36: The kernel as it stands always panics while it starts: \<^verbatim>\<open>kmalloc\<close> returns \<^verbatim>\<open>NULL\<close>, so the
  first task cannot be allocated, whatever the other subsystems do.\<close>

theorem start_kernel_panics:
  assumes "static_data (k_sched (mm_init M k))"
  shows "start_kernel M k = Some (Inl ''Cannot allocate init task'')"
proof -
  obtain s' where "sched_init (k_sched (mm_init M k)) = Some s'"
    using sched_init_spec [OF assms demo_rb_ok] by blast
  then show ?thesis
    by (simp add: start_kernel_def kernel_main_def kernel_init_def on_sched_def create_init_process_def
        alloc_task_struct_def kmalloc_def)
qed

definition demo_main :: "(nat \<times> u8 list) main_ext" where
  "demo_main = \<lparr>core = demo_core, mem = demo_ext, mm_alloc = (\<lambda>s. (Some 0, s)), mm_init = id, ipc_init = id,
     vfs_init = id, net_init = id, driver_init = id, do_fork = (\<lambda>_ _ _ _ _ k. Some (2, k)),
     do_exit = (\<lambda>_ k. Some k), do_wait = (\<lambda>_ _ _ _ k. Some (0, k)), do_kill = (\<lambda>_ _ k. Some (0, k)),
     do_brk = (\<lambda>b k. Some (b, k)), do_mmap = (\<lambda>a _ _ _ _ _ k. Some (a, k)),
     do_munmap = (\<lambda>_ _ k. Some (0, k)), si_swapinfo = id, copy_sysinfo = (\<lambda>_ _ k. Some (0, k)),
     copy_utsname = (\<lambda>_ _ k. Some (0, k)), scheduler_tick = Some, run_timer_softirq = Some,
     inb = demo_inb, outb = demo_outb, uninit_buffer = replicate 1024 0,
     handle_keyboard_input = (\<lambda>_ k. Some k), read_cr2 = (\<lambda>_. 0),
     do_page_fault = (\<lambda>_ _ k. Some k)\<rparr>"

definition boot_kernel :: "(nat \<times> u8 list) kernel" where
  "boot_kernel = \<lparr>k_sched = boot_sched, k_mm = demo_mm, kernel_initialized = False, init_task = None,
     k_dev = (5, [])\<rparr>"

theorem start_kernel_panics_witness:
  "start_kernel demo_main boot_kernel = Some (Inl ''Cannot allocate init task'')"
  using start_kernel_panics [of demo_main boot_kernel] boot_static by (simp add: demo_main_def boot_kernel_def)

section \<open>System calls\<close>

lemmas sys_defs = sys_read_def sys_write_def sys_open_def sys_close_def sys_getpid_def sys_clone_def
  sys_fork_def sys_vfork_def sys_execve_def sys_exit_def sys_wait4_def sys_kill_def
  main_sys_sched_yield_def sys_brk_def sys_mmap_def sys_munmap_def on_sched_def get_current_def

text \<open>A decimal number has no more digits than its size allows, and they spell it.\<close>

lemma digits_length: "n < 10 ^ Suc k \<Longrightarrow> length (digits 10 n) \<le> Suc k"
proof (induction k arbitrary: n)
  case 0
  then show ?case by (simp add: digits.simps [of 10 n])
next
  case (Suc k)
  then have "length (digits 10 (n div 10)) \<le> Suc k" by (intro Suc.IH) simp
  then show ?case by (simp add: digits.simps [of 10 n])
qed

lemma fmt_lu_length: "length (fmt_lu n) \<le> 20"
proof -
  have "unat n < 2 ^ 64" using unsigned_less [of n] by simp
  then have "unat n < 10 ^ Suc 19" by simp
  then show ?thesis unfolding fmt_lu_def using digits_length [of "unat n" 19] by simp
qed

lemma digits_value: "foldl (\<lambda>v c. 10 * v + unat (c - 48)) 0 (digits 10 n) = n"
proof (induction n rule: less_induct)
  case (less n)
  have d: "unat (digit k - 48) = k" if "k < 10" for k
    using that by (simp add: digit_def unat_of_nat)
  show ?case
    using less [of "n div 10"] d [of n] d [of "n mod 10"] by (simp add: digits.simps [of 10 n])
qed

lemma say_sends:
  assumes "port_ok (inb M) (outb M) sent" "length (uninit_buffer M) = 1024" "length out < 1024"
  shows "\<exists>d. say M out k = Some (k\<lparr>k_dev := d\<rparr>) \<and> sent d = sent (k_dev k) @ out"
  using printk_spec(1) [OF assms(1,2) _ assms(3), of "k_dev k"] assms(3) by (auto simp: say_def)

text \<open>The numbers below the bound that have a service, and the five of them that are stubs.\<close>

definition served :: "u64 set" where "served = {9, 11, 12, 24, 39, 56, 57, 58, 60, 61, 62, 63, 99}"

definition stubbed :: "u64 set" where "stubbed = {0, 1, 2, 3, 59}"

lemma table_served:
  "table_entry sys_call_table 0 = Some (Some Sys_read)" "table_entry sys_call_table 1 = Some (Some Sys_write)"
  "table_entry sys_call_table 2 = Some (Some Sys_open)" "table_entry sys_call_table 3 = Some (Some Sys_close)"
  "table_entry sys_call_table 9 = Some (Some Sys_mmap)" "table_entry sys_call_table 11 = Some (Some Sys_munmap)"
  "table_entry sys_call_table 12 = Some (Some Sys_brk)" "table_entry sys_call_table 24 = Some (Some Sys_sched_yield)"
  "table_entry sys_call_table 39 = Some (Some Sys_getpid)" "table_entry sys_call_table 56 = Some (Some Sys_clone)"
  "table_entry sys_call_table 57 = Some (Some Sys_fork)" "table_entry sys_call_table 58 = Some (Some Sys_vfork)"
  "table_entry sys_call_table 59 = Some (Some Sys_execve)" "table_entry sys_call_table 60 = Some (Some Sys_exit)"
  "table_entry sys_call_table 61 = Some (Some Sys_wait4)" "table_entry sys_call_table 62 = Some (Some Sys_kill)"
  "table_entry sys_call_table 63 = Some (Some Sys_uname)" "table_entry sys_call_table 99 = Some (Some Sys_sysinfo)"
  by (simp_all add: sys_call_table_at)

lemma table_unserved:
  assumes "nr \<notin> served \<union> stubbed" "nr < 101"
  shows "table_entry sys_call_table nr = Some None"
proof -
  have "unat nr < 101" using assms(2) by (simp add: word_less_nat_alt)
  moreover have "unat nr \<notin> {0, 1, 2, 3, 9, 11, 12, 24, 39, 56, 57, 58, 59, 60, 61, 62, 63, 99}"
    using assms(1) by (simp add: served_def stubbed_def word_unat_eq_iff)
  ultimately show ?thesis by (simp add: sys_call_table_at)
qed

lemma do_syscall_served:
  assumes "table_entry sys_call_table nr = Some (Some f)"
  shows "do_syscall M nr a0 a1 a2 a3 a4 a5 k = call_syscall M f a0 a1 a2 a3 a4 a5 k"
proof -
  have "nr < 101" using assms by (auto simp: sys_call_table_at word_less_nat_alt split: if_splits)
  then show ?thesis using assms by (simp add: do_syscall_def NR_syscalls_def linorder_not_le [symmetric])
qed

text \<open>C35: The system call dispatcher, on a console that works.  It reaches exactly thirteen
  services, each with the arguments of its own registers; the five stubs return the error code
  and change nothing.  A number at or above the bound is never looked up in the table: it is
  reported on the console in decimal as invalid; any other number is reported as
  unimplemented; both return the error code and change nothing but the console.  That
  code is positive, since the error codes are negative already.\<close>

theorem do_syscall_dispatch:
  assumes port: "port_ok (inb M) (outb M) sent" "length (uninit_buffer M) = 1024"
  shows "(nr \<in> served \<longrightarrow> do_syscall M nr a0 a1 a2 a3 a4 a5 k =
     (if nr = 9 then do_mmap M a0 a1 a2 a3 a4 a5 k
      else if nr = 11 then do_munmap M a0 a1 k
      else if nr = 12 then do_brk M a0 k
      else if nr = 24 then do { s \<leftarrow> yield (core M) (k_sched k); Some (0, k\<lparr>k_sched := s\<rparr>) }
      else if nr = 39 then do { p \<leftarrow> current_task (k_sched k); t \<leftarrow> tasks (k_sched k) p; Some (scast (t_pid t), k) }
      else if nr = 56 then do_fork M a0 a1 0 a2 a3 k
      else if nr = 57 then do_fork M (word_of_int (SIGCHLD (core M))) 0 0 0 0 k
      else if nr = 58 then do_fork M (CLONE_VFORK OR CLONE_VM OR word_of_int (SIGCHLD (core M))) 0 0 0 0 k
      else if nr = 60 then do { k \<leftarrow> do_exit M (ucast a0) k; Some (0, k) }
      else if nr = 61 then do_wait M (ucast a0) a1 (ucast a2) a3 k
      else if nr = 62 then do_kill M (ucast a0) (ucast a1) k
      else if nr = 63 then sys_uname M a0 k
      else sys_sysinfo M a0 k))
   \<and> (nr \<in> stubbed \<longrightarrow> do_syscall M nr a0 a1 a2 a3 a4 a5 k = Some (27, k))
   \<and> (nr \<notin> served \<union> stubbed \<longrightarrow> (\<exists>d. do_syscall M nr a0 a1 a2 a3 a4 a5 k = Some (27, k\<lparr>k_dev := d\<rparr>)
        \<and> sent d = sent (k_dev k)
            @ ascii (if nr < 101 then ''Unimplemented syscall: '' else ''Invalid syscall number: '') @ fmt_lu nr @ [10]))
   \<and> 0 < sint (27 :: u64)"
proof (intro conjI impI)
  let ?call = "do_syscall M nr a0 a1 a2 a3 a4 a5 k"
  show "?call = (if nr = 9 then do_mmap M a0 a1 a2 a3 a4 a5 k
      else if nr = 11 then do_munmap M a0 a1 k
      else if nr = 12 then do_brk M a0 k
      else if nr = 24 then do { s \<leftarrow> yield (core M) (k_sched k); Some (0, k\<lparr>k_sched := s\<rparr>) }
      else if nr = 39 then do { p \<leftarrow> current_task (k_sched k); t \<leftarrow> tasks (k_sched k) p; Some (scast (t_pid t), k) }
      else if nr = 56 then do_fork M a0 a1 0 a2 a3 k
      else if nr = 57 then do_fork M (word_of_int (SIGCHLD (core M))) 0 0 0 0 k
      else if nr = 58 then do_fork M (CLONE_VFORK OR CLONE_VM OR word_of_int (SIGCHLD (core M))) 0 0 0 0 k
      else if nr = 60 then do { k \<leftarrow> do_exit M (ucast a0) k; Some (0, k) }
      else if nr = 61 then do_wait M (ucast a0) a1 (ucast a2) a3 k
      else if nr = 62 then do_kill M (ucast a0) (ucast a1) k
      else if nr = 63 then sys_uname M a0 k
      else sys_sysinfo M a0 k)" if "nr \<in> served"
    using that unfolding served_def
    by (elim insertE emptyE) (simp_all add: table_served [THEN do_syscall_served] sys_defs)
  show "?call = Some (27, k)" if "nr \<in> stubbed"
    using that unfolding stubbed_def
    by (elim insertE emptyE) (simp_all add: table_served [THEN do_syscall_served] sys_defs minus_error_def)
  let ?msg = "ascii (if nr < 101 then ''Unimplemented syscall: '' else ''Invalid syscall number: '') @ fmt_lu nr @ [10]"
  show "\<exists>d. ?call = Some (27, k\<lparr>k_dev := d\<rparr>) \<and> sent d = sent (k_dev k) @ ?msg" if "nr \<notin> served \<union> stubbed"
  proof -
    have "length ?msg < 1024" using fmt_lu_length [of nr] by (simp add: ascii_def)
    from say_sends [OF port this] obtain d where d: "say M ?msg k = Some (k\<lparr>k_dev := d\<rparr>)" "sent d = sent (k_dev k) @ ?msg"
      by blast
    have "?call = do { k \<leftarrow> say M ?msg k; Some (27, k) }"
      using table_unserved [OF that]
      by (cases "nr < 101") (simp_all add: do_syscall_def NR_syscalls_def minus_error_def
        linorder_not_le [symmetric])
    with d show ?thesis by auto
  qed
qed simp

theorem do_syscall_dispatch_witness:
  "do_syscall demo_main 2 0 0 0 0 0 0 boot_kernel = Some (27, boot_kernel)
   \<and> do_syscall demo_main 12 7 0 0 0 0 0 boot_kernel = Some (7, boot_kernel)
   \<and> (\<exists>d. do_syscall demo_main 500 0 0 0 0 0 0 boot_kernel = Some (27, boot_kernel\<lparr>k_dev := d\<rparr>)
        \<and> snd d = ascii ''Invalid syscall number: 500'' @ [10])"
proof -
  have port: "port_ok (inb demo_main) (outb demo_main) snd" "length (uninit_buffer demo_main) = 1024"
    "do_brk demo_main = (\<lambda>b k. Some (b, k))" "k_dev boot_kernel = (5, [])"
    using demo_port_ok by (simp_all add: demo_main_def boot_kernel_def)
  have "fmt_lu 500 = ascii ''500''" by (simp add: fmt_lu_def digits.simps digit_def ascii_def of_char_def)
  then show ?thesis
    using do_syscall_dispatch [OF port(1,2), of 2 0 0 0 0 0 0 boot_kernel]
      do_syscall_dispatch [OF port(1,2), of 12 7 0 0 0 0 0 boot_kernel]
      do_syscall_dispatch [OF port(1,2), of 500 0 0 0 0 0 0 boot_kernel] port(3,4)
    by (simp add: served_def stubbed_def ascii_def)
qed

section \<open>Ticks\<close>

text \<open>The two functions that claim to keep the time, in any order.\<close>

datatype time_call = Tick | Read

fun time_calls :: "time_call list \<Rightarrow> sched \<Rightarrow> sched" where
  "time_calls [] s = s"
| "time_calls (Tick # cs) s = time_calls cs (update_jiffies s)"
| "time_calls (Read # cs) s = time_calls cs (snd (get_jiffies_64 s))"

text \<open>The counter that \<^verbatim>\<open>get_jiffies_64\<close> returns is its own: it grows by one with each reading
  and the timer interrupt never moves it.\<close>

theorem jiffies_count_readings:
  "fst (get_jiffies_64 (time_calls cs s)) = jiffies_get s + of_nat (count_list cs Read)"
  by (induction cs s rule: time_calls.induct) (simp_all add: get_jiffies_64_def update_jiffies_def)

end
