(* ===== verification/Spec2Isabelle.thy ===== *)
theory Spec2Isabelle
  imports Kstring_C List_Iter Rwlock_H Buddy_Zone Buddy_Trace Fair_Weight Fair_Preempt Sched_Mm Config_H Services_C Main_Props
begin

text \<open>
  \<^bold>\<open>A verification development for a small x86-64 microkernel written in C.\<close>

  \<^bold>\<open>The program.\<close>  The kernel boots in \<^verbatim>\<open>src/src/kernel/main.c\<close>: \<^verbatim>\<open>start_kernel\<close> calls
  \<^verbatim>\<open>kernel_main\<close>, which initialises memory, scheduler and the other subsystems, creates the
  first task and calls \<^verbatim>\<open>schedule\<close>.  Afterwards the kernel is entered through
  \<^verbatim>\<open>do_syscall\<close>, \<^verbatim>\<open>handle_interrupt\<close> and \<^verbatim>\<open>handle_exception\<close>.  Pages come from the buddy allocator
  (\<^verbatim>\<open>src/kernel/mm/buddy.c\<close>), tasks are chosen by the scheduler core
  (\<^verbatim>\<open>src/kernel/core/sched/sched.c\<close>) and its fair class (\<^verbatim>\<open>sched_fair.c\<close>), and all of them stand
  on the lists, locks and types of \<^verbatim>\<open>src/kernel/include\<close>.

  \<^bold>\<open>Conventions.\<close>  A structure is a record, an object that is shared through pointers is an
  entry of a map from addresses, and a list node is an entry of a node heap.  A function that
  may fault (null or wild pointer, index outside an array) returns an option, where \<open>None\<close> is
  the fault; loops that may run for ever are defined by \<open>partial_function (option)\<close>, so that not
  returning is \<open>None\<close> as well, and every property that a function returns is a property that its
  value is \<open>Some\<close>.  A panic is a value of a sum type.  Integers have the width that
  \<^verbatim>\<open>types.h\<close> declares, which for \<^verbatim>\<open>ulong\<close> and \<^verbatim>\<open>s64\<close> is 32 bits; frame numbers, saved flags and
  truncated differences are kept at that width, and the properties say when it decides the outcome.
  \<^verbatim>\<open>smp_processor_id\<close> is 0 on every CPU, as \<^verbatim>\<open>main.c\<close> defines it.

  A local variable that is used and never assigned has an arbitrary value, a parameter: \<open>uninit_flags\<close> and
  \<open>uninit_sched_flags\<close> for the local \<^verbatim>\<open>flags\<close> of \<^verbatim>\<open>init_zone\<close>, \<^verbatim>\<open>rmqueue\<close>, \<^verbatim>\<open>__free_pages_ok\<close>, \<^verbatim>\<open>free_hot_cold_page\<close>,
  \<^verbatim>\<open>sched_fork\<close>, \<^verbatim>\<open>wake_up_new_task\<close> and \<^verbatim>\<open>schedule\<close>, which pass its value where \<^verbatim>\<open>spin_lock_irqsave\<close> takes an
  address or drop the result of \<^verbatim>\<open>local_irq_save\<close>.  What they restore at the end is that value; the
  store of the saved flags to that address is outside the modelled state.

  Functions that the sources call and the repository does not contain are fields of a
  parameter: \<open>bitops\<close> and \<open>mm_ext\<close> for the allocator, \<open>sched_ext\<close> for the fair class, \<open>core_ext\<close> for
  the scheduler core and \<open>main_ext\<close> for the kernel entry.  What is assumed of them is named:
  \<open>mm_ext_ok\<close>, \<open>flat_memmap\<close> (the frame number of a page is its index in the memory map), \<open>rb_ok\<close> (a red-black tree keeps its order), \<open>vr_ok\<close> (minimum and maximum of virtual
  times), \<open>calc_ext_ok\<close> (multiply and shift), \<open>ent_ok\<close> (a task is its entity), \<open>buddy_ok\<close>, \<open>skip_ok\<close> and \<open>wake_ok\<close> (the
  buddy pointers and the reschedule mark), \<open>acct_ok\<close> (the counters of a run queue), \<open>flat\<close> (no group scheduling and no
  bandwidth control, as \<^verbatim>\<open>config.h\<close> sets it), \<open>latency_ok\<close> (the scheduling latency is below two
  seconds), \<open>core_ok\<close> and \<open>unlocks\<close> (the switch releases the run queue lock), \<open>mmdrop_ok\<close> (dropping a
  reference counts down and frees at zero), \<open>port_ok\<close> (the serial port becomes ready and sends).  Each law holds of the
  concrete instance that the witnesses use (\<open>Buddy_Demo\<close>, \<open>Sched_Demo\<close>, \<open>demo_core\<close>,
  \<open>lazy_core\<close>, \<open>demo_main\<close>, \<open>demo_inb\<close> and \<open>demo_outb\<close>).

  \<^bold>\<open>The theories.\<close>

  \<^item> \<open>Kernel_Prelude\<close>: word widths, option and map lemmas, loops over lists.

  \<^item> \<open>Types_H\<close>, \<open>Mm_H\<close>: \<^verbatim>\<open>types.h\<close> and \<^verbatim>\<open>mm.h\<close>: integer types, error codes, alignment and bit macros,
    pages, zones, page flags and allocation flags.

  \<^item> \<open>List_H\<close>: \<^verbatim>\<open>list.h\<close> on a heap of nodes.  The locale \<open>list_store\<close> states what a client of lists
    relies on; its interpretation \<open>lh\<close> on the heap operations discharges it.  The operations
    refine insertion, removal, moving, splicing and splitting of abstract lists.
    \<open>Hlist_H\<close>: the hash lists of the same header, whose nodes point back to a cell.  \<open>List_Iter\<close>: the
    iteration macros as loops over a body; they equal recursion over the abstract list.

  \<^item> \<open>Spinlock_H\<close>, \<open>Rwlock_H\<close>: \<^verbatim>\<open>spinlock.h\<close>, each operation as a function of one caller and as a
    program of atomic steps.  An inductive relation interleaves any number of CPUs; exclusion,
    who can move and who panics, exact counters and the simulation of an abstract lock are
    proved by rule induction through the locale \<open>mutex\<close>, which both locks interpret.

  \<^item> \<open>Buddy_C\<close>: every function of \<^verbatim>\<open>buddy.c\<close>.  \<open>Buddy_Spec\<close> describes the free memory as a set of
    aligned blocks, \<open>Buddy_Inv\<close> relates it to zone, pages and lists, \<open>Buddy_Ops\<close> shows that the list
    operations keep the relation, \<open>Buddy_Props\<close> that freeing merges and allocation splits as
    specified, that freeing faults when a buddy lies below, and when they are inverse, \<open>Buddy_Trace\<close> that over any sequence of requests no page
    is handed out twice.  \<open>Buddy_Fallback\<close> and \<open>Buddy_Zone\<close> treat the fallback
    lists, the initialisation of a zone, the locked entry points and \<^verbatim>\<open>get_free_pages\<close>.

  \<^item> \<open>Sched_H\<close>: the data of \<^verbatim>\<open>sched.h\<close> and \<^verbatim>\<open>config.h\<close>.  \<open>Sched_Fair\<close>: every function of \<^verbatim>\<open>sched_fair.c\<close>.
    \<open>Fair_Weight\<close>: the error of the scaled run time and the weight tables.  \<open>Fair_Timeline\<close>: the
    tree with its cached first element is a queue ordered by virtual run time (locale
    \<open>timed_queue\<close>, interpretation \<open>tl\<close>).  \<open>Fair_Clock\<close>: \<^verbatim>\<open>update_curr\<close> charges the running entity and
    keeps the order.  \<open>Fair_Pick\<close>: the choice of the next task.  \<open>Fair_Frame\<close>: the parts of the
    state that the functions of the class leave alone (locales \<open>fair_quiet\<close> and \<open>fair_blind\<close>,
    interpretation \<open>out\<close>).  \<open>Fair_Queue\<close>: waking and blocking tasks keep the run queue well formed.
    \<open>Fair_Trace\<close>: the same over any sequence of events, as an inductive step relation.
    \<open>Fair_Yield\<close>: yielding, and the choice that follows it.  \<open>Fair_Preempt\<close>: the preemption of the
    running task by one that wakes up.

  \<^item> \<open>Sched_C\<close>: every function of \<^verbatim>\<open>sched.c\<close>, and \<^verbatim>\<open>switch_to\<close> of \<^verbatim>\<open>arch/x86_64/cpu/switch.S\<close> on registers and
    stacks.  \<open>Sched_Props\<close>: process numbers, and that a task which is switched out and in again
    has its context back.  \<open>Sched_Run\<close>: \<^verbatim>\<open>schedule\<close> as a whole, composed of the lock, the clock, the choice of the
    fair class, what the running task is charged and the context switch.  \<open>Sched_Mm\<close>: the reference counts of address spaces across
    forks and context switches, and what \<^verbatim>\<open>sched_fork\<close> registers.

  \<^item> \<open>Main_C\<close>, \<open>Main_Props\<close>: start-up, system calls, interrupts and ticks of \<^verbatim>\<open>main.c\<close>.
    \<open>Console_C\<close>: the serial console, \<^verbatim>\<open>printk\<close> and \<^verbatim>\<open>panic\<close>.  \<open>Kstring_C\<close>: the string and memory
    functions on a byte-addressed memory.

  \<^item> \<open>Config_H\<close>: the constants of the headers: flags, file modes, the address space, zone types, task
    states and configuration switches.  \<open>Services_C\<close>: the user services of \<^verbatim>\<open>src/user/services\<close>.

  \<^bold>\<open>Bounds.\<close>  No function uses fuel.  The properties of the fair class hold while virtual run
  times stay within \<open>2 ^ 31\<close> of the minimum, which is what the truncated key can compare; beyond
  that the order is lost, which is shown too.  \<^verbatim>\<open>schedule\<close> and \<^verbatim>\<open>context_switch\<close> are followed on the CPU: after
  \<^verbatim>\<open>switch_to\<close> the model goes on in the frame of the next task, which this task left when it was itself
  switched out there, so the local \<^verbatim>\<open>prev\<close> that \<^verbatim>\<open>finish_task_switch\<close> gets is that task.

  \<^bold>\<open>Not modelled.\<close>  In \<^verbatim>\<open>list.h\<close>, \<^verbatim>\<open>list_empty_careful\<close> (no body), \<^verbatim>\<open>list_reverse\<close> (a macro with the
  wrong number of arguments), \<^verbatim>\<open>hlist_add_behind\<close> (ill-typed) and the three iteration macros that are not
  a \<^verbatim>\<open>for\<close> statement; the \<^verbatim>\<open>S_IS*\<close> predicates of \<^verbatim>\<open>types.h\<close> (defined by themselves); the structures of
  \<^verbatim>\<open>sched.h\<close> and \<^verbatim>\<open>mm.h\<close> that no function uses (signals, files, register frames, memory areas) and the
  members of \<^verbatim>\<open>task_struct\<close> with undeclared types and those of \<^verbatim>\<open>rq\<close> that no function uses; the statistics, traces and
  load averages of \<^verbatim>\<open>buddy.c\<close> and \<^verbatim>\<open>sched_fair.c\<close>; barriers and attributes; the greeting of \<^verbatim>\<open>kernel_init\<close>; the assembly files apart from
  \<^verbatim>\<open>switch_to\<close>.  \<^verbatim>\<open>kmalloc\<close> is the stub of \<^verbatim>\<open>main.c\<close>, so the part of \<^verbatim>\<open>alloc_task_struct\<close> and \<^verbatim>\<open>dup_task_struct\<close> that
  follows a successful allocation is modelled but never reached.  The sources do not compile as they stand; where a declaration
  contradicts its use the model follows the use, and the contradiction is recorded as a finding.
\<close>

end
